(* ===== verification/Prelude.thy ===== *)
theory Prelude
  imports Main "HOL-Library.AList" "HOL-Library.Char_ord" "HOL-Library.List_Lexorder"
    "HOL-Library.Word" "HOL-Library.Multiset"
begin

section \<open>Shared types, automation and interfaces\<close>

text \<open>
  This theory holds what every component uses: Go maps as association lists, the result of a
  fallible call, the collections of simplification rules, generic lemmas on lists and maps,
  and the interface of a keyed store.

  A Go map is an association list with distinct keys. The order of the list stands for the
  order in which one \<open>range\<close> loop visits the map, which Go leaves open: a theorem about
  a \<open>range\<close> loop is quantified over all lists, hence over all visiting orders.
\<close>

named_theorems map_laws \<open>lookups in association lists after an operation\<close>
named_theorems inv_laws \<open>operations that keep the invariant of their component\<close>

type_synonym ('k, 'v) gomap = "('k \<times> 'v) list"
type_synonym strmap = "(string, string) gomap"
type_synonym i64 = "64 word"
type_synonym u64 = "64 word"

abbreviation keys_of :: "('k, 'v) gomap \<Rightarrow> 'k list" where
  "keys_of m \<equiv> List.map fst m"

abbreviation gomap_ok :: "('k, 'v) gomap \<Rightarrow> bool" where
  "gomap_ok m \<equiv> distinct (keys_of m)"

text \<open>The outcome of a Go call that can fail: an error value or a run-time panic.\<close>

datatype go_err = Err string | Panic string

type_synonym 'a result = "go_err + 'a"

fun res_bind :: "'a result \<Rightarrow> ('a \<Rightarrow> 'b result) \<Rightarrow> 'b result" where
  "res_bind (Inl e) f = Inl e"
| "res_bind (Inr x) f = f x"

lemma res_bind_Inr_iff: "res_bind r f = Inr y \<longleftrightarrow> (\<exists>x. r = Inr x \<and> f x = Inr y)"
  by (cases r) auto

lemma res_bind_Inl_iff:
  "res_bind r f = Inl e \<longleftrightarrow> r = Inl e \<or> (\<exists>x. r = Inr x \<and> f x = Inl e)"
  by (cases r) auto

subsection \<open>Go maps\<close>

text \<open>
  \<open>m[k] = v\<close> is \<open>AList.update\<close>, \<open>delete(m, k)\<close> is \<open>AList.delete\<close> and
  \<open>v, ok := m[k]\<close> is \<open>map_of\<close>.
\<close>

lemma map_of_update [map_laws]:
  "map_of (AList.update k v m) x = (if x = k then Some v else map_of m x)"
  by (simp add: AList.update_conv)

lemma map_of_delete [map_laws]:
  "map_of (AList.delete k m) x = (if x = k then None else map_of m x)"
  by (simp add: AList.delete_conv)

lemma gomap_ok_update [intro, inv_laws]: "gomap_ok m \<Longrightarrow> gomap_ok (AList.update k v m)"
  by (rule AList.distinct_update)

lemma gomap_ok_delete [intro, inv_laws]: "gomap_ok m \<Longrightarrow> gomap_ok (AList.delete k m)"
  by (rule AList.distinct_delete)

lemma map_of_filter_keys [map_laws]:
  "map_of (List.filter (\<lambda>(k, v). P k) m) x = (if P x then map_of m x else None)"
  by (induction m) auto

lemma gomap_ok_filter [intro, inv_laws]: "gomap_ok m \<Longrightarrow> gomap_ok (List.filter P m)"
  by (rule distinct_map_filter)

lemma map_of_eq_None_iff_keys: "map_of m k = None \<longleftrightarrow> k \<notin> set (keys_of m)"
  by (simp add: map_of_eq_None_iff)

text \<open>\<open>for k, v := range src { if _, ok := dst[k]; !ok { dst[k] = v } }\<close>\<close>

definition add_missing :: "('k, 'v) gomap \<Rightarrow> ('k, 'v) gomap \<Rightarrow> ('k, 'v) gomap" where
  "add_missing src dst =
     fold (\<lambda>(k, v) d. if map_of d k = None then AList.update k v d else d) src dst"

text \<open>\<open>for k, v := range src { dst[k] = v }\<close>\<close>

definition add_all :: "('k, 'v) gomap \<Rightarrow> ('k, 'v) gomap \<Rightarrow> ('k, 'v) gomap" where
  "add_all src dst = fold (\<lambda>(k, v) d. AList.update k v d) src dst"

lemma add_missing_Nil [simp]: "add_missing [] dst = dst"
  by (simp add: add_missing_def)

lemma add_missing_Cons:
  "add_missing ((k, v) # src) dst =
     add_missing src (if map_of dst k = None then AList.update k v dst else dst)"
  by (simp add: add_missing_def)

lemma gomap_ok_add_missing [intro, inv_laws]: "gomap_ok dst \<Longrightarrow> gomap_ok (add_missing src dst)"
proof (induction src arbitrary: dst)
  case (Cons kv src)
  then show ?case by (cases kv) (simp add: add_missing_Cons gomap_ok_update)
qed simp

lemma map_of_add_missing [map_laws]:
  "map_of (add_missing src dst) x =
     (case map_of dst x of Some v \<Rightarrow> Some v | None \<Rightarrow> map_of src x)"
proof (induction src arbitrary: dst)
  case (Cons kv src)
  then show ?case by (cases kv) (auto simp: add_missing_Cons map_laws split: option.splits)
qed (simp split: option.splits)

lemma gomap_ok_add_all [intro, inv_laws]: "gomap_ok dst \<Longrightarrow> gomap_ok (add_all src dst)"
  unfolding add_all_def
proof (induction src arbitrary: dst)
  case (Cons kv src)
  then show ?case by (cases kv) (simp add: gomap_ok_update)
qed simp

lemma map_of_add_all [map_laws]:
  "gomap_ok src \<Longrightarrow> map_of (add_all src dst) x =
     (case map_of src x of Some v \<Rightarrow> Some v | None \<Rightarrow> map_of dst x)"
  unfolding add_all_def
proof (induction src arbitrary: dst)
  case (Cons kv src)
  obtain k v where kv: "kv = (k, v)" by force
  from Cons.prems kv have "map_of src k = None" by (simp add: map_of_eq_None_iff)
  with Cons kv show ?case by (simp add: map_laws split: option.splits)
qed simp

lemma set_update: "set (AList.update k v m) \<subseteq> insert (k, v) (set m)"
  by (induction m) auto

text \<open>Two maps with the same lookups have the same entries, in some order.\<close>

lemma gomap_set_eq:
  assumes "gomap_ok m" "gomap_ok m'" "map_of m = map_of m'"
  shows "set m = set m'"
proof -
  have "(k, v) \<in> set m \<longleftrightarrow> (k, v) \<in> set m'" for k v
    using assms by (metis map_of_eq_Some_iff)
  then show ?thesis by auto
qed

text \<open>Sorting by a key that is injective on the list forgets the order the list came in.\<close>

lemma sort_key_set_eq:
  fixes f :: "'a \<Rightarrow> 'b::linorder"
  assumes "distinct (List.map f xs)" "distinct (List.map f ys)" "set xs = set ys"
  shows "sort_key f xs = sort_key f ys"
proof -
  have inj: "inj_on f (set (sort_key f xs) \<union> set (sort_key f ys))"
    using assms by (simp add: distinct_map)
  have sets: "set (List.map f xs) = set (List.map f ys)" using assms(3) by simp
  have "List.map f (sort_key f xs) = List.map f (sort_key f ys)"
    by (rule sorted_distinct_set_unique) (use assms sets in \<open>simp_all add: distinct_map\<close>)
  then show ?thesis using inj by (rule map_inj_on)
qed

lemma map_of_rev_distinct: "gomap_ok m \<Longrightarrow> map_of (rev m) = map_of m"
  using map_of_inject_set [of "rev m" m] by (simp add: rev_map [symmetric])

subsection \<open>The last elements of a list\<close>

definition lastn :: "nat \<Rightarrow> 'a list \<Rightarrow> 'a list" where
  "lastn n xs = drop (length xs - n) xs"

lemma length_lastn [simp]: "length (lastn n xs) = min n (length xs)"
  by (simp add: lastn_def)

lemma lastn_id: "length xs \<le> n \<Longrightarrow> lastn n xs = xs"
  by (simp add: lastn_def)

lemma lastn_snoc_lastn: "lastn n (lastn n xs @ ys) = lastn n (xs @ ys)"
  by (cases "length xs \<le> n") (auto simp: lastn_def add.commute)

lemma lastn_snoc: "0 < n \<Longrightarrow> length xs \<le> n \<Longrightarrow>
    lastn n (xs @ [x]) = (if length xs = n then tl xs @ [x] else xs @ [x])"
  by (cases xs) (auto simp: lastn_def)

subsection \<open>Binary search\<close>

text \<open>
  \<open>sort.Search\<close>: the first index between two bounds at which a predicate holds, if it is false up
  to some index and true from there on.
\<close>

function search_between :: "(nat \<Rightarrow> bool) \<Rightarrow> nat \<Rightarrow> nat \<Rightarrow> nat" where
  "search_between f i j =
     (if i < j then
        let h = (i + j) div 2
        in if \<not> f h then search_between f (h + 1) j else search_between f i h
      else i)"
  by pat_completeness auto
termination by (relation "measure (\<lambda>(f, i, j). j - i)") auto

declare search_between.simps [simp del]

lemma search_between_first:
  assumes "\<And>a b. a \<le> b \<Longrightarrow> b < n \<Longrightarrow> f a \<Longrightarrow> f b" "i \<le> j" "j \<le> n" "\<forall>k. k < i \<longrightarrow> \<not> f k" "\<forall>k. j \<le> k \<and> k < n \<longrightarrow> f k"
  shows "search_between f i j \<le> n \<and> (\<forall>k. k < search_between f i j \<longrightarrow> \<not> f k)
    \<and> (\<forall>k. search_between f i j \<le> k \<and> k < n \<longrightarrow> f k)"
  using assms
proof (induction f i j rule: search_between.induct)
  case (1 f i j)
  note mono = 1(3) and prems = 1(4-7)
  show ?case
  proof (cases "i < j")
    case False
    then have "search_between f i j = i" by (subst search_between.simps) simp
    with False prems show ?thesis by auto
  next
    case True
    let ?h = "(i + j) div 2"
    have h: "i \<le> ?h" "?h < j" using True by simp_all
    show ?thesis
    proof (cases "f ?h")
      case fh: True
      have up: "\<forall>k. ?h \<le> k \<and> k < n \<longrightarrow> f k" using mono fh by blast
      show ?thesis
        using 1(2) [OF True refl _ mono] fh h prems up True by (simp add: search_between.simps [of f i j] Let_def)
    next
      case fh: False
      have below: "\<forall>k. k < ?h + 1 \<longrightarrow> \<not> f k"
      proof (intro allI impI notI)
        fix k assume "k < ?h + 1" "f k"
        then have "k \<le> ?h" "?h < n" using h prems by auto
        with mono \<open>f k\<close> fh show False by blast
      qed
      show ?thesis
        using 1(1) [OF True refl fh mono] h prems below fh True by (simp add: search_between.simps [of f i j] Let_def)
    qed
  qed
qed

subsection \<open>Words\<close>

lemma sint_word_of_int: "- (2 ^ 63) \<le> i \<Longrightarrow> i < 2 ^ 63 \<Longrightarrow> sint (word_of_int i :: i64) = i"
  by (simp add: sint_sbintrunc' signed_take_bit_int_eq_self)

subsection \<open>Interface: a keyed store\<close>

text \<open>
  Tag lists and field lists are two implementations of one contract: look a key up, write it,
  remove it. A store may keep a normal form of the value written (fields convert their values).
  Clients that write many keys or move a value to another key are verified once, against the
  contract.
\<close>

locale keyed_store =
  fixes get :: "'s \<Rightarrow> 'k \<Rightarrow> 'v option"
    and put :: "'k \<Rightarrow> 'v \<Rightarrow> 's \<Rightarrow> 's"
    and del :: "'k \<Rightarrow> 's \<Rightarrow> 's"
    and norm :: "'v \<Rightarrow> 'v"
    and ok :: "'s \<Rightarrow> bool"
  assumes get_put: "ok s \<Longrightarrow> get (put k v s) x = (if x = k then Some (norm v) else get s x)"
    and get_del: "ok s \<Longrightarrow> get (del k s) x = (if x = k then None else get s x)"
    and ok_put: "ok s \<Longrightarrow> ok (put k v s)"
    and ok_del: "ok s \<Longrightarrow> ok (del k s)"
    and get_norm: "ok s \<Longrightarrow> get s k = Some v \<Longrightarrow> norm v = v"
begin

lemma ok_fold_put: "ok s \<Longrightarrow> ok (fold (\<lambda>(k, v). put k v) kvs s)"
  by (induction kvs arbitrary: s) (auto simp: ok_put)

text \<open>Writing list entries one after the other: the last entry of a key wins.\<close>

lemma get_fold_put:
  assumes "ok s"
  shows "get (fold (\<lambda>(k, v). put k v) kvs s) x =
    (case map_of (rev kvs) x of Some v \<Rightarrow> Some (norm v) | None \<Rightarrow> get s x)"
  using assms
proof (induction kvs arbitrary: s)
  case (Cons kv kvs)
  obtain k v where kv: "kv = (k, v)" by force
  with Cons show ?case
    by (auto simp: get_put ok_put map_add_def split: option.splits)
qed simp

text \<open>Writing the entries of a map: the order of the entries does not matter.\<close>

lemma get_fold_put_map:
  assumes "ok s" "gomap_ok kvs"
  shows "get (fold (\<lambda>(k, v). put k v) kvs s) x =
    (case map_of kvs x of Some v \<Rightarrow> Some (norm v) | None \<Rightarrow> get s x)"
proof -
  have "map_of (rev kvs) = map_of kvs" using assms(2) by (rule map_of_rev_distinct)
  then show ?thesis using get_fold_put [OF assms(1), of kvs x] by simp
qed

definition move :: "'k \<Rightarrow> 'k \<Rightarrow> 's \<Rightarrow> 's" where
  "move k k' s = (case get s k of Some v \<Rightarrow> put k' v (del k s) | None \<Rightarrow> s)"

lemma ok_move: "ok s \<Longrightarrow> ok (move k k' s)"
  by (simp add: move_def ok_put ok_del split: option.splits)

lemma get_move:
  "ok s \<Longrightarrow> get s k = Some v \<Longrightarrow>
   get (move k k' s) x = (if x = k' then Some v else if x = k then None else get s x)"
  by (simp add: move_def get_put get_del ok_del get_norm)

lemma move_absent: "get s k = None \<Longrightarrow> move k k' s = s"
  by (simp add: move_def)

text \<open>Moving a value to a free key and back restores every lookup.\<close>

lemma move_back:
  assumes "ok s" "get s k = Some v" "get s k' = None"
  shows "get (move k' k (move k k' s)) x = get s x"
proof -
  have 1: "get (move k k' s) y = (if y = k' then Some v else if y = k then None else get s y)" for y
    using assms get_move by blast
  have "get (move k' k (move k k' s)) x =
      (if x = k then Some v else if x = k' then None else get (move k k' s) x)"
    using 1 [of k'] ok_move [OF assms(1)] by (intro get_move) auto
  then show ?thesis using assms 1 by auto
qed

end

subsection \<open>Interface: visiting every key\<close>

text \<open>
  Many operations go through a snapshot of a map and handle each key on its own: what is read back
  at a key afterwards depends on that key only, so the order of the visit does not matter. What is
  read at a key is \<open>look\<close>; \<open>eff\<close> is what one visit makes of it.
\<close>

locale key_visitor =
  fixes visit :: "'k \<Rightarrow> 'v \<Rightarrow> 's \<Rightarrow> 's"
    and look :: "'s \<Rightarrow> 'k \<Rightarrow> 'o"
    and eff :: "'k \<Rightarrow> 'v \<Rightarrow> 'o \<Rightarrow> 'o"
    and ok :: "'s \<Rightarrow> bool"
  assumes look_visit: "ok s \<Longrightarrow> look (visit k v s) x = (if x = k then eff k v (look s k) else look s x)"
    and ok_visit: "ok s \<Longrightarrow> ok (visit k v s)"
begin

lemma ok_visits: "ok s \<Longrightarrow> ok (fold (\<lambda>(k, v). visit k v) kvs s)"
  by (induction kvs arbitrary: s) (auto simp: ok_visit)

lemma look_visits:
  "ok s \<Longrightarrow> gomap_ok kvs \<Longrightarrow>
   look (fold (\<lambda>(k, v). visit k v) kvs s) x = (case map_of kvs x of None \<Rightarrow> look s x | Some v \<Rightarrow> eff x v (look s x))"
proof (induction kvs arbitrary: s)
  case (Cons kv kvs)
  obtain k v where kv: "kv = (k, v)" by force
  have notin: "map_of kvs k = None" using Cons.prems(2) by (simp add: kv map_of_eq_None_iff_keys)
  have "look (fold (\<lambda>(k, v). visit k v) kvs (visit k v s)) x =
      (case map_of kvs x of None \<Rightarrow> look (visit k v s) x | Some w \<Rightarrow> eff x w (look (visit k v s) x))"
    using Cons.prems by (intro Cons.IH) (simp_all add: ok_visit)
  with Cons.prems notin show ?case by (simp add: kv look_visit split: option.split)
qed simp

end

end
