(* ===== verification/GoFloat.thy ===== *)
theory GoFloat
  imports Prelude "HOL-Library.Log_Nat"
begin

section \<open>Go's float64\<close>

text \<open>
  A \<open>float64\<close> is its IEEE 754 binary64 bit pattern (\<open>math.Float64bits\<close>). Comparison reads
  the pattern as sign and magnitude; arithmetic computes the exact rational result and rounds
  it once, to nearest even. Every operation is executable. Not-a-number results are one quiet
  NaN: the source never looks at a payload.
\<close>

datatype f64 = F64 (bits: "64 word")

definition f_neg :: "f64 \<Rightarrow> bool" where
  "f_neg x \<longleftrightarrow> 2 ^ 63 \<le> uint (bits x)"

definition f_mag :: "f64 \<Rightarrow> int" where
  "f_mag x = uint (bits x) mod 2 ^ 63"

definition mk_f64 :: "bool \<Rightarrow> int \<Rightarrow> f64" where
  "mk_f64 s m = F64 (word_of_int ((if s then 2 ^ 63 else 0) + m))"

definition inf_mag :: int where
  "inf_mag = 2047 * 2 ^ 52"

definition f_nan :: f64 where
  "f_nan = mk_f64 False (inf_mag + 2 ^ 51)"

definition f_inf :: "bool \<Rightarrow> f64" where
  "f_inf s = mk_f64 s inf_mag"

definition f_zero :: f64 where
  "f_zero = mk_f64 False 0"

definition is_nan :: "f64 \<Rightarrow> bool" where
  "is_nan x \<longleftrightarrow> inf_mag < f_mag x"

definition is_inf :: "f64 \<Rightarrow> bool" where
  "is_inf x \<longleftrightarrow> f_mag x = inf_mag"

definition f_mant :: "f64 \<Rightarrow> int" where
  "f_mant x = (if f_mag x < 2 ^ 52 then f_mag x else f_mag x mod 2 ^ 52 + 2 ^ 52)"

definition f_exp :: "f64 \<Rightarrow> int" where
  "f_exp x = (if f_mag x < 2 ^ 52 then - 1074 else f_mag x div 2 ^ 52 - 1075)"

lemma f_mag_bounds: "0 \<le> f_mag x \<and> f_mag x < 2 ^ 63"
  by (simp add: f_mag_def)

lemma uint_bits_mk:
  assumes "0 \<le> m" "m < 2 ^ 63"
  shows "uint (bits (mk_f64 s m)) = (if s then 2 ^ 63 else 0) + m"
proof -
  have "((if s then 2 ^ 63 else 0) + m) mod 2 ^ 64 = (if s then 2 ^ 63 else 0) + m"
    using assms by (intro mod_pos_pos_trivial) auto
  then show ?thesis unfolding mk_f64_def by (simp only: f64.sel uint_word_of_int len_num1 len_bit0) simp
qed

lemma f_neg_mk [simp]: "0 \<le> m \<Longrightarrow> m < 2 ^ 63 \<Longrightarrow> f_neg (mk_f64 s m) = s"
  by (simp add: f_neg_def uint_bits_mk)

lemma f_mag_mk [simp]: "0 \<le> m \<Longrightarrow> m < 2 ^ 63 \<Longrightarrow> f_mag (mk_f64 s m) = m"
  by (simp add: f_mag_def uint_bits_mk)

lemma mk_f64_sign_mag: "mk_f64 (f_neg x) (f_mag x) = x"
proof -
  have "uint (bits x) < 2 ^ 64" using uint_lt2p [of "bits x"] by simp
  then have "uint (bits x) mod 2 ^ 63 = (if f_neg x then uint (bits x) - 2 ^ 63 else uint (bits x))"
    using mod_pos_pos_trivial [of "uint (bits x) - 2 ^ 63" "2 ^ 63"]
      minus_mod_self2 [of "uint (bits x)" "2 ^ 63"] by (auto simp: f_neg_def)
  then have "(if f_neg x then 2 ^ 63 else 0) + f_mag x = uint (bits x)"
    by (simp add: f_mag_def split: if_splits)
  then have "mk_f64 (f_neg x) (f_mag x) = F64 (word_of_int (uint (bits x)))"
    by (simp add: mk_f64_def)
  then show ?thesis by (simp add: word_of_int_uint)
qed

subsection \<open>Comparison\<close>

definition f_key :: "f64 \<Rightarrow> int" where
  "f_key x = (if f_neg x then - f_mag x else f_mag x)"

definition f_lt :: "f64 \<Rightarrow> f64 \<Rightarrow> bool" where
  "f_lt x y \<longleftrightarrow> \<not> is_nan x \<and> \<not> is_nan y \<and> f_key x < f_key y"

definition f_le :: "f64 \<Rightarrow> f64 \<Rightarrow> bool" where
  "f_le x y \<longleftrightarrow> \<not> is_nan x \<and> \<not> is_nan y \<and> f_key x \<le> f_key y"

definition f_eq :: "f64 \<Rightarrow> f64 \<Rightarrow> bool" where
  "f_eq x y \<longleftrightarrow> \<not> is_nan x \<and> \<not> is_nan y \<and> f_key x = f_key y"

lemma f_lt_irrefl [simp]: "\<not> f_lt x x"
  by (simp add: f_lt_def)

lemma f_le_refl: "\<not> is_nan x \<Longrightarrow> f_le x x"
  by (simp add: f_le_def)

lemma f_lt_trans: "f_lt x y \<Longrightarrow> f_lt y z \<Longrightarrow> f_lt x z"
  by (simp add: f_lt_def)

lemma f_le_trans: "f_le x y \<Longrightarrow> f_le y z \<Longrightarrow> f_le x z"
  by (simp add: f_le_def)

lemma f_lt_imp_le: "f_lt x y \<Longrightarrow> f_le x y"
  by (simp add: f_lt_def f_le_def)

lemma f_not_lt_le: "\<not> is_nan x \<Longrightarrow> \<not> is_nan y \<Longrightarrow> \<not> f_lt x y \<longleftrightarrow> f_le y x"
  by (auto simp: f_lt_def f_le_def)

lemma f_lt_not_nan: "f_lt x y \<Longrightarrow> \<not> is_nan x \<and> \<not> is_nan y"
  by (simp add: f_lt_def)

lemma f_lt_nan [simp]: "is_nan x \<Longrightarrow> \<not> f_lt x y" "is_nan y \<Longrightarrow> \<not> f_lt x y"
  by (simp_all add: f_lt_def)

lemma f_le_nan [simp]: "is_nan x \<Longrightarrow> \<not> f_le x y" "is_nan y \<Longrightarrow> \<not> f_le x y"
  by (simp_all add: f_le_def)

subsection \<open>Rounding\<close>

text \<open>\<open>p / q\<close> to the nearest integer, ties to even, for \<open>0 < q\<close>.\<close>

definition round_half_even :: "int \<Rightarrow> int \<Rightarrow> int" where
  "round_half_even p q =
     (let d = p div q; r = p mod q
      in if 2 * r < q then d else if q < 2 * r then d + 1 else if even d then d else d + 1)"

text \<open>\<open>p / q\<close> divided by \<open>2 ^ e\<close>, as a fraction.\<close>

definition scale2 :: "int \<Rightarrow> int \<Rightarrow> int \<Rightarrow> int \<times> int" where
  "scale2 e p q = (if 0 \<le> e then (p, q * 2 ^ nat e) else (p * 2 ^ nat (- e), q))"

text \<open>
  The magnitude bits of the float nearest to \<open>p / q\<close>, for \<open>0 \<le> p\<close> and \<open>0 < q\<close>. The exponent is
  the one that gives a 53-bit significand, or the smallest one; the carry out of rounding
  moves into the exponent by itself, and a value past the largest finite float is infinite.
\<close>

definition round_mag :: "int \<Rightarrow> int \<Rightarrow> int" where
  "round_mag p q =
     (if p = 0 then 0
      else let e0 = bitlen p - bitlen q - 53;
               e1 = (case scale2 e0 p q of (n, d) \<Rightarrow> if 2 ^ 53 * d \<le> n then e0 + 1 else e0);
               e = max (- 1074) e1;
               r = (case scale2 e p q of (n, d) \<Rightarrow> round_half_even n d)
           in min inf_mag ((e + 1074) * 2 ^ 52 + r))"

text \<open>The exact rational \<open>v * 2 ^ e\<close> rounded, for \<open>v \<noteq> 0\<close>.\<close>

definition round_dyadic :: "int \<Rightarrow> int \<Rightarrow> f64" where
  "round_dyadic v e =
     mk_f64 (v < 0) (if 0 \<le> e then round_mag (\<bar>v\<bar> * 2 ^ nat e) 1 else round_mag \<bar>v\<bar> (2 ^ nat (- e)))"

subsection \<open>Arithmetic\<close>

definition f_sig :: "f64 \<Rightarrow> int" where
  "f_sig x = (if f_neg x then - f_mant x else f_mant x)"

definition f_minus :: "f64 \<Rightarrow> f64" where
  "f_minus x = mk_f64 (\<not> f_neg x) (f_mag x)"

definition f_add :: "f64 \<Rightarrow> f64 \<Rightarrow> f64" where
  "f_add x y =
     (if is_nan x \<or> is_nan y then f_nan
      else if is_inf x then (if is_inf y \<and> f_neg x \<noteq> f_neg y then f_nan else x)
      else if is_inf y then y
      else let e = min (f_exp x) (f_exp y);
               v = f_sig x * 2 ^ nat (f_exp x - e) + f_sig y * 2 ^ nat (f_exp y - e)
           in if v = 0 then mk_f64 (f_neg x \<and> f_neg y) 0 else round_dyadic v e)"

definition f_sub :: "f64 \<Rightarrow> f64 \<Rightarrow> f64" where
  "f_sub x y = f_add x (f_minus y)"

definition f_mul :: "f64 \<Rightarrow> f64 \<Rightarrow> f64" where
  "f_mul x y =
     (let s = (f_neg x \<noteq> f_neg y)
      in if is_nan x \<or> is_nan y then f_nan
         else if is_inf x \<or> is_inf y then (if f_mag x = 0 \<or> f_mag y = 0 then f_nan else f_inf s)
         else if f_mag x = 0 \<or> f_mag y = 0 then mk_f64 s 0
         else round_dyadic (f_sig x * f_sig y) (f_exp x + f_exp y))"

definition f_div :: "f64 \<Rightarrow> f64 \<Rightarrow> f64" where
  "f_div x y =
     (let s = (f_neg x \<noteq> f_neg y)
      in if is_nan x \<or> is_nan y then f_nan
         else if is_inf x then (if is_inf y then f_nan else f_inf s)
         else if is_inf y then mk_f64 s 0
         else if f_mag y = 0 then (if f_mag x = 0 then f_nan else f_inf s)
         else if f_mag x = 0 then mk_f64 s 0
         else mk_f64 s
           (case scale2 (f_exp y - f_exp x) (f_mant x) (f_mant y) of (p, q) \<Rightarrow> round_mag p q))"

function isqrt :: "int \<Rightarrow> int" where
  "isqrt n = (if n \<le> 0 then 0
     else let r = 2 * isqrt (n div 4) in if (r + 1) * (r + 1) \<le> n then r + 1 else r)"
  by pat_completeness auto
termination by (relation "measure nat") auto

declare isqrt.simps [simp del]

text \<open>
  \<open>math.Sqrt\<close>: the integer root of the significand shifted left by 110 or 111 bits, with one
  sticky bit below it, has more than 54 significant bits, so one rounding is enough.
\<close>

definition f_sqrt :: "f64 \<Rightarrow> f64" where
  "f_sqrt x =
     (if is_nan x then f_nan
      else if f_mag x = 0 then x
      else if f_neg x then f_nan
      else if is_inf x then x
      else let sh = (if even (f_exp x) then 110 else 111);
               n = f_mant x * 2 ^ sh;
               e = (f_exp x - int sh) div 2;
               r = isqrt n
           in round_dyadic (2 * r + (if r * r = n then 0 else 1)) (e - 1))"

subsection \<open>Conversions\<close>

definition f64_of_int :: "int \<Rightarrow> f64" where
  "f64_of_int i = mk_f64 (i < 0) (round_mag \<bar>i\<bar> 1)"

text \<open>The integer part of a finite float.\<close>

definition f_trunc :: "f64 \<Rightarrow> int" where
  "f_trunc x =
     (let m = (if 0 \<le> f_exp x then f_mant x * 2 ^ nat (f_exp x) else f_mant x div 2 ^ nat (- f_exp x))
      in if f_neg x then - m else m)"

definition is_finite :: "f64 \<Rightarrow> bool" where
  "is_finite x \<longleftrightarrow> f_mag x < inf_mag"

text \<open>
  \<open>int64(x)\<close> and \<open>uint64(x)\<close> drop the fraction. For NaN and for values outside the integer
  type the language leaves the result to the implementation: it is the parameter \<open>impl\<close>.
\<close>

definition f64_to_i64 :: "(f64 \<Rightarrow> i64) \<Rightarrow> f64 \<Rightarrow> i64" where
  "f64_to_i64 impl x =
     (if is_finite x \<and> - (2 ^ 63) \<le> f_trunc x \<and> f_trunc x < 2 ^ 63
      then word_of_int (f_trunc x) else impl x)"

definition f64_to_u64 :: "(f64 \<Rightarrow> u64) \<Rightarrow> f64 \<Rightarrow> u64" where
  "f64_to_u64 impl x =
     (if is_finite x \<and> 0 \<le> f_trunc x \<and> f_trunc x < 2 ^ 64
      then word_of_int (f_trunc x) else impl x)"


subsection \<open>Integers below 2 to the 53 are exact\<close>

lemma round_half_even_exact: "0 < d \<Longrightarrow> round_half_even (n * d) d = n"
  by (simp add: round_half_even_def)

lemma round_half_even_cancel:
  assumes "0 < c" shows "round_half_even (n * c) (d * c) = round_half_even n d"
proof -
  have "2 * (n mod d * c) < d * c \<longleftrightarrow> 2 * (n mod d) < d"
    "d * c < 2 * (n mod d * c) \<longleftrightarrow> d < 2 * (n mod d)"
    using assms mult_less_cancel_right_pos [of c "2 * (n mod d)" d]
      mult_less_cancel_right_pos [of c d "2 * (n mod d)"] by (simp_all add: mult.assoc)
  moreover have "n * c div (d * c) = n div d" "n * c mod (d * c) = n mod d * c"
    using assms by (simp_all add: mult_mod_left)
  ultimately show ?thesis by (simp only: round_half_even_def Let_def)
qed

lemma scale2_cancel: "scale2 e (p * c) (q * c) = (fst (scale2 e p q) * c, snd (scale2 e p q) * c)"
  by (simp add: scale2_def mult.commute mult.left_commute)

lemma round_mag_cancel:
  assumes "0 < p" "0 < q"
  shows "round_mag (p * 2 ^ j) (q * 2 ^ j) = round_mag p q"
proof -
  have "bitlen (p * 2 ^ j) - bitlen (q * 2 ^ j) = bitlen p - bitlen q"
    using assms by (simp add: bitlen_pow2)
  moreover have "2 ^ 53 * (d * 2 ^ j) \<le> n * 2 ^ j \<longleftrightarrow> 2 ^ 53 * d \<le> n" for n d :: int
    using mult_le_cancel_right_pos [of "2 ^ j" "2 ^ 53 * d" n] by (simp add: mult.assoc)
  ultimately show ?thesis
    using assms by (simp only: round_mag_def scale2_cancel split_def Let_def fst_conv snd_conv
        round_half_even_cancel zero_less_power zero_less_numeral) simp
qed

lemma small_bitlen:
  assumes "0 < i" "i < 2 ^ 53"
  obtains k where "bitlen i = int k" "1 \<le> k" "k \<le> 53" "2 ^ (k - 1) \<le> i" "i < 2 ^ k"
proof
  have "0 < bitlen i" using assms bitlen_nonneg [of i] bitlen_eq_zero_iff [of i] by linarith
  then show "bitlen i = int (nat (bitlen i))" "1 \<le> nat (bitlen i)" by auto
  show "nat (bitlen i) \<le> 53" using assms bitlen_le_iff_power [of i 53] by simp
  show "2 ^ (nat (bitlen i) - 1) \<le> i" "i < 2 ^ nat (bitlen i)"
    using assms bitlen_bounds [of i] \<open>0 < bitlen i\<close> by (simp_all add: nat_diff_distrib)
qed

lemma round_mag_small:
  assumes "0 < i" "bitlen i = int k" "k \<le> 53" "i < 2 ^ k" "1 \<le> k" "2 ^ (k - 1) \<le> i"
  shows "round_mag i 1 = (int k + 1021) * 2 ^ 52 + i * 2 ^ (53 - k)"
proof -
  have b1: "bitlen 1 = 1" by (simp add: bitlen_def floorlog_def)
  have pk: "(2::int) ^ (54 - k) * 2 ^ (k - 1) = 2 ^ 53"
    using assms(3,5) by (simp flip: power_add)
  have "2 ^ 53 * 1 \<le> i * 2 ^ (54 - k)"
    using assms(6) pk by (metis mult.commute mult_le_cancel_left_pos mult.right_neutral
        zero_less_numeral zero_less_power)
  moreover have n54: "nat (- (int k - 1 - 53)) = 54 - k" using assms(3) by simp
  ultimately have e1: "(case scale2 (int k - 1 - 53) i 1 of
      (n, d) \<Rightarrow> if 2 ^ 53 * d \<le> n then int k - 1 - 53 + 1 else int k - 1 - 53) = int k - 53"
    using assms(3) by (simp add: scale2_def)
  have n53: "nat (- (int k - 53)) = 53 - k" using assms(3) by simp
  have r: "(case scale2 (int k - 53) i 1 of (n, d) \<Rightarrow> round_half_even n d) = i * 2 ^ (53 - k)"
  proof (cases "k = 53")
    case True
    then show ?thesis using round_half_even_exact [of 1 i] by (simp add: scale2_def)
  next
    case False
    then show ?thesis
      using assms(3) n53 round_half_even_exact [of 1 "i * 2 ^ (53 - k)"] by (simp add: scale2_def)
  qed
  have "i * 2 ^ (53 - k) < 2 ^ k * 2 ^ (53 - k)" using assms(4) by simp
  also have "(2::int) ^ k * 2 ^ (53 - k) = 2 ^ 53" using assms(3) by (simp flip: power_add)
  finally have "(int k + 1021) * 2 ^ 52 + i * 2 ^ (53 - k) \<le> inf_mag"
    using assms(3) by (simp add: inf_mag_def)
  moreover have "max (- 1074) (int k - 53) = int k - 53" by simp
  ultimately show ?thesis
    unfolding round_mag_def Let_def assms(2) b1 e1 using assms(1) r by (simp add: algebra_simps)
qed

text \<open>The significand, exponent and sign of an integer converted exactly.\<close>

lemma f64_of_int_parts:
  assumes "\<bar>i\<bar> < 2 ^ 53"
  shows "f_exp (f64_of_int i) \<le> 0" "f_sig (f64_of_int i) = i * 2 ^ nat (- f_exp (f64_of_int i))"
    "is_finite (f64_of_int i)" "f_neg (f64_of_int i) = (i < 0)"
    "f_mant (f64_of_int i) = \<bar>i\<bar> * 2 ^ nat (- f_exp (f64_of_int i))"
proof -
  have all: "f_exp (f64_of_int i) \<le> 0 \<and> f_mant (f64_of_int i) = \<bar>i\<bar> * 2 ^ nat (- f_exp (f64_of_int i))
      \<and> is_finite (f64_of_int i) \<and> f_neg (f64_of_int i) = (i < 0)"
  proof (cases "i = 0")
    case True
    then show ?thesis
      by (simp add: f64_of_int_def round_mag_def f_exp_def f_mant_def is_finite_def inf_mag_def)
  next
    case False
    then have "0 < \<bar>i\<bar>" by simp
    then obtain k where k: "bitlen \<bar>i\<bar> = int k" "1 \<le> k" "k \<le> 53" "2 ^ (k - 1) \<le> \<bar>i\<bar>" "\<bar>i\<bar> < 2 ^ k"
      using small_bitlen assms by blast
    define q where "q = \<bar>i\<bar> * 2 ^ (53 - k)"
    have rm: "round_mag \<bar>i\<bar> 1 = (int k + 1021) * 2 ^ 52 + q"
      unfolding q_def using \<open>0 < \<bar>i\<bar>\<close> k round_mag_small by blast
    have "(2::int) ^ (k - 1) * 2 ^ (53 - k) = 2 ^ 52" "(2::int) ^ k * 2 ^ (53 - k) = 2 ^ 53"
      using k by (simp_all flip: power_add)
    then have q: "2 ^ 52 \<le> q" "q < 2 ^ 53"
      unfolding q_def using k(4,5) mult_right_mono [of "2 ^ (k - 1)" "\<bar>i\<bar>" "2 ^ (53 - k)"]
        mult_strict_right_mono [of "\<bar>i\<bar>" "2 ^ k" "2 ^ (53 - k)"] by simp_all
    have mag: "f_mag (f64_of_int i) = (int k + 1021) * 2 ^ 52 + q"
      "f_neg (f64_of_int i) = (i < 0)"
      using q k(3) rm by (simp_all add: f64_of_int_def)
    have dm: "((int k + 1021) * 2 ^ 52 + q) div 2 ^ 52 = int k + 1022"
      "((int k + 1021) * 2 ^ 52 + q) mod 2 ^ 52 = q - 2 ^ 52"
    proof -
      have eq: "(int k + 1021) * 2 ^ 52 + q = (q - 2 ^ 52) + (int k + 1022) * 2 ^ 52"
        by (simp add: algebra_simps)
      show "((int k + 1021) * 2 ^ 52 + q) div 2 ^ 52 = int k + 1022"
        unfolding eq using q by simp
      show "((int k + 1021) * 2 ^ 52 + q) mod 2 ^ 52 = q - 2 ^ 52"
        unfolding eq using q by (simp only: mod_mult_self1) (rule mod_pos_pos_trivial; simp)
    qed
    have big: "\<not> (int k + 1021) * 2 ^ 52 + q < 2 ^ 52" using q k by simp
    have ex: "f_exp (f64_of_int i) = int k - 53" "f_mant (f64_of_int i) = q"
      unfolding f_exp_def f_mant_def mag(1) using big dm by simp_all
    moreover have "nat (- (int k - 53)) = 53 - k" using k by simp
    moreover have "is_finite (f64_of_int i)"
      unfolding is_finite_def mag(1) using q k by (simp add: inf_mag_def)
    ultimately show ?thesis using mag(2) k(3) by (simp add: q_def)
  qed
  then show "f_exp (f64_of_int i) \<le> 0" "is_finite (f64_of_int i)" "f_neg (f64_of_int i) = (i < 0)"
    "f_mant (f64_of_int i) = \<bar>i\<bar> * 2 ^ nat (- f_exp (f64_of_int i))" by auto
  with all show "f_sig (f64_of_int i) = i * 2 ^ nat (- f_exp (f64_of_int i))"
    by (simp add: f_sig_def)
qed

lemma f64_of_int_finite:
  assumes "\<bar>i\<bar> < 2 ^ 53" shows "\<not> is_nan (f64_of_int i)" "\<not> is_inf (f64_of_int i)"
  using f64_of_int_parts(3) [OF assms] by (simp_all add: is_finite_def is_nan_def is_inf_def)

lemma f_trunc_of_int:
  assumes "\<bar>i\<bar> < 2 ^ 53" shows "f_trunc (f64_of_int i) = i"
proof -
  note p = f64_of_int_parts [OF assms]
  have "(if 0 \<le> f_exp (f64_of_int i) then f_mant (f64_of_int i) * 2 ^ nat (f_exp (f64_of_int i))
    else f_mant (f64_of_int i) div 2 ^ nat (- f_exp (f64_of_int i))) = \<bar>i\<bar>"
    using p(1) unfolding p(5) by simp
  then show ?thesis by (simp only: f_trunc_def Let_def p(4)) simp
qed

lemma f64_of_int_inj:
  "\<bar>a\<bar> < 2 ^ 53 \<Longrightarrow> \<bar>b\<bar> < 2 ^ 53 \<Longrightarrow> f64_of_int a = f64_of_int b \<Longrightarrow> a = b"
  by (metis f_trunc_of_int)

lemma round_dyadic_of_int:
  assumes "e \<le> 0" "v \<noteq> 0"
  shows "round_dyadic (v * 2 ^ nat (- e)) e = f64_of_int v"
proof -
  have "v * 2 ^ nat (- e) < 0 \<longleftrightarrow> v < 0" by (simp add: mult_less_0_iff)
  moreover have "round_mag (\<bar>v\<bar> * 2 ^ nat (- e)) (2 ^ nat (- e)) = round_mag \<bar>v\<bar> 1"
    using round_mag_cancel [of "\<bar>v\<bar>" 1 "nat (- e)"] assms by simp
  ultimately show ?thesis using assms by (auto simp: round_dyadic_def f64_of_int_def abs_mult)
qed

lemma f_add_of_int:
  assumes "\<bar>a\<bar> < 2 ^ 53" "\<bar>b\<bar> < 2 ^ 53"
  shows "f_add (f64_of_int a) (f64_of_int b) = f64_of_int (a + b)"
proof -
  note pa = f64_of_int_parts [OF assms(1)] and pb = f64_of_int_parts [OF assms(2)]
  define ea eb e where "ea = f_exp (f64_of_int a)" and "eb = f_exp (f64_of_int b)" and "e = min ea eb"
  have le: "ea \<le> 0" "eb \<le> 0" "e \<le> 0" using pa(1) pb(1) by (auto simp: ea_def eb_def e_def)
  have "nat (- ea) + nat (ea - e) = nat (- e)" "nat (- eb) + nat (eb - e) = nat (- e)"
    using le by (auto simp: e_def)
  then have "(2::int) ^ nat (- ea) * 2 ^ nat (ea - e) = 2 ^ nat (- e)"
    "(2::int) ^ nat (- eb) * 2 ^ nat (eb - e) = 2 ^ nat (- e)"
    by (simp_all flip: power_add)
  then have v: "f_sig (f64_of_int a) * 2 ^ nat (ea - e) + f_sig (f64_of_int b) * 2 ^ nat (eb - e)
      = (a + b) * 2 ^ nat (- e)"
    using pa(2) pb(2) by (simp add: ea_def eb_def mult.assoc distrib_right)
  have eq: "f_add (f64_of_int a) (f64_of_int b) =
      (let v = (a + b) * 2 ^ nat (- e)
       in if v = 0 then mk_f64 (f_neg (f64_of_int a) \<and> f_neg (f64_of_int b)) 0 else round_dyadic v e)"
    unfolding v [symmetric] using assms
    by (simp add: f_add_def f64_of_int_finite Let_def ea_def eb_def e_def)
  show ?thesis
  proof (cases "a + b = 0")
    case True
    then have "\<not> (a < 0 \<and> b < 0)" by linarith
    moreover have "f64_of_int 0 = mk_f64 False 0" by (simp add: f64_of_int_def round_mag_def)
    ultimately show ?thesis unfolding eq pa(4) pb(4) True by (simp only: Let_def mult_zero_left if_True simp_thms)
  next
    case False
    then show ?thesis unfolding eq using round_dyadic_of_int [OF le(3) False] by (simp add: Let_def)
  qed
qed

subsection \<open>Sorting\<close>

text \<open>\<open>sort.Float64s\<close>: NaN first, then by \<open><\<close>.\<close>

definition float_less :: "f64 \<Rightarrow> f64 \<Rightarrow> bool" where
  "float_less a b = (f_lt a b \<or> (is_nan a \<and> \<not> is_nan b))"

fun insert_float :: "f64 \<Rightarrow> f64 list \<Rightarrow> f64 list" where
  "insert_float x [] = [x]"
| "insert_float x (y # ys) = (if float_less y x then y # insert_float x ys else x # y # ys)"

definition sort_floats :: "f64 list \<Rightarrow> f64 list" where
  "sort_floats xs = foldr insert_float xs []"

abbreviation no_nan :: "f64 list \<Rightarrow> bool" where
  "no_nan xs \<equiv> list_all (\<lambda>x. \<not> is_nan x) xs"

lemma set_insert_float: "set (insert_float x ys) = insert x (set ys)"
  by (induction ys) auto

lemma sorted_insert_float:
  assumes "sorted_wrt f_le ys" "no_nan (x # ys)"
  shows "sorted_wrt f_le (insert_float x ys)"
  using assms
proof (induction ys)
  case (Cons y ys)
  then have nn: "\<not> is_nan x" "\<not> is_nan y" by simp_all
  show ?case
  proof (cases "f_lt y x")
    case True
    then have "f_le y x" by (rule f_lt_imp_le)
    with Cons True nn show ?thesis by (auto simp: float_less_def set_insert_float)
  next
    case False
    then have "f_le x y" using f_not_lt_le nn by blast
    with Cons False nn f_le_trans show ?thesis by (auto simp: float_less_def)
  qed
qed simp

lemma sort_floats_sorted: "no_nan xs \<Longrightarrow> sorted_wrt f_le (sort_floats xs) \<and> set (sort_floats xs) = set xs"
proof (induction xs)
  case (Cons x xs)
  then have "no_nan (x # sort_floats xs)" by (simp add: list_all_iff)
  with Cons show ?case using sorted_insert_float [of "sort_floats xs" x]
    by (simp add: sort_floats_def set_insert_float)
qed (simp add: sort_floats_def)

lemma length_insert_float [simp]: "length (insert_float x ys) = Suc (length ys)"
  by (induction ys) auto

lemma length_sort_floats [simp]: "length (sort_floats xs) = length xs"
  by (induction xs) (simp_all add: sort_floats_def)

lemma set_sort_floats [simp]: "set (sort_floats xs) = set xs"
  by (induction xs) (simp_all add: sort_floats_def set_insert_float)

end
