(* ===== verification/GoStrings.thy ===== *)
theory GoStrings
  imports GoFloat "HOL-Library.Sublist"
begin

section \<open>The Go string library as the source uses it\<close>

text \<open>
  A Go string is a sequence of bytes, here a list of characters. The functions of
  \<open>strings\<close>, \<open>strconv\<close> and \<open>unicode/utf8\<close> that the modelled code calls are written out.
  Errors of the \<open>strconv\<close> parsers are \<open>None\<close>; the callers look only at whether there was one.
\<close>

abbreviation byte_of :: "char \<Rightarrow> int" where
  "byte_of c \<equiv> int (of_char c)"

subsection \<open>UTF-8\<close>

definition cont_byte :: "int \<Rightarrow> bool" where
  "cont_byte b \<longleftrightarrow> 128 \<le> b \<and> b \<le> 191"

text \<open>\<open>utf8.DecodeRune\<close>: the first rune and its width; a bad sequence is U+FFFD of width 1.\<close>

fun decode_rune :: "string \<Rightarrow> int \<times> nat" where
  "decode_rune [] = (65533, 0)"
| "decode_rune (c # cs) =
     (let b0 = byte_of c; bs = List.map byte_of (take 3 cs); bad = (65533, 1)
      in if b0 < 128 then (b0, 1)
         else if 194 \<le> b0 \<and> b0 \<le> 223 then
           (case bs of b1 # _ \<Rightarrow> if cont_byte b1 then ((b0 - 192) * 64 + (b1 - 128), 2) else bad
            | _ \<Rightarrow> bad)
         else if 224 \<le> b0 \<and> b0 \<le> 239 then
           (case bs of b1 # b2 # _ \<Rightarrow>
              if cont_byte b1 \<and> cont_byte b2 \<and> (b0 = 224 \<longrightarrow> 160 \<le> b1) \<and> (b0 = 237 \<longrightarrow> b1 \<le> 159)
              then ((b0 - 224) * 4096 + (b1 - 128) * 64 + (b2 - 128), 3) else bad
            | _ \<Rightarrow> bad)
         else if 240 \<le> b0 \<and> b0 \<le> 244 then
           (case bs of b1 # b2 # b3 # _ \<Rightarrow>
              if cont_byte b1 \<and> cont_byte b2 \<and> cont_byte b3
                \<and> (b0 = 240 \<longrightarrow> 144 \<le> b1) \<and> (b0 = 244 \<longrightarrow> b1 \<le> 143)
              then ((b0 - 240) * 262144 + (b1 - 128) * 4096 + (b2 - 128) * 64 + (b3 - 128), 4)
              else bad
            | _ \<Rightarrow> bad)
         else bad)"

lemma decode_rune_again:
  assumes "decode_rune (c # cs) = (r, w)" "r \<noteq> 65533 \<or> w \<noteq> 1"
  shows "decode_rune (c # take (w - 1) cs @ t) = (r, w) \<and> length (take (w - 1) cs) = w - 1"
proof (cases cs)
  case Nil
  with assms show ?thesis by (auto simp: Let_def split: if_splits)
next
  case c1: (Cons c1 cs1)
  show ?thesis
  proof (cases cs1)
    case Nil
    with assms c1 show ?thesis by (auto simp: Let_def split: if_splits)
  next
    case c2: (Cons c2 cs2)
    show ?thesis
    proof (cases cs2)
      case Nil
      with assms c1 c2 show ?thesis by (auto simp: Let_def split: if_splits)
    next
      case (Cons c3 cs3)
      with assms c1 c2 show ?thesis by (auto simp: Let_def split: if_splits)
    qed
  qed
qed

text \<open>The runes of a string, each with the bytes it is written in.\<close>

fun runes :: "string \<Rightarrow> (int \<times> string) list" where
  "runes [] = []"
| "runes (c # cs) =
     (case decode_rune (c # cs) of (r, w) \<Rightarrow>
        (r, c # take (w - 1) cs) # runes (drop (w - 1) cs))"

lemma runes_ascii: "byte_of c < 128 \<Longrightarrow> runes (c # cs) = (byte_of c, [c]) # runes cs"
  by (simp add: Let_def)

definition bytes_of_runes :: "(int \<times> string) list \<Rightarrow> string" where
  "bytes_of_runes rs = concat (List.map snd rs)"

lemma bytes_of_runes_runes [simp]: "bytes_of_runes (runes s) = s"
  by (induction s rule: runes.induct) (auto simp: bytes_of_runes_def split: prod.splits)

lemma bytes_of_runes_append [simp]:
  "bytes_of_runes (xs @ ys) = bytes_of_runes xs @ bytes_of_runes ys"
  by (simp add: bytes_of_runes_def)

lemma bytes_of_runes_Nil [simp]: "bytes_of_runes [] = []"
  by (simp add: bytes_of_runes_def)

lemma bytes_of_runes_Cons [simp]: "bytes_of_runes (r # rs) = snd r @ bytes_of_runes rs"
  by (simp add: bytes_of_runes_def)

text \<open>\<open>string(ch)\<close> of a rune, \<open>utf8.EncodeRune\<close>.\<close>

definition encode_rune :: "int \<Rightarrow> string" where
  "encode_rune r =
     List.map (\<lambda>b. char_of (nat b))
       (if r < 128 then [r]
        else if r < 2048 then [192 + r div 64, 128 + r mod 64]
        else if r < 65536 then [224 + r div 4096, 128 + r div 64 mod 64, 128 + r mod 64]
        else [240 + r div 262144, 128 + r div 4096 mod 64, 128 + r div 64 mod 64, 128 + r mod 64])"

text \<open>\<open>unicode.IsSpace\<close>\<close>

definition is_space :: "int \<Rightarrow> bool" where
  "is_space r \<longleftrightarrow> (9 \<le> r \<and> r \<le> 13) \<or> r = 32 \<or> r = 133 \<or> r = 160 \<or> r = 5760
     \<or> (8192 \<le> r \<and> r \<le> 8202) \<or> r = 8232 \<or> r = 8233 \<or> r = 8239 \<or> r = 8287 \<or> r = 12288"

subsection \<open>Trimming\<close>

definition trim_left_func :: "(int \<Rightarrow> bool) \<Rightarrow> string \<Rightarrow> string" where
  "trim_left_func p s = bytes_of_runes (dropWhile (p \<circ> fst) (runes s))"

definition trim_right_func :: "(int \<Rightarrow> bool) \<Rightarrow> string \<Rightarrow> string" where
  "trim_right_func p s = bytes_of_runes (rev (dropWhile (p \<circ> fst) (rev (runes s))))"

definition trim_func :: "(int \<Rightarrow> bool) \<Rightarrow> string \<Rightarrow> string" where
  "trim_func p s = trim_right_func p (trim_left_func p s)"

abbreviation trim_space :: "string \<Rightarrow> string" where
  "trim_space \<equiv> trim_func is_space"

definition in_cutset :: "string \<Rightarrow> int \<Rightarrow> bool" where
  "in_cutset cs r \<longleftrightarrow> r \<in> set (List.map fst (runes cs))"

definition has_prefix :: "string \<Rightarrow> string \<Rightarrow> bool" where
  "has_prefix s p \<longleftrightarrow> take (length p) s = p"

definition has_suffix :: "string \<Rightarrow> string \<Rightarrow> bool" where
  "has_suffix s p \<longleftrightarrow> length p \<le> length s \<and> drop (length s - length p) s = p"

definition trim_prefix :: "string \<Rightarrow> string \<Rightarrow> string" where
  "trim_prefix s p = (if has_prefix s p then drop (length p) s else s)"

definition trim_suffix :: "string \<Rightarrow> string \<Rightarrow> string" where
  "trim_suffix s p = (if has_suffix s p then take (length s - length p) s else s)"

lemma trim_prefix_append [simp]: "trim_prefix (p @ s) p = s"
  by (simp add: trim_prefix_def has_prefix_def)

lemma trim_suffix_append [simp]: "trim_suffix (s @ p) p = s"
  by (simp add: trim_suffix_def has_suffix_def)

fun contains :: "string \<Rightarrow> string \<Rightarrow> bool" where
  "contains [] sub = (sub = [])"
| "contains (c # cs) sub = (has_prefix (c # cs) sub \<or> contains cs sub)"

definition contains_any :: "string \<Rightarrow> string \<Rightarrow> bool" where
  "contains_any s chars \<longleftrightarrow> list_ex (\<lambda>c. c \<in> set chars) s"

subsection \<open>Splitting and joining\<close>

text \<open>\<open>strings.Split\<close> and \<open>strings.SplitN\<close> at a separator that is not empty.\<close>

fun split_from :: "string \<Rightarrow> string \<Rightarrow> string \<Rightarrow> string list" where
  "split_from sep acc [] = [rev acc]"
| "split_from sep acc (c # cs) =
     (if has_prefix (c # cs) sep then rev acc # split_from sep [] (drop (length sep - 1) cs)
      else split_from sep (c # acc) cs)"

definition split :: "string \<Rightarrow> string \<Rightarrow> string list" where
  "split s sep = (if sep = [] then List.map snd (runes s) else split_from sep [] s)"

fun cut_from :: "string \<Rightarrow> string \<Rightarrow> string \<Rightarrow> string list" where
  "cut_from sep acc [] = [rev acc]"
| "cut_from sep acc (c # cs) =
     (if has_prefix (c # cs) sep then [rev acc, drop (length sep - 1) cs]
      else cut_from sep (c # acc) cs)"

text \<open>\<open>strings.SplitN(s, sep, 2)\<close>\<close>

definition split2 :: "string \<Rightarrow> string \<Rightarrow> string list" where
  "split2 s sep = cut_from sep [] s"

fun join :: "string \<Rightarrow> string list \<Rightarrow> string" where
  "join sep [] = []"
| "join sep [x] = x"
| "join sep (x # xs) = x @ sep @ join sep xs"

lemma join_Cons: "xs \<noteq> [] \<Longrightarrow> join sep (x # xs) = x @ sep @ join sep xs"
  by (cases xs) auto

lemma split_from_nonempty [simp]: "split_from sep acc s \<noteq> []"
  by (induction sep acc s rule: split_from.induct) auto

lemma split_nonempty: "sep \<noteq> [] \<Longrightarrow> split s sep \<noteq> []"
  by (simp add: split_def)

lemma has_prefix_Cons_drop:
  "has_prefix (c # cs) sep \<Longrightarrow> sep \<noteq> [] \<Longrightarrow> sep @ drop (length sep - 1) cs = c # cs"
  unfolding has_prefix_def by (cases sep) (auto, metis append_take_drop_id)

lemma join_split_from: "sep \<noteq> [] \<Longrightarrow> join sep (split_from sep acc s) = rev acc @ s"
proof (induction sep acc s rule: split_from.induct)
  case (2 sep acc c cs)
  then show ?case using has_prefix_Cons_drop [of c cs sep] by (auto simp: join_Cons)
qed simp

text \<open>Joining with the separator undoes splitting.\<close>

lemma join_split: "sep \<noteq> [] \<Longrightarrow> join sep (split s sep) = s"
  by (simp add: split_def join_split_from)

lemma split_lines:
  "CHR 0x0A \<notin> set l \<Longrightarrow> split_from [CHR 0x0A] acc (l @ CHR 0x0A # rest) = (rev acc @ l) # split_from [CHR 0x0A] [] rest"
  by (induction l arbitrary: acc) (auto simp: has_prefix_def)

text \<open>Splitting a text at the ends of its lines gives the lines back.\<close>

lemma split_lines_concat:
  assumes "\<forall>l \<in> set ls. CHR 0x0A \<notin> set l"
  shows "butlast (split (concat (List.map (\<lambda>l. l @ [CHR 0x0A]) ls)) [CHR 0x0A]) = ls"
proof -
  have "split_from [CHR 0x0A] [] (concat (List.map (\<lambda>l. l @ [CHR 0x0A]) ls)) = ls @ [[]]"
    using assms by (induction ls) (simp_all add: split_lines)
  then show ?thesis by (simp add: split_def)
qed

text \<open>\<open>strings.Replace(s, old, new, -1)\<close>\<close>

definition replace_all :: "string \<Rightarrow> string \<Rightarrow> string \<Rightarrow> string" where
  "replace_all s old new =
     (if old = [] then new @ concat (List.map (\<lambda>r. snd r @ new) (runes s))
      else join new (split s old))"

text \<open>\<open>strings.Fields\<close>\<close>

fun fields_from :: "string \<Rightarrow> (int \<times> string) list \<Rightarrow> string list" where
  "fields_from acc [] = (if acc = [] then [] else [acc])"
| "fields_from acc ((r, b) # rs) =
     (if is_space r then (if acc = [] then fields_from [] rs else acc # fields_from [] rs)
      else fields_from (acc @ b) rs)"

definition fields_of :: "string \<Rightarrow> string list" where
  "fields_of s = fields_from [] (runes s)"

lemma fields_from_nonempty: "f \<in> set (fields_from acc rs) \<Longrightarrow> \<forall>r \<in> set rs. snd r \<noteq> [] \<Longrightarrow> f \<noteq> []"
  by (induction acc rs rule: fields_from.induct) (auto split: if_splits)

lemma runes_bytes_nonempty: "r \<in> set (runes s) \<Longrightarrow> snd r \<noteq> []"
  by (induction s rule: runes.induct) (auto split: prod.splits)

lemma fields_of_nonempty: "f \<in> set (fields_of s) \<Longrightarrow> f \<noteq> []"
  using fields_from_nonempty runes_bytes_nonempty unfolding fields_of_def by blast

subsection \<open>Integers as text\<close>

definition digit_char :: "int \<Rightarrow> char" where
  "digit_char d = char_of (48 + nat d)"

definition is_digit :: "char \<Rightarrow> bool" where
  "is_digit c \<longleftrightarrow> 48 \<le> byte_of c \<and> byte_of c \<le> 57"

definition digit_val :: "char \<Rightarrow> int" where
  "digit_val c = byte_of c - 48"

function digits_of :: "int \<Rightarrow> string" where
  "digits_of n = (if n < 10 then [digit_char n] else digits_of (n div 10) @ [digit_char (n mod 10)])"
  by pat_completeness auto
termination by (relation "measure nat") auto

declare digits_of.simps [simp del]

text \<open>\<open>strconv.FormatInt(n, 10)\<close>\<close>

definition itoa :: "int \<Rightarrow> string" where
  "itoa n = (if n < 0 then CHR ''-'' # digits_of (- n) else digits_of n)"

definition digits_value :: "int \<Rightarrow> string \<Rightarrow> int" where
  "digits_value a s = foldl (\<lambda>v c. 10 * v + digit_val c) a s"

text \<open>\<open>strconv.ParseUint(s, 10, 64)\<close> and \<open>strconv.ParseInt(s, 10, 64)\<close>\<close>

definition parse_uint :: "string \<Rightarrow> u64 option" where
  "parse_uint s =
     (if s = [] \<or> \<not> list_all is_digit s then None
      else let v = digits_value 0 s in if v < 2 ^ 64 then Some (word_of_int v) else None)"

definition parse_int :: "string \<Rightarrow> i64 option" where
  "parse_int s =
     (let neg = (s \<noteq> [] \<and> hd s = CHR ''-'');
          ds = (if s \<noteq> [] \<and> (hd s = CHR ''-'' \<or> hd s = CHR ''+'') then tl s else s)
      in if ds = [] \<or> \<not> list_all is_digit ds then None
         else let v = digits_value 0 ds
              in if neg then (if v \<le> 2 ^ 63 then Some (word_of_int (- v)) else None)
                 else if v < 2 ^ 63 then Some (word_of_int v) else None)"

lemma of_char_digit_char: "0 \<le> d \<Longrightarrow> d < 10 \<Longrightarrow> byte_of (digit_char d) = 48 + d"
  by (simp add: digit_char_def)

lemma digit_val_digit_char [simp]: "0 \<le> d \<Longrightarrow> d < 10 \<Longrightarrow> digit_val (digit_char d) = d"
  by (simp add: digit_val_def of_char_digit_char)

lemma is_digit_digit_char [simp]: "0 \<le> d \<Longrightarrow> d < 10 \<Longrightarrow> is_digit (digit_char d)"
  by (simp add: is_digit_def of_char_digit_char)

lemma digits_of_digits: "0 \<le> n \<Longrightarrow> digits_of n \<noteq> [] \<and> list_all is_digit (digits_of n)"
proof (induction n rule: digits_of.induct)
  case (1 n)
  then show ?case by (subst (1 2) digits_of.simps) auto
qed

lemma digits_value_digits_of: "0 \<le> n \<Longrightarrow> digits_value 0 (digits_of n) = n"
proof (induction n rule: digits_of.induct)
  case (1 n)
  show ?case
  proof (cases "n < 10")
    case True
    with "1.prems" show ?thesis by (subst digits_of.simps) (simp add: digits_value_def)
  next
    case False
    with 1 have "digits_value 0 (digits_of (n div 10)) = n div 10" by simp
    with False show ?thesis by (subst digits_of.simps) (simp add: digits_value_def)
  qed
qed

text \<open>Reading a written integer gives it back.\<close>

lemma parse_int_itoa:
  assumes "- (2 ^ 63) \<le> i" "i < 2 ^ 63"
  shows "parse_int (itoa i) = Some (word_of_int i)"
proof (cases "i < 0")
  case True
  with assms digits_of_digits [of "- i"] digits_value_digits_of [of "- i"] show ?thesis
    by (simp add: parse_int_def itoa_def Let_def)
next
  case False
  then have d: "digits_of i \<noteq> []" "list_all is_digit (digits_of i)" "digits_value 0 (digits_of i) = i"
    using digits_of_digits digits_value_digits_of by auto
  then have "is_digit (hd (digits_of i))" by (cases "digits_of i") auto
  then have "hd (digits_of i) \<noteq> CHR ''-''" "hd (digits_of i) \<noteq> CHR ''+''"
    by (auto simp: is_digit_def)
  with False d assms show ?thesis by (simp add: parse_int_def itoa_def Let_def)
qed

lemma parse_uint_itoa:
  assumes "0 \<le> i" "i < 2 ^ 64"
  shows "parse_uint (itoa i) = Some (word_of_int i)"
  using assms digits_of_digits [of i] digits_value_digits_of [of i]
  by (simp add: parse_uint_def itoa_def Let_def)

text \<open>\<open>strconv.ParseBool\<close> and \<open>strconv.FormatBool\<close>\<close>

definition parse_bool :: "string \<Rightarrow> bool option" where
  "parse_bool s =
     (if s \<in> set [''1'', ''t'', ''T'', ''true'', ''TRUE'', ''True''] then Some True
      else if s \<in> set [''0'', ''f'', ''F'', ''false'', ''FALSE'', ''False''] then Some False
      else None)"

definition format_bool :: "bool \<Rightarrow> string" where
  "format_bool b = (if b then ''true'' else ''false'')"

lemma parse_bool_format_bool: "parse_bool (format_bool b) = Some b"
  by (cases b) (simp_all add: parse_bool_def format_bool_def)

subsection \<open>Floats as text\<close>

definition lower_ascii :: "char \<Rightarrow> char" where
  "lower_ascii c = (if 65 \<le> byte_of c \<and> byte_of c \<le> 90 then char_of (nat (byte_of c) + 32) else c)"

definition upper_ascii :: "char \<Rightarrow> char" where
  "upper_ascii c = (if 97 \<le> byte_of c \<and> byte_of c \<le> 122 then char_of (nat (byte_of c) - 32) else c)"

text \<open>
  \<open>strconv.ParseFloat(s, 64)\<close>: a sign, digits with at most one point, an exponent; or one of
  the special names. A value that rounds to infinity is an error.
\<close>

definition parse_exp :: "string \<Rightarrow> int option" where
  "parse_exp s =
     (case s of [] \<Rightarrow> Some 0
      | c # r \<Rightarrow>
        if c \<noteq> CHR ''e'' \<and> c \<noteq> CHR ''E'' then None
        else let neg = (r \<noteq> [] \<and> hd r = CHR ''-'');
                 ds = (if r \<noteq> [] \<and> (hd r = CHR ''-'' \<or> hd r = CHR ''+'') then tl r else r)
             in if ds = [] \<or> \<not> list_all is_digit ds then None
                else Some (if neg then - digits_value 0 ds else digits_value 0 ds))"

definition parse_decimal :: "bool \<Rightarrow> string \<Rightarrow> f64 option" where
  "parse_decimal neg s =
     (let ip = takeWhile is_digit s; r = dropWhile is_digit s;
          pt = (r \<noteq> [] \<and> hd r = CHR ''.'');
          fp = (if pt then takeWhile is_digit (tl r) else []);
          r' = (if pt then dropWhile is_digit (tl r) else r);
          v = digits_value 0 (ip @ fp)
      in if ip = [] \<and> fp = [] then None
         else case parse_exp r' of None \<Rightarrow> None
           | Some ex \<Rightarrow>
             let e = min 400 (max (- 400 - int (length (ip @ fp))) (ex - int (length fp)));
                 m = (if v = 0 then 0
                      else if 0 \<le> e then round_mag (v * 10 ^ nat e) 1 else round_mag v (10 ^ nat (- e)))
             in if m = inf_mag then None else Some (mk_f64 neg m))"

definition parse_float :: "string \<Rightarrow> f64 option" where
  "parse_float s =
     (let l = List.map lower_ascii s;
          neg = (s \<noteq> [] \<and> hd s = CHR ''-'');
          signed = (s \<noteq> [] \<and> (hd s = CHR ''-'' \<or> hd s = CHR ''+''));
          body = (if signed then tl s else s);
          lb = (if signed then tl l else l)
      in if lb = ''inf'' \<or> lb = ''infinity'' then Some (f_inf neg)
         else if l = ''nan'' then Some f_nan
         else parse_decimal neg body)"

text \<open>
  \<open>strconv.FormatFloat(x, 'f', -1, 64)\<close>: the fewest decimal digits that read back as \<open>x\<close>.
  \<open>dec_exp\<close> is the position of the decimal point, \<open>0.d\<^sub>1d\<^sub>2\<dots> * 10\<^sup>k\<close>; of the two neighbours with
  \<open>n\<close> digits the one that reads back, and the nearer one if both do.
\<close>

definition f_frac :: "f64 \<Rightarrow> int \<times> int" where
  "f_frac x = scale2 (- f_exp x) (f_mant x) 1"

fun dec_exp_up :: "nat \<Rightarrow> int \<Rightarrow> int \<Rightarrow> nat \<Rightarrow> nat" where
  "dec_exp_up 0 p q k = k"
| "dec_exp_up (Suc fuel) p q k = (if p < q * 10 ^ k then k else dec_exp_up fuel p q (Suc k))"

fun dec_exp_down :: "nat \<Rightarrow> int \<Rightarrow> int \<Rightarrow> nat \<Rightarrow> nat" where
  "dec_exp_down 0 p q k = k"
| "dec_exp_down (Suc fuel) p q k =
     (if q \<le> p * 10 ^ Suc k then k else dec_exp_down fuel p q (Suc k))"

definition dec_exp :: "int \<Rightarrow> int \<Rightarrow> int" where
  "dec_exp p q = (if q \<le> p then int (dec_exp_up 400 p q 0) else - int (dec_exp_down 400 p q 0))"

definition dec_mag :: "int \<Rightarrow> int \<Rightarrow> int" where
  "dec_mag d e = (if d = 0 then 0 else if 0 \<le> e then round_mag (d * 10 ^ nat e) 1
                  else round_mag d (10 ^ nat (- e)))"

fun shortest_from :: "nat \<Rightarrow> int \<Rightarrow> int \<Rightarrow> int \<Rightarrow> int \<Rightarrow> nat \<Rightarrow> int \<times> int" where
  "shortest_from fuel p q mag k n =
     (let e = k - int n;
          (a, b) = (if 0 \<le> e then (p, q * 10 ^ nat e) else (p * 10 ^ nat (- e), q));
          lo = a div b; near = round_half_even a b
      in case fuel of 0 \<Rightarrow> (near, e)
         | Suc fuel' \<Rightarrow>
           if dec_mag lo e = mag \<and> dec_mag (lo + 1) e = mag then (near, e)
           else if dec_mag lo e = mag then (lo, e)
           else if dec_mag (lo + 1) e = mag then (lo + 1, e)
           else shortest_from fuel' p q mag k (Suc n))"

definition place_point :: "int \<Rightarrow> int \<Rightarrow> string" where
  "place_point d e =
     (let ds = digits_of d
      in if 0 \<le> e then ds @ (if d = 0 then [] else replicate (nat e) CHR ''0'')
         else let n = nat (- e);
                  pad = replicate (Suc n - length ds) CHR ''0'' @ ds;
                  ip = take (length pad - n) pad;
                  fp = rev (dropWhile (\<lambda>c. c = CHR ''0'') (rev (drop (length pad - n) pad)))
              in if fp = [] then ip else ip @ CHR ''.'' # fp)"

definition format_float :: "f64 \<Rightarrow> string" where
  "format_float x =
     (if is_nan x then ''NaN''
      else if is_inf x then (if f_neg x then ''-Inf'' else ''+Inf'')
      else let sgn = (if f_neg x then ''-'' else '''')
           in if f_mag x = 0 then sgn @ ''0''
              else case f_frac x of (p, q) \<Rightarrow>
                case shortest_from 17 p q (f_mag x) (dec_exp p q) 1 of (d, e) \<Rightarrow> sgn @ place_point d e)"

text \<open>The shape of the texts: digits without leading zeros, and decimals.\<close>

lemma digits_of_no_zero: "0 < n \<Longrightarrow> hd (digits_of n) \<noteq> CHR ''0''"
proof (induction n rule: digits_of.induct)
  case (1 n)
  show ?case
  proof (cases "n < 10")
    case True
    have "digit_val (digit_char n) \<noteq> digit_val CHR ''0''"
      using True "1.prems" by (subst digit_val_digit_char) (simp_all add: digit_val_def)
    with True show ?thesis by (subst digits_of.simps) auto
  next
    case False
    with 1 have "hd (digits_of (n div 10)) \<noteq> CHR ''0''" by simp
    moreover have "digits_of (n div 10) \<noteq> []" using digits_of_digits [of "n div 10"] False by simp
    ultimately show ?thesis using False by (subst digits_of.simps) simp
  qed
qed

lemma length_digits_of: "0 \<le> n \<Longrightarrow> n < 10 ^ k \<Longrightarrow> 0 < k \<Longrightarrow> length (digits_of n) \<le> k"
proof (induction n arbitrary: k rule: digits_of.induct)
  case (1 n)
  show ?case
  proof (cases "n < 10")
    case True
    with "1.prems" show ?thesis by (subst digits_of.simps) simp
  next
    case False
    then obtain j where k: "k = Suc j" "0 < j"
      using "1.prems" by (cases k) (auto simp: less_Suc_eq intro: ccontr)
    have "n div 10 < 10 ^ j" using "1.prems"(2) k(1) by simp
    with "1.IH" [OF False, of j] "1.prems" k have "length (digits_of (n div 10)) \<le> j" by simp
    with False k show ?thesis by (subst digits_of.simps) simp
  qed
qed

lemma digit_not_minus: "is_digit c \<Longrightarrow> c \<noteq> CHR ''-''"
  by (auto simp: is_digit_def)

lemma digits_of_all: "digits_of n \<noteq> [] \<and> list_all is_digit (digits_of n)"
proof (cases "0 \<le> n")
  case False
  then have "digits_of n = [digit_char 0]" by (subst digits_of.simps) (simp add: digit_char_def)
  then show ?thesis by simp
qed (rule digits_of_digits)

definition decimal :: "string \<Rightarrow> bool" where
  "decimal s \<longleftrightarrow> (\<exists>ip fp. s = ip @ (if fp = [] then [] else CHR ''.'' # fp) \<and> ip \<noteq> [] \<and> list_all is_digit (ip @ fp))"

lemma decimal_digits: "s \<noteq> [] \<Longrightarrow> list_all is_digit s \<Longrightarrow> decimal s"
  unfolding decimal_def by (intro exI [of _ s] exI [of _ "[]"]) simp

lemma decimal_place_point: "decimal (place_point d e)"
proof (cases "0 \<le> e")
  case True
  have "list_all is_digit (digits_of d @ (if d = 0 then [] else replicate (nat e) CHR ''0''))"
    using digits_of_all [of d] by (auto simp: list_all_iff is_digit_def)
  with True digits_of_all [of d] show ?thesis by (simp add: place_point_def Let_def decimal_digits)
next
  case False
  define n where "n = nat (- e)"
  define pad where "pad = replicate (Suc n - length (digits_of d)) CHR ''0'' @ digits_of d"
  define ip where "ip = take (length pad - n) pad"
  define fp where "fp = rev (dropWhile (\<lambda>c. c = CHR ''0'') (rev (drop (length pad - n) pad)))"
  have pad: "\<forall>c \<in> set pad. is_digit c"
    using digits_of_all [of d] by (auto simp: pad_def list_all_iff is_digit_def)
  have "length pad > n" by (auto simp: pad_def)
  then have ip: "ip \<noteq> []" by (auto simp: ip_def)
  have "set ip \<subseteq> set pad" by (auto simp: ip_def dest: in_set_takeD)
  moreover have "set fp \<subseteq> set pad"
    by (auto simp: fp_def dest!: set_dropWhileD dest: in_set_dropD)
  ultimately have dg: "list_all is_digit (ip @ fp)" using pad by (auto simp: list_all_iff)
  have "place_point d e = (if fp = [] then ip else ip @ CHR ''.'' # fp)"
    unfolding place_point_def Let_def if_not_P [OF False] n_def [symmetric]
    unfolding pad_def [symmetric] unfolding ip_def [symmetric] fp_def [symmetric] by (rule refl)
  then have "place_point d e = ip @ (if fp = [] then [] else CHR ''.'' # fp)" by simp
  with ip dg show ?thesis unfolding decimal_def by blast
qed

lemma dot_not_digit: "\<not> is_digit CHR ''.''"
  by (simp add: is_digit_def)

lemma decimal_chars: "decimal s \<Longrightarrow> s \<noteq> [] \<and> (\<forall>c \<in> set s. is_digit c \<or> c = CHR ''.'') \<and> is_digit (hd s)"
  by (auto simp: decimal_def list_all_iff hd_append split: if_splits)

lemma format_float_text:
  assumes "\<not> is_nan x" "\<not> is_inf x"
  obtains sg s where "format_float x = sg @ s" "sg = [] \<or> sg = ''-''" "decimal s"
proof (cases "f_mag x = 0")
  case True
  have "decimal ''0''" by (rule decimal_digits) (simp_all add: is_digit_def)
  moreover have "format_float x = (if f_neg x then ''-'' else []) @ ''0''"
    using assms True by (simp add: format_float_def Let_def)
  ultimately show ?thesis by (intro that [of "if f_neg x then ''-'' else []" "''0''"]) simp_all
next
  case False
  obtain p q where pq: "f_frac x = (p, q)" by (metis prod.exhaust)
  obtain d e where de: "shortest_from 17 p q (f_mag x) (dec_exp p q) 1 = (d, e)" by (metis prod.exhaust)
  have "format_float x = (if f_neg x then ''-'' else []) @ place_point d e"
    using assms False by (simp add: format_float_def Let_def pq de del: shortest_from.simps One_nat_def)
  then show ?thesis by (rule that) (simp_all add: decimal_place_point)
qed

end
