(* ===== verification/Metric.thy ===== *)
theory Metric
  imports GoStrings
begin

unbundle bit_operations_syntax

section \<open>Metrics\<close>

text \<open>
  \<open>metric.go\<close> (the value types) and \<open>metric/metric.go\<close>, \<open>metric/builder.go\<close> (the metric every
  component passes on): a name, a tag list kept sorted by key, a field list in insertion order,
  a time in nanoseconds, a value type and the aggregate mark. Tags and fields are both
  interpreted as keyed stores. Here a metric is a value; \<open>MetricAlias\<close> models the pointers.
\<close>

subsection \<open>Values\<close>

text \<open>An \<open>interface{}\<close>: \<open>nil\<close>, a value of a basic type, or a value of another dynamic type.\<close>

datatype gval =
    GNil
  | GFloat64 f64 | GFloat32 "32 word"
  | GInt64 i64 | GInt i64 | GInt32 "32 word" | GInt16 "16 word" | GInt8 "8 word"
  | GUint64 u64 | GUint u64 | GUint32 "32 word" | GUint16 "16 word" | GUint8 "8 word"
  | GString string | GBytes string | GBool bool
  | GOther string

text \<open>\<open>float64(v)\<close> of a \<open>float32\<close>, exact unless it is not a number.\<close>

definition f64_of_f32 :: "32 word \<Rightarrow> f64" where
  "f64_of_f32 w =
     (let m = uint w mod 2 ^ 31; s = (2 ^ 31 \<le> uint w); ex = m div 2 ^ 23; fr = m mod 2 ^ 23
      in if ex = 255 then (if fr = 0 then f_inf s else f_nan)
         else if m = 0 then mk_f64 s 0
         else let sig = (if ex = 0 then fr else fr + 2 ^ 23); e = (if ex = 0 then - 149 else ex - 150)
              in round_dyadic (if s then - sig else sig) e)"

text \<open>Convert a field to a supported type, or \<open>nil\<close> if it cannot be converted.\<close>

fun convertField :: "gval \<Rightarrow> gval" where
  "convertField (GFloat64 v) = GFloat64 v"
| "convertField (GInt64 v) = GInt64 v"
| "convertField (GString v) = GString v"
| "convertField (GBool v) = GBool v"
| "convertField (GInt v) = GInt64 v"
| "convertField (GUint v) = GUint64 v"
| "convertField (GUint64 v) = GUint64 v"
| "convertField (GBytes v) = GString v"
| "convertField (GInt32 v) = GInt64 (word_of_int (sint v))"
| "convertField (GInt16 v) = GInt64 (word_of_int (sint v))"
| "convertField (GInt8 v) = GInt64 (word_of_int (sint v))"
| "convertField (GUint32 v) = GUint64 (ucast v)"
| "convertField (GUint16 v) = GUint64 (ucast v)"
| "convertField (GUint8 v) = GUint64 (ucast v)"
| "convertField (GFloat32 v) = GFloat64 (f64_of_f32 v)"
| "convertField _ = GNil"

fun field_value_ok :: "gval \<Rightarrow> bool" where
  "field_value_ok (GFloat64 _) = True"
| "field_value_ok (GInt64 _) = True"
| "field_value_ok (GUint64 _) = True"
| "field_value_ok (GString _) = True"
| "field_value_ok (GBool _) = True"
| "field_value_ok _ = False"

lemma convertField_ok: "convertField v \<noteq> GNil \<Longrightarrow> field_value_ok (convertField v)"
  by (cases v) auto

lemma convertField_fixed [simp]: "field_value_ok v \<Longrightarrow> convertField v = v"
  by (cases v) auto

lemma convertField_idem [simp]: "convertField (convertField v) = convertField v"
  by (cases v) auto

lemma field_value_ok_not_nil [simp]: "\<not> field_value_ok GNil"
  by simp

subsection \<open>The data type\<close>

datatype value_type = NoType | Counter | Gauge | Untyped | Summary | Histogram

record tag =
  tag_key :: string
  tag_value :: string

record field =
  field_key :: string
  field_value :: gval

record metric =
  m_name :: string
  m_tags :: "tag list"
  m_fields :: "field list"
  m_tm :: int
  m_tp :: value_type
  m_aggregate :: bool

subsection \<open>Tags\<close>

fun add_tag :: "string \<Rightarrow> string \<Rightarrow> tag list \<Rightarrow> tag list" where
  "add_tag key value [] = [\<lparr>tag_key = key, tag_value = value\<rparr>]"
| "add_tag key value (t # ts) =
     (if key > tag_key t then t # add_tag key value ts
      else if key = tag_key t then t\<lparr>tag_value := value\<rparr> # ts
      else \<lparr>tag_key = key, tag_value = value\<rparr> # t # ts)"

fun get_tag :: "tag list \<Rightarrow> string \<Rightarrow> string option" where
  "get_tag [] key = None"
| "get_tag (t # ts) key = (if tag_key t = key then Some (tag_value t) else get_tag ts key)"

fun has_tag :: "tag list \<Rightarrow> string \<Rightarrow> bool" where
  "has_tag [] key = False"
| "has_tag (t # ts) key = (tag_key t = key \<or> has_tag ts key)"

fun remove_tag :: "string \<Rightarrow> tag list \<Rightarrow> tag list" where
  "remove_tag key [] = []"
| "remove_tag key (t # ts) = (if tag_key t = key then ts else t # remove_tag key ts)"

definition tags_ok :: "tag list \<Rightarrow> bool" where
  "tags_ok ts \<longleftrightarrow> sorted_wrt (<) (List.map tag_key ts)"

lemma tag_keys_add_tag: "set (List.map tag_key (add_tag k v ts)) = insert k (set (List.map tag_key ts))"
  by (induction ts) auto

lemma set_remove_tag: "set (remove_tag k ts) \<subseteq> set ts"
  by (induction ts) auto

lemma tags_ok_add_tag: "tags_ok ts \<Longrightarrow> tags_ok (add_tag k v ts)"
proof (induction ts)
  case (Cons t ts)
  then have ih: "tags_ok (add_tag k v ts)" by (simp add: tags_ok_def)
  have keys: "\<And>x. x \<in> set (add_tag k v ts) \<Longrightarrow> tag_key x = k \<or> tag_key x \<in> tag_key ` set ts"
    using tag_keys_add_tag [of k v ts] by auto
  have hd: "\<forall>x \<in> set ts. tag_key t < tag_key x" using Cons.prems by (simp add: tags_ok_def)
  show ?case
    using Cons.prems ih hd by (auto simp: tags_ok_def dest!: keys)
qed (simp add: tags_ok_def)

lemma tags_ok_remove_tag: "tags_ok ts \<Longrightarrow> tags_ok (remove_tag k ts)"
proof (induction ts)
  case (Cons t ts)
  then show ?case using set_remove_tag [of k ts] by (auto simp: tags_ok_def)
qed simp

lemma tags_ok_distinct: "tags_ok ts \<Longrightarrow> distinct (List.map tag_key ts)"
  unfolding tags_ok_def using strict_sorted_iff by blast

lemma get_tag_notin: "k \<notin> set (List.map tag_key ts) \<Longrightarrow> get_tag ts k = None"
  by (induction ts) auto

lemma get_tag_add_tag:
  "tags_ok ts \<Longrightarrow> get_tag (add_tag k v ts) x = (if x = k then Some v else get_tag ts x)"
proof (induction ts)
  case (Cons t ts)
  then have "tags_ok ts" by (simp add: tags_ok_def)
  with Cons show ?case by auto
qed simp

lemma get_tag_remove_tag:
  "tags_ok ts \<Longrightarrow> get_tag (remove_tag k ts) x = (if x = k then None else get_tag ts x)"
proof (induction ts)
  case (Cons t ts)
  then have ok: "tags_ok ts" "tag_key t \<notin> set (List.map tag_key ts)" by (auto simp: tags_ok_def)
  with Cons show ?case using get_tag_notin [of "tag_key t" ts] by auto
qed simp

interpretation tag_store: keyed_store get_tag add_tag remove_tag "\<lambda>v. v" tags_ok
  by unfold_locales
    (simp_all add: get_tag_add_tag get_tag_remove_tag tags_ok_add_tag tags_ok_remove_tag)

lemma has_tag_iff: "has_tag ts k \<longleftrightarrow> get_tag ts k \<noteq> None"
  by (induction ts) auto

text \<open>A tag list is determined by its lookups: sorted lists are canonical.\<close>

lemma get_tag_eq_Some: "tags_ok ts \<Longrightarrow> get_tag ts k = Some v \<longleftrightarrow> \<lparr>tag_key = k, tag_value = v\<rparr> \<in> set ts"
proof (induction ts)
  case (Cons t ts)
  then have ok: "tags_ok ts" "\<forall>x \<in> set ts. tag_key t < tag_key x" by (auto simp: tags_ok_def)
  show ?case
  proof (cases "tag_key t = k")
    case True
    then have "\<lparr>tag_key = k, tag_value = v\<rparr> \<notin> set ts" using ok(2) by auto
    with True show ?thesis by (cases t) auto
  next
    case False
    with Cons.IH [OF ok(1)] show ?thesis by auto
  qed
qed simp

lemma tags_canonical:
  assumes "tags_ok ts" "tags_ok ts'" "get_tag ts = get_tag ts'"
  shows "ts = ts'"
proof -
  have "t \<in> set ts \<longleftrightarrow> t \<in> set ts'" for t
    using assms get_tag_eq_Some [of _ "tag_key t" "tag_value t"] by (metis tag.surjective unit.exhaust)
  then have "set ts = set ts'" by auto
  moreover have "sort_key tag_key ts = ts" "sort_key tag_key ts' = ts'"
    using assms(1,2) strict_sorted_imp_sorted
    by (auto simp: tags_ok_def intro!: sorted_sort_id sort_key_id_if_sorted)
  ultimately show ?thesis
    using sort_key_set_eq [of tag_key ts ts'] assms(1,2) tags_ok_distinct by metis
qed


subsection \<open>Fields\<close>

fun put_field :: "string \<Rightarrow> gval \<Rightarrow> field list \<Rightarrow> field list" where
  "put_field key value [] = [\<lparr>field_key = key, field_value = convertField value\<rparr>]"
| "put_field key value (f # fs) =
     (if key = field_key f then \<lparr>field_key = key, field_value = convertField value\<rparr> # fs
      else f # put_field key value fs)"

fun get_field :: "field list \<Rightarrow> string \<Rightarrow> gval option" where
  "get_field [] key = None"
| "get_field (f # fs) key = (if field_key f = key then Some (field_value f) else get_field fs key)"

fun has_field :: "field list \<Rightarrow> string \<Rightarrow> bool" where
  "has_field [] key = False"
| "has_field (f # fs) key = (field_key f = key \<or> has_field fs key)"

fun remove_field :: "string \<Rightarrow> field list \<Rightarrow> field list" where
  "remove_field key [] = []"
| "remove_field key (f # fs) = (if field_key f = key then fs else f # remove_field key fs)"

definition fields_ok :: "field list \<Rightarrow> bool" where
  "fields_ok fs \<longleftrightarrow> distinct (List.map field_key fs)
     \<and> list_all (\<lambda>f. convertField (field_value f) = field_value f) fs"

lemma field_keys_put: "set (List.map field_key (put_field k v fs)) = insert k (set (List.map field_key fs))"
  by (induction fs) auto

lemma set_remove_field: "set (remove_field k fs) \<subseteq> set fs"
  by (induction fs) auto

lemma fields_ok_put: "fields_ok fs \<Longrightarrow> fields_ok (put_field k v fs)"
proof (induction fs)
  case (Cons f fs)
  then show ?case using field_keys_put [of k v fs] by (auto simp: fields_ok_def)
qed (simp add: fields_ok_def)

lemma fields_ok_remove: "fields_ok fs \<Longrightarrow> fields_ok (remove_field k fs)"
proof (induction fs)
  case (Cons f fs)
  then show ?case using set_remove_field [of k fs] by (auto simp: fields_ok_def)
qed simp

lemma get_field_notin: "k \<notin> set (List.map field_key fs) \<Longrightarrow> get_field fs k = None"
  by (induction fs) auto

lemma get_field_put:
  "get_field (put_field k v fs) x = (if x = k then Some (convertField v) else get_field fs x)"
  by (induction fs) auto

lemma get_field_remove:
  "fields_ok fs \<Longrightarrow> get_field (remove_field k fs) x = (if x = k then None else get_field fs x)"
proof (induction fs)
  case (Cons f fs)
  then have ok: "fields_ok fs" "field_key f \<notin> set (List.map field_key fs)"
    by (auto simp: fields_ok_def)
  with Cons show ?case using get_field_notin [of "field_key f" fs] by auto
qed simp

lemma get_field_converted:
  "fields_ok fs \<Longrightarrow> get_field fs k = Some v \<Longrightarrow> convertField v = v"
  by (induction fs) (auto simp: fields_ok_def split: if_splits)

interpretation field_store: keyed_store get_field put_field remove_field convertField fields_ok
  by unfold_locales
    (simp_all add: get_field_put get_field_remove fields_ok_put fields_ok_remove get_field_converted)

lemma has_field_iff: "has_field fs k \<longleftrightarrow> get_field fs k \<noteq> None"
  by (induction fs) auto

lemma get_field_Some_set: "get_field fs k = Some v \<Longrightarrow> \<lparr>field_key = k, field_value = v\<rparr> \<in> set fs"
  by (induction fs) (auto split: if_splits)

lemma get_field_set: "fields_ok fs \<Longrightarrow> f \<in> set fs \<Longrightarrow> get_field fs (field_key f) = Some (field_value f)"
  by (induction fs) (auto simp: fields_ok_def)

subsection \<open>The operations of a metric\<close>

definition SetName :: "string \<Rightarrow> metric \<Rightarrow> metric" where
  "SetName n m = m\<lparr>m_name := n\<rparr>"

definition AddPrefix :: "string \<Rightarrow> metric \<Rightarrow> metric" where
  "AddPrefix p m = m\<lparr>m_name := p @ m_name m\<rparr>"

definition AddSuffix :: "string \<Rightarrow> metric \<Rightarrow> metric" where
  "AddSuffix s m = m\<lparr>m_name := m_name m @ s\<rparr>"

definition AddTag :: "string \<Rightarrow> string \<Rightarrow> metric \<Rightarrow> metric" where
  "AddTag k v m = m\<lparr>m_tags := add_tag k v (m_tags m)\<rparr>"

definition HasTag :: "metric \<Rightarrow> string \<Rightarrow> bool" where
  "HasTag m k = has_tag (m_tags m) k"

definition GetTag :: "metric \<Rightarrow> string \<Rightarrow> string option" where
  "GetTag m k = get_tag (m_tags m) k"

definition RemoveTag :: "string \<Rightarrow> metric \<Rightarrow> metric" where
  "RemoveTag k m = m\<lparr>m_tags := remove_tag k (m_tags m)\<rparr>"

definition AddField :: "string \<Rightarrow> gval \<Rightarrow> metric \<Rightarrow> metric" where
  "AddField k v m = m\<lparr>m_fields := put_field k v (m_fields m)\<rparr>"

definition HasField :: "metric \<Rightarrow> string \<Rightarrow> bool" where
  "HasField m k = has_field (m_fields m) k"

definition GetField :: "metric \<Rightarrow> string \<Rightarrow> gval option" where
  "GetField m k = get_field (m_fields m) k"

definition RemoveField :: "string \<Rightarrow> metric \<Rightarrow> metric" where
  "RemoveField k m = m\<lparr>m_fields := remove_field k (m_fields m)\<rparr>"

definition SetTime :: "int \<Rightarrow> metric \<Rightarrow> metric" where
  "SetTime t m = m\<lparr>m_tm := t\<rparr>"

text \<open>The argument of \<open>SetAggregate\<close> is not used.\<close>

definition SetAggregate :: "bool \<Rightarrow> metric \<Rightarrow> metric" where
  "SetAggregate b m = m\<lparr>m_aggregate := True\<rparr>"

definition Tags :: "metric \<Rightarrow> strmap" where
  "Tags m = fold (\<lambda>t tags. AList.update (tag_key t) (tag_value t) tags) (m_tags m) []"

definition Fields :: "metric \<Rightarrow> (string, gval) gomap" where
  "Fields m = fold (\<lambda>f fs. AList.update (field_key f) (field_value f) fs) (m_fields m) []"

text \<open>
  \<open>New\<close>: the tags sorted by key, the fields whose value can be converted. The error result
  of the source is always \<open>nil\<close>.
\<close>

definition New_tags :: "strmap \<Rightarrow> tag list" where
  "New_tags tags = sort_key tag_key (List.map (\<lambda>kv. \<lparr>tag_key = fst kv, tag_value = snd kv\<rparr>) tags)"

definition New_fields :: "(string, gval) gomap \<Rightarrow> field list" where
  "New_fields fs =
     fold (\<lambda>(k, v) acc. let v' = convertField v in if v' = GNil then acc else put_field k v' acc) fs []"

definition New :: "string \<Rightarrow> strmap \<Rightarrow> (string, gval) gomap \<Rightarrow> int \<Rightarrow> value_type option \<Rightarrow> metric" where
  "New name tags fs tm tp =
     \<lparr>m_name = name, m_tags = New_tags tags, m_fields = New_fields fs, m_tm = tm,
      m_tp = (case tp of Some t \<Rightarrow> t | None \<Rightarrow> Untyped), m_aggregate = False\<rparr>"

definition metric_ok :: "metric \<Rightarrow> bool" where
  "metric_ok m \<longleftrightarrow> tags_ok (m_tags m) \<and> fields_ok (m_fields m)"

definition metric_typed :: "metric \<Rightarrow> bool" where
  "metric_typed m \<longleftrightarrow> list_all (\<lambda>f. field_value_ok (field_value f)) (m_fields m)"

text \<open>\<open>HashID\<close>: FNV-1a over the name and the tags, each ended by a newline.\<close>

definition fnv1a_step :: "u64 \<Rightarrow> char \<Rightarrow> u64" where
  "fnv1a_step h c = (h XOR of_char c) * 1099511628211"

definition fnv1a :: "string \<Rightarrow> u64" where
  "fnv1a s = foldl fnv1a_step 14695981039346656037 s"

definition hash_bytes :: "metric \<Rightarrow> string" where
  "hash_bytes m = m_name m @ [CHR 0x0A]
     @ concat (List.map (\<lambda>t. tag_key t @ [CHR 0x0A] @ tag_value t @ [CHR 0x0A]) (m_tags m))"

definition HashID :: "metric \<Rightarrow> u64" where
  "HashID m = fnv1a (hash_bytes m)"


subsection \<open>Lookups and well-formedness\<close>

lemma metric_ok_simps [simp]:
  "metric_ok m \<Longrightarrow> metric_ok (SetName n m)" "metric_ok m \<Longrightarrow> metric_ok (AddPrefix n m)"
  "metric_ok m \<Longrightarrow> metric_ok (AddSuffix n m)" "metric_ok m \<Longrightarrow> metric_ok (AddTag k v m)"
  "metric_ok m \<Longrightarrow> metric_ok (RemoveTag k m)" "metric_ok m \<Longrightarrow> metric_ok (AddField k x m)"
  "metric_ok m \<Longrightarrow> metric_ok (RemoveField k m)" "metric_ok m \<Longrightarrow> metric_ok (SetTime t m)"
  "metric_ok m \<Longrightarrow> metric_ok (SetAggregate b m)"
  by (simp_all add: metric_ok_def SetName_def AddPrefix_def AddSuffix_def AddTag_def RemoveTag_def
      AddField_def RemoveField_def SetTime_def SetAggregate_def tag_store.ok_put tag_store.ok_del
      field_store.ok_put field_store.ok_del)

lemma GetTag_AddTag: "metric_ok m \<Longrightarrow> GetTag (AddTag k v m) x = (if x = k then Some v else GetTag m x)"
  by (simp add: GetTag_def AddTag_def metric_ok_def tag_store.get_put)

lemma GetTag_RemoveTag: "metric_ok m \<Longrightarrow> GetTag (RemoveTag k m) x = (if x = k then None else GetTag m x)"
  by (simp add: GetTag_def RemoveTag_def metric_ok_def tag_store.get_del)

lemma GetField_AddField:
  "GetField (AddField k v m) x = (if x = k then Some (convertField v) else GetField m x)"
  by (simp add: GetField_def AddField_def get_field_put)

lemma GetField_RemoveField:
  "metric_ok m \<Longrightarrow> GetField (RemoveField k m) x = (if x = k then None else GetField m x)"
  by (simp add: GetField_def RemoveField_def metric_ok_def field_store.get_del)

lemma metric_frame [simp]:
  "GetTag (AddField k v m) = GetTag m" "GetTag (RemoveField k m) = GetTag m"
  "GetField (AddTag k' w m) = GetField m" "GetField (RemoveTag k' m) = GetField m"
  "GetTag (SetName n m) = GetTag m" "GetField (SetName n m) = GetField m"
  "GetTag (AddPrefix n m) = GetTag m" "GetField (AddPrefix n m) = GetField m"
  "GetTag (AddSuffix n m) = GetTag m" "GetField (AddSuffix n m) = GetField m"
  "m_name (AddTag k' w m) = m_name m" "m_name (RemoveTag k' m) = m_name m"
  "m_name (AddField k v m) = m_name m" "m_name (RemoveField k m) = m_name m"
  "m_name (SetName n m) = n" "m_name (AddPrefix n m) = n @ m_name m"
  "m_name (AddSuffix n m) = m_name m @ n"
  by (simp_all add: fun_eq_iff GetTag_def GetField_def AddField_def RemoveField_def AddTag_def
      RemoveTag_def SetName_def AddPrefix_def AddSuffix_def)

lemma map_of_fold_update:
  "map_of (fold (\<lambda>x acc. AList.update (f x) (g x) acc) xs acc) k =
     (case map_of (rev (List.map (\<lambda>x. (f x, g x)) xs)) k of Some v \<Rightarrow> Some v | None \<Rightarrow> map_of acc k)"
  by (induction xs arbitrary: acc) (auto simp: map_laws map_add_def split: option.splits)

lemma gomap_ok_fold_update:
  "gomap_ok acc \<Longrightarrow> gomap_ok (fold (\<lambda>x acc. AList.update (f x) (g x) acc) xs acc)"
  by (induction xs arbitrary: acc) (auto simp: gomap_ok_update)

lemma gomap_ok_Tags [simp]: "gomap_ok (Tags m)" and gomap_ok_Fields [simp]: "gomap_ok (Fields m)"
  by (simp_all add: Tags_def Fields_def gomap_ok_fold_update)

lemma map_of_tag_list: "map_of (List.map (\<lambda>t. (tag_key t, tag_value t)) ts) = get_tag ts"
  by (induction ts) auto

lemma map_of_field_list: "map_of (List.map (\<lambda>f. (field_key f, field_value f)) fs) = get_field fs"
  by (induction fs) auto

lemma map_of_Tags: "metric_ok m \<Longrightarrow> map_of (Tags m) = GetTag m"
  unfolding Tags_def GetTag_def metric_ok_def
  using map_of_rev_distinct [of "List.map (\<lambda>t. (tag_key t, tag_value t)) (m_tags m)"]
  by (auto simp: fun_eq_iff map_of_fold_update map_of_tag_list comp_def tags_ok_distinct split: option.splits)

lemma map_of_Fields: "metric_ok m \<Longrightarrow> map_of (Fields m) = GetField m"
  unfolding Fields_def GetField_def metric_ok_def fields_ok_def
  using map_of_rev_distinct [of "List.map (\<lambda>f. (field_key f, field_value f)) (m_fields m)"]
  by (auto simp: fun_eq_iff map_of_fold_update map_of_field_list comp_def split: option.splits)

lemma map_sort_key: "List.map f (sort_key f xs) = sort (List.map f xs)"
proof (rule properties_for_sort [symmetric])
  show "mset (List.map f (sort_key f xs)) = mset (List.map f xs)" by simp
qed simp

lemma tags_ok_New: "gomap_ok tags \<Longrightarrow> tags_ok (New_tags tags)"
  by (simp add: New_tags_def tags_ok_def map_sort_key strict_sorted_iff comp_def split_def)

lemma get_tag_New: "gomap_ok tags \<Longrightarrow> get_tag (New_tags tags) k = map_of tags k"
proof -
  assume ok: "gomap_ok tags"
  have "get_tag (New_tags tags) k = Some v \<longleftrightarrow> map_of tags k = Some v" for v
    using get_tag_eq_Some [OF tags_ok_New [OF ok], of k v] ok
    by (force simp: New_tags_def map_of_eq_Some_iff image_iff)
  then show ?thesis by (metis not_None_eq)
qed

lemma fields_ok_New: "fields_ok (New_fields fs)"
proof -
  have "fields_ok acc \<Longrightarrow> fields_ok
      (fold (\<lambda>(k, v) acc. let v' = convertField v in if v' = GNil then acc else put_field k v' acc) fs acc)" for acc
    by (induction fs arbitrary: acc) (auto simp: Let_def field_store.ok_put)
  then show ?thesis by (simp add: New_fields_def fields_ok_def)
qed

definition convertible :: "(string, gval) gomap \<Rightarrow> string \<Rightarrow> gval option" where
  "convertible fs k = (case map_of fs k of None \<Rightarrow> None
     | Some v \<Rightarrow> if convertField v = GNil then None else Some (convertField v))"

lemma get_field_New:
  assumes "gomap_ok fs"
  shows "get_field (New_fields fs) k = convertible fs k"
proof -
  have "get_field (fold (\<lambda>(k, v) acc. let v' = convertField v in if v' = GNil then acc else put_field k v' acc) fs acc) k
      = (case convertible fs k of Some v \<Rightarrow> Some v | None \<Rightarrow> get_field acc k)" for acc
    using assms
  proof (induction fs arbitrary: acc)
    case (Cons kv fs)
    obtain a v where kv: "kv = (a, v)" by force
    with Cons.prems have "map_of fs a = None" by (simp add: map_of_eq_None_iff)
    then have "convertible fs a = None" by (simp add: convertible_def)
    with Cons kv show ?case
      by (auto simp: Let_def get_field_put convertible_def split: option.splits)
  qed (simp add: convertible_def)
  from this [of "[]"] show ?thesis by (simp add: New_fields_def split: option.splits)
qed

lemma metric_ok_New [simp]: "gomap_ok tags \<Longrightarrow> metric_ok (New n tags fs t tp)"
  by (simp add: New_def metric_ok_def tags_ok_New fields_ok_New)

lemma metric_typed_put_field:
  "field_value_ok (convertField v) \<Longrightarrow> list_all (\<lambda>f. field_value_ok (field_value f)) fs \<Longrightarrow>
   list_all (\<lambda>f. field_value_ok (field_value f)) (put_field k v fs)"
  by (induction fs) auto

lemma metric_typed_New: "metric_typed (New n tags fs t tp)"
proof -
  have "list_all (\<lambda>f. field_value_ok (field_value f)) acc \<Longrightarrow>
    list_all (\<lambda>f. field_value_ok (field_value f))
      (fold (\<lambda>(k, v) acc. let v' = convertField v in if v' = GNil then acc else put_field k v' acc) fs acc)" for acc
    by (induction fs arbitrary: acc) (auto simp: Let_def convertField_ok metric_typed_put_field)
  then show ?thesis by (simp add: metric_typed_def New_def New_fields_def)
qed

text \<open>
  A metric made by \<open>New\<close> from a tag map and a field map has sorted tags and distinct fields,
  every field value has a supported type, each tag reads back as given, and each field reads
  back converted, or is absent when its value cannot be converted.
\<close>

theorem New_correct:
  assumes "gomap_ok tags" "gomap_ok fs"
  shows "metric_ok (New n tags fs t tp) \<and> metric_typed (New n tags fs t tp)
    \<and> GetTag (New n tags fs t tp) k = map_of tags k
    \<and> GetField (New n tags fs t tp) k = (case map_of fs k of None \<Rightarrow> None
         | Some v \<Rightarrow> if convertField v = GNil then None else Some (convertField v))"
  using assms metric_typed_New [of n tags fs t tp] get_field_New [OF assms(2), of k] get_tag_New [OF assms(1), of k]
  by (simp add: GetTag_def GetField_def New_def metric_ok_def convertible_def tags_ok_New fields_ok_New)

theorem New_correct_witness:
  "GetTag (New ''cpu'' [(''host'', ''b''), (''dc'', ''a'')] [(''x'', GInt8 255), (''y'', GOther ''chan'')] 7 None) ''dc'' = Some ''a''
   \<and> GetField (New ''cpu'' [(''host'', ''b''), (''dc'', ''a'')] [(''x'', GInt8 255), (''y'', GOther ''chan'')] 7 None) ''x'' = Some (GInt64 (- 1))"
  using New_correct [of "[(''host'', ''b''), (''dc'', ''a'')]" "[(''x'', GInt8 255), (''y'', GOther ''chan'')]"
      "''cpu''" 7 None "''dc''"]
    New_correct [of "[(''host'', ''b''), (''dc'', ''a'')]" "[(''x'', GInt8 255), (''y'', GOther ''chan'')]"
      "''cpu''" 7 None "''x''"]
  by simp

subsection \<open>Histories of a metric\<close>

text \<open>Every method that changes a metric, as one step.\<close>

datatype metric_op =
    MSetName string | MAddPrefix string | MAddSuffix string
  | MAddTag string string | MRemoveTag string
  | MAddField string gval | MRemoveField string
  | MSetTime int | MSetAggregate bool

fun metric_step :: "metric_op \<Rightarrow> metric \<Rightarrow> metric" where
  "metric_step (MSetName n) m = SetName n m"
| "metric_step (MAddPrefix p) m = AddPrefix p m"
| "metric_step (MAddSuffix s) m = AddSuffix s m"
| "metric_step (MAddTag k v) m = AddTag k v m"
| "metric_step (MRemoveTag k) m = RemoveTag k m"
| "metric_step (MAddField k v) m = AddField k v m"
| "metric_step (MRemoveField k) m = RemoveField k m"
| "metric_step (MSetTime t) m = SetTime t m"
| "metric_step (MSetAggregate b) m = SetAggregate b m"

lemma metric_ok_step: "metric_ok m \<Longrightarrow> metric_ok (metric_step op m)"
  by (cases op) simp_all

lemma metric_ok_steps: "metric_ok m \<Longrightarrow> metric_ok (fold metric_step ops m)"
  by (induction ops arbitrary: m) (simp_all add: metric_ok_step)

lemma aggregate_step: "m_aggregate m \<Longrightarrow> m_aggregate (metric_step op m)"
  by (cases op) (simp_all add: SetName_def AddPrefix_def AddSuffix_def AddTag_def RemoveTag_def
      AddField_def RemoveField_def SetTime_def SetAggregate_def)

text \<open>
  C9. Whatever sequence of methods is called on a new metric, its tag list stays strictly sorted
  by key and its field keys stay distinct, so the map views \<open>Tags()\<close> and \<open>Fields()\<close> agree with
  the lookups \<open>GetTag\<close> and \<open>GetField\<close>.
\<close>

theorem metric_history_ok:
  assumes "gomap_ok tags"
  shows "let m = fold metric_step ops (New n tags fs t tp)
    in sorted_wrt (<) (List.map tag_key (m_tags m)) \<and> distinct (List.map field_key (m_fields m))
       \<and> map_of (Tags m) = GetTag m \<and> map_of (Fields m) = GetField m"
proof -
  have ok: "metric_ok (fold metric_step ops (New n tags fs t tp))"
    using metric_ok_steps assms by simp
  then show ?thesis
    using map_of_Tags [OF ok] map_of_Fields [OF ok]
    by (simp add: Let_def metric_ok_def tags_ok_def fields_ok_def)
qed

theorem metric_history_ok_witness:
  "let m = fold metric_step [MAddTag ''b'' ''2'', MAddTag ''a'' ''3'', MRemoveTag ''b''] (New ''n'' [(''c'', ''1'')] [] 0 None)
   in map_of (Tags m) = GetTag m"
  using metric_history_ok [of "[(''c'', ''1'')]" "[MAddTag ''b'' ''2'', MAddTag ''a'' ''3'', MRemoveTag ''b'']" "''n''" "[]" 0 None]
  by (simp add: Let_def)

subsection \<open>The series hash\<close>

lemma New_tags_order:
  assumes "gomap_ok tags" "gomap_ok tags'" "map_of tags = map_of tags'"
  shows "New_tags tags = New_tags tags'"
  using tags_canonical [OF tags_ok_New [OF assms(1)] tags_ok_New [OF assms(2)]]
    get_tag_New [OF assms(1)] get_tag_New [OF assms(2)] assms(3) by (simp add: fun_eq_iff)

text \<open>
  The hash of a new metric depends on its name and on its tags as a map only: not on the
  order in which the tag map was visited, nor on fields, time and type.
\<close>

theorem HashID_New_tag_order:
  assumes "gomap_ok tags" "gomap_ok tags'" "map_of tags = map_of tags'"
  shows "HashID (New n tags fs t tp) = HashID (New n tags' fs' t' tp')"
  using New_tags_order [OF assms] by (simp add: HashID_def hash_bytes_def New_def)

theorem HashID_New_tag_order_witness:
  "HashID (New ''cpu'' [(''b'', ''1''), (''a'', ''2'')] [] 0 None)
   = HashID (New ''cpu'' [(''a'', ''2''), (''b'', ''1'')] [(''v'', GNil)] 5 (Some Gauge))"
  by (rule HashID_New_tag_order) (auto simp: fun_eq_iff)

lemma newline_end:
  assumes "CHR 0x0A \<notin> set a" "CHR 0x0A \<notin> set b"
  shows "a @ CHR 0x0A # x = b @ CHR 0x0A # y \<longleftrightarrow> a = b \<and> x = y"
  using assms
proof (induction a arbitrary: b)
  case Nil
  then show ?case by (cases b) auto
next
  case (Cons c a)
  then show ?case by (cases b) auto
qed

definition no_newline :: "metric \<Rightarrow> bool" where
  "no_newline m \<longleftrightarrow> CHR 0x0A \<notin> set (m_name m)
     \<and> list_all (\<lambda>t. CHR 0x0A \<notin> set (tag_key t) \<and> CHR 0x0A \<notin> set (tag_value t)) (m_tags m)"

lemma hash_tags_inj:
  fixes ts ts' :: "tag list"
  assumes "list_all (\<lambda>t. CHR 0x0A \<notin> set (tag_key t) \<and> CHR 0x0A \<notin> set (tag_value t)) ts"
    "list_all (\<lambda>t. CHR 0x0A \<notin> set (tag_key t) \<and> CHR 0x0A \<notin> set (tag_value t)) ts'"
    "concat (List.map (\<lambda>t. tag_key t @ [CHR 0x0A] @ tag_value t @ [CHR 0x0A]) ts)
     = concat (List.map (\<lambda>t. tag_key t @ [CHR 0x0A] @ tag_value t @ [CHR 0x0A]) ts')"
  shows "ts = ts'"
  using assms
proof (induction ts arbitrary: ts')
  case Nil
  then show ?case by (cases ts') auto
next
  case (Cons t ts)
  then obtain t' ts'' where ts': "ts' = t' # ts''" by (cases ts') auto
  with Cons.prems have "tag_key t = tag_key t'" "tag_value t = tag_value t'" "ts = ts''"
    using Cons.IH [of ts''] by (auto simp: newline_end)
  then show ?case using ts' by (cases t; cases t') simp
qed

text \<open>
  Without newlines in names, tag keys and tag values the bytes that \<open>HashID\<close> hashes
  identify the series: equal bytes mean equal name and equal tags.
\<close>

theorem hash_bytes_identify_series:
  assumes "no_newline m" "no_newline m'" "hash_bytes m = hash_bytes m'"
  shows "m_name m = m_name m' \<and> m_tags m = m_tags m'"
  using assms hash_tags_inj [of "m_tags m" "m_tags m'"]
  by (auto simp: no_newline_def hash_bytes_def newline_end)

theorem hash_bytes_identify_series_witness:
  "m_tags (New ''cpu'' [(''b'', ''1''), (''a'', ''2'')] [] 0 None)
   = m_tags (New ''cpu'' [(''a'', ''2''), (''b'', ''1'')] [] 1 None)"
  using hash_bytes_identify_series [of "New ''cpu'' [(''b'', ''1''), (''a'', ''2'')] [] 0 None"
      "New ''cpu'' [(''a'', ''2''), (''b'', ''1'')] [] 1 None"]
  by (simp add: no_newline_def hash_bytes_def New_def New_tags_def)

text \<open>
  With newlines the hash does not identify the series: a metric whose name contains the
  encoding of a tag has the hash of the metric with that tag, for any name, key and value.
\<close>

theorem HashID_newline_collision:
  "HashID (New (n @ [CHR 0x0A] @ k @ [CHR 0x0A] @ v) [] fs t tp) = HashID (New n [(k, v)] fs t tp)"
  by (simp add: HashID_def hash_bytes_def New_def New_tags_def)

subsection \<open>The builder\<close>

text \<open>
  \<open>metric/builder.go\<close>: the metric under construction, and the clock and precision that date it
  when it has no time. The zero time is January 1 of year 1, in nanoseconds since 1970.
\<close>

definition zero_time :: int where
  "zero_time = - 62135596800 * 10 ^ 9"

definition time_truncate :: "int \<Rightarrow> int \<Rightarrow> int" where
  "time_truncate t d = (if d \<le> 0 then t else t - (t - zero_time) mod d)"

record builder =
  b_time_func :: int
  b_precision :: int
  b_metric :: metric

definition Builder_Reset :: "builder \<Rightarrow> builder" where
  "Builder_Reset b = b\<lparr>b_metric := \<lparr>m_name = [], m_tags = [], m_fields = [], m_tm = zero_time,
     m_tp = Untyped, m_aggregate = False\<rparr>\<rparr>"

definition NewBuilder :: "int \<Rightarrow> builder" where
  "NewBuilder now = Builder_Reset \<lparr>b_time_func = now, b_precision = 1,
     b_metric = \<lparr>m_name = [], m_tags = [], m_fields = [], m_tm = zero_time, m_tp = NoType,
       m_aggregate = False\<rparr>\<rparr>"

definition Builder_Metric :: "builder \<Rightarrow> builder \<times> metric" where
  "Builder_Metric b =
     (let b' = (if m_tm (b_metric b) = zero_time
                then b\<lparr>b_metric := SetTime (time_truncate (b_time_func b) (b_precision b)) (b_metric b)\<rparr>
                else b)
      in (b', b_metric b'))"

definition builder_step :: "metric_op \<Rightarrow> builder \<Rightarrow> builder" where
  "builder_step op b = b\<lparr>b_metric := metric_step op (b_metric b)\<rparr>"

end
