(* ===== verification/NameFilter.thy ===== *)
theory NameFilter
  imports Metric
begin

section \<open>Filters\<close>

text \<open>
  \<open>filter/filter.go\<close> (matching one string against a list of patterns) and
  \<open>internal/models/filter.go\<close> (the drop and pass rules of a plugin). The glob compiler is a
  third-party package: it is the parameter \<open>gl\<close>, which gives the matcher of a pattern, or
  \<open>None\<close> for a pattern it refuses.
\<close>

type_synonym glob_compiler = "string \<Rightarrow> (string \<Rightarrow> bool) option"

subsection \<open>One list of patterns\<close>

datatype sfilter = FSet "string list" | FSingle string | FGlob "string \<Rightarrow> bool"
  | FIncExc "sfilter option" "sfilter option"

fun Match :: "sfilter \<Rightarrow> string \<Rightarrow> bool" where
  "Match (FSet m) s = (s \<in> set m)"
| "Match (FSingle x) s = (x = s)"
| "Match (FGlob g) s = g s"
| "Match (FIncExc inc exc) s =
     (if (case inc of Some f \<Rightarrow> \<not> Match f s | None \<Rightarrow> False) then False
      else if (case exc of Some f \<Rightarrow> Match f s | None \<Rightarrow> False) then False
      else True)"

definition hasMeta :: "string \<Rightarrow> bool" where
  "hasMeta s = contains_any s ''*?[''"

lemma hasMeta_iff: "hasMeta p \<longleftrightarrow> CHR ''*'' \<in> set p \<or> CHR ''?'' \<in> set p \<or> CHR ''['' \<in> set p"
  unfolding hasMeta_def contains_any_def list_ex_iff list.set insert_iff empty_iff by blast

definition compileFilterNoGlob :: "string list \<Rightarrow> sfilter" where
  "compileFilterNoGlob filters =
     (if length filters = 1 then FSingle (hd filters) else FSet filters)"

text \<open>A \<open>nil\<close> filter is \<open>None\<close>.\<close>

definition Compile :: "glob_compiler \<Rightarrow> string list \<Rightarrow> sfilter option result" where
  "Compile gl filters =
     (if length filters = 0 then Inr None
      else if \<not> list_ex hasMeta filters then Inr (Some (compileFilterNoGlob filters))
      else let pat = (if length filters = 1 then hd filters
                      else ''{'' @ join '','' filters @ ''}'')
           in case gl pat of Some g \<Rightarrow> Inr (Some (FGlob g)) | None \<Rightarrow> Inl (Err ''glob''))"

definition NewIncludeExcludeFilter ::
  "glob_compiler \<Rightarrow> string list \<Rightarrow> string list \<Rightarrow> sfilter result" where
  "NewIncludeExcludeFilter gl include exclude =
     res_bind (Compile gl include) (\<lambda>inc.
       res_bind (Compile gl exclude) (\<lambda>exc. Inr (FIncExc inc exc)))"

text \<open>The two implementations without globs agree: the string is one of the patterns.\<close>

lemma Match_compileFilterNoGlob: "filters \<noteq> [] \<Longrightarrow> Match (compileFilterNoGlob filters) s \<longleftrightarrow> s \<in> set filters"
  by (cases filters) (auto simp: compileFilterNoGlob_def)

text \<open>
  A filter compiled from a list with no glob characters matches exactly the strings of the
  list, whatever the glob package does, with one string or with several; an empty list is no
  filter at all.
\<close>

theorem Compile_no_glob:
  assumes "\<forall>p \<in> set filters. CHR ''*'' \<notin> set p \<and> CHR ''?'' \<notin> set p \<and> CHR ''['' \<notin> set p"
  shows "if filters = [] then Compile gl filters = Inr None
    else \<exists>f. Compile gl filters = Inr (Some f) \<and> (\<forall>s. Match f s \<longleftrightarrow> s \<in> set filters)"
proof (cases "filters = []")
  case True
  then show ?thesis by (simp add: Compile_def)
next
  case False
  have meta: "\<not> hasMeta p" if "p \<in> set filters" for p
    by (simp only: hasMeta_iff bspec [OF assms that] simp_thms)
  have "\<not> list_ex hasMeta filters"
    by (simp add: list_ex_iff meta)
  with False have eq: "Compile gl filters = Inr (Some (compileFilterNoGlob filters))"
    by (simp add: Compile_def)
  have "\<exists>f. Compile gl filters = Inr (Some f) \<and> (\<forall>s. Match f s \<longleftrightarrow> s \<in> set filters)"
    by (rule exI [of _ "compileFilterNoGlob filters"])
      (simp only: eq Match_compileFilterNoGlob [OF False] simp_thms)
  then show ?thesis by (simp only: False if_False)
qed

theorem Compile_no_glob_witness:
  "\<exists>f. Compile (\<lambda>_. None) [''cpu'', ''mem''] = Inr (Some f)
    \<and> (\<forall>s. Match f s \<longleftrightarrow> s \<in> set [''cpu'', ''mem''])"
proof -
  have "\<forall>p \<in> set [''cpu'', ''mem'']. CHR ''*'' \<notin> set p \<and> CHR ''?'' \<notin> set p \<and> CHR ''['' \<notin> set p"
    by simp
  from Compile_no_glob [OF this, of "\<lambda>_. None"] show ?thesis
    by (simp only: list.distinct if_False)
qed

subsection \<open>The rules of a plugin\<close>

record tag_filter =
  tf_name :: string
  tf_pats :: "string list"
  tf_filter :: "sfilter option"

record filter_rules =
  NameDrop :: "string list"
  nameDrop :: "sfilter option"
  NamePass :: "string list"
  namePass :: "sfilter option"
  FieldDrop :: "string list"
  fieldDrop :: "sfilter option"
  FieldPass :: "string list"
  fieldPass :: "sfilter option"
  TagDrop :: "tag_filter list option"
  TagPass :: "tag_filter list option"
  TagExclude :: "string list"
  tagExclude :: "sfilter option"
  TagInclude :: "string list"
  tagInclude :: "sfilter option"
  isActive :: bool

abbreviation slice_elems :: "'a list option \<Rightarrow> 'a list" where
  "slice_elems xs \<equiv> (case xs of Some ys \<Rightarrow> ys | None \<Rightarrow> [])"

text \<open>
  \<open>Compile\<close> assigns the compiled filters one after the other and stops at the first error,
  leaving what it assigned so far; a step takes the patterns and the assignment.
\<close>

type_synonym compile_state = "filter_rules \<times> string option"

definition compile_step ::
  "glob_compiler \<Rightarrow> string \<Rightarrow> string list \<Rightarrow> (sfilter option \<Rightarrow> filter_rules \<Rightarrow> filter_rules)
     \<Rightarrow> compile_state \<Rightarrow> compile_state" where
  "compile_step gl rule pats assign st =
     (case st of (f, Some e) \<Rightarrow> (f, Some e)
      | (f, None) \<Rightarrow> (case Compile gl pats of
          Inr c \<Rightarrow> (assign c f, None)
        | Inl _ \<Rightarrow> (assign None f, Some rule)))"

fun compile_tags :: "glob_compiler \<Rightarrow> tag_filter list \<Rightarrow> tag_filter list \<times> bool" where
  "compile_tags gl [] = ([], True)"
| "compile_tags gl (t # ts) =
     (case Compile gl (tf_pats t) of
        Inr c \<Rightarrow> (case compile_tags gl ts of (ts', b) \<Rightarrow> (t\<lparr>tf_filter := c\<rparr> # ts', b))
      | Inl _ \<Rightarrow> (t\<lparr>tf_filter := None\<rparr> # ts, False))"

definition compile_tag_step ::
  "glob_compiler \<Rightarrow> string \<Rightarrow> tag_filter list option
     \<Rightarrow> (tag_filter list option \<Rightarrow> filter_rules \<Rightarrow> filter_rules) \<Rightarrow> compile_state \<Rightarrow> compile_state" where
  "compile_tag_step gl rule tfs assign st =
     (case st of (f, Some e) \<Rightarrow> (f, Some e)
      | (f, None) \<Rightarrow> (case tfs of None \<Rightarrow> (f, None)
        | Some ts \<Rightarrow> (case compile_tags gl ts of (ts', b) \<Rightarrow>
            (assign (Some ts') f, if b then None else Some rule))))"

definition Filter_Compile :: "glob_compiler \<Rightarrow> filter_rules \<Rightarrow> compile_state" where
  "Filter_Compile gl f =
     (if NameDrop f = [] \<and> NamePass f = [] \<and> FieldDrop f = [] \<and> FieldPass f = []
         \<and> TagInclude f = [] \<and> TagExclude f = []
         \<and> slice_elems (TagPass f) = [] \<and> slice_elems (TagDrop f) = []
      then (f, None)
      else compile_tag_step gl ''tagpass'' (TagPass f) (\<lambda>c. TagPass_update (\<lambda>_. c))
          (compile_tag_step gl ''tagdrop'' (TagDrop f) (\<lambda>c. TagDrop_update (\<lambda>_. c))
          (compile_step gl ''taginclude'' (TagInclude f) (\<lambda>c. tagInclude_update (\<lambda>_. c))
          (compile_step gl ''tagexclude'' (TagExclude f) (\<lambda>c. tagExclude_update (\<lambda>_. c))
          (compile_step gl ''fieldpass'' (FieldPass f) (\<lambda>c. fieldPass_update (\<lambda>_. c))
          (compile_step gl ''fielddrop'' (FieldDrop f) (\<lambda>c. fieldDrop_update (\<lambda>_. c))
          (compile_step gl ''namepass'' (NamePass f) (\<lambda>c. namePass_update (\<lambda>_. c))
          (compile_step gl ''namedrop'' (NameDrop f) (\<lambda>c. nameDrop_update (\<lambda>_. c))
             (f\<lparr>isActive := True\<rparr>, None)))))))))"

text \<open>The common shape of \<open>shouldNamePass\<close> and \<open>shouldFieldPass\<close>.\<close>

definition pass_drop :: "sfilter option \<Rightarrow> sfilter option \<Rightarrow> string \<Rightarrow> bool" where
  "pass_drop ps dr key =
     (case (ps, dr) of
        (Some p, Some d) \<Rightarrow> Match p key \<and> \<not> Match d key
      | (Some p, None) \<Rightarrow> Match p key
      | (None, Some d) \<Rightarrow> \<not> Match d key
      | (None, None) \<Rightarrow> True)"

definition shouldNamePass :: "filter_rules \<Rightarrow> string \<Rightarrow> bool" where
  "shouldNamePass f key = pass_drop (namePass f) (nameDrop f) key"

definition shouldFieldPass :: "filter_rules \<Rightarrow> string \<Rightarrow> bool" where
  "shouldFieldPass f key = pass_drop (fieldPass f) (fieldDrop f) key"

text \<open>The loop of \<open>pass\<close> and \<open>drop\<close> over the tag rules: whether one of them matches.\<close>

fun some_tag_matches :: "tag_filter list \<Rightarrow> strmap \<Rightarrow> bool" where
  "some_tag_matches [] tags = False"
| "some_tag_matches (pat # pats) tags =
     (case tf_filter pat of
        None \<Rightarrow> some_tag_matches pats tags
      | Some g \<Rightarrow> (case map_of tags (tf_name pat) of
          Some tagval \<Rightarrow> if Match g tagval then True else some_tag_matches pats tags
        | None \<Rightarrow> some_tag_matches pats tags))"

definition shouldTagsPass :: "filter_rules \<Rightarrow> strmap \<Rightarrow> bool" where
  "shouldTagsPass f tags =
     (case (TagPass f, TagDrop f) of
        (Some p, Some d) \<Rightarrow> some_tag_matches p tags \<and> \<not> some_tag_matches d tags
      | (Some p, None) \<Rightarrow> some_tag_matches p tags
      | (None, Some d) \<Rightarrow> \<not> some_tag_matches d tags
      | (None, None) \<Rightarrow> True)"

definition filterTags :: "filter_rules \<Rightarrow> strmap \<Rightarrow> strmap" where
  "filterTags f tags =
     (let t1 = (case tagInclude f of Some g \<Rightarrow> List.filter (\<lambda>(k, v). Match g k) tags | None \<Rightarrow> tags)
      in case tagExclude f of Some g \<Rightarrow> List.filter (\<lambda>(k, v). \<not> Match g k) t1 | None \<Rightarrow> t1)"

text \<open>The verdict, and the fields and tags as the call leaves them.\<close>

definition Filter_Apply ::
  "filter_rules \<Rightarrow> string \<Rightarrow> (string, gval) gomap \<Rightarrow> strmap \<Rightarrow> bool \<times> (string, gval) gomap \<times> strmap" where
  "Filter_Apply f measurement flds tags =
     (if \<not> isActive f then (True, flds, tags)
      else if \<not> shouldNamePass f measurement then (False, flds, tags)
      else if \<not> shouldTagsPass f tags then (False, flds, tags)
      else let flds' = List.filter (\<lambda>(k, v). shouldFieldPass f k) flds
           in if flds' = [] then (False, flds', tags)
              else (True, flds', filterTags f tags))"

lemma some_tag_matches_iff:
  "some_tag_matches pats tags \<longleftrightarrow>
     (\<exists>p \<in> set pats. \<exists>g v. tf_filter p = Some g \<and> map_of tags (tf_name p) = Some v \<and> Match g v)"
  by (induction pats) (auto split: option.splits)

lemma map_of_filterTags:
  "map_of (filterTags f tags) k =
     (if (case tagInclude f of Some g \<Rightarrow> Match g k | None \<Rightarrow> True)
         \<and> (case tagExclude f of Some g \<Rightarrow> \<not> Match g k | None \<Rightarrow> True)
      then map_of tags k else None)"
  by (auto simp: filterTags_def Let_def map_laws simp del: filter_filter split: option.splits)

lemma gomap_ok_filterTags [inv_laws]: "gomap_ok tags \<Longrightarrow> gomap_ok (filterTags f tags)"
  by (auto simp: filterTags_def Let_def split: option.splits)

lemma Filter_Apply_ok:
  assumes "Filter_Apply f n flds tags = (b, flds', tags')" "gomap_ok flds" "gomap_ok tags"
  shows "gomap_ok flds'" "gomap_ok tags'" "set flds' \<subseteq> set flds"
    "b \<Longrightarrow> flds \<noteq> [] \<Longrightarrow> flds' \<noteq> []"
  using assms by (auto simp: Filter_Apply_def Let_def gomap_ok_filterTags gomap_ok_filter split: if_splits)

text \<open>
  The abstract rules: a key is wanted when the pass rule, if there is one, matches it and the drop
  rule, if there is one, does not; so a drop rule wins over a pass rule.
\<close>

definition wanted :: "sfilter option \<Rightarrow> sfilter option \<Rightarrow> string \<Rightarrow> bool" where
  "wanted ps dr k \<longleftrightarrow>
     (\<forall>p. ps = Some p \<longrightarrow> Match p k) \<and> (\<forall>d. dr = Some d \<longrightarrow> \<not> Match d k)"

definition tag_wanted :: "filter_rules \<Rightarrow> strmap \<Rightarrow> bool" where
  "tag_wanted f tags \<longleftrightarrow>
     (let hit = (\<lambda>ps. \<exists>p \<in> set ps. \<exists>g v. tf_filter p = Some g \<and> map_of tags (tf_name p) = Some v \<and> Match g v)
      in (\<forall>ps. TagPass f = Some ps \<longrightarrow> hit ps) \<and> (\<forall>ps. TagDrop f = Some ps \<longrightarrow> \<not> hit ps))"

lemma pass_drop_wanted: "pass_drop p d k = wanted p d k"
  by (auto simp: pass_drop_def wanted_def split: option.splits)

lemma shouldTagsPass_wanted: "shouldTagsPass f tags = tag_wanted f tags"
  by (auto simp: shouldTagsPass_def tag_wanted_def some_tag_matches_iff Let_def split: option.splits)

text \<open>
  C6. Refinement: an active filter accepts a metric exactly when its name is wanted, its tags are
  wanted and one of its fields is wanted. An accepted metric keeps exactly its wanted fields and
  the tags that the include rule names and the exclude rule does not; for names, fields and tags a
  drop rule wins over a pass rule.
\<close>

theorem Filter_Apply_spec:
  assumes "isActive f" "Filter_Apply f n flds tags = (b, flds', tags')"
  shows "(b \<longleftrightarrow> wanted (namePass f) (nameDrop f) n \<and> tag_wanted f tags
           \<and> (\<exists>(k, v) \<in> set flds. wanted (fieldPass f) (fieldDrop f) k))
    \<and> (b \<longrightarrow> (\<forall>k. map_of flds' k = (if wanted (fieldPass f) (fieldDrop f) k then map_of flds k else None))
           \<and> (\<forall>k. map_of tags' k = (if wanted (tagInclude f) (tagExclude f) k then map_of tags k else None)))"
proof -
  have ne: "List.filter (\<lambda>(k, v). P k) flds = [] \<longleftrightarrow> \<not> (\<exists>(k, v) \<in> set flds. P k)" for P
    by (auto simp: filter_empty_conv)
  have tg: "(case tagInclude f of Some g \<Rightarrow> Match g k | None \<Rightarrow> True)
      \<and> (case tagExclude f of Some g \<Rightarrow> \<not> Match g k | None \<Rightarrow> True)
      \<longleftrightarrow> wanted (tagInclude f) (tagExclude f) k" for k
    by (auto simp: wanted_def split: option.splits)
  show ?thesis
    using assms unfolding Filter_Apply_def Let_def shouldNamePass_def shouldFieldPass_def
      pass_drop_wanted shouldTagsPass_wanted ne
    by (auto simp: map_of_filterTags tg map_of_filter_keys split: if_splits)
qed

definition demo_rules :: filter_rules where
  "demo_rules = \<lparr>NameDrop = [], nameDrop = None, NamePass = [], namePass = None,
     FieldDrop = [''idle''], fieldDrop = None, FieldPass = [], fieldPass = None,
     TagDrop = None, TagPass = None, TagExclude = [''pid''], tagExclude = None,
     TagInclude = [], tagInclude = None, isActive = False\<rparr>"

theorem Filter_Apply_spec_witness:
  "let f = fst (Filter_Compile (\<lambda>_. None) demo_rules);
       (b, flds', tags') = Filter_Apply f ''cpu'' [(''idle'', GBool True), (''busy'', GBool False)] [(''pid'', ''1''), (''host'', ''a'')]
   in b \<and> map_of flds' ''idle'' = None \<and> map_of tags' ''host'' = Some ''a''"
proof -
  let ?f = "fst (Filter_Compile (\<lambda>_. None) demo_rules)"
  have eq: "?f = demo_rules\<lparr>isActive := True, fieldDrop := Some (FSingle ''idle''), tagExclude := Some (FSingle ''pid'')\<rparr>"
    by (simp add: Filter_Compile_def demo_rules_def compile_step_def compile_tag_step_def Compile_def
        hasMeta_def contains_any_def compileFilterNoGlob_def)
  have f: "isActive ?f" "Filter_Apply ?f ''cpu'' [(''idle'', GBool True), (''busy'', GBool False)] [(''pid'', ''1''), (''host'', ''a'')]
      = (True, [(''busy'', GBool False)], [(''host'', ''a'')])"
    by code_simp+
  have "map_of [(''busy'', GBool False)] ''idle'' = None" "map_of [(''host'', ''a'')] ''host'' = Some ''a''"
    using Filter_Apply_spec [OF f] unfolding eq by (simp_all add: wanted_def demo_rules_def)
  then show ?thesis using f(2) by simp
qed

lemma compile_step_NoneE:
  assumes "compile_step gl rule pats assign st = (f', None)"
  obtains f c where "st = (f, None)" "Compile gl pats = Inr c" "f' = assign c f"
  using assms by (cases st; cases "snd st"; cases "Compile gl pats") (auto simp: compile_step_def)

lemma compile_tag_step_None:
  "compile_tag_step gl rule tfs assign st = (f', None) \<Longrightarrow>
     \<exists>f. st = (f, None) \<and> (f' = f \<or> (\<exists>c. f' = assign c f))"
  by (cases st; cases "snd st"; cases tfs) (auto simp: compile_tag_step_def split: prod.splits)

text \<open>
  Compiling a rule set that has at least one rule, without an error, makes it active and
  gives each list of patterns the filter compiled from that list; a rule set with no rule stays
  as it was and reports no error.
\<close>

theorem Filter_Compile_ok:
  assumes "Filter_Compile gl f = (f', None)"
  shows "if NameDrop f = [] \<and> NamePass f = [] \<and> FieldDrop f = [] \<and> FieldPass f = []
         \<and> TagInclude f = [] \<and> TagExclude f = []
         \<and> slice_elems (TagPass f) = [] \<and> slice_elems (TagDrop f) = []
    then f' = f
    else isActive f' \<and> Compile gl (NameDrop f) = Inr (nameDrop f') \<and> Compile gl (NamePass f) = Inr (namePass f')
      \<and> Compile gl (FieldDrop f) = Inr (fieldDrop f') \<and> Compile gl (FieldPass f) = Inr (fieldPass f')
      \<and> Compile gl (TagExclude f) = Inr (tagExclude f') \<and> Compile gl (TagInclude f) = Inr (tagInclude f')"
proof (cases "NameDrop f = [] \<and> NamePass f = [] \<and> FieldDrop f = [] \<and> FieldPass f = []
         \<and> TagInclude f = [] \<and> TagExclude f = []
         \<and> slice_elems (TagPass f) = [] \<and> slice_elems (TagDrop f) = []")
  case True
  with assms show ?thesis unfolding Filter_Compile_def by simp
next
  case False
  note st = assms [unfolded Filter_Compile_def if_not_P [OF False]]
  obtain f1 f2 where tags: "f' = f1 \<or> (\<exists>c. f' = TagPass_update (\<lambda>_. c) f1)" "f1 = f2 \<or> (\<exists>c. f1 = TagDrop_update (\<lambda>_. c) f2)"
    and st2: "compile_step gl ''taginclude'' (TagInclude f) (\<lambda>c. tagInclude_update (\<lambda>_. c))
          (compile_step gl ''tagexclude'' (TagExclude f) (\<lambda>c. tagExclude_update (\<lambda>_. c))
          (compile_step gl ''fieldpass'' (FieldPass f) (\<lambda>c. fieldPass_update (\<lambda>_. c))
          (compile_step gl ''fielddrop'' (FieldDrop f) (\<lambda>c. fieldDrop_update (\<lambda>_. c))
          (compile_step gl ''namepass'' (NamePass f) (\<lambda>c. namePass_update (\<lambda>_. c))
          (compile_step gl ''namedrop'' (NameDrop f) (\<lambda>c. nameDrop_update (\<lambda>_. c))
             (f\<lparr>isActive := True\<rparr>, None)))))) = (f2, None)"
    using compile_tag_step_None [OF st] compile_tag_step_None by blast
  have "isActive f2 \<and> Compile gl (NameDrop f) = Inr (nameDrop f2) \<and> Compile gl (NamePass f) = Inr (namePass f2)
      \<and> Compile gl (FieldDrop f) = Inr (fieldDrop f2) \<and> Compile gl (FieldPass f) = Inr (fieldPass f2)
      \<and> Compile gl (TagExclude f) = Inr (tagExclude f2) \<and> Compile gl (TagInclude f) = Inr (tagInclude f2)"
    using st2 by (elim compile_step_NoneE) (clarsimp; elim compile_step_NoneE; clarsimp)+
  with tags show ?thesis unfolding if_not_P [OF False] by (elim disjE exE) simp_all
qed

theorem Filter_Compile_ok_witness:
  "isActive (fst (Filter_Compile (\<lambda>_. None) demo_rules))
   \<and> Inr (tagExclude (fst (Filter_Compile (\<lambda>_. None) demo_rules))) = Compile (\<lambda>_. None) [''pid'']"
proof -
  have "snd (Filter_Compile (\<lambda>_. None) demo_rules) = None" by code_simp
  then have "Filter_Compile (\<lambda>_. None) demo_rules = (fst (Filter_Compile (\<lambda>_. None) demo_rules), None)"
    by (simp add: prod_eq_iff)
  from Filter_Compile_ok [OF this] show ?thesis by (simp add: demo_rules_def)
qed

end
