(* ===== verification/MakeMetric.thy ===== *)
theory MakeMetric
  imports NameFilter
begin

section \<open>Making metrics\<close>

text \<open>
  \<open>internal/models/makemetric.go\<close>, \<open>internal/models/running_input.go\<close> and
  \<open>agent/accumulator.go\<close>: what a plugin hands to its accumulator becomes a metric with the
  overridden name, the plugin's and the agent's tags, filtered, dated and typed. The accumulator
  sees its plugin through the locale \<open>metric_maker\<close>. The channel of an accumulator is the list of
  the metrics sent to it; logging is left out.
\<close>

subsection \<open>\<open>makemetric\<close>\<close>

text \<open>
  The tag map may be \<open>nil\<close> (\<open>None\<close>). The call writes to the caller's maps, so its result has
  the metric, if any, and the two maps as it leaves them.
\<close>

definition qualified_name :: "string \<Rightarrow> string \<Rightarrow> string \<Rightarrow> string \<Rightarrow> string" where
  "qualified_name nameOverride namePrefix nameSuffix measurement =
     (let n1 = (if nameOverride \<noteq> [] then nameOverride else measurement);
          n2 = (if namePrefix \<noteq> [] then namePrefix @ n1 else n1)
      in if nameSuffix \<noteq> [] then n2 @ nameSuffix else n2)"

definition makemetric ::
  "string \<Rightarrow> (string, gval) gomap \<Rightarrow> strmap option \<Rightarrow> string \<Rightarrow> string \<Rightarrow> string \<Rightarrow> strmap \<Rightarrow> strmap
     \<Rightarrow> filter_rules \<Rightarrow> bool \<Rightarrow> value_type \<Rightarrow> int
     \<Rightarrow> metric option \<times> (string, gval) gomap \<times> strmap option" where
  "makemetric measurement flds tags nameOverride namePrefix nameSuffix pluginTags daemonTags f applyFilter mType t =
     (if flds = [] \<or> measurement = [] then (None, flds, tags)
      else
        let name = qualified_name nameOverride namePrefix nameSuffix measurement;
            tags1 = (case tags of None \<Rightarrow> [] | Some m \<Rightarrow> m);
            tags2 = add_missing daemonTags (add_missing pluginTags tags1);
            (ok, flds', tags3) =
              (if applyFilter then Filter_Apply f name flds tags2 else (True, flds, tags2));
            tags' = (case tags of None \<Rightarrow> None | Some _ \<Rightarrow> Some tags3)
        in if \<not> ok then (None, flds', tags')
           else (Some (New name tags3 flds' t (Some mType)), flds', tags'))"

text \<open>A nil map has no entries.\<close>

abbreviation map_entries :: "strmap option \<Rightarrow> strmap" where
  "map_entries tags \<equiv> (case tags of None \<Rightarrow> [] | Some m \<Rightarrow> m)"

lemma qualified_name_nonempty: "measurement \<noteq> [] \<Longrightarrow> qualified_name no pre suf measurement \<noteq> []"
  by (simp add: qualified_name_def Let_def)

lemma qualified_name_eq:
  "qualified_name no pre suf n = pre @ (if no \<noteq> [] then no else n) @ suf"
  by (simp add: qualified_name_def Let_def)

text \<open>The precedence of tags: the caller's, then the plugin's, then the agent's.\<close>

definition tag_choice :: "strmap option \<Rightarrow> strmap \<Rightarrow> strmap \<Rightarrow> string \<Rightarrow> string option" where
  "tag_choice tags pluginTags daemonTags k =
     (case map_of (map_entries tags) k of Some v \<Rightarrow> Some v
      | None \<Rightarrow> (case map_of pluginTags k of Some v \<Rightarrow> Some v | None \<Rightarrow> map_of daemonTags k))"

lemma map_of_all_tags:
  "map_of (add_missing daemonTags (add_missing pluginTags (map_entries tags))) k =
     tag_choice tags pluginTags daemonTags k"
  by (simp add: tag_choice_def map_laws split: option.splits)

definition filter_accepts :: "filter_rules \<Rightarrow> string \<Rightarrow> (string, gval) gomap \<Rightarrow> strmap \<Rightarrow> bool" where
  "filter_accepts f name flds tags \<longleftrightarrow> isActive f \<longrightarrow>
     wanted (namePass f) (nameDrop f) name \<and> tag_wanted f tags
     \<and> (\<exists>(k, v) \<in> set flds. wanted (fieldPass f) (fieldDrop f) k)"

lemma Filter_Apply_accepts: "fst (Filter_Apply f n flds tags) \<longleftrightarrow> filter_accepts f n flds tags"
proof -
  have ne: "List.filter (\<lambda>(k, v). P k) flds = [] \<longleftrightarrow> \<not> (\<exists>(k, v) \<in> set flds. P k)" for P
    by (auto simp: filter_empty_conv)
  show ?thesis
    unfolding Filter_Apply_def Let_def shouldNamePass_def shouldFieldPass_def pass_drop_wanted
      shouldTagsPass_wanted ne filter_accepts_def by simp
qed

lemma Filter_Apply_lookups:
  assumes "Filter_Apply f n flds tags = (True, flds', tags')"
  shows "map_of flds' k = (if isActive f \<longrightarrow> wanted (fieldPass f) (fieldDrop f) k then map_of flds k else None)"
    and "map_of tags' k = (if isActive f \<longrightarrow> wanted (tagInclude f) (tagExclude f) k then map_of tags k else None)"
proof -
  have tg: "(case tagInclude f of Some g \<Rightarrow> Match g k | None \<Rightarrow> True)
      \<and> (case tagExclude f of Some g \<Rightarrow> \<not> Match g k | None \<Rightarrow> True)
      \<longleftrightarrow> wanted (tagInclude f) (tagExclude f) k"
    by (auto simp: wanted_def split: option.splits)
  show "map_of flds' k = (if isActive f \<longrightarrow> wanted (fieldPass f) (fieldDrop f) k then map_of flds k else None)"
    using assms by (auto simp: Filter_Apply_def Let_def shouldFieldPass_def pass_drop_wanted
        map_of_filter_keys split: if_splits)
  show "map_of tags' k = (if isActive f \<longrightarrow> wanted (tagInclude f) (tagExclude f) k then map_of tags k else None)"
    using assms by (auto simp: Filter_Apply_def Let_def map_of_filterTags tg split: if_splits)
qed

text \<open>
  C5. Making a metric gives nothing exactly when there are no fields, no name or the plugin's
  filter rejects the renamed, tagged metric. Otherwise the metric is well formed, carries the
  prefix, the overriding name and the suffix, the time and the type; its tags come from the
  caller, then the plugin, then the agent, and its fields from the caller, both without what the
  filter drops.
\<close>

theorem makemetric_spec:
  assumes "gomap_ok flds" "gomap_ok (map_entries tags)"
  shows "let r = fst (makemetric measurement flds tags no pre suf pluginTags daemonTags f applyFilter mType t);
             name = pre @ (if no \<noteq> [] then no else measurement) @ suf;
             keep = (\<lambda>ps ds k. applyFilter \<and> isActive f \<longrightarrow> wanted ps ds k)
    in (r = None \<longleftrightarrow> flds = [] \<or> measurement = []
          \<or> applyFilter \<and> \<not> filter_accepts f name flds (add_missing daemonTags (add_missing pluginTags (map_entries tags))))
     \<and> (\<forall>m. r = Some m \<longrightarrow> metric_ok m \<and> metric_typed m \<and> m_name m = name \<and> m_tm m = t \<and> m_tp m = mType
         \<and> (\<forall>k. GetTag m k = (if keep (tagInclude f) (tagExclude f) k then tag_choice tags pluginTags daemonTags k else None))
         \<and> (\<forall>k. GetField m k = (if keep (fieldPass f) (fieldDrop f) k then convertible flds k else None)))"
proof -
  let ?name = "pre @ (if no \<noteq> [] then no else measurement) @ suf"
  let ?all = "add_missing daemonTags (add_missing pluginTags (map_entries tags))"
  obtain ok flds' tags' where fa:
    "(if applyFilter then Filter_Apply f ?name flds ?all else (True, flds, ?all)) = (ok, flds', tags')"
    by (metis prod_cases3)
  have all_ok: "gomap_ok ?all" using assms(2) by (intro gomap_ok_add_missing)
  have oks: "gomap_ok flds'" "gomap_ok tags'"
    using fa Filter_Apply_ok [of f ?name flds ?all ok flds' tags'] assms(1) all_ok by (auto split: if_splits)
  have acc: "ok \<longleftrightarrow> (applyFilter \<longrightarrow> filter_accepts f ?name flds ?all)"
    using fa Filter_Apply_accepts [of f ?name flds ?all] by (auto split: if_splits)
  have look: "ok \<Longrightarrow> map_of flds' k = (if applyFilter \<and> isActive f \<longrightarrow> wanted (fieldPass f) (fieldDrop f) k then map_of flds k else None)"
    "ok \<Longrightarrow> map_of tags' k = (if applyFilter \<and> isActive f \<longrightarrow> wanted (tagInclude f) (tagExclude f) k
        then tag_choice tags pluginTags daemonTags k else None)" for k
    using fa Filter_Apply_lookups [of f ?name flds ?all flds' tags' k] map_of_all_tags [of daemonTags pluginTags tags k]
    by (auto split: if_splits)
  have mm: "fst (makemetric measurement flds tags no pre suf pluginTags daemonTags f applyFilter mType t) =
      (if flds = [] \<or> measurement = [] \<or> \<not> ok then None else Some (New ?name tags' flds' t (Some mType)))"
    unfolding makemetric_def Let_def qualified_name_eq fa by simp
  have get: "GetTag (New ?name tags' flds' t (Some mType)) k = map_of tags' k"
    "GetField (New ?name tags' flds' t (Some mType)) k = convertible flds' k" for k
    using oks by (simp_all add: New_def GetTag_def GetField_def get_tag_New get_field_New)
  have conv: "ok \<Longrightarrow> convertible flds' k = (if applyFilter \<and> isActive f \<longrightarrow> wanted (fieldPass f) (fieldDrop f) k
      then convertible flds k else None)" for k
    using look(1) [of k] by (simp add: convertible_def)
  show ?thesis
    unfolding mm Let_def
    using acc look(2) conv oks by (auto simp: get metric_typed_New) (simp_all add: New_def)
qed

theorem makemetric_spec_witness:
  "GetTag (the (fst (makemetric ''cpu'' [(''x'', GBool True)] None '''' ''p_'' '''' [(''a'', ''1'')] [(''a'', ''2''), (''b'', ''3'')]
      demo_rules False Untyped 5))) ''a'' = Some ''1''"
proof -
  have "gomap_ok [(''x'', GBool True)]" "gomap_ok (map_entries None)" by simp_all
  from makemetric_spec [OF this, of "''cpu''" "''''" "''p_''" "''''" "[(''a'', ''1'')]" "[(''a'', ''2''), (''b'', ''3'')]"
      demo_rules False Untyped 5]
  show ?thesis by (auto simp: Let_def tag_choice_def)
qed

subsection \<open>Interface: a metric maker\<close>

text \<open>
  The interface \<open>MetricMaker\<close> that an accumulator uses: a call may change the maker's state (its
  counters). What the accumulator relies on: a made metric is well formed and has the time and
  type of the call, and nothing is made without a name or fields.
\<close>

locale metric_maker =
  fixes mk :: "'s \<Rightarrow> string \<Rightarrow> (string, gval) gomap \<Rightarrow> strmap option \<Rightarrow> value_type \<Rightarrow> int
    \<Rightarrow> 's \<times> metric option"
  assumes made_ok: "mk s n flds tags tp t = (s', Some m) \<Longrightarrow> gomap_ok (map_entries tags) \<Longrightarrow>
      metric_ok m \<and> metric_typed m"
    and made_stamp: "mk s n flds tags tp t = (s', Some m) \<Longrightarrow> m_tm m = t \<and> m_tp m = tp"
    and made_nonempty: "mk s n flds tags tp t = (s', Some m) \<Longrightarrow> n \<noteq> [] \<and> flds \<noteq> [] \<and> m_name m \<noteq> []"

subsection \<open>Rounding of times\<close>

text \<open>\<open>time.Time.Round\<close>: to the nearest multiple of the duration since the zero time, halves up.\<close>

definition time_round :: "int \<Rightarrow> int \<Rightarrow> int" where
  "time_round t d =
     (if d \<le> 0 then t
      else let r = (t - zero_time) mod d in if r + r < d then t - r else t + (d - r))"

lemma time_round_multiple:
  assumes "0 < d"
  shows "(time_round t d - zero_time) mod d = 0"
proof -
  let ?r = "(t - zero_time) mod d"
  have "d dvd (t - zero_time) - ?r" by (rule dvd_minus_mod)
  then have "d dvd t - ?r - zero_time" "d dvd t + (d - ?r) - zero_time"
    using dvd_add [OF \<open>d dvd (t - zero_time) - ?r\<close> dvd_refl] by (simp_all add: algebra_simps)
  then show ?thesis using assms by (simp add: time_round_def Let_def)
qed

lemma time_round_near:
  assumes "0 < d"
  shows "2 * \<bar>time_round t d - t\<bar> \<le> d"
  using assms pos_mod_bound [OF assms, of "t - zero_time"] pos_mod_sign [OF assms, of "t - zero_time"]
  by (auto simp: time_round_def Let_def abs_if)

subsection \<open>Running inputs\<close>

record input_config =
  ic_name :: string
  ic_name_override :: string
  ic_prefix :: string
  ic_suffix :: string
  ic_tags :: strmap
  ic_filter :: filter_rules
  ic_interval :: int

record running_input =
  ri_config :: input_config
  ri_trace :: bool
  ri_default_tags :: strmap
  ri_metrics_gathered :: i64

definition NewRunningInput :: "input_config \<Rightarrow> i64 \<Rightarrow> running_input" where
  "NewRunningInput config registered =
     \<lparr>ri_config = config, ri_trace = False, ri_default_tags = [], ri_metrics_gathered = registered\<rparr>"

definition RunningInput_Name :: "running_input \<Rightarrow> string" where
  "RunningInput_Name r = ''inputs.'' @ ic_name (ri_config r)"

definition SetTrace :: "bool \<Rightarrow> running_input \<Rightarrow> running_input" where
  "SetTrace b r = r\<lparr>ri_trace := b\<rparr>"

definition SetDefaultTags :: "strmap \<Rightarrow> running_input \<Rightarrow> running_input" where
  "SetDefaultTags tags r = r\<lparr>ri_default_tags := tags\<rparr>"

text \<open>
  Tracing serializes the metric with sorted fields, which sorts the metric's own field list. The
  counter of the input and the agent's counter grow also when no metric was made.
\<close>

definition trace_metric :: "metric \<Rightarrow> metric" where
  "trace_metric m = m\<lparr>m_fields := sort_key field_key (m_fields m)\<rparr>"

definition RunningInput_MakeMetric ::
  "running_input \<times> i64 \<Rightarrow> string \<Rightarrow> (string, gval) gomap \<Rightarrow> strmap option \<Rightarrow> value_type \<Rightarrow> int
     \<Rightarrow> (running_input \<times> i64) \<times> metric option" where
  "RunningInput_MakeMetric st measurement flds tags mType t =
     (let r = fst st; c = ri_config r;
          m = fst (makemetric measurement flds tags (ic_name_override c) (ic_prefix c) (ic_suffix c)
                 (ic_tags c) (ri_default_tags r) (ic_filter c) True mType t);
          m' = (if ri_trace r then map_option trace_metric m else m)
      in ((r\<lparr>ri_metrics_gathered := ri_metrics_gathered r + 1\<rparr>, snd st + 1), m'))"

lemma makemetric_Some:
  assumes "fst (makemetric measurement flds tags no pre suf pluginTags daemonTags f applyFilter mType t) = Some m"
  shows "\<exists>tags' flds'. m = New (qualified_name no pre suf measurement) tags' flds' t (Some mType)
     \<and> (gomap_ok (map_entries tags) \<longrightarrow> gomap_ok tags')"
    and "measurement \<noteq> []" "flds \<noteq> []"
proof -
  let ?name = "qualified_name no pre suf measurement"
  let ?all = "add_missing daemonTags (add_missing pluginTags (map_entries tags))"
  obtain ok flds' tags' where fa:
    "(if applyFilter then Filter_Apply f ?name flds ?all else (True, flds, ?all)) = (ok, flds', tags')"
    by (metis prod_cases3)
  have "gomap_ok ?all \<Longrightarrow> gomap_ok tags'"
    using fa by (auto simp: Filter_Apply_def Let_def gomap_ok_filterTags split: if_splits)
  moreover have "gomap_ok (map_entries tags) \<Longrightarrow> gomap_ok ?all" by (intro gomap_ok_add_missing)
  moreover have "m = New ?name tags' flds' t (Some mType)" and ne: "measurement \<noteq> []" "flds \<noteq> []"
    using assms unfolding makemetric_def Let_def fa by (auto split: if_splits)
  ultimately show "\<exists>tags' flds'. m = New ?name tags' flds' t (Some mType)
     \<and> (gomap_ok (map_entries tags) \<longrightarrow> gomap_ok tags')" by blast
  show "measurement \<noteq> []" "flds \<noteq> []" using ne .
qed

lemma trace_metric_ok: "metric_ok m \<Longrightarrow> metric_ok (trace_metric m)"
  by (auto simp: metric_ok_def trace_metric_def fields_ok_def map_sort_key list_all_iff)

lemma trace_metric_typed: "metric_typed m \<Longrightarrow> metric_typed (trace_metric m)"
  by (simp add: metric_typed_def trace_metric_def list_all_iff)

lemma RunningInput_MakeMetric_made:
  assumes "RunningInput_MakeMetric s n flds tags tp t = (s', Some m)"
  obtains tags' flds' nm where "m = New nm tags' flds' t (Some tp) \<or> m = trace_metric (New nm tags' flds' t (Some tp))"
    "gomap_ok (map_entries tags) \<longrightarrow> gomap_ok tags'" "n \<noteq> []" "flds \<noteq> []" "nm \<noteq> []"
proof -
  let ?c = "ri_config (fst s)"
  obtain m0 where m0: "fst (makemetric n flds tags (ic_name_override ?c) (ic_prefix ?c) (ic_suffix ?c)
      (ic_tags ?c) (ri_default_tags (fst s)) (ic_filter ?c) True tp t) = Some m0"
    and m: "m = m0 \<or> m = trace_metric m0"
    using assms by (auto simp: RunningInput_MakeMetric_def Let_def split: if_splits)
  from makemetric_Some [OF m0] qualified_name_nonempty m that show ?thesis by metis
qed

interpretation input_maker: metric_maker RunningInput_MakeMetric
proof unfold_locales
  fix s s' :: "running_input \<times> i64" and n flds tags tp t m
  assume a: "RunningInput_MakeMetric s n flds tags tp t = (s', Some m)"
  show "m_tm m = t \<and> m_tp m = tp"
    using a by (rule RunningInput_MakeMetric_made) (auto simp: New_def trace_metric_def)
  show "n \<noteq> [] \<and> flds \<noteq> [] \<and> m_name m \<noteq> []"
    using a by (rule RunningInput_MakeMetric_made) (auto simp: New_def trace_metric_def)
  assume "gomap_ok (map_entries tags)"
  with a show "metric_ok m \<and> metric_typed m"
    by (elim RunningInput_MakeMetric_made)
      (auto simp: metric_typed_New trace_metric_ok trace_metric_typed)
qed

subsection \<open>The accumulator\<close>

text \<open>
  The accumulator holds its maker's state, the metrics sent so far and a precision; \<open>NErrors\<close> is
  the agent's error counter. The variadic time is a list of which the first entry counts;
  \<open>now\<close> is the clock.
\<close>

record 's accumulator =
  ac_maker :: 's
  ac_metrics :: "metric list"
  ac_precision :: int

definition NewAccumulator :: "'s \<Rightarrow> 's accumulator" where
  "NewAccumulator maker = \<lparr>ac_maker = maker, ac_metrics = [], ac_precision = 1\<rparr>"

definition getTime :: "int \<Rightarrow> int list \<Rightarrow> 's accumulator \<Rightarrow> int" where
  "getTime now ts ac = time_round (case ts of t # _ \<Rightarrow> t | [] \<Rightarrow> now) (ac_precision ac)"

text \<open>
  The five \<open>Add\<close> methods have the same body, each with its value type; the first argument is the
  maker's \<open>MakeMetric\<close>.
\<close>

type_synonym 's maker =
  "'s \<Rightarrow> string \<Rightarrow> (string, gval) gomap \<Rightarrow> strmap option \<Rightarrow> value_type \<Rightarrow> int \<Rightarrow> 's \<times> metric option"

definition acc_add ::
  "'s maker \<Rightarrow> value_type \<Rightarrow> int \<Rightarrow> string \<Rightarrow> (string, gval) gomap \<Rightarrow> strmap option \<Rightarrow> int list
     \<Rightarrow> 's accumulator \<Rightarrow> 's accumulator" where
  "acc_add mk tp now measurement flds tags ts ac =
     (case mk (ac_maker ac) measurement flds tags tp (getTime now ts ac) of
        (s', Some m) \<Rightarrow> ac\<lparr>ac_maker := s', ac_metrics := ac_metrics ac @ [m]\<rparr>
      | (s', None) \<Rightarrow> ac\<lparr>ac_maker := s'\<rparr>)"

definition AddFields where "AddFields mk = acc_add mk Untyped"
definition AddGauge where "AddGauge mk = acc_add mk Gauge"
definition AddCounter where "AddCounter mk = acc_add mk Counter"
definition AddSummary where "AddSummary mk = acc_add mk Summary"
definition AddHistogram where "AddHistogram mk = acc_add mk Histogram"

definition AddError :: "string option \<Rightarrow> i64 \<Rightarrow> i64" where
  "AddError err nerrors = (if err = None then nerrors else nerrors + 1)"

definition SetPrecision :: "int \<Rightarrow> int \<Rightarrow> 's accumulator \<Rightarrow> 's accumulator" where
  "SetPrecision precision interval ac =
     (if precision > 0 then ac\<lparr>ac_precision := precision\<rparr>
      else if interval \<ge> 10 ^ 9 then ac\<lparr>ac_precision := 10 ^ 9\<rparr>
      else if interval \<ge> 10 ^ 6 then ac\<lparr>ac_precision := 10 ^ 6\<rparr>
      else if interval \<ge> 10 ^ 3 then ac\<lparr>ac_precision := 10 ^ 3\<rparr>
      else ac\<lparr>ac_precision := 1\<rparr>)"

text \<open>A run of an input: the calls a plugin makes on its accumulator, each at its own clock time.\<close>

datatype acc_call =
    CAdd value_type int string "(string, gval) gomap" "strmap option" "int list"
  | CPrecision int int

fun acc_call_ok :: "acc_call \<Rightarrow> bool" where
  "acc_call_ok (CAdd tp now n flds tags ts) = gomap_ok (map_entries tags)"
| "acc_call_ok (CPrecision p i) = True"

fun acc_step :: "'s maker \<Rightarrow> acc_call \<Rightarrow> 's accumulator \<Rightarrow> 's accumulator" where
  "acc_step mk (CAdd tp now n flds tags ts) ac = acc_add mk tp now n flds tags ts ac"
| "acc_step mk (CPrecision p i) ac = SetPrecision p i ac"

lemma SetPrecision_pos: "0 < ac_precision (SetPrecision p i ac)"
  by (simp add: SetPrecision_def)

lemma acc_step_precision_pos: "0 < ac_precision ac \<Longrightarrow> 0 < ac_precision (acc_step mk c ac)"
  by (cases c) (auto simp: acc_add_def SetPrecision_pos split: prod.splits option.splits)

lemma getTime_rounded:
  "0 < ac_precision ac \<Longrightarrow> (getTime now ts ac - zero_time) mod ac_precision ac = 0"
  by (simp add: getTime_def time_round_multiple)

context metric_maker
begin

lemma acc_add_sends:
  assumes "gomap_ok (map_entries tags)"
  obtains (sent) m where "ac_metrics (acc_add mk tp now n flds tags ts ac) = ac_metrics ac @ [m]"
      "metric_ok m" "metric_typed m" "m_tp m = tp" "m_tm m = getTime now ts ac" "n \<noteq> []" "flds \<noteq> []" "m_name m \<noteq> []"
  | (unsent) "ac_metrics (acc_add mk tp now n flds tags ts ac) = ac_metrics ac"
proof -
  obtain s' om where mk: "mk (ac_maker ac) n flds tags tp (getTime now ts ac) = (s', om)" by force
  show ?thesis
  proof (cases om)
    case None
    with mk show ?thesis by (intro unsent) (simp add: acc_add_def)
  next
    case (Some m)
    note mk' = mk [unfolded Some]
    have "ac_metrics (acc_add mk tp now n flds tags ts ac) = ac_metrics ac @ [m]"
      using mk' by (simp add: acc_add_def)
    with made_ok [OF mk' assms] made_stamp [OF mk'] made_nonempty [OF mk']
    show ?thesis by (intro sent [of m]) simp_all
  qed
qed

lemma acc_steps_ok:
  assumes "list_all acc_call_ok cs"
    "list_all (\<lambda>m. metric_ok m \<and> metric_typed m \<and> m_name m \<noteq> []) (ac_metrics ac)"
  shows "list_all (\<lambda>m. metric_ok m \<and> metric_typed m \<and> m_name m \<noteq> []) (ac_metrics (fold (acc_step mk) cs ac))"
  using assms
proof (induction cs arbitrary: ac)
  case (Cons c cs)
  have "list_all (\<lambda>m. metric_ok m \<and> metric_typed m \<and> m_name m \<noteq> []) (ac_metrics (acc_step mk c ac))"
  proof (cases c)
    case (CAdd tp now n flds tags ts)
    with Cons.prems have "gomap_ok (map_entries tags)" by auto
    then show ?thesis
      by (cases rule: acc_add_sends [where tp = tp and now = now and n = n and flds = flds and ts = ts and ac = ac])
        (use CAdd Cons.prems in auto)
  next
    case (CPrecision p i)
    with Cons.prems show ?thesis by (simp add: SetPrecision_def)
  qed
  with Cons.IH [of "acc_step mk c ac"] Cons.prems show ?case by simp
qed simp

end

text \<open>
  C13. Whatever an input calls on its accumulator, every metric it sends is well formed, has only
  supported field types and a name.
\<close>

theorem accumulator_sends_ok:
  assumes "list_all acc_call_ok cs"
  shows "list_all (\<lambda>m. metric_ok m \<and> metric_typed m \<and> m_name m \<noteq> [])
    (ac_metrics (fold (acc_step RunningInput_MakeMetric) cs (NewAccumulator (r, n))))"
  by (rule input_maker.acc_steps_ok [OF assms]) (simp add: NewAccumulator_def)

definition demo_input :: running_input where
  "demo_input = NewRunningInput \<lparr>ic_name = ''cpu'', ic_name_override = [], ic_prefix = [], ic_suffix = [],
     ic_tags = [], ic_filter = demo_rules, ic_interval = 10 ^ 10\<rparr> 0"

theorem accumulator_sends_ok_witness:
  "ac_metrics (fold (acc_step RunningInput_MakeMetric)
      [CAdd Gauge 1500 ''cpu'' [(''x'', GBool True)] None [], CAdd Gauge 1500 ''mem'' [] None []]
      (NewAccumulator (demo_input, 0))) = [New ''cpu'' [] [(''x'', GBool True)] 1500 (Some Gauge)]
   \<and> list_all (\<lambda>m. metric_ok m \<and> metric_typed m \<and> m_name m \<noteq> []) [New ''cpu'' [] [(''x'', GBool True)] 1500 (Some Gauge)]"
proof -
  let ?cs = "[CAdd Gauge 1500 ''cpu'' [(''x'', GBool True)] None [], CAdd Gauge 1500 ''mem'' [] None []]"
  have "list_all acc_call_ok ?cs" by simp
  note main = accumulator_sends_ok [OF this, of demo_input 0]
  have "ac_metrics (fold (acc_step RunningInput_MakeMetric) ?cs (NewAccumulator (demo_input, 0)))
    = [New ''cpu'' [] [(''x'', GBool True)] 1500 (Some Gauge)]"
    by code_simp
  with main show ?thesis by simp
qed

text \<open>
  A metric sent to the channel has the value type of the method called and a time that is the
  given one, or the clock when none is given, rounded to a multiple of the precision and moved by
  at most half of it.
\<close>

theorem accumulator_time_and_type:
  assumes "0 < ac_precision ac" "gomap_ok (map_entries tags)"
    "ac_metrics (acc_add RunningInput_MakeMetric tp now n flds tags ts ac) = ac_metrics ac @ [m]"
  shows "m_tp m = tp \<and> (m_tm m - zero_time) mod ac_precision ac = 0
    \<and> 2 * \<bar>m_tm m - (case ts of t # _ \<Rightarrow> t | [] \<Rightarrow> now)\<bar> \<le> ac_precision ac"
  using assms(2)
proof (cases rule: input_maker.acc_add_sends [where tp = tp and now = now and n = n and flds = flds and ts = ts and ac = ac])
  case (sent m')
  then have "m = m'" using assms(3) by simp
  with sent show ?thesis
    using getTime_rounded [OF assms(1)] time_round_near [OF assms(1)] by (simp add: getTime_def)
next
  case unsent
  with assms(3) show ?thesis by simp
qed

theorem accumulator_time_and_type_witness:
  "m_tm (New ''cpu'' [] [(''x'', GBool True)] 2000000000 (Some Counter)) mod 1000000000 = 0
   \<and> 2 * \<bar>m_tm (New ''cpu'' [] [(''x'', GBool True)] 2000000000 (Some Counter)) - 1600000000\<bar> \<le> 1000000000"
proof -
  let ?ac = "SetPrecision 0 (10 ^ 10) (NewAccumulator (demo_input, 0))"
  have "0 < ac_precision ?ac" by (rule SetPrecision_pos)
  moreover have "gomap_ok (map_entries None)" by simp
  moreover have "ac_metrics (acc_add RunningInput_MakeMetric Counter 5 ''cpu'' [(''x'', GBool True)] None [1600000000] ?ac)
      = ac_metrics ?ac @ [New ''cpu'' [] [(''x'', GBool True)] 2000000000 (Some Counter)]"
    by code_simp
  ultimately show ?thesis
    using accumulator_time_and_type [of ?ac None Counter 5 "''cpu''" "[(''x'', GBool True)]" "[1600000000]"]
    by (simp add: SetPrecision_def NewAccumulator_def zero_time_def New_def)
qed

end
