(* ===== verification/RunningAggregator.thy ===== *)
theory RunningAggregator
  imports MakeMetric
begin

section \<open>Running aggregators\<close>

text \<open>
  \<open>internal/models/running_aggregator.go\<close>: an aggregator plugin with its filter, its channel of
  incoming metrics and its current period. The plugin is a parameter (three functions on a state of
  any type; the aggregators of the repository are modelled in \<open>Aggregators\<close>). The loop of \<open>Run\<close> is a
  step relation, because the select statement chooses between the channel, the period ticker and
  the shutdown signal, and other goroutines add metrics between its steps. Times are nanoseconds.
\<close>

record aggregator_config =
  agc_name :: string
  agc_DropOriginal :: bool
  agc_NameOverride :: string
  agc_MeasurementPrefix :: string
  agc_MeasurementSuffix :: string
  agc_Tags :: strmap
  agc_Filter :: filter_rules
  agc_Period :: int
  agc_Delay :: int

text \<open>
  A push turns the plugin's state into calls on its accumulator; the first argument is the clock.
\<close>

record 'a aggregator_plugin =
  ap_Add :: "metric \<Rightarrow> 'a \<Rightarrow> 'a"
  ap_Push :: "int \<Rightarrow> 'a \<Rightarrow> acc_call list"
  ap_Reset :: "'a \<Rightarrow> 'a"

record 'a running_aggregator =
  ra_plugin :: 'a
  ra_config :: aggregator_config
  ra_metrics :: "metric list"
  ra_periodStart :: int
  ra_periodEnd :: int

definition NewRunningAggregator :: "'a \<Rightarrow> aggregator_config \<Rightarrow> 'a running_aggregator" where
  "NewRunningAggregator a conf =
     \<lparr>ra_plugin = a, ra_config = conf, ra_metrics = [], ra_periodStart = zero_time, ra_periodEnd = zero_time\<rparr>"

definition RunningAggregator_Name :: "'a running_aggregator \<Rightarrow> string" where
  "RunningAggregator_Name r = ''aggregators.'' @ agc_name (ra_config r)"

text \<open>Made without the agent's tags and without the filter, and marked as an aggregate.\<close>

definition RunningAggregator_MakeMetric ::
  "aggregator_config \<Rightarrow> string \<Rightarrow> (string, gval) gomap \<Rightarrow> strmap option \<Rightarrow> value_type \<Rightarrow> int
     \<Rightarrow> aggregator_config \<times> metric option" where
  "RunningAggregator_MakeMetric c measurement flds tags mType t =
     (let m = fst (makemetric measurement flds tags (agc_NameOverride c) (agc_MeasurementPrefix c)
                (agc_MeasurementSuffix c) (agc_Tags c) [] (agc_Filter c) False mType t)
      in (c, map_option (SetAggregate True) m))"

interpretation aggregator_maker: metric_maker RunningAggregator_MakeMetric
proof unfold_locales
  fix c c' :: aggregator_config and n flds tags tp t m
  assume a: "RunningAggregator_MakeMetric c n flds tags tp t = (c', Some m)"
  then obtain m0 where m0: "fst (makemetric n flds tags (agc_NameOverride c) (agc_MeasurementPrefix c)
      (agc_MeasurementSuffix c) (agc_Tags c) [] (agc_Filter c) False tp t) = Some m0" "m = SetAggregate True m0"
    by (auto simp: RunningAggregator_MakeMetric_def Let_def)
  from makemetric_Some [OF m0(1)] obtain tags' flds' where
    new: "m0 = New (qualified_name (agc_NameOverride c) (agc_MeasurementPrefix c) (agc_MeasurementSuffix c) n) tags' flds' t (Some tp)"
    "gomap_ok (map_entries tags) \<longrightarrow> gomap_ok tags'" "n \<noteq> []" "flds \<noteq> []" by auto
  show "m_tm m = t \<and> m_tp m = tp" by (simp add: m0 new SetAggregate_def New_def)
  show "n \<noteq> [] \<and> flds \<noteq> [] \<and> m_name m \<noteq> []"
    using new qualified_name_nonempty by (simp add: m0 SetAggregate_def) (simp add: New_def)
  assume "gomap_ok (map_entries tags)"
  then have "metric_ok m0" "metric_typed m0" using new by (simp_all add: metric_typed_New)
  then show "metric_ok m \<and> metric_typed m" by (simp add: m0(2)) (simp add: metric_typed_def SetAggregate_def)
qed

lemma RunningAggregator_MakeMetric_aggregate:
  "RunningAggregator_MakeMetric c n flds tags tp t = (c', Some m) \<Longrightarrow> m_aggregate m"
  by (auto simp: RunningAggregator_MakeMetric_def Let_def SetAggregate_def)

text \<open>
  \<open>Add\<close>: the metric the filter leaves (rebuilt without its type) goes to the channel; the
  answer tells whether the caller drops its own copy.
\<close>

definition filter_incoming :: "filter_rules \<Rightarrow> metric \<Rightarrow> metric option" where
  "filter_incoming f m =
     (if isActive f then
        (case Filter_Apply f (m_name m) (Fields m) (Tags m) of
           (False, _, _) \<Rightarrow> None
         | (True, flds, tags) \<Rightarrow> Some (New (m_name m) tags flds (m_tm m) None))
      else Some m)"

definition RunningAggregator_Add :: "metric \<Rightarrow> 'a running_aggregator \<Rightarrow> 'a running_aggregator \<times> bool" where
  "RunningAggregator_Add m r =
     (case filter_incoming (agc_Filter (ra_config r)) m of
        None \<Rightarrow> (r, False)
      | Some m' \<Rightarrow> (r\<lparr>ra_metrics := ra_metrics r @ [m']\<rparr>, agc_DropOriginal (ra_config r)))"

definition ra_add :: "'a aggregator_plugin \<Rightarrow> metric \<Rightarrow> 'a running_aggregator \<Rightarrow> 'a running_aggregator" where
  "ra_add api m r = r\<lparr>ra_plugin := ap_Add api m (ra_plugin r)\<rparr>"

definition ra_push ::
  "'a aggregator_plugin \<Rightarrow> int \<Rightarrow> aggregator_config accumulator \<Rightarrow> 'a running_aggregator \<Rightarrow> aggregator_config accumulator" where
  "ra_push api now acc r = fold (acc_step RunningAggregator_MakeMetric) (ap_Push api now (ra_plugin r)) acc"

definition ra_reset :: "'a aggregator_plugin \<Rightarrow> 'a running_aggregator \<Rightarrow> 'a running_aggregator" where
  "ra_reset api r = r\<lparr>ra_plugin := ap_Reset api (ra_plugin r)\<rparr>"

subsection \<open>The loop\<close>

text \<open>
  The state of \<open>Run\<close>: the aggregator, its accumulator, the fraction of a second cut off the start,
  whether shutdown was signalled and whether the loop has returned.
\<close>

record 'a agg_loop =
  al_ra :: "'a running_aggregator"
  al_acc :: "aggregator_config accumulator"
  al_truncation :: int
  al_shutdown :: bool
  al_done :: bool

definition Run_init ::
  "int \<Rightarrow> 'a running_aggregator \<Rightarrow> aggregator_config accumulator \<Rightarrow> 'a agg_loop" where
  "Run_init now r acc =
     (let start = time_truncate now (10 ^ 9)
      in \<lparr>al_ra = r\<lparr>ra_periodStart := start, ra_periodEnd := start + agc_Period (ra_config r)\<rparr>,
          al_acc = acc, al_truncation = now - start, al_shutdown = False, al_done = False\<rparr>)"

definition in_window :: "'a agg_loop \<Rightarrow> metric \<Rightarrow> bool" where
  "in_window s m =
     (let r = al_ra s
      in \<not> (m_tm m < ra_periodStart r
            \<or> m_tm m > ra_periodEnd r + al_truncation s + agc_Delay (ra_config r)))"

definition agg_tick :: "'a aggregator_plugin \<Rightarrow> int \<Rightarrow> 'a agg_loop \<Rightarrow> 'a agg_loop" where
  "agg_tick api now s =
     (let r = al_ra s;
          r1 = r\<lparr>ra_periodStart := ra_periodEnd r,
                 ra_periodEnd := ra_periodEnd r + agc_Period (ra_config r)\<rparr>
      in s\<lparr>al_ra := ra_reset api r1, al_acc := ra_push api now (al_acc s) r1\<rparr>)"

text \<open>
  The events: another goroutine sends a metric (the channel holds 100) or signals shutdown; the
  loop takes a metric and feeds it to the plugin or skips it, pushes at a tick of the period
  ticker, or returns, which it does only when the channel is empty.
\<close>

datatype agg_event = Sent metric | Shut | Fed metric | Skipped metric | Ticked int | Returned

inductive agg_step :: "'a aggregator_plugin \<Rightarrow> 'a agg_loop \<Rightarrow> agg_event \<Rightarrow> 'a agg_loop \<Rightarrow> bool"
  for api :: "'a aggregator_plugin" where
  send: "length (ra_metrics (al_ra s)) < 100 \<Longrightarrow>
    agg_step api s (Sent m) (s\<lparr>al_ra := (al_ra s)\<lparr>ra_metrics := ra_metrics (al_ra s) @ [m]\<rparr>\<rparr>)"
| shut: "agg_step api s Shut (s\<lparr>al_shutdown := True\<rparr>)"
| feed: "\<not> al_done s \<Longrightarrow> ra_metrics (al_ra s) = m # ms \<Longrightarrow> in_window s m \<Longrightarrow>
    agg_step api s (Fed m) (s\<lparr>al_ra := ra_add api m ((al_ra s)\<lparr>ra_metrics := ms\<rparr>)\<rparr>)"
| skip: "\<not> al_done s \<Longrightarrow> ra_metrics (al_ra s) = m # ms \<Longrightarrow> \<not> in_window s m \<Longrightarrow>
    agg_step api s (Skipped m) (s\<lparr>al_ra := (al_ra s)\<lparr>ra_metrics := ms\<rparr>\<rparr>)"
| tick: "\<not> al_done s \<Longrightarrow> agg_step api s (Ticked now) (agg_tick api now s)"
| ret: "\<not> al_done s \<Longrightarrow> al_shutdown s \<Longrightarrow> ra_metrics (al_ra s) = [] \<Longrightarrow>
    agg_step api s Returned (s\<lparr>al_done := True\<rparr>)"

inductive_cases FedE: "agg_step api s (Fed m) s'"
inductive_cases TickedE: "agg_step api s (Ticked now) s'"
inductive_cases ReturnedE: "agg_step api s Returned s'"

inductive agg_run :: "'a aggregator_plugin \<Rightarrow> 'a agg_loop \<Rightarrow> agg_event list \<Rightarrow> 'a agg_loop \<Rightarrow> bool"
  for api :: "'a aggregator_plugin" where
  run_init: "agg_run api s [] s"
| run_step: "agg_run api s es s1 \<Longrightarrow> agg_step api s1 e s2 \<Longrightarrow> agg_run api s (es @ [e]) s2"

text \<open>What an event consumes from and puts into the channel.\<close>

fun consumed :: "agg_event \<Rightarrow> metric list" where
  "consumed (Fed m) = [m]" | "consumed (Skipped m) = [m]" | "consumed _ = []"

fun produced :: "agg_event \<Rightarrow> metric list" where
  "produced (Sent m) = [m]" | "produced _ = []"

fun is_tick :: "agg_event \<Rightarrow> bool" where
  "is_tick (Ticked _) = True" | "is_tick _ = False"

lemmas loop_defs = agg_tick_def ra_add_def ra_reset_def ra_push_def in_window_def Let_def

text \<open>One step: the channel keeps order, and only ticks move the window.\<close>

lemma agg_step_channel:
  "agg_step api s e s' \<Longrightarrow> consumed e @ ra_metrics (al_ra s') = ra_metrics (al_ra s) @ produced e"
  by (erule agg_step.cases) (simp_all add: loop_defs)

lemma agg_step_window:
  "agg_step api s e s' \<Longrightarrow> ra_config (al_ra s') = ra_config (al_ra s) \<and> al_truncation s' = al_truncation s
   \<and> ra_periodStart (al_ra s') = (if is_tick e then ra_periodEnd (al_ra s) else ra_periodStart (al_ra s))
   \<and> ra_periodEnd (al_ra s') = ra_periodEnd (al_ra s) + (if is_tick e then agc_Period (ra_config (al_ra s)) else 0)"
  by (erule agg_step.cases) (simp_all add: loop_defs)

lemma agg_step_returned:
  "agg_step api s e s' \<Longrightarrow> al_done s' \<Longrightarrow> e = Returned \<or> al_done s"
  by (erule agg_step.cases) (simp_all add: loop_defs)

lemma agg_run_channel:
  "agg_run api s es s' \<Longrightarrow>
     concat (List.map consumed es) @ ra_metrics (al_ra s') = ra_metrics (al_ra s) @ concat (List.map produced es)"
proof (induction rule: agg_run.induct)
  case (run_step s es s1 e s2)
  then show ?case using agg_step_channel [OF run_step.hyps(2)] by (simp flip: append_assoc) simp
qed simp

lemma agg_run_window:
  "agg_run api s es s' \<Longrightarrow> ra_periodEnd (al_ra s) = ra_periodStart (al_ra s) + agc_Period (ra_config (al_ra s)) \<Longrightarrow>
   ra_config (al_ra s') = ra_config (al_ra s) \<and> al_truncation s' = al_truncation s
   \<and> ra_periodStart (al_ra s') = ra_periodStart (al_ra s)
       + int (length (List.filter is_tick es)) * agc_Period (ra_config (al_ra s))
   \<and> ra_periodEnd (al_ra s') = ra_periodStart (al_ra s') + agc_Period (ra_config (al_ra s))"
proof (induction rule: agg_run.induct)
  case (run_step s es s1 e s2)
  then show ?case using agg_step_window [OF run_step.hyps(2)] by (auto simp: algebra_simps)
qed simp

subsection \<open>What a running aggregator promises\<close>

text \<open>
  C11. In the period after \<open>n\<close> ticks the aggregator is fed only metrics whose time lies between
  the \<open>n\<close>-th multiple of the period after the start, cut to the second, and the next multiple,
  extended by the cut fraction and the delay.
\<close>

theorem aggregator_period_window:
  assumes "agg_run api (Run_init now r acc) es s" "agg_step api s (Fed m) s'"
  shows "let start = time_truncate now (10 ^ 9); p = agc_Period (ra_config r); n = int (length (List.filter is_tick es))
    in start + n * p \<le> m_tm m \<and> m_tm m \<le> start + (n + 1) * p + (now - start) + agc_Delay (ra_config r)"
proof -
  from agg_run_window [OF assms(1)] have w: "ra_config (al_ra s) = ra_config r"
    "al_truncation s = now - time_truncate now (10 ^ 9)"
    "ra_periodStart (al_ra s) = time_truncate now (10 ^ 9) + int (length (List.filter is_tick es)) * agc_Period (ra_config r)"
    "ra_periodEnd (al_ra s) = ra_periodStart (al_ra s) + agc_Period (ra_config r)"
    by (simp_all add: Run_init_def Let_def)
  from assms(2) have "in_window s m" by (rule FedE)
  then show ?thesis using w by (simp add: in_window_def Let_def algebra_simps)
qed

text \<open>
  C12. When the loop returns at shutdown, every metric that was sent to the aggregator up to then
  has been fed to the plugin or skipped, in the order it was sent: none is left in the channel.
\<close>

theorem aggregator_returns_drained:
  assumes "agg_run api (Run_init now (NewRunningAggregator a conf) acc) es s" "agg_step api s Returned s'"
  shows "concat (List.map consumed es) = concat (List.map produced es) \<and> ra_metrics (al_ra s') = [] \<and> al_done s'"
proof -
  from assms(2) have e: "ra_metrics (al_ra s) = []" "s' = s\<lparr>al_done := True\<rparr>" by (auto elim: ReturnedE)
  from agg_run_channel [OF assms(1)] e show ?thesis by (simp add: Run_init_def Let_def NewRunningAggregator_def)
qed

text \<open>A small plugin: it counts the metrics of a period.\<close>

definition count_plugin :: "nat aggregator_plugin" where
  "count_plugin = \<lparr>ap_Add = (\<lambda>m n. n + 1),
     ap_Push = (\<lambda>now n. [CAdd Untyped now ''count'' [(''n'', GInt64 (of_nat n))] (Some []) []]), ap_Reset = (\<lambda>n. 0)\<rparr>"

definition demo_aggregator :: "nat running_aggregator" where
  "demo_aggregator = NewRunningAggregator 0 \<lparr>agc_name = ''count'', agc_DropOriginal = False, agc_NameOverride = [],
     agc_MeasurementPrefix = [], agc_MeasurementSuffix = [], agc_Tags = [], agc_Filter = demo_rules,
     agc_Period = 10 ^ 10, agc_Delay = 10 ^ 8\<rparr>"

definition demo_loop :: "nat agg_loop" where
  "demo_loop = Run_init 200000000 demo_aggregator (NewAccumulator (ra_config demo_aggregator))"

definition demo_sent :: "nat agg_loop" where
  "demo_sent = demo_loop\<lparr>al_ra := (al_ra demo_loop)\<lparr>ra_metrics := [New ''cpu'' [] [] (5 * 10 ^ 9) None]\<rparr>\<rparr>"

lemma demo_loop_run: "agg_run count_plugin demo_loop [Sent (New ''cpu'' [] [] (5 * 10 ^ 9) None)] demo_sent"
proof -
  have "agg_step count_plugin demo_loop (Sent (New ''cpu'' [] [] (5 * 10 ^ 9) None)) demo_sent"
    using agg_step.send [of demo_loop count_plugin]
    by (simp add: demo_loop_def demo_sent_def Run_init_def Let_def demo_aggregator_def NewRunningAggregator_def)
  from agg_run.run_step [OF agg_run.run_init this] show ?thesis by simp
qed

lemma demo_fed: "agg_step count_plugin demo_sent (Fed (New ''cpu'' [] [] (5 * 10 ^ 9) None))
    (demo_sent\<lparr>al_ra := ra_add count_plugin (New ''cpu'' [] [] (5 * 10 ^ 9) None) ((al_ra demo_sent)\<lparr>ra_metrics := []\<rparr>)\<rparr>)"
proof (rule agg_step.feed)
  show "in_window demo_sent (New ''cpu'' [] [] (5 * 10 ^ 9) None)" by code_simp
qed (simp_all add: demo_sent_def demo_loop_def Run_init_def Let_def)

theorem aggregator_period_window_witness:
  "m_tm (New ''cpu'' [] [] (5 * 10 ^ 9) None) \<le> time_truncate 200000000 (10 ^ 9) + 10 ^ 10
     + (200000000 - time_truncate 200000000 (10 ^ 9)) + 10 ^ 8"
  using aggregator_period_window [OF demo_loop_run [unfolded demo_loop_def] demo_fed]
  by (simp add: Let_def demo_aggregator_def NewRunningAggregator_def)

theorem aggregator_returns_drained_witness:
  "\<exists>s'. agg_step count_plugin (demo_loop\<lparr>al_shutdown := True\<rparr>) Returned s' \<and> ra_metrics (al_ra s') = [] \<and> al_done s'"
proof -
  let ?s = "demo_loop\<lparr>al_shutdown := True\<rparr>"
  have "agg_run count_plugin demo_loop ([] @ [Shut]) ?s"
    by (rule agg_run.run_step [OF agg_run.run_init agg_step.shut])
  moreover have "agg_step count_plugin ?s Returned (?s\<lparr>al_done := True\<rparr>)"
    by (rule agg_step.ret) (simp_all add: demo_loop_def Run_init_def Let_def demo_aggregator_def NewRunningAggregator_def)
  ultimately show ?thesis
    using aggregator_returns_drained [of count_plugin 200000000 0 "ra_config demo_aggregator"
        "NewAccumulator (ra_config demo_aggregator)" "[Shut]" ?s "?s\<lparr>al_done := True\<rparr>"]
    by (auto simp: demo_loop_def demo_aggregator_def NewRunningAggregator_def)
qed

text \<open>Everything a tick pushes is a well-formed metric marked as an aggregate.\<close>

lemma acc_steps_aggregate:
  "list_all m_aggregate (ac_metrics acc) \<Longrightarrow>
   list_all m_aggregate (ac_metrics (fold (acc_step RunningAggregator_MakeMetric) cs acc))"
proof (induction cs arbitrary: acc)
  case (Cons c cs)
  have "list_all m_aggregate (ac_metrics (acc_step RunningAggregator_MakeMetric c acc))"
  proof (cases c)
    case (CAdd tp now n flds tags ts)
    then show ?thesis using Cons.prems
      by (cases "RunningAggregator_MakeMetric (ac_maker acc) n flds tags tp (getTime now ts acc)"; cases "snd (RunningAggregator_MakeMetric (ac_maker acc) n flds tags tp (getTime now ts acc))")
        (auto simp: acc_add_def dest: RunningAggregator_MakeMetric_aggregate)
  next
    case (CPrecision p i)
    then show ?thesis using Cons.prems by (simp add: SetPrecision_def)
  qed
  then show ?case by (simp add: Cons.IH)
qed simp

text \<open>
  Every metric a tick pushes is well formed, has a name and supported field types, and is
  marked as an aggregate, whatever the plugin pushes; the window then moves on by one period
  and the plugin is reset.
\<close>

theorem aggregator_tick:
  assumes "list_all acc_call_ok (ap_Push api now (ra_plugin (al_ra s)))" "ac_metrics (al_acc s) = []"
  shows "let s' = agg_tick api now s
    in list_all (\<lambda>m. metric_ok m \<and> metric_typed m \<and> m_name m \<noteq> [] \<and> m_aggregate m) (ac_metrics (al_acc s'))
       \<and> ra_plugin (al_ra s') = ap_Reset api (ra_plugin (al_ra s))
       \<and> ra_periodStart (al_ra s') = ra_periodEnd (al_ra s)"
proof -
  let ?acc = "fold (acc_step RunningAggregator_MakeMetric) (ap_Push api now (ra_plugin (al_ra s))) (al_acc s)"
  have "list_all (\<lambda>m. metric_ok m \<and> metric_typed m \<and> m_name m \<noteq> []) (ac_metrics ?acc)"
    by (rule aggregator_maker.acc_steps_ok [OF assms(1)]) (simp add: assms(2))
  moreover have "list_all m_aggregate (ac_metrics ?acc)"
    by (rule acc_steps_aggregate) (simp add: assms(2))
  ultimately show ?thesis by (simp add: loop_defs list_all_iff)
qed

theorem aggregator_tick_witness:
  "ac_metrics (al_acc (agg_tick count_plugin 7 demo_sent)) = [SetAggregate True (New ''count'' [] [(''n'', GInt64 0)] 7 (Some Untyped))]
   \<and> list_all m_aggregate (ac_metrics (al_acc (agg_tick count_plugin 7 demo_sent)))"
proof -
  have "list_all acc_call_ok (ap_Push count_plugin 7 (ra_plugin (al_ra demo_sent)))" "ac_metrics (al_acc demo_sent) = []"
    by (simp_all add: count_plugin_def demo_sent_def demo_loop_def Run_init_def Let_def NewAccumulator_def)
  note main = aggregator_tick [OF this]
  have "ac_metrics (al_acc (agg_tick count_plugin 7 demo_sent)) = [SetAggregate True (New ''count'' [] [(''n'', GInt64 0)] 7 (Some Untyped))]"
    by code_simp
  with main show ?thesis by (simp add: Let_def list_all_iff)
qed

end
