(* ===== verification/RingBuffer.thy ===== *)
theory RingBuffer
  imports Prelude
begin

section \<open>The ring buffer of an output\<close>

text \<open>
  \<open>internal/buffer/buffer.go\<close>: a circular buffer of metrics with a first and a last index and
  an \<open>empty\<close> flag. Slots that were never written hold \<open>nil\<close> (\<open>None\<close>). The two global counters
  \<open>metrics_written\<close> and \<open>metrics_dropped\<close> are passed along. A panic (an index or a division on a
  buffer of size zero, a negative length) is an \<open>Inl\<close> result.

  The abstract buffer is the list of its metrics, oldest first. Buffers are interpreted as
  bounded queues: \<open>Add\<close> keeps the newest metrics, a batch that asks for everything drains the
  buffer. A smaller batch that wraps around the end of the array loses a metric
  (\<open>buf_batch_wrap_loses\<close>), so it is not part of the queue contract.
\<close>

record 'a buffer =
  b_buf :: "'a option list"
  b_first :: nat
  b_last :: nat
  b_size :: nat
  b_empty :: bool

record buf_stats =
  metrics_written :: i64
  metrics_dropped :: i64

definition NewBuffer :: "int \<Rightarrow> 'a buffer result" where
  "NewBuffer sz =
     (if sz < 0 then Inl (Panic ''makeslice: len out of range'')
      else Inr \<lparr>b_buf = replicate (nat sz) None, b_first = 0, b_last = 0, b_size = nat sz,
                b_empty = True\<rparr>)"

definition buf_len :: "'a buffer \<Rightarrow> nat" where
  "buf_len b =
     (if b_empty b then 0
      else if b_first b \<le> b_last b then b_last b - b_first b + 1
      else b_size b - (b_first b - b_last b - 1))"

text \<open>\<open>b.buf[i] = m\<close>\<close>

definition buf_store :: "nat \<Rightarrow> 'a option \<Rightarrow> 'a buffer \<Rightarrow> 'a buffer result" where
  "buf_store i m b =
     (if i < length (b_buf b) then Inr (b\<lparr>b_buf := (b_buf b)[i := m]\<rparr>)
      else Inl (Panic ''index out of range''))"

definition buf_push :: "'a option \<Rightarrow> buf_stats \<times> 'a buffer \<Rightarrow> (buf_stats \<times> 'a buffer) result" where
  "buf_push m sb =
     (case sb of (st, b) \<Rightarrow>
        if b_empty b then
          (let b1 = b\<lparr>b_last := b_first b\<rparr>
           in res_bind (buf_store (b_last b1) m b1) (\<lambda>b2. Inr (st, b2\<lparr>b_empty := False\<rparr>)))
        else if b_size b = 0 then Inl (Panic ''integer divide by zero'')
        else let b1 = b\<lparr>b_last := (b_last b + 1) mod b_size b\<rparr>;
                 (st1, b2) = (if b_first b1 = b_last b1
                   then (st\<lparr>metrics_dropped := metrics_dropped st + 1\<rparr>,
                         b1\<lparr>b_first := (b_first b1 + 1) mod b_size b1\<rparr>)
                   else (st, b1))
             in res_bind (buf_store (b_last b2) m b2) (\<lambda>b3. Inr (st1, b3)))"

fun buf_add :: "'a option list \<Rightarrow> buf_stats \<times> 'a buffer \<Rightarrow> (buf_stats \<times> 'a buffer) result" where
  "buf_add [] sb = Inr sb"
| "buf_add (m # ms) (st, b) =
     res_bind (buf_push m (st\<lparr>metrics_written := metrics_written st + 1\<rparr>, b)) (buf_add ms)"

text \<open>\<open>xs[lo:hi]\<close> for \<open>lo \<le> hi \<le> len(xs)\<close>\<close>

definition slice :: "nat \<Rightarrow> nat \<Rightarrow> 'b list \<Rightarrow> 'b list" where
  "slice lo hi xs = take (hi - lo) (drop lo xs)"

definition buf_batch :: "int \<Rightarrow> 'a buffer \<Rightarrow> ('a option list \<times> 'a buffer) result" where
  "buf_batch batchSize b =
     (let outLen = min (int (buf_len b)) batchSize
      in if outLen < 0 then Inl (Panic ''makeslice: len out of range'')
         else if outLen = 0 then Inr ([], b)
         else
           let n = nat outLen;
               rightInd = min (b_size b) (b_first b + n) - 1;
               out1 = take n (slice (b_first b) (rightInd + 1) (b_buf b));
               b1 = b\<lparr>b_empty := (b_empty b \<or> rightInd = b_last b),
                      b_first := (rightInd + 1) mod b_size b\<rparr>
           in if length out1 < n then
                let right = min (b_last b1) (n - length out1);
                    out2 = take (n - length out1) (slice (b_first b1) (right + 1) (b_buf b1));
                    b2 = b1\<lparr>b_empty := (b_empty b1 \<or> right = b_last b1),
                            b_first := (right + 1) mod b_size b1\<rparr>
                in Inr (out1 @ out2 @ replicate (n - length out1 - length out2) None, b2)
              else Inr (out1, b1))"

subsection \<open>Invariant and abstraction\<close>

definition buf_ok :: "'a buffer \<Rightarrow> bool" where
  "buf_ok b \<longleftrightarrow> 0 < b_size b \<and> length (b_buf b) = b_size b
     \<and> b_first b < b_size b \<and> b_last b < b_size b"

definition buf_list :: "'a buffer \<Rightarrow> 'a option list" where
  "buf_list b =
     (if b_empty b then []
      else if b_first b \<le> b_last b then slice (b_first b) (b_last b + 1) (b_buf b)
      else drop (b_first b) (b_buf b) @ take (b_last b + 1) (b_buf b))"

lemma length_slice [simp]: "length (slice lo hi xs) = min (hi - lo) (length xs - lo)"
  by (simp add: slice_def)

lemma buf_len_list: "buf_ok b \<Longrightarrow> buf_len b = length (buf_list b)"
  by (auto simp: buf_len_def buf_list_def buf_ok_def)

lemma NewBuffer_ok:
  "0 < sz \<Longrightarrow> \<exists>b. NewBuffer sz = Inr b \<and> buf_ok b \<and> buf_list b = [] \<and> b_size b = nat sz"
  by (simp add: NewBuffer_def buf_ok_def buf_list_def)

lemma buf_list_le_size: "buf_ok b \<Longrightarrow> length (buf_list b) \<le> b_size b"
  by (auto simp: buf_list_def buf_ok_def)

lemma take_update_snoc: "i < length xs \<Longrightarrow> take (Suc i) (xs[i := x]) = take i xs @ [x]"
  by (simp add: take_Suc_conv_app_nth)

lemma slice_conv: "lo \<le> hi \<Longrightarrow> slice lo hi xs = drop lo (take hi xs)"
  by (simp add: slice_def drop_take)

lemma slice_update_snoc:
  "lo \<le> i \<Longrightarrow> i < length xs \<Longrightarrow> slice lo (Suc i) (xs[i := x]) = slice lo i xs @ [x]"
  by (simp add: slice_conv take_update_snoc)

text \<open>
  The list after a push, on the indexes alone: \<open>f\<close> and \<open>l\<close> the first and the last index, \<open>s\<close>
  the size, \<open>l'\<close> and \<open>f'\<close> the indexes after the push.
\<close>

definition ring_list :: "nat \<Rightarrow> nat \<Rightarrow> 'b list \<Rightarrow> 'b list" where
  "ring_list f l xs = (if f \<le> l then slice f (l + 1) xs else drop f xs @ take (l + 1) xs)"

lemma ring_list_room:
  assumes "f < length xs" "l < length xs" "(l + 1) mod length xs \<noteq> f"
  shows "ring_list f ((l + 1) mod length xs) (xs[(l + 1) mod length xs := m]) = ring_list f l xs @ [m]
    \<and> length (ring_list f l xs) < length xs"
proof (cases "l + 1 = length xs")
  case True
  with assms have "(l + 1) mod length xs = 0" "f \<noteq> 0" "f \<le> l" by auto
  moreover have "take (Suc 0) (xs[0 := m]) = [m]" using assms(1) by (cases xs) auto
  ultimately show ?thesis using True assms by (auto simp: ring_list_def slice_conv)
next
  case False
  then have l: "(l + 1) mod length xs = Suc l" "Suc l < length xs" using assms by auto
  then show ?thesis
    using assms by (auto simp: ring_list_def slice_update_snoc take_update_snoc)
qed

lemma ring_list_full:
  assumes "f < length xs" "l < length xs" "(l + 1) mod length xs = f"
  shows "ring_list ((f + 1) mod length xs) f (xs[f := m]) = tl (ring_list f l xs) @ [m]
    \<and> length (ring_list f l xs) = length xs"
proof (cases "f = 0")
  case True
  with assms have "l + 1 = length xs" by (metis Suc_eq_plus1 Suc_leI dvd_imp_mod_0 le_neq_implies_less mod_less nat.distinct(1))
  with True show ?thesis
    by (cases "length xs = 1") (auto simp: ring_list_def slice_conv take_update_snoc drop_Suc length_Suc_conv Suc_length_conv)
next
  case False
  with assms have f: "f = Suc l" by (metis Suc_eq_plus1 Suc_leI le_neq_implies_less mod_less mod_self)
  show ?thesis
  proof (cases "Suc f = length xs")
    case True
    then have "xs[f := m] = take f xs @ [m]"
      using take_update_snoc [of f xs m] assms(1) by simp
    with True show ?thesis using assms f
      by (auto simp: ring_list_def slice_conv take_update_snoc tl_drop drop_Suc)
  next
    case False
    have "drop f xs = xs ! f # drop (Suc f) xs" using assms(1) by (simp add: Cons_nth_drop_Suc)
    then show ?thesis using False assms f
      by (auto simp: ring_list_def take_update_snoc)
  qed
qed

lemma buf_list_ring: "\<not> b_empty b \<Longrightarrow> buf_list b = ring_list (b_first b) (b_last b) (b_buf b)"
  by (simp add: buf_list_def ring_list_def)

text \<open>
  Pushing appends the metric and drops the oldest one when the buffer is full, counting it.
\<close>

lemma buf_push_ok:
  assumes ok: "buf_ok b"
  obtains st' b' where "buf_push m (st, b) = Inr (st', b')" "buf_ok b'" "b_size b' = b_size b"
    "buf_list b' = lastn (b_size b) (buf_list b @ [m])"
    "metrics_dropped st' = metrics_dropped st
       + (if length (buf_list b) = b_size b then 1 else 0)"
    "metrics_written st' = metrics_written st"
proof (cases "b_empty b")
  case True
  have one: "slice (b_first b) (Suc (b_first b)) ((b_buf b)[b_first b := m]) = [m]"
    using ok by (simp add: slice_update_snoc buf_ok_def) (simp add: slice_def)
  show ?thesis
  proof (rule that)
    show "buf_push m (st, b) =
        Inr (st, b\<lparr>b_last := b_first b, b_buf := (b_buf b)[b_first b := m], b_empty := False\<rparr>)"
      using True ok by (simp add: buf_push_def buf_store_def buf_ok_def)
  qed (use True ok one in \<open>auto simp: buf_ok_def buf_list_def lastn_def\<close>)
next
  case False
  define l where "l = (b_last b + 1) mod b_size b"
  have sz: "0 < b_size b" "length (b_buf b) = b_size b" "b_first b < length (b_buf b)"
    "b_last b < length (b_buf b)" "l < b_size b"
    using ok by (auto simp: buf_ok_def l_def)
  have lq: "Suc (b_last b) mod b_size b = l" by (simp add: l_def)
  show ?thesis
  proof (cases "l = b_first b")
    case True
    have list: "buf_list b = ring_list (b_first b) (b_last b) (b_buf b)"
      using False by (rule buf_list_ring)
    note full = ring_list_full [OF sz(3,4), of m, unfolded sz(2), folded l_def, OF True]
    show ?thesis
    proof (rule that)
      show "buf_push m (st, b) = Inr (st\<lparr>metrics_dropped := metrics_dropped st + 1\<rparr>,
          b\<lparr>b_last := l, b_first := (b_first b + 1) mod b_size b, b_buf := (b_buf b)[l := m]\<rparr>)"
        using False True sz by (simp add: buf_push_def buf_store_def Let_def lq)
    qed (use False True sz full list in \<open>auto simp: buf_ok_def buf_list_ring lastn_snoc\<close>)
  next
    case room: False
    have list: "buf_list b = ring_list (b_first b) (b_last b) (b_buf b)"
      using False by (rule buf_list_ring)
    note rm = ring_list_room [OF sz(3,4), of m, unfolded sz(2), folded l_def, OF room]
    show ?thesis
    proof (rule that)
      show "buf_push m (st, b) = Inr (st, b\<lparr>b_last := l, b_buf := (b_buf b)[l := m]\<rparr>)"
        using False room sz by (simp add: buf_push_def buf_store_def Let_def lq)
    qed (use False room sz rm list in \<open>auto simp: buf_ok_def buf_list_ring lastn_snoc\<close>)
  qed
qed


subsection \<open>Batches\<close>

text \<open>Whether a batch of \<open>k\<close> metrics passes the end of the array.\<close>

definition batch_wraps :: "nat \<Rightarrow> 'a buffer \<Rightarrow> bool" where
  "batch_wraps k b \<longleftrightarrow> \<not> b_empty b \<and> b_size b < b_first b + k"

lemma batch_empty: "b_empty b \<Longrightarrow> 0 \<le> k \<Longrightarrow> buf_batch k b = Inr ([], b)"
  by (simp add: buf_batch_def buf_len_def)

text \<open>The body of a batch of \<open>n > 0\<close> metrics, when the slice ends before the end of the array.\<close>

lemma batch_nowrap:
  assumes "buf_ok b" "0 < n" "n \<le> buf_len b" "b_first b + n \<le> b_size b" "int n = min (int (buf_len b)) k"
  shows "buf_batch k b = Inr (slice (b_first b) (b_first b + n) (b_buf b),
    b\<lparr>b_empty := (b_empty b \<or> b_first b + n - 1 = b_last b), b_first := (b_first b + n) mod b_size b\<rparr>)"
proof -
  have "min (b_size b) (b_first b + n) - 1 + 1 = b_first b + n"
    "min (b_size b) (b_first b + n) - 1 = b_first b + n - 1"
    using assms(2,4) by simp_all
  moreover have "length (take n (slice (b_first b) (b_first b + n) (b_buf b))) = n"
    "take n (slice (b_first b) (b_first b + n) (b_buf b)) = slice (b_first b) (b_first b + n) (b_buf b)"
    using assms(1,4) by (simp_all add: buf_ok_def)
  ultimately show ?thesis
    using assms(2) unfolding buf_batch_def Let_def assms(5) [symmetric]
    by (simp only: nat_int) simp
qed

text \<open>And when it wraps: \<open>r\<close> metrics remain to be copied from the start of the array.\<close>

lemma batch_wrap:
  assumes "buf_ok b" "0 < r" "r \<le> b_last b + 1" "b_last b < b_first b"
    "int (b_size b - b_first b + r) = min (int (buf_len b)) k" "\<not> b_empty b"
  shows "buf_batch k b = Inr (drop (b_first b) (b_buf b) @ take r (b_buf b),
    b\<lparr>b_empty := (b_last b \<le> r), b_first := (min (b_last b) r + 1) mod b_size b\<rparr>)"
proof -
  let ?n = "b_size b - b_first b + r"
  have sz: "0 < b_size b" "length (b_buf b) = b_size b" "b_first b < b_size b"
    using assms(1) by (simp_all add: buf_ok_def)
  have ri: "min (b_size b) (b_first b + ?n) - 1 = b_size b - 1" using sz assms(2) by simp
  have o1: "take ?n (slice (b_first b) (b_size b) (b_buf b)) = drop (b_first b) (b_buf b)"
    using sz by (simp add: slice_def)
  have r: "?n - length (drop (b_first b) (b_buf b)) = r" "length (drop (b_first b) (b_buf b)) < ?n"
    "\<not> int ?n < 0" "int ?n \<noteq> 0" "b_size b - 1 + 1 = b_size b" "b_size b - 1 \<noteq> b_last b"
    using sz assms(2,4) by simp_all
  have o2: "take r (slice 0 (min (b_last b) r + 1) (b_buf b)) = take r (b_buf b)"
    "length (take r (b_buf b)) = r"
    using assms(3,4) sz by (simp_all add: slice_def min_def)
  show ?thesis
    unfolding buf_batch_def Let_def assms(5) [symmetric] nat_int ri
    using r o1 o2 assms(6) sz by (simp add: min_def)
qed

lemma batch_all:
  assumes "buf_ok b" "int (length (buf_list b)) \<le> k"
  shows "\<exists>b'. buf_batch k b = Inr (buf_list b, b') \<and> buf_ok b' \<and> buf_list b' = [] \<and> b_size b' = b_size b"
proof (cases "b_empty b")
  case True
  with assms show ?thesis by (simp add: batch_empty buf_list_def)
next
  case False
  have len: "buf_len b = length (buf_list b)" using assms(1) by (rule buf_len_list)
  have sz: "0 < b_size b" "length (b_buf b) = b_size b" "b_first b < b_size b" "b_last b < b_size b"
    using assms(1) by (simp_all add: buf_ok_def)
  show ?thesis
  proof (cases "b_first b \<le> b_last b")
    case True
    then have l: "buf_len b = b_last b - b_first b + 1" using False by (simp add: buf_len_def)
    have "b_first b + (b_last b - b_first b + 1) = b_last b + 1" using True by simp
    then show ?thesis
      using batch_nowrap [OF assms(1), of "b_last b - b_first b + 1" k] True False sz assms(2) len l
      by (simp add: buf_ok_def buf_list_def)
  next
    case wrap: False
    then have l: "buf_len b = b_size b - b_first b + (b_last b + 1)"
      using False sz by (simp add: buf_len_def)
    then show ?thesis
      using batch_wrap [OF assms(1), of "b_last b + 1" k] wrap False sz assms(2) len
      by (simp add: buf_ok_def buf_list_def)
  qed
qed

lemma drop_slice: "lo + k \<le> hi \<Longrightarrow> drop k (slice lo hi xs) = slice (lo + k) hi xs"
  by (simp add: slice_def drop_take add.commute)

lemma take_slice: "lo + k \<le> hi \<Longrightarrow> take k (slice lo hi xs) = slice lo (lo + k) xs"
  by (simp add: slice_def min_def)

lemma batch_part:
  assumes "buf_ok b" "0 < k" "k < length (buf_list b)"
  shows "\<exists>b'. buf_batch (int k) b = Inr (take k (buf_list b), b') \<and> buf_ok b' \<and> b_size b' = b_size b
    \<and> buf_list b' = drop (if batch_wraps k b then k + 1 else k) (buf_list b)"
proof -
  have ne: "\<not> b_empty b" using assms(3) by (auto simp: buf_list_def)
  have len: "buf_len b = length (buf_list b)" using assms(1) by (rule buf_len_list)
  have sz: "0 < b_size b" "length (b_buf b) = b_size b" "b_first b < b_size b" "b_last b < b_size b"
    using assms(1) by (simp_all add: buf_ok_def)
  show ?thesis
  proof (cases "batch_wraps k b")
    case True
    define r where "r = k - (b_size b - b_first b)"
    have w: "b_last b < b_first b" using assms(3) True ne len sz by (simp add: batch_wraps_def buf_len_def split: if_splits)
    have l: "buf_list b = drop (b_first b) (b_buf b) @ take (b_last b + 1) (b_buf b)"
      using ne w by (simp add: buf_list_def)
    have r: "0 < r" "r \<le> b_last b" "k = b_size b - b_first b + r"
      using True assms(3) l sz by (auto simp: batch_wraps_def r_def)
    have eq: "buf_batch (int k) b = Inr (drop (b_first b) (b_buf b) @ take r (b_buf b),
        b\<lparr>b_empty := (b_last b \<le> r), b_first := (r + 1) mod b_size b\<rparr>)"
      using batch_wrap [OF assms(1), of r "int k"] r w ne assms(3) len by (simp add: min_def)
    have "r + 1 < b_size b \<or> b_last b \<le> r" using sz w r by linarith
    then have "buf_list (b\<lparr>b_empty := (b_last b \<le> r), b_first := (r + 1) mod b_size b\<rparr>)
        = drop (k + 1) (buf_list b)"
      using r sz unfolding l by (auto simp: buf_list_def slice_conv)
    moreover have "take k (buf_list b) = drop (b_first b) (b_buf b) @ take r (b_buf b)"
      using r sz unfolding l by (simp add: min_def)
    ultimately show ?thesis using eq True sz by (simp add: buf_ok_def)
  next
    case False
    then have fits: "b_first b + k \<le> b_size b" using ne by (simp add: batch_wraps_def)
    have eq: "buf_batch (int k) b = Inr (slice (b_first b) (b_first b + k) (b_buf b),
        b\<lparr>b_empty := (b_first b + k - 1 = b_last b), b_first := (b_first b + k) mod b_size b\<rparr>)"
      using batch_nowrap [OF assms(1,2) _ fits, of "int k"] assms(3) len ne by simp
    show ?thesis
    proof (cases "b_first b \<le> b_last b")
      case True
      then have l: "buf_list b = slice (b_first b) (b_last b + 1) (b_buf b)" using ne by (simp add: buf_list_def)
      have k: "b_first b + k \<le> b_last b" using assms(3) True unfolding l by simp linarith
      then have "take k (buf_list b) = slice (b_first b) (b_first b + k) (b_buf b)"
        "drop k (buf_list b) = slice (b_first b + k) (b_last b + 1) (b_buf b)"
        unfolding l by (simp_all add: take_slice drop_slice)
      moreover have "b_first b + k - 1 \<noteq> b_last b" using k assms(2) by linarith
      ultimately show ?thesis using eq k False sz assms(2) by (simp add: buf_ok_def buf_list_def)
    next
      case w: False
      then have l: "buf_list b = drop (b_first b) (b_buf b) @ take (b_last b + 1) (b_buf b)"
        using ne by (simp add: buf_list_def)
      have "take k (buf_list b) = slice (b_first b) (b_first b + k) (b_buf b)"
        using fits sz unfolding l by (simp add: slice_def)
      moreover have "buf_list (b\<lparr>b_empty := (b_first b + k - 1 = b_last b), b_first := (b_first b + k) mod b_size b\<rparr>)
          = drop k (buf_list b)"
        using w fits sz assms(2) unfolding l
        by (cases "b_first b + k = b_size b") (auto simp: buf_list_def slice_conv add.commute)
      ultimately show ?thesis using eq False sz by (simp add: buf_ok_def)
    qed
  qed
qed

subsection \<open>Interface: a bounded queue of metrics\<close>

text \<open>
  What an output relies on: adding keeps the newest \<open>cap\<close> metrics, in order; a batch at least
  as large as the queue takes everything, in order, and leaves the queue empty.
\<close>

locale bounded_queue =
  fixes add1 :: "'m \<Rightarrow> 's \<Rightarrow> 's result"
    and batch :: "int \<Rightarrow> 's \<Rightarrow> ('m list \<times> 's) result"
    and elems :: "'s \<Rightarrow> 'm list"
    and cap :: "'s \<Rightarrow> nat"
    and ok :: "'s \<Rightarrow> bool"
  assumes add1: "ok s \<Longrightarrow> \<exists>s'. add1 m s = Inr s' \<and> ok s' \<and> cap s' = cap s
      \<and> elems s' = lastn (cap s) (elems s @ [m])"
    and drain: "ok s \<Longrightarrow> int (length (elems s)) \<le> n \<Longrightarrow>
      \<exists>s'. batch n s = Inr (elems s, s') \<and> ok s' \<and> cap s' = cap s \<and> elems s' = []"
begin

primrec adds :: "'m list \<Rightarrow> 's \<Rightarrow> 's result" where
  "adds [] s = Inr s"
| "adds (m # ms) s = res_bind (add1 m s) (adds ms)"

lemma adds_ok:
  assumes "ok s" "length (elems s) \<le> cap s"
  shows "\<exists>s'. adds ms s = Inr s' \<and> ok s' \<and> cap s' = cap s \<and> elems s' = lastn (cap s) (elems s @ ms)"
  using assms
proof (induction ms arbitrary: s)
  case Nil
  then show ?case by (simp add: lastn_id)
next
  case (Cons m ms)
  obtain s1 where s1: "add1 m s = Inr s1" "ok s1" "cap s1 = cap s" "elems s1 = lastn (cap s) (elems s @ [m])"
    using add1 [OF Cons.prems(1)] by blast
  then have "length (elems s1) \<le> cap s1" by simp
  from Cons.IH [OF s1(2) this] s1 show ?case by (auto simp: lastn_snoc_lastn)
qed

text \<open>What is added and then drained comes back in order, without a loss while it fits.\<close>

lemma adds_then_drain:
  assumes "ok s" "length (elems s) + length ms \<le> cap s" "int (cap s) \<le> n"
  shows "\<exists>s' s''. adds ms s = Inr s' \<and> batch n s' = Inr (elems s @ ms, s'') \<and> ok s'' \<and> elems s'' = []"
proof -
  obtain s' where s': "adds ms s = Inr s'" "ok s'" "elems s' = lastn (cap s) (elems s @ ms)"
    using adds_ok [OF assms(1)] assms(2) by force
  then have el: "elems s' = elems s @ ms" using assms(2) by (simp add: lastn_id)
  then have "int (length (elems s')) \<le> n" using assms(2,3) by simp
  then show ?thesis using drain [OF s'(2)] s'(1) el by force
qed

end

definition buf_batch_st :: "int \<Rightarrow> buf_stats \<times> 'a buffer \<Rightarrow> ('a option list \<times> (buf_stats \<times> 'a buffer)) result" where
  "buf_batch_st n sb = res_bind (buf_batch n (snd sb)) (\<lambda>(out, b). Inr (out, fst sb, b))"

interpretation ring: bounded_queue "\<lambda>m. buf_add [m]" buf_batch_st "\<lambda>sb. buf_list (snd sb)"
  "\<lambda>sb. b_size (snd sb)" "\<lambda>sb. buf_ok (snd sb)"
proof unfold_locales
  fix s :: "buf_stats \<times> 'a buffer" and m
  assume ok: "buf_ok (snd s)"
  obtain st b where s: "s = (st, b)" by force
  obtain st' b' where "buf_push m (st\<lparr>metrics_written := metrics_written st + 1\<rparr>, b) = Inr (st', b')" "buf_ok b'"
    "b_size b' = b_size b" "buf_list b' = lastn (b_size b) (buf_list b @ [m])"
    by (rule buf_push_ok [of b m "st\<lparr>metrics_written := metrics_written st + 1\<rparr>"]) (use ok s in auto)
  with s show "\<exists>s'. buf_add [m] s = Inr s' \<and> buf_ok (snd s') \<and> b_size (snd s') = b_size (snd s)
      \<and> buf_list (snd s') = lastn (b_size (snd s)) (buf_list (snd s) @ [m])" by simp
next
  fix s :: "buf_stats \<times> 'a buffer" and n
  assume "buf_ok (snd s)" "int (length (buf_list (snd s))) \<le> n"
  from batch_all [OF this] show "\<exists>s'. buf_batch_st n s = Inr (buf_list (snd s), s') \<and> buf_ok (snd s')
      \<and> b_size (snd s') = b_size (snd s) \<and> buf_list (snd s') = []"
    by (auto simp: buf_batch_st_def)
qed


subsection \<open>What the buffer promises\<close>

lemma buf_push_ex:
  assumes "buf_ok b"
  shows "\<exists>st' b'. buf_push m (st, b) = Inr (st', b') \<and> buf_ok b' \<and> b_size b' = b_size b
    \<and> buf_list b' = lastn (b_size b) (buf_list b @ [m])
    \<and> metrics_dropped st' = metrics_dropped st + (if length (buf_list b) = b_size b then 1 else 0)
    \<and> metrics_written st' = metrics_written st"
  by (rule buf_push_ok [OF assms, of m st]) blast

lemma buf_add_ok:
  assumes "buf_ok b"
  shows "\<exists>st' b'. buf_add ms (st, b) = Inr (st', b') \<and> buf_ok b' \<and> b_size b' = b_size b
    \<and> buf_list b' = lastn (b_size b) (buf_list b @ ms)
    \<and> metrics_written st' = metrics_written st + of_nat (length ms)
    \<and> metrics_dropped st' = metrics_dropped st + of_nat (length (buf_list b) + length ms - b_size b)"
  using assms
proof (induction ms arbitrary: st b)
  case Nil
  then show ?case using buf_list_le_size [of b] by (simp add: lastn_id)
next
  case (Cons m ms)
  let ?st = "st\<lparr>metrics_written := metrics_written st + 1\<rparr>"
  obtain st1 b1 where p: "buf_push m (?st, b) = Inr (st1, b1)" "buf_ok b1" "b_size b1 = b_size b"
    "buf_list b1 = lastn (b_size b) (buf_list b @ [m])"
    "metrics_dropped st1 = metrics_dropped st + (if length (buf_list b) = b_size b then 1 else 0)"
    "metrics_written st1 = metrics_written st + 1"
    using buf_push_ex [OF Cons.prems, of m ?st] by auto
  obtain st2 b2 where a: "buf_add ms (st1, b1) = Inr (st2, b2)" "buf_ok b2" "b_size b2 = b_size b1"
    "buf_list b2 = lastn (b_size b1) (buf_list b1 @ ms)"
    "metrics_written st2 = metrics_written st1 + of_nat (length ms)"
    "metrics_dropped st2 = metrics_dropped st1 + of_nat (length (buf_list b1) + length ms - b_size b1)"
    using Cons.IH [OF p(2), of st1] by blast
  have le: "length (buf_list b) \<le> b_size b" using Cons.prems by (rule buf_list_le_size)
  define x y where "x = (if length (buf_list b) = b_size b then 1 else 0 :: nat)"
    and "y = length (buf_list b1) + length ms - b_size b1"
  have "x + y = length (buf_list b) + Suc (length ms) - b_size b"
    using le p(3,4) by (auto simp: x_def y_def)
  then have "(of_nat (length (buf_list b) + Suc (length ms) - b_size b) :: i64) = of_nat x + of_nat y"
    by (simp flip: of_nat_add)
  moreover have "(of_nat x :: i64) = (if length (buf_list b) = b_size b then 1 else 0)"
    by (simp add: x_def)
  ultimately have "metrics_dropped st2 = metrics_dropped st
      + of_nat (length (buf_list b) + length (m # ms) - b_size b)"
    using p(5) a(6) by (simp add: y_def)
  moreover have "buf_list b2 = lastn (b_size b) (buf_list b @ m # ms)"
    using p(3,4) a(4) by (simp add: lastn_snoc_lastn)
  ultimately show ?case using p(1,3,6) a(1,2,3,5) by simp
qed

text \<open>
  C4. A new buffer of positive size accepts any metrics without a panic and then holds the newest
  ones, in order, at most as many as its size; \<open>Len\<close> is their number, every metric is counted
  as written and every lost one as dropped.
\<close>

theorem buffer_keeps_newest:
  fixes ms :: "'a option list"
  assumes "0 < sz"
  shows "\<exists>b0 st b. NewBuffer sz = Inr b0 \<and> buf_add ms (\<lparr>metrics_written = 0, metrics_dropped = 0\<rparr>, b0) = Inr (st, b)
    \<and> buf_list b = lastn (nat sz) ms \<and> buf_len b = min (nat sz) (length ms)
    \<and> metrics_written st = of_nat (length ms) \<and> metrics_dropped st = of_nat (length ms - nat sz)"
proof -
  obtain b0 :: "'a buffer"
    where b0: "NewBuffer sz = Inr b0" "buf_ok b0" "buf_list b0 = []" "b_size b0 = nat sz"
    using NewBuffer_ok [OF assms] by blast
  from buf_add_ok [OF b0(2), of ms "\<lparr>metrics_written = 0, metrics_dropped = 0\<rparr>"] b0 show ?thesis
    by (auto simp: buf_len_list)
qed

theorem buffer_keeps_newest_witness:
  "\<exists>b0 st b. NewBuffer 2 = Inr b0
    \<and> buf_add [Some 1, Some 2, Some (3::nat)] (\<lparr>metrics_written = 0, metrics_dropped = 0\<rparr>, b0) = Inr (st, b)
    \<and> buf_list b = [Some 2, Some 3] \<and> metrics_dropped st = 1"
  using buffer_keeps_newest [of 2 "[Some 1, Some 2, Some (3::nat)]"]
  by (simp add: lastn_def) blast

text \<open>
  Metrics that fit are not lost: added to a buffer that has room for them and then taken with
  a batch of at least the buffer's size, they come out after the older ones, in the order they
  were added, and the buffer is empty.
\<close>

theorem buffer_fifo:
  assumes "buf_ok b" "length (buf_list b) + length ms \<le> b_size b" "int (b_size b) \<le> n"
  shows "\<exists>st' b' b''. buf_add ms (st, b) = Inr (st', b')
    \<and> buf_batch n b' = Inr (buf_list b @ ms, b'') \<and> buf_list b'' = []"
proof -
  obtain st' b' where a: "buf_add ms (st, b) = Inr (st', b')" "buf_ok b'" "b_size b' = b_size b"
    "buf_list b' = lastn (b_size b) (buf_list b @ ms)"
    using buf_add_ok [OF assms(1)] by metis
  then have l: "buf_list b' = buf_list b @ ms" using assms(2) by (simp add: lastn_id)
  then have "int (length (buf_list b')) \<le> n" using assms(2,3) by simp
  from batch_all [OF a(2) this] a(1) l show ?thesis by auto
qed

theorem buffer_fifo_witness:
  "\<exists>st' b' b''. buf_add [Some 7, Some 8]
      (\<lparr>metrics_written = 0, metrics_dropped = 0\<rparr>,
       \<lparr>b_buf = [Some 6, None, Some (5::nat), None], b_first = 2, b_last = 2, b_size = 4, b_empty = False\<rparr>) = Inr (st', b')
    \<and> buf_batch 4 b' = Inr ([Some 5] @ [Some 7, Some 8], b'') \<and> buf_list b'' = []"
  using buffer_fifo [of "\<lparr>b_buf = [Some 6, None, Some (5::nat), None], b_first = 2, b_last = 2, b_size = 4, b_empty = False\<rparr>"
      "[Some 7, Some 8]" 4 "\<lparr>metrics_written = 0, metrics_dropped = 0\<rparr>"]
  by (simp add: buf_ok_def buf_list_def slice_def)

text \<open>
  A batch smaller than the buffer's content returns the oldest metrics in order. It leaves the
  rest, but when it passes the end of the array it also removes the next metric, which is
  neither returned nor counted as dropped.
\<close>

theorem buffer_batch_wrap_loses:
  assumes "buf_ok b" "0 < k" "k < length (buf_list b)"
  shows "\<exists>b'. buf_batch (int k) b = Inr (take k (buf_list b), b')
    \<and> buf_list b' = drop (if b_size b < b_first b + k then k + 1 else k) (buf_list b)"
proof -
  have "\<not> b_empty b" using assms(3) by (auto simp: buf_list_def)
  then show ?thesis using batch_part [OF assms] by (auto simp: batch_wraps_def)
qed

theorem buffer_batch_wrap_loses_witness:
  "\<exists>b'. buf_batch 2 \<lparr>b_buf = [Some 2, Some 3, Some (1::nat)], b_first = 2, b_last = 1, b_size = 3, b_empty = False\<rparr>
      = Inr ([Some 1, Some 2], b') \<and> buf_list b' = []"
  using buffer_batch_wrap_loses [of "\<lparr>b_buf = [Some 2, Some 3, Some (1::nat)], b_first = 2, b_last = 1, b_size = 3, b_empty = False\<rparr>" 2]
  by (simp add: buf_ok_def buf_list_def slice_def)

text \<open>A buffer of size zero panics at the first metric.\<close>

lemma zero_buffer_panics:
  "\<exists>b. NewBuffer 0 = Inr b \<and> buf_add (m # ms) (st, b) = Inl (Panic ''index out of range'')"
  by (simp add: NewBuffer_def buf_push_def buf_store_def)

end
