(* ===== verification/RunningOutput.thy ===== *)
theory RunningOutput
  imports NameFilter RingBuffer "HOL-Library.Multiset"
begin

section \<open>Running outputs\<close>

text \<open>
  \<open>internal/models/running_output.go\<close>: an output keeps new metrics in one ring buffer, of the batch
  size, and the metrics of failed writes in another. The output plugin is a parameter: its
  \<open>Write\<close> and, for an aggregating output, its \<open>Add\<close>, \<open>Push\<close> and \<open>Reset\<close>, on a state of any type.
  The clock is part of that parameter (a write tells how long it took); logging and the mutexes,
  which make each call atomic, are left out. The buffer counters are global to the process.
\<close>

record 'o aggregating_output =
  agg_Add :: "metric option \<Rightarrow> 'o \<Rightarrow> 'o"
  agg_Push :: "'o \<Rightarrow> metric option list \<times> 'o"
  agg_Reset :: "'o \<Rightarrow> 'o"

record 'o output_plugin =
  o_Write :: "metric option list \<Rightarrow> 'o \<Rightarrow> 'o \<times> string option \<times> i64"
  o_aggregating :: "'o aggregating_output option"

record 'o running_output =
  ro_name :: string
  ro_output :: 'o
  ro_filter :: filter_rules
  ro_MetricBufferLimit :: int
  ro_MetricBatchSize :: int
  ro_MetricsFiltered :: i64
  ro_MetricsWritten :: i64
  ro_BufferSize :: i64
  ro_BufferLimit :: i64
  ro_WriteTime :: "i64 list"
  ro_metrics :: "metric buffer"
  ro_failMetrics :: "metric buffer"
  ro_stats :: buf_stats

definition NewRunningOutput ::
  "string \<Rightarrow> 'o \<Rightarrow> filter_rules \<Rightarrow> int \<Rightarrow> int \<Rightarrow> buf_stats \<Rightarrow> 'o running_output result" where
  "NewRunningOutput name out conf batchSize bufferLimit st =
     (let bufferLimit = (if bufferLimit = 0 then 10000 else bufferLimit);
          batchSize = (if batchSize = 0 then 1000 else batchSize)
      in res_bind (NewBuffer batchSize) (\<lambda>ms. res_bind (NewBuffer bufferLimit) (\<lambda>fs.
        Inr \<lparr>ro_name = name, ro_output = out, ro_filter = conf, ro_MetricBufferLimit = bufferLimit,
             ro_MetricBatchSize = batchSize, ro_MetricsFiltered = 0, ro_MetricsWritten = 0,
             ro_BufferSize = 0, ro_BufferLimit = of_int bufferLimit, ro_WriteTime = [],
             ro_metrics = ms, ro_failMetrics = fs, ro_stats = st\<rparr>)))"

definition metrics_Add :: "metric option list \<Rightarrow> 'o running_output \<Rightarrow> 'o running_output result" where
  "metrics_Add ms ro = res_bind (buf_add ms (ro_stats ro, ro_metrics ro))
     (\<lambda>(st, b). Inr (ro\<lparr>ro_stats := st, ro_metrics := b\<rparr>))"

definition failMetrics_Add :: "metric option list \<Rightarrow> 'o running_output \<Rightarrow> 'o running_output result" where
  "failMetrics_Add ms ro = res_bind (buf_add ms (ro_stats ro, ro_failMetrics ro))
     (\<lambda>(st, b). Inr (ro\<lparr>ro_stats := st, ro_failMetrics := b\<rparr>))"

definition ro_write ::
  "'o output_plugin \<Rightarrow> metric option list \<Rightarrow> 'o running_output \<Rightarrow> 'o running_output \<times> string option" where
  "ro_write api ms ro =
     (if length ms = 0 then (ro, None)
      else case o_Write api ms (ro_output ro) of
        (o', None, elapsed) \<Rightarrow>
          (ro\<lparr>ro_output := o', ro_MetricsWritten := ro_MetricsWritten ro + of_nat (length ms),
              ro_WriteTime := ro_WriteTime ro @ [elapsed]\<rparr>, None)
      | (o', Some err, elapsed) \<Rightarrow> (ro\<lparr>ro_output := o'\<rparr>, Some err))"

text \<open>The part of \<open>AddMetric\<close> after the filter.\<close>

definition add_to_buffer :: "'o output_plugin \<Rightarrow> metric \<Rightarrow> 'o running_output \<Rightarrow> 'o running_output result" where
  "add_to_buffer api m ro =
     (case o_aggregating api of
        Some agg \<Rightarrow> Inr (ro\<lparr>ro_output := agg_Add agg (Some m) (ro_output ro)\<rparr>)
      | None \<Rightarrow>
          res_bind (metrics_Add [Some m] ro) (\<lambda>ro1.
            if int (buf_len (ro_metrics ro1)) = ro_MetricBatchSize ro1 then
              res_bind (buf_batch (ro_MetricBatchSize ro1) (ro_metrics ro1)) (\<lambda>(batch, b).
                case ro_write api batch (ro1\<lparr>ro_metrics := b\<rparr>) of
                  (ro2, Some err) \<Rightarrow> failMetrics_Add batch ro2
                | (ro2, None) \<Rightarrow> Inr ro2)
            else Inr ro1))"

definition AddMetric :: "'o output_plugin \<Rightarrow> metric option \<Rightarrow> 'o running_output \<Rightarrow> 'o running_output result" where
  "AddMetric api om ro =
     (case om of None \<Rightarrow> Inr ro
      | Some m \<Rightarrow>
          if isActive (ro_filter ro) then
            (case Filter_Apply (ro_filter ro) (m_name m) (Fields m) (Tags m) of
               (False, _, _) \<Rightarrow> Inr (ro\<lparr>ro_MetricsFiltered := ro_MetricsFiltered ro + 1\<rparr>)
             | (True, flds, tags) \<Rightarrow>
                 add_to_buffer api (New (m_name m) tags flds (m_tm m) (Some (m_tp m))) ro)
          else add_to_buffer api m ro)"

text \<open>
  The loop of \<open>Write\<close> over the failed batches; \<open>n\<close> batches remain, \<open>nFails\<close> metrics had failed
  when the loop began. The last batch takes the remainder.
\<close>

fun write_failed ::
  "'o output_plugin \<Rightarrow> nat \<Rightarrow> int \<Rightarrow> 'o running_output \<times> string option
     \<Rightarrow> ('o running_output \<times> string option) result" where
  "write_failed api 0 nFails s = Inr s"
| "write_failed api (Suc n) nFails (ro, err) =
     (let batchSize = (if n = 0 then nFails mod ro_MetricBatchSize ro else ro_MetricBatchSize ro)
      in res_bind (buf_batch batchSize (ro_failMetrics ro)) (\<lambda>(batch, b).
        let ro1 = ro\<lparr>ro_failMetrics := b\<rparr>;
            (ro2, err2) = (if err = None then ro_write api batch ro1 else (ro1, err))
        in if err2 \<noteq> None
           then res_bind (failMetrics_Add batch ro2) (\<lambda>ro3. write_failed api n nFails (ro3, err2))
           else write_failed api n nFails (ro2, err2)))"

definition push_aggregates :: "'o output_plugin \<Rightarrow> 'o running_output \<Rightarrow> 'o running_output result" where
  "push_aggregates api ro =
     (case o_aggregating api of
        None \<Rightarrow> Inr ro
      | Some agg \<Rightarrow> (case agg_Push agg (ro_output ro) of (ms, o') \<Rightarrow>
          res_bind (metrics_Add ms (ro\<lparr>ro_output := o'\<rparr>))
            (\<lambda>ro1. Inr (ro1\<lparr>ro_output := agg_Reset agg (ro_output ro1)\<rparr>))))"

definition Write :: "'o output_plugin \<Rightarrow> 'o running_output \<Rightarrow> ('o running_output \<times> string option) result" where
  "Write api ro =
     res_bind (push_aggregates api ro) (\<lambda>ro1.
       let nFails = buf_len (ro_failMetrics ro1);
           nMetrics = buf_len (ro_metrics ro1);
           ro2 = ro1\<lparr>ro_BufferSize := of_nat (nFails + nMetrics)\<rparr>
       in res_bind (if \<not> b_empty (ro_failMetrics ro2)
                    then write_failed api (Suc (nat (int nFails div ro_MetricBatchSize ro2))) (int nFails) (ro2, None)
                    else Inr (ro2, None)) (\<lambda>(ro3, err).
          res_bind (buf_batch (ro_MetricBatchSize ro3) (ro_metrics ro3)) (\<lambda>(batch, b).
            let ro4 = ro3\<lparr>ro_metrics := b\<rparr>;
                (ro5, err2) = (if err = None then ro_write api batch ro4 else (ro4, err))
            in if err2 \<noteq> None then res_bind (failMetrics_Add batch ro5) (\<lambda>ro6. Inr (ro6, err2))
               else Inr (ro5, None))))"

subsection \<open>Invariant\<close>

definition ro_ok :: "'o running_output \<Rightarrow> bool" where
  "ro_ok ro \<longleftrightarrow> buf_ok (ro_metrics ro) \<and> buf_ok (ro_failMetrics ro)
     \<and> int (b_size (ro_metrics ro)) = ro_MetricBatchSize ro
     \<and> int (b_size (ro_failMetrics ro)) = ro_MetricBufferLimit ro
     \<and> length (buf_list (ro_metrics ro)) < b_size (ro_metrics ro)"

lemma NewRunningOutput_ok:
  assumes "0 \<le> batchSize" "0 \<le> bufferLimit"
  shows "\<exists>ro. NewRunningOutput name out conf batchSize bufferLimit st = Inr ro \<and> ro_ok ro
    \<and> ro_output ro = out \<and> ro_filter ro = conf \<and> buf_list (ro_metrics ro) = [] \<and> buf_list (ro_failMetrics ro) = []"
  using assms by (auto simp: NewRunningOutput_def NewBuffer_def ro_ok_def buf_ok_def buf_list_def)

text \<open>A batch of any size, as far as the buffer can be trusted: nothing is returned twice.\<close>

lemma batch_any:
  assumes "buf_ok b" "0 \<le> k"
  obtains b' where "buf_batch k b = Inr (take (nat k) (buf_list b), b')" "buf_ok b'" "b_size b' = b_size b"
    "\<And>x. count_list (take (nat k) (buf_list b)) x + count_list (buf_list b') x \<le> count_list (buf_list b) x"
    "int (length (buf_list b)) \<le> k \<Longrightarrow> buf_list b' = []"
    "length (buf_list b') \<le> length (buf_list b) - nat k"
proof (cases "int (length (buf_list b)) \<le> k")
  case True
  with batch_all [OF assms(1) True] that show ?thesis by force
next
  case False
  show ?thesis
  proof (cases "k = 0")
    case True
    then have "buf_batch k b = Inr (take (nat k) (buf_list b), b)" by (simp add: buf_batch_def)
    with that [of b] assms(1) False True show ?thesis by simp
  next
    case k0: False
    with False assms(2) have k: "0 < nat k" "nat k < length (buf_list b)" "int (nat k) = k" by auto
    obtain b' where b': "buf_batch k b = Inr (take (nat k) (buf_list b), b')" "buf_ok b'" "b_size b' = b_size b"
      "buf_list b' = drop (nat k) (buf_list b) \<or> buf_list b' = drop (Suc (nat k)) (buf_list b)"
      using batch_part [OF assms(1) k(1,2)] k(3) by (auto split: if_splits)
    have "count_list (take n xs) x + count_list (drop n xs) x = count_list xs x" for n x and xs :: "'a option list"
      using count_list_append [of "take n xs" "drop n xs" x] by simp
    note sum = this [of "nat k" "buf_list b"]
    have "count_list (drop (Suc n) xs) x \<le> count_list (drop n xs) x" for n x and xs :: "'a option list"
      by (induction xs arbitrary: n) (auto split: nat.splits simp: drop_Cons)
    note mono = this [of "nat k" "buf_list b"]
    have "count_list (take (nat k) (buf_list b)) x + count_list (buf_list b') x \<le> count_list (buf_list b) x" for x
      using b'(4) sum [of x] mono [of x] by auto
    with that [of b'] b' False show ?thesis by auto
  qed
qed

lemma count_lastn: "count_list (lastn n xs) x \<le> count_list xs x"
proof -
  have "count_list xs x = count_list (take (length xs - n) xs) x + count_list (drop (length xs - n) xs) x"
    using count_list_append [of "take (length xs - n) xs" "drop (length xs - n) xs" x] by simp
  then show ?thesis by (simp add: lastn_def)
qed

lemma failMetrics_Add_ok:
  assumes "ro_ok ro"
  obtains st b where "failMetrics_Add ms ro = Inr (ro\<lparr>ro_stats := st, ro_failMetrics := b\<rparr>)"
    "ro_ok (ro\<lparr>ro_stats := st, ro_failMetrics := b\<rparr>)"
    "buf_list b = lastn (b_size (ro_failMetrics ro)) (buf_list (ro_failMetrics ro) @ ms)"
    "b_size b = b_size (ro_failMetrics ro)"
proof -
  have "buf_ok (ro_failMetrics ro)" using assms by (simp add: ro_ok_def)
  then obtain st b where b: "buf_add ms (ro_stats ro, ro_failMetrics ro) = Inr (st, b)" "buf_ok b"
    "b_size b = b_size (ro_failMetrics ro)"
    "buf_list b = lastn (b_size (ro_failMetrics ro)) (buf_list (ro_failMetrics ro) @ ms)"
    using buf_add_ok by blast
  show ?thesis
    by (rule that [of b st]) (use b assms in \<open>simp_all add: failMetrics_Add_def ro_ok_def\<close>)
qed

lemma metrics_Add_ok:
  assumes "buf_ok (ro_metrics ro)"
  obtains st b where "metrics_Add ms ro = Inr (ro\<lparr>ro_stats := st, ro_metrics := b\<rparr>)" "buf_ok b"
    "buf_list b = lastn (b_size (ro_metrics ro)) (buf_list (ro_metrics ro) @ ms)"
    "b_size b = b_size (ro_metrics ro)"
proof -
  obtain st b where b: "buf_add ms (ro_stats ro, ro_metrics ro) = Inr (st, b)" "buf_ok b"
    "b_size b = b_size (ro_metrics ro)"
    "buf_list b = lastn (b_size (ro_metrics ro)) (buf_list (ro_metrics ro) @ ms)"
    using buf_add_ok [OF assms] by blast
  show ?thesis
    by (rule that [of b st]) (use b in \<open>simp_all add: metrics_Add_def\<close>)
qed

text \<open>
  What is assumed of an output plugin and of the observation \<open>delivered\<close> of its state: a write
  without an error adds its metrics to what was delivered, a failed one adds nothing.
\<close>

definition delivers :: "'o output_plugin \<Rightarrow> ('o \<Rightarrow> metric option list) \<Rightarrow> bool" where
  "delivers api delivered \<longleftrightarrow> o_aggregating api = None \<and>
     (\<forall>ms x. case o_Write api ms x of
        (x', None, _) \<Rightarrow> delivered x' = delivered x @ ms
      | (x', Some _, _) \<Rightarrow> delivered x' = delivered x)"

definition never_fails :: "'o output_plugin \<Rightarrow> bool" where
  "never_fails api \<longleftrightarrow> (\<forall>ms x. fst (snd (o_Write api ms x)) = None)"


lemma ro_write_frame:
  assumes "ro_write api ms ro = (ro', err)"
  shows "ro_metrics ro' = ro_metrics ro" "ro_failMetrics ro' = ro_failMetrics ro" "ro_filter ro' = ro_filter ro"
    "ro_MetricBatchSize ro' = ro_MetricBatchSize ro" "ro_MetricBufferLimit ro' = ro_MetricBufferLimit ro"
    "ro_ok ro' = ro_ok ro"
  using assms by (auto simp: ro_write_def ro_ok_def split: if_splits option.splits prod.splits)

lemma ro_write_delivers:
  assumes "delivers api delivered" "ro_write api ms ro = (ro', err)"
  shows "delivered (ro_output ro') = delivered (ro_output ro) @ (if err = None then ms else [])"
proof (cases "o_Write api ms (ro_output ro)")
  case (fields x e t)
  have "case o_Write api ms (ro_output ro) of (x', None, _) \<Rightarrow> delivered x' = delivered (ro_output ro) @ ms
      | (x', Some _, _) \<Rightarrow> delivered x' = delivered (ro_output ro)"
    using assms(1) by (simp only: delivers_def)
  with assms(2) fields show ?thesis
    by (auto simp: ro_write_def split: if_splits option.splits)
qed

lemma ro_write_never_fails: "never_fails api \<Longrightarrow> ro_write api ms ro = (ro', err) \<Longrightarrow> err = None"
proof -
  assume "never_fails api"
  then have "fst (snd (o_Write api ms (ro_output ro))) = None" by (simp add: never_fails_def)
  then show "ro_write api ms ro = (ro', err) \<Longrightarrow> err = None"
    by (cases "o_Write api ms (ro_output ro)") (auto simp: ro_write_def split: if_splits)
qed


text \<open>Everything an output holds or has delivered, counted per metric.\<close>

definition total :: "('o \<Rightarrow> metric option list) \<Rightarrow> 'o running_output \<Rightarrow> metric option \<Rightarrow> nat" where
  "total delivered ro x = count_list (delivered (ro_output ro)) x
     + count_list (buf_list (ro_failMetrics ro)) x + count_list (buf_list (ro_metrics ro)) x"

lemma write_failed_ok:
  assumes "delivers api delivered" "ro_ok ro" "0 \<le> nFails"
  obtains ro' err' where "write_failed api n nFails (ro, err) = Inr (ro', err')" "ro_ok ro'" "ro_metrics ro' = ro_metrics ro"
    "ro_filter ro' = ro_filter ro" "\<And>x. total delivered ro' x \<le> total delivered ro x"
  using assms(2)
proof (induction n arbitrary: ro err thesis)
  case 0
  then show ?case by simp
next
  case (Suc n)
  let ?k = "if n = 0 then nFails mod ro_MetricBatchSize ro else ro_MetricBatchSize ro"
  have bs: "0 < ro_MetricBatchSize ro" using Suc.prems(2) by (auto simp: ro_ok_def buf_ok_def)
  then have k: "0 \<le> ?k" by simp
  have fok: "buf_ok (ro_failMetrics ro)" using Suc.prems(2) by (simp add: ro_ok_def)
  define batch where "batch = take (nat ?k) (buf_list (ro_failMetrics ro))"
  obtain b where b: "buf_batch ?k (ro_failMetrics ro) = Inr (batch, b)" "buf_ok b" "b_size b = b_size (ro_failMetrics ro)"
    "\<And>x. count_list batch x + count_list (buf_list b) x \<le> count_list (buf_list (ro_failMetrics ro)) x"
    using batch_any [OF fok k] unfolding batch_def by metis
  let ?ro1 = "ro\<lparr>ro_failMetrics := b\<rparr>"
  have ok1: "ro_ok ?ro1" using Suc.prems(2) b by (simp add: ro_ok_def)
  obtain ro2 err2 where w: "(if err = None then ro_write api batch ?ro1 else (?ro1, err)) = (ro2, err2)"
    by (meson surj_pair)
  have ok2: "ro_ok ro2" and m2: "ro_metrics ro2 = ro_metrics ro" "ro_failMetrics ro2 = b" "ro_filter ro2 = ro_filter ro"
    and bs2: "ro_MetricBatchSize ro2 = ro_MetricBatchSize ro"
    and d2: "delivered (ro_output ro2) = delivered (ro_output ro) @ (if err2 = None then batch else [])"
    using w ok1 ro_write_frame [of api batch ?ro1 ro2 err2] ro_write_delivers [OF assms(1), of batch ?ro1 ro2 err2]
    by (auto split: if_splits)
  show ?case
  proof (cases "err2 = None")
    case True
    have "write_failed api (Suc n) nFails (ro, err) = write_failed api n nFails (ro2, err2)"
      using b(1) w True by simp
    moreover have "total delivered ro2 x \<le> total delivered ro x" for x
      using b(4) [of x] d2 m2 True by (simp add: total_def)
    ultimately show ?thesis
      using Suc.IH [of ro2 err2] Suc.prems(1) ok2 m2 order_trans by (metis (no_types, lifting))
  next
    case False
    obtain st f where f: "failMetrics_Add batch ro2 = Inr (ro2\<lparr>ro_stats := st, ro_failMetrics := f\<rparr>)"
      "ro_ok (ro2\<lparr>ro_stats := st, ro_failMetrics := f\<rparr>)"
      "buf_list f = lastn (b_size (ro_failMetrics ro2)) (buf_list (ro_failMetrics ro2) @ batch)"
      by (rule failMetrics_Add_ok [OF ok2])
    let ?ro3 = "ro2\<lparr>ro_stats := st, ro_failMetrics := f\<rparr>"
    have "write_failed api (Suc n) nFails (ro, err) = write_failed api n nFails (?ro3, err2)"
      using b(1) w False f(1) by simp
    moreover have "total delivered ?ro3 x \<le> total delivered ro x" for x
      using b(4) [of x] d2 m2 False f(3) count_lastn [of "b_size b" "buf_list b @ batch" x]
      by (simp add: total_def)
    moreover have "ro_metrics ?ro3 = ro_metrics ro" "ro_filter ?ro3 = ro_filter ro" using m2 by simp_all
    ultimately show ?thesis
      using Suc.IH [of ?ro3 err2] Suc.prems(1) f(2) order_trans by (metis (no_types, lifting))
  qed
qed

subsection \<open>Calls and histories\<close>

text \<open>What the filter makes of a metric: nothing, or the metric that is added.\<close>

definition accepted :: "filter_rules \<Rightarrow> metric option \<Rightarrow> metric option list" where
  "accepted f om =
     (case om of None \<Rightarrow> []
      | Some m \<Rightarrow> if isActive f then
            (case Filter_Apply f (m_name m) (Fields m) (Tags m) of
               (False, _, _) \<Rightarrow> []
             | (True, flds, tags) \<Rightarrow> [Some (New (m_name m) tags flds (m_tm m) (Some (m_tp m)))])
          else [Some m])"

lemma AddMetric_accepted:
  obtains "accepted (ro_filter ro) om = []" "AddMetric api om ro = Inr ro
      \<or> AddMetric api om ro = Inr (ro\<lparr>ro_MetricsFiltered := ro_MetricsFiltered ro + 1\<rparr>)"
  | m where "accepted (ro_filter ro) om = [Some m]" "AddMetric api om ro = add_to_buffer api m ro"
proof (cases om)
  case None
  then show ?thesis by (intro that(1)) (simp_all add: AddMetric_def accepted_def)
next
  case (Some m)
  obtain b flds tags where fa: "Filter_Apply (ro_filter ro) (m_name m) (Fields m) (Tags m) = (b, flds, tags)"
    by (metis prod_cases3)
  show ?thesis
  proof (cases "isActive (ro_filter ro) \<and> \<not> b")
    case True
    then show ?thesis by (intro that(1)) (simp_all add: AddMetric_def accepted_def fa Some)
  next
    case False
    then show ?thesis
      by (intro that(2) [of "if isActive (ro_filter ro) then New (m_name m) tags flds (m_tm m) (Some (m_tp m)) else m"])
        (auto simp: AddMetric_def accepted_def fa Some)
  qed
qed

lemma add_to_buffer_ok:
  assumes "delivers api delivered" "ro_ok ro"
  obtains ro' where "add_to_buffer api m ro = Inr ro'" "ro_ok ro'" "ro_filter ro' = ro_filter ro"
    "\<And>x. total delivered ro' x \<le> total delivered ro x + count_list [Some m] x"
    "never_fails api \<Longrightarrow> ro_failMetrics ro' = ro_failMetrics ro \<and>
       delivered (ro_output ro') @ buf_list (ro_metrics ro') = delivered (ro_output ro) @ buf_list (ro_metrics ro) @ [Some m]"
proof -
  have noagg: "o_aggregating api = None" using assms(1) by (simp add: delivers_def)
  have mok: "buf_ok (ro_metrics ro)" and short: "length (buf_list (ro_metrics ro)) < b_size (ro_metrics ro)"
    and bs: "int (b_size (ro_metrics ro)) = ro_MetricBatchSize ro"
    using assms(2) by (auto simp: ro_ok_def)
  obtain st b where b: "metrics_Add [Some m] ro = Inr (ro\<lparr>ro_stats := st, ro_metrics := b\<rparr>)" "buf_ok b"
    "buf_list b = lastn (b_size (ro_metrics ro)) (buf_list (ro_metrics ro) @ [Some m])" "b_size b = b_size (ro_metrics ro)"
    by (rule metrics_Add_ok [OF mok])
  have lb: "buf_list b = buf_list (ro_metrics ro) @ [Some m]" using b(3) short by (simp add: lastn_id)
  let ?ro1 = "ro\<lparr>ro_stats := st, ro_metrics := b\<rparr>"
  show ?thesis
  proof (cases "int (buf_len b) = ro_MetricBatchSize ro")
    case False
    then have "ro_ok ?ro1" using assms(2) b(2,4) lb short bs by (auto simp: ro_ok_def buf_len_list)
    then show ?thesis using that [of ?ro1] b(1) False noagg lb
      by (simp add: add_to_buffer_def total_def)
  next
    case True
    then have "int (length (buf_list b)) \<le> ro_MetricBatchSize ro" using b(2) by (simp add: buf_len_list)
    from batch_all [OF b(2) this] obtain b2 where b2: "buf_batch (ro_MetricBatchSize ro) b = Inr (buf_list b, b2)"
      "buf_ok b2" "buf_list b2 = []" "b_size b2 = b_size b" by blast
    let ?ro2 = "?ro1\<lparr>ro_metrics := b2\<rparr>"
    have ok2: "ro_ok ?ro2" using assms(2) b2 b(4) bs short by (auto simp: ro_ok_def)
    obtain ro3 err where w: "ro_write api (buf_list b) ?ro2 = (ro3, err)" by force
    note fr = ro_write_frame [OF w] and d = ro_write_delivers [OF assms(1) w]
    have eq: "add_to_buffer api m ro = (if err = None then Inr ro3 else failMetrics_Add (buf_list b) ro3)"
      using noagg b(1) True b2(1) w by (auto simp: add_to_buffer_def)
    show ?thesis
    proof (cases "err = None")
      case True
      then show ?thesis using that [of ro3] eq fr ok2 d b2(3) lb
        by (simp add: total_def)
    next
      case False
      have ok3: "ro_ok ro3" using fr ok2 by simp
      obtain st' f where f: "failMetrics_Add (buf_list b) ro3 = Inr (ro3\<lparr>ro_stats := st', ro_failMetrics := f\<rparr>)"
        "ro_ok (ro3\<lparr>ro_stats := st', ro_failMetrics := f\<rparr>)"
        "buf_list f = lastn (b_size (ro_failMetrics ro3)) (buf_list (ro_failMetrics ro3) @ buf_list b)"
        by (rule failMetrics_Add_ok [OF ok3])
      have tot: "total delivered (ro3\<lparr>ro_stats := st', ro_failMetrics := f\<rparr>) x \<le> total delivered ro x + count_list [Some m] x" for x
        using count_lastn [of "b_size (ro_failMetrics ro3)" "buf_list (ro_failMetrics ro3) @ buf_list b" x] fr d f(3) lb b2(3) False
        by (simp add: total_def)
      show ?thesis
        by (rule that [OF _ f(2) _ tot])
          (use eq f(1) fr False ro_write_never_fails [OF _ w] in simp_all)
    qed
  qed
qed

lemma Write_ok:
  assumes "delivers api delivered" "ro_ok ro"
  obtains ro' err where "Write api ro = Inr (ro', err)" "ro_ok ro'" "ro_filter ro' = ro_filter ro"
    "\<And>x. total delivered ro' x \<le> total delivered ro x" "buf_list (ro_metrics ro') = []"
    "never_fails api \<Longrightarrow> buf_list (ro_failMetrics ro) = [] \<Longrightarrow> err = None \<and> buf_list (ro_failMetrics ro') = []
       \<and> delivered (ro_output ro') = delivered (ro_output ro) @ buf_list (ro_metrics ro)"
proof -
  have pa: "push_aggregates api ro = Inr ro" using assms(1) by (simp add: push_aggregates_def delivers_def)
  let ?nf = "buf_len (ro_failMetrics ro)"
  define ro2 where "ro2 = ro\<lparr>ro_BufferSize := of_nat (?nf + buf_len (ro_metrics ro))\<rparr>"
  have ok2: "ro_ok ro2" using assms(2) by (simp add: ro2_def ro_ok_def)
  obtain ro3 err where r3: "(if \<not> b_empty (ro_failMetrics ro2)
      then write_failed api (Suc (nat (int ?nf div ro_MetricBatchSize ro2))) (int ?nf) (ro2, None)
      else Inr (ro2, None)) = Inr (ro3, err)" "ro_ok ro3" "ro_metrics ro3 = ro_metrics ro2" "ro_filter ro3 = ro_filter ro2"
    "\<And>x. total delivered ro3 x \<le> total delivered ro2 x"
  proof (cases "b_empty (ro_failMetrics ro2)")
    case True
    show ?thesis by (rule that [of ro2 None]) (simp_all add: True ok2)
  next
    case False
    obtain ro' err' where "write_failed api (Suc (nat (int ?nf div ro_MetricBatchSize ro2))) (int ?nf) (ro2, None) = Inr (ro', err')"
      "ro_ok ro'" "ro_metrics ro' = ro_metrics ro2" "ro_filter ro' = ro_filter ro2"
      "\<And>x. total delivered ro' x \<le> total delivered ro2 x"
      using write_failed_ok [OF assms(1) ok2 of_nat_0_le_iff] by blast
    then show ?thesis by (intro that [of ro' err']) (simp_all add: False del: write_failed.simps)
  qed
  have bok: "buf_ok (ro_metrics ro3)" and len: "int (length (buf_list (ro_metrics ro3))) \<le> ro_MetricBatchSize ro3"
    using r3(2) by (auto simp: ro_ok_def)
  from batch_all [OF this] obtain b where b: "buf_batch (ro_MetricBatchSize ro3) (ro_metrics ro3) = Inr (buf_list (ro_metrics ro3), b)"
    "buf_ok b" "buf_list b = []" "b_size b = b_size (ro_metrics ro3)" by blast
  let ?ms = "buf_list (ro_metrics ro3)" and ?ro4 = "ro3\<lparr>ro_metrics := b\<rparr>"
  obtain ro5 err2 where w: "(if err = None then ro_write api ?ms ?ro4 else (?ro4, err)) = (ro5, err2)"
    by (meson surj_pair)
  have ok4: "ro_ok ?ro4" using r3(2) b by (auto simp: ro_ok_def)
  have ok5: "ro_ok ro5" and m5: "ro_metrics ro5 = b" "ro_failMetrics ro5 = ro_failMetrics ro3" "ro_filter ro5 = ro_filter ro3"
    and d5: "delivered (ro_output ro5) = delivered (ro_output ro3) @ (if err2 = None then ?ms else [])"
    using w ok4 ro_write_frame [of api ?ms ?ro4 ro5 err2] ro_write_delivers [OF assms(1), of ?ms ?ro4 ro5 err2]
    by (auto split: if_splits)
  have eq: "Write api ro = (if err2 \<noteq> None then res_bind (failMetrics_Add ?ms ro5) (\<lambda>ro6. Inr (ro6, err2)) else Inr (ro5, None))"
    unfolding Write_def pa res_bind.simps Let_def ro2_def [symmetric] using r3(1) b(1) w by simp
  have t2: "total delivered ro2 x = total delivered ro x" for x by (simp add: ro2_def total_def)
  show ?thesis
  proof (cases "err2 = None")
    case True
    have nofail: "delivered (ro_output ro5) = delivered (ro_output ro) @ buf_list (ro_metrics ro)
        \<and> buf_list (ro_failMetrics ro5) = []" if "buf_list (ro_failMetrics ro) = []"
    proof -
      have "b_empty (ro_failMetrics ro2)"
        using that assms(2) by (auto simp: ro2_def buf_list_def ro_ok_def buf_ok_def slice_def split: if_splits)
      with r3(1) have "ro3 = ro2" by simp
      with d5 True m5 that show ?thesis by (simp add: ro2_def)
    qed
    show ?thesis
      by (rule that [of ro5 err2])
        (use eq True ok5 m5 r3 d5 b(3) nofail t2 in \<open>auto simp: total_def ro2_def\<close>)
  next
    case False
    obtain st f where f: "failMetrics_Add ?ms ro5 = Inr (ro5\<lparr>ro_stats := st, ro_failMetrics := f\<rparr>)"
      "ro_ok (ro5\<lparr>ro_stats := st, ro_failMetrics := f\<rparr>)"
      "buf_list f = lastn (b_size (ro_failMetrics ro5)) (buf_list (ro_failMetrics ro5) @ ?ms)"
      by (rule failMetrics_Add_ok [OF ok5])
    have tot: "total delivered (ro5\<lparr>ro_stats := st, ro_failMetrics := f\<rparr>) x \<le> total delivered ro x" for x
      using r3(5) [of x] t2 [of x] count_lastn [of "b_size (ro_failMetrics ro5)" "buf_list (ro_failMetrics ro5) @ ?ms" x] m5 d5 f(3) False b(3)
      by (simp add: total_def)
    have nf: False if "never_fails api" "buf_list (ro_failMetrics ro) = []"
    proof -
      have "b_empty (ro_failMetrics ro2)"
        using that assms(2) by (auto simp: ro2_def buf_list_def ro_ok_def buf_ok_def slice_def split: if_splits)
      with r3(1) have "err = None" by simp
      with w False ro_write_never_fails [OF that(1), of ?ms ?ro4 ro5 err2] show False by simp
    qed
    show ?thesis
      by (rule that [OF _ f(2) _ tot, of err2]) (use eq f(1) False m5 r3 b(3) nf in \<open>auto simp: ro2_def\<close>)
  qed
qed

datatype output_call = OAdd "metric option" | OWrite

fun ro_step :: "'o output_plugin \<Rightarrow> output_call \<Rightarrow> 'o running_output \<Rightarrow> 'o running_output result" where
  "ro_step api (OAdd om) ro = AddMetric api om ro"
| "ro_step api OWrite ro = res_bind (Write api ro) (\<lambda>(ro', err). Inr ro')"

fun ro_run :: "'o output_plugin \<Rightarrow> output_call list \<Rightarrow> 'o running_output \<Rightarrow> 'o running_output result" where
  "ro_run api [] ro = Inr ro"
| "ro_run api (c # cs) ro = res_bind (ro_step api c ro) (ro_run api cs)"

fun call_accepts :: "filter_rules \<Rightarrow> output_call \<Rightarrow> metric option list" where
  "call_accepts f (OAdd om) = accepted f om"
| "call_accepts f OWrite = []"

lemma ro_step_ok:
  assumes "delivers api delivered" "ro_ok ro"
  obtains ro' where "ro_step api c ro = Inr ro'" "ro_ok ro'" "ro_filter ro' = ro_filter ro"
    "\<And>x. total delivered ro' x \<le> total delivered ro x + count_list (call_accepts (ro_filter ro) c) x"
    "never_fails api \<Longrightarrow> buf_list (ro_failMetrics ro) = [] \<Longrightarrow> buf_list (ro_failMetrics ro') = [] \<and>
       delivered (ro_output ro') @ buf_list (ro_metrics ro') =
         delivered (ro_output ro) @ buf_list (ro_metrics ro) @ call_accepts (ro_filter ro) c"
proof (cases c)
  case (OAdd om)
  show ?thesis
  proof (cases rule: AddMetric_accepted [of ro om api])
    case 1
    define ro1 where "ro1 = (if AddMetric api om ro = Inr ro then ro else ro\<lparr>ro_MetricsFiltered := ro_MetricsFiltered ro + 1\<rparr>)"
    have step: "ro_step api c ro = Inr ro1" using 1(2) OAdd by (auto simp: ro1_def)
    have same: "ro_ok ro1 = ro_ok ro" "ro_filter ro1 = ro_filter ro" "total delivered ro1 = total delivered ro"
      "ro_failMetrics ro1 = ro_failMetrics ro" "ro_metrics ro1 = ro_metrics ro" "ro_output ro1 = ro_output ro"
      by (simp_all add: ro1_def ro_ok_def total_def fun_eq_iff)
    show ?thesis by (rule that [OF step]) (use same assms(2) 1(1) OAdd in simp_all)
  next
    case (2 m)
    obtain ro' where "add_to_buffer api m ro = Inr ro'" "ro_ok ro'" "ro_filter ro' = ro_filter ro"
      "\<And>x. total delivered ro' x \<le> total delivered ro x + count_list [Some m] x"
      "never_fails api \<Longrightarrow> ro_failMetrics ro' = ro_failMetrics ro \<and>
       delivered (ro_output ro') @ buf_list (ro_metrics ro') = delivered (ro_output ro) @ buf_list (ro_metrics ro) @ [Some m]"
      using add_to_buffer_ok [OF assms, of m] by metis
    then show ?thesis by (intro that [of ro']) (use 2 OAdd in simp_all)
  qed
next
  case OWrite
  obtain ro' err where "Write api ro = Inr (ro', err)" "ro_ok ro'" "ro_filter ro' = ro_filter ro"
    "\<And>x. total delivered ro' x \<le> total delivered ro x" "buf_list (ro_metrics ro') = []"
    "never_fails api \<Longrightarrow> buf_list (ro_failMetrics ro) = [] \<Longrightarrow> err = None \<and> buf_list (ro_failMetrics ro') = []
       \<and> delivered (ro_output ro') = delivered (ro_output ro) @ buf_list (ro_metrics ro)"
    using Write_ok [OF assms] by metis
  then show ?thesis by (intro that [of ro']) (use OWrite in simp_all)
qed

lemma ro_run_ok:
  assumes "delivers api delivered" "ro_ok ro"
  shows "\<exists>ro'. ro_run api cs ro = Inr ro' \<and> ro_ok ro' \<and> ro_filter ro' = ro_filter ro
    \<and> (\<forall>x. total delivered ro' x \<le> total delivered ro x + count_list (concat (List.map (call_accepts (ro_filter ro)) cs)) x)
    \<and> (never_fails api \<and> buf_list (ro_failMetrics ro) = [] \<longrightarrow> buf_list (ro_failMetrics ro') = [] \<and>
         delivered (ro_output ro') @ buf_list (ro_metrics ro') =
         delivered (ro_output ro) @ buf_list (ro_metrics ro) @ concat (List.map (call_accepts (ro_filter ro)) cs))"
  using assms(2)
proof (induction cs arbitrary: ro)
  case (Cons c cs)
  obtain ro1 where 1: "ro_step api c ro = Inr ro1" "ro_ok ro1" "ro_filter ro1 = ro_filter ro"
    "\<And>x. total delivered ro1 x \<le> total delivered ro x + count_list (call_accepts (ro_filter ro) c) x"
    "never_fails api \<Longrightarrow> buf_list (ro_failMetrics ro) = [] \<Longrightarrow> buf_list (ro_failMetrics ro1) = [] \<and>
       delivered (ro_output ro1) @ buf_list (ro_metrics ro1) =
         delivered (ro_output ro) @ buf_list (ro_metrics ro) @ call_accepts (ro_filter ro) c"
    using ro_step_ok [OF assms(1) Cons.prems] by metis
  obtain ro2 where 2: "ro_run api cs ro1 = Inr ro2" "ro_ok ro2" "ro_filter ro2 = ro_filter ro1"
    "\<forall>x. total delivered ro2 x \<le> total delivered ro1 x + count_list (concat (List.map (call_accepts (ro_filter ro1)) cs)) x"
    "never_fails api \<and> buf_list (ro_failMetrics ro1) = [] \<longrightarrow> buf_list (ro_failMetrics ro2) = [] \<and>
         delivered (ro_output ro2) @ buf_list (ro_metrics ro2) =
         delivered (ro_output ro1) @ buf_list (ro_metrics ro1) @ concat (List.map (call_accepts (ro_filter ro1)) cs)"
    using Cons.IH [OF 1(2)] by blast
  have tot: "total delivered ro2 x \<le> total delivered ro x + count_list (concat (List.map (call_accepts (ro_filter ro)) (c # cs))) x" for x
    using 1(4) [of x] 2(4) [rule_format, of x] 1(3) by simp
  show ?case
    by (rule exI [of _ ro2]) (use 1 2 tot in auto)
qed simp

lemma ro_run_append: "ro_run api (as @ bs) ro = res_bind (ro_run api as ro) (ro_run api bs)"
proof (induction as arbitrary: ro)
  case (Cons a as)
  show ?case by (cases "ro_step api a ro") (simp_all add: Cons)
qed simp

text \<open>
  C2. With an output that accepts every write, no metric is lost, repeated or reordered: after any
  sequence of added metrics and writes the delivered metrics, followed by those still in the
  buffer, are the metrics that pass the filter, in the order they were added; a write leaves
  none behind.
\<close>

theorem output_delivers_in_order:
  assumes "delivers api delivered" "never_fails api" "0 \<le> batchSize" "0 \<le> bufferLimit"
  shows "\<exists>ro ro' ro''. NewRunningOutput name out f batchSize bufferLimit st = Inr ro
    \<and> ro_run api cs ro = Inr ro' \<and> ro_run api (cs @ [OWrite]) ro = Inr ro''
    \<and> delivered (ro_output ro') @ buf_list (ro_metrics ro') = delivered out @ concat (List.map (call_accepts f) cs)
    \<and> delivered (ro_output ro'') = delivered out @ concat (List.map (call_accepts f) cs)"
proof -
  obtain ro where ro: "NewRunningOutput name out f batchSize bufferLimit st = Inr ro" "ro_ok ro" "ro_output ro = out"
    "ro_filter ro = f" "buf_list (ro_metrics ro) = []" "buf_list (ro_failMetrics ro) = []"
    using NewRunningOutput_ok [OF assms(3,4)] by metis
  obtain ro' where 1: "ro_run api cs ro = Inr ro'" "ro_ok ro'" "buf_list (ro_failMetrics ro') = []"
    "delivered (ro_output ro') @ buf_list (ro_metrics ro') = delivered out @ concat (List.map (call_accepts f) cs)"
    using ro_run_ok [OF assms(1) ro(2), of cs] ro assms(2) by auto
  obtain ro'' err where 2: "Write api ro' = Inr (ro'', err)" "buf_list (ro_metrics ro'') = []"
    "delivered (ro_output ro'') = delivered (ro_output ro') @ buf_list (ro_metrics ro')"
    using Write_ok [OF assms(1) 1(2)] assms(2) 1(3) by metis
  have "ro_run api (cs @ [OWrite]) ro = Inr ro''" using 1(1) 2(1) by (simp add: ro_run_append)
  with ro 1 2 show ?thesis by simp
qed

text \<open>
  C1. Whatever the output does with its writes, no sequence of calls panics and no metric is
  delivered twice or made up: what is delivered and buffered, counted with repetitions, is
  bounded by what passed the filter.
\<close>

theorem output_at_most_once:
  assumes "delivers api delivered" "0 \<le> batchSize" "0 \<le> bufferLimit"
  shows "\<exists>ro ro'. NewRunningOutput name out f batchSize bufferLimit st = Inr ro \<and> ro_run api cs ro = Inr ro'
    \<and> mset (delivered (ro_output ro')) + mset (buf_list (ro_failMetrics ro')) + mset (buf_list (ro_metrics ro'))
      \<subseteq># mset (delivered out) + mset (concat (List.map (call_accepts f) cs))"
proof -
  obtain ro where ro: "NewRunningOutput name out f batchSize bufferLimit st = Inr ro" "ro_ok ro" "ro_output ro = out"
    "ro_filter ro = f" "buf_list (ro_metrics ro) = []" "buf_list (ro_failMetrics ro) = []"
    using NewRunningOutput_ok [OF assms(2,3)] by metis
  obtain ro' where 1: "ro_run api cs ro = Inr ro'"
    "\<forall>x. total delivered ro' x \<le> total delivered ro x + count_list (concat (List.map (call_accepts f) cs)) x"
    using ro_run_ok [OF assms(1) ro(2), of cs] ro by auto
  then have "mset (delivered (ro_output ro')) + mset (buf_list (ro_failMetrics ro')) + mset (buf_list (ro_metrics ro'))
      \<subseteq># mset (delivered out) + mset (concat (List.map (call_accepts f) cs))"
    using ro by (simp add: subseteq_mset_def total_def count_mset)
  with ro(1) 1(1) show ?thesis by blast
qed

text \<open>A small output: it records what it is given, and fails while its switch is on.\<close>

definition recorder :: "(bool \<times> metric option list) output_plugin" where
  "recorder = \<lparr>o_Write = (\<lambda>ms (down, ys). if down then ((down, ys), Some ''down'', 5) else ((down, ys @ ms), None, 5)),
     o_aggregating = None\<rparr>"

definition steady_recorder :: "(bool \<times> metric option list) output_plugin" where
  "steady_recorder = \<lparr>o_Write = (\<lambda>ms (b, ys). ((b, ys @ ms), None, 5)), o_aggregating = None\<rparr>"

lemma delivers_recorder: "delivers recorder snd" and delivers_steady: "delivers steady_recorder snd"
  by (auto simp: delivers_def recorder_def steady_recorder_def)

definition demo_metric :: "string \<Rightarrow> metric" where
  "demo_metric n = \<lparr>m_name = n, m_tags = [], m_fields = [\<lparr>field_key = ''v'', field_value = GInt64 1\<rparr>],
     m_tm = 0, m_tp = Untyped, m_aggregate = False\<rparr>"

definition no_rules :: filter_rules where
  "no_rules = demo_rules\<lparr>FieldDrop := [], TagExclude := []\<rparr>"

theorem output_delivers_in_order_witness:
  "\<exists>ro ro''. NewRunningOutput ''file'' (False, []) no_rules 2 4 \<lparr>metrics_written = 0, metrics_dropped = 0\<rparr> = Inr ro
    \<and> ro_run steady_recorder ([OAdd (Some (demo_metric ''a'')), OAdd (Some (demo_metric ''b'')), OAdd (Some (demo_metric ''c''))] @ [OWrite]) ro = Inr ro''
    \<and> snd (ro_output ro'') = [Some (demo_metric ''a''), Some (demo_metric ''b''), Some (demo_metric ''c'')]"
proof -
  have "never_fails steady_recorder" by (auto simp: never_fails_def steady_recorder_def)
  moreover have "concat (List.map (call_accepts no_rules)
      [OAdd (Some (demo_metric ''a'')), OAdd (Some (demo_metric ''b'')), OAdd (Some (demo_metric ''c''))])
      = [Some (demo_metric ''a''), Some (demo_metric ''b''), Some (demo_metric ''c'')]"
    by (simp add: accepted_def no_rules_def demo_rules_def)
  ultimately show ?thesis
    using output_delivers_in_order [OF delivers_steady, of 2 4 "''file''" "(False, [])" no_rules
        "\<lparr>metrics_written = 0, metrics_dropped = 0\<rparr>"
        "[OAdd (Some (demo_metric ''a'')), OAdd (Some (demo_metric ''b'')), OAdd (Some (demo_metric ''c''))]"]
    by (simp del: ro_run.simps) blast
qed

theorem output_at_most_once_witness:
  "\<exists>ro ro'. NewRunningOutput ''file'' (True, []) no_rules 1 4 \<lparr>metrics_written = 0, metrics_dropped = 0\<rparr> = Inr ro
    \<and> ro_run recorder [OAdd (Some (demo_metric ''a'')), OWrite] ro = Inr ro'
    \<and> mset (buf_list (ro_failMetrics ro')) \<subseteq># {#Some (demo_metric ''a'')#}"
proof -
  have "concat (List.map (call_accepts no_rules) [OAdd (Some (demo_metric ''a'')), OWrite]) = [Some (demo_metric ''a'')]"
    by (simp add: accepted_def no_rules_def demo_rules_def)
  then obtain ro ro' where 1: "NewRunningOutput ''file'' (True, []) no_rules 1 4 \<lparr>metrics_written = 0, metrics_dropped = 0\<rparr> = Inr ro"
    "ro_run recorder [OAdd (Some (demo_metric ''a'')), OWrite] ro = Inr ro'"
    "mset (snd (ro_output ro')) + mset (buf_list (ro_failMetrics ro')) + mset (buf_list (ro_metrics ro'))
      \<subseteq># mset (snd (True, [])) + mset [Some (demo_metric ''a'')]"
    using output_at_most_once [OF delivers_recorder, of 1 4 "''file''" "(True, [])" no_rules
        "\<lparr>metrics_written = 0, metrics_dropped = 0\<rparr>" "[OAdd (Some (demo_metric ''a'')), OWrite]"] by auto
  have "mset (buf_list (ro_failMetrics ro')) \<subseteq># mset (snd (ro_output ro')) + mset (buf_list (ro_failMetrics ro')) + mset (buf_list (ro_metrics ro'))"
    by (simp add: add.commute add.left_commute)
  from subset_mset.order_trans [OF this 1(3)] 1(1,2) show ?thesis by auto
qed

subsection \<open>Retries\<close>






text \<open>
  Retries can lose a metric without dropping it: with a batch size of two and a limit of four,
  three metrics and four writes while the output is down are followed by a write when it is up
  again; the third metric is neither delivered nor kept, and the drop counter stays at zero. The
  batch of two that the last retry takes wraps around the failed buffer's array.
\<close>

theorem retry_loses_metric:
  "let down = res_bind (NewRunningOutput ''file'' (True, []) no_rules 2 4 \<lparr>metrics_written = 0, metrics_dropped = 0\<rparr>)
         (ro_run recorder [OAdd (Some (demo_metric ''a'')), OAdd (Some (demo_metric ''b'')), OWrite,
            OAdd (Some (demo_metric ''c'')), OWrite, OWrite]);
       up = res_bind down (\<lambda>ro. ro_run recorder [OWrite] (ro\<lparr>ro_output := (False, [])\<rparr>))
   in (case down of Inl e \<Rightarrow> False | Inr ro \<Rightarrow>
         buf_list (ro_failMetrics ro) = [Some (demo_metric ''a''), Some (demo_metric ''b''), Some (demo_metric ''c'')])
    \<and> (case up of Inl e \<Rightarrow> False | Inr ro \<Rightarrow>
         snd (ro_output ro) = [Some (demo_metric ''a''), Some (demo_metric ''b'')]
         \<and> buf_list (ro_failMetrics ro) = [] \<and> buf_list (ro_metrics ro) = []
         \<and> metrics_dropped (ro_stats ro) = 0)"
  by code_simp


text \<open>
  C31. An aggregating output loses what its batch cannot hold: when both buffers are empty and \<open>Push\<close>
  hands out metrics, \<open>Write\<close> passes on only the last ones, as many as a batch has; the others are
  counted as dropped although \<open>Reset\<close> has already marked them as sent.
\<close>

theorem aggregates_beyond_batch_lost:
  assumes "ro_ok ro" "buf_list (ro_metrics ro) = []" "buf_list (ro_failMetrics ro) = []"
    "o_aggregating api = Some agg" "agg_Push agg (ro_output ro) = (ms, out1)" "ms \<noteq> []"
    "o_Write api (lastn (nat (ro_MetricBatchSize ro)) ms) (agg_Reset agg out1) = (out2, None, t)"
  shows "\<exists>ro'. Write api ro = Inr (ro', None) \<and> ro_output ro' = out2
    \<and> buf_list (ro_metrics ro') = [] \<and> buf_list (ro_failMetrics ro') = []
    \<and> metrics_dropped (ro_stats ro') = metrics_dropped (ro_stats ro) + of_nat (length ms - nat (ro_MetricBatchSize ro))"
proof -
  have ok: "buf_ok (ro_metrics ro)" "b_size (ro_metrics ro) = nat (ro_MetricBatchSize ro)" "b_empty (ro_failMetrics ro)"
    "0 < nat (ro_MetricBatchSize ro)" "0 \<le> ro_MetricBatchSize ro"
    using assms(1,3) by (auto simp: ro_ok_def buf_list_def slice_def buf_ok_def split: if_splits)
  from buf_add_ok [OF ok(1), of ms "ro_stats ro"] assms(2) obtain st b where
    b: "buf_add ms (ro_stats ro, ro_metrics ro) = Inr (st, b)" "buf_ok b" "b_size b = nat (ro_MetricBatchSize ro)"
      "buf_list b = lastn (nat (ro_MetricBatchSize ro)) ms"
      "metrics_dropped st = metrics_dropped (ro_stats ro) + of_nat (length ms - nat (ro_MetricBatchSize ro))"
    by (auto simp: ok(2))
  have "int (length (buf_list b)) \<le> ro_MetricBatchSize ro" using ok(5) by (simp add: b(4))
  from batch_all [OF b(2) this] obtain b' where
    b': "buf_batch (ro_MetricBatchSize ro) b = Inr (lastn (nat (ro_MetricBatchSize ro)) ms, b')" "buf_list b' = []"
    by (auto simp: b(4))
  have "min (nat (ro_MetricBatchSize ro)) (length ms) \<noteq> 0" using ok(4) assms(6) by (simp add: min_def)
  with assms(3,7) ok(3) b(1,5) b' show ?thesis
    by (auto simp: Write_def push_aggregates_def assms(4,5) metrics_Add_def ro_write_def Let_def min_def split: if_splits)
qed

text \<open>A small aggregating output: it pushes what it was given.\<close>

definition gatherer :: "(metric option list \<times> metric option list) output_plugin" where
  "gatherer = \<lparr>o_Write = (\<lambda>ms (held, ys). ((held, ys @ ms), None, 5)),
     o_aggregating = Some \<lparr>agg_Add = (\<lambda>m (held, ys). (held @ [m], ys)), agg_Push = (\<lambda>(held, ys). (held, (held, ys))),
       agg_Reset = (\<lambda>(held, ys). ([], ys))\<rparr>\<rparr>"

definition gatherer_full :: "(metric option list \<times> metric option list) running_output" where
  "gatherer_full = projr (res_bind (NewRunningOutput ''az'' ([], []) no_rules 2 4 \<lparr>metrics_written = 0, metrics_dropped = 0\<rparr>)
     (ro_run gatherer [OAdd (Some (demo_metric ''a'')), OAdd (Some (demo_metric ''b'')), OAdd (Some (demo_metric ''c''))]))"

theorem aggregates_beyond_batch_lost_witness:
  "\<exists>ro'. Write gatherer gatherer_full = Inr (ro', None)
    \<and> ro_output ro' = ([], [Some (demo_metric ''b''), Some (demo_metric ''c'')])
    \<and> buf_list (ro_metrics ro') = [] \<and> buf_list (ro_failMetrics ro') = []
    \<and> metrics_dropped (ro_stats ro') = metrics_dropped (ro_stats gatherer_full) + of_nat (length [Some (demo_metric ''a''), Some (demo_metric ''b''), Some (demo_metric ''c'')] - nat (ro_MetricBatchSize gatherer_full))"
proof (rule aggregates_beyond_batch_lost)
  show "ro_ok gatherer_full" by code_simp
  show "buf_list (ro_metrics gatherer_full) = []" "buf_list (ro_failMetrics gatherer_full) = []" by code_simp+
  show "o_aggregating gatherer = Some (the (o_aggregating gatherer))" by (simp add: gatherer_def)
  show "agg_Push (the (o_aggregating gatherer)) (ro_output gatherer_full) =
      ([Some (demo_metric ''a''), Some (demo_metric ''b''), Some (demo_metric ''c'')],
       [Some (demo_metric ''a''), Some (demo_metric ''b''), Some (demo_metric ''c'')], [])" by code_simp
  show "o_Write gatherer (lastn (nat (ro_MetricBatchSize gatherer_full)) [Some (demo_metric ''a''), Some (demo_metric ''b''), Some (demo_metric ''c'')])
      (agg_Reset (the (o_aggregating gatherer)) ([Some (demo_metric ''a''), Some (demo_metric ''b''), Some (demo_metric ''c'')], []))
     = (([], [Some (demo_metric ''b''), Some (demo_metric ''c'')]), None, 5)" by code_simp
qed simp

end
