(* ===== verification/Agent.thy ===== *)
theory Agent
  imports RunningAggregator RunningOutput
begin

section \<open>Processors and the agent\<close>

text \<open>
  \<open>internal/models/running_processor.go\<close> and the flusher of \<open>agent/agent.go\<close>: three goroutines
  move metrics from the inputs' channel through the processors and aggregators, and from the
  aggregators' channel, to the channel of the outputs. A processor plugin is a parameter, one
  function on a state of any type. Metrics are values here: the sharing of tags between copies is
  the subject of \<open>MetricAlias\<close>. Panics of an output stop the run (\<open>Inl\<close>).
\<close>

subsection \<open>Running processors\<close>

type_synonym 'p processor_apply = "metric \<Rightarrow> 'p \<Rightarrow> metric list \<times> 'p"

record 'p running_processor =
  rp_name :: string
  rp_order :: i64
  rp_filter :: filter_rules
  rp_state :: 'p

definition processor_less :: "'p running_processor \<Rightarrow> 'p running_processor \<Rightarrow> bool" where
  "processor_less p q = (rp_order p <s rp_order q)"

text \<open>
  The filter works on copies of the metric's maps, so it only decides whether the processor
  applies; a metric it rejects is passed on unchanged.
\<close>

fun processor_Apply ::
  "'p processor_apply \<Rightarrow> metric list \<Rightarrow> 'p running_processor \<Rightarrow> metric list \<times> 'p running_processor" where
  "processor_Apply ap [] rp = ([], rp)"
| "processor_Apply ap (m # ms) rp =
     (if isActive (rp_filter rp) \<and> \<not> fst (Filter_Apply (rp_filter rp) (m_name m) (Fields m) (Tags m)) then
        (case processor_Apply ap ms rp of (out, rp') \<Rightarrow> (m # out, rp'))
      else (case ap m (rp_state rp) of (ms1, p') \<Rightarrow>
        (case processor_Apply ap ms (rp\<lparr>rp_state := p'\<rparr>) of (out, rp') \<Rightarrow> (ms1 @ out, rp'))))"

fun apply_processors ::
  "'p processor_apply \<Rightarrow> 'p running_processor list \<Rightarrow> metric list \<Rightarrow> metric list \<times> 'p running_processor list" where
  "apply_processors ap [] ms = (ms, [])"
| "apply_processors ap (p # ps) ms =
     (case processor_Apply ap ms p of (ms1, p') \<Rightarrow>
        (case apply_processors ap ps ms1 of (out, ps') \<Rightarrow> (out, p' # ps')))"

subsection \<open>One metric on its way\<close>

text \<open>Offered to every aggregator; whether one of them wants the original dropped.\<close>

fun offer_aggregators :: "metric \<Rightarrow> 'a running_aggregator list \<Rightarrow> 'a running_aggregator list \<times> bool" where
  "offer_aggregators m [] = ([], False)"
| "offer_aggregators m (a # as) =
     (case RunningAggregator_Add m a of (a', ok) \<Rightarrow>
        (case offer_aggregators m as of (as', dr) \<Rightarrow> (a' # as', ok \<or> dr)))"

fun route_metrics :: "metric list \<Rightarrow> 'a running_aggregator list \<Rightarrow> metric list \<times> 'a running_aggregator list" where
  "route_metrics [] as = ([], as)"
| "route_metrics (m # ms) as =
     (case offer_aggregators m as of (as1, dropOriginal) \<Rightarrow>
        (case route_metrics ms as1 of (out, as2) \<Rightarrow> (if dropOriginal then out else m # out, as2)))"

fun add_to_outputs ::
  "'o output_plugin list \<Rightarrow> metric \<Rightarrow> 'o running_output list \<Rightarrow> 'o running_output list result" where
  "add_to_outputs (api # apis) m (ro # ros) =
     res_bind (AddMetric api (Some m) ro) (\<lambda>ro'. res_bind (add_to_outputs apis m ros) (\<lambda>ros'. Inr (ro' # ros')))"
| "add_to_outputs apis m ros = Inr ros"

subsection \<open>The flusher\<close>

text \<open>
  The agent's state: the three channels, each of capacity 100, the metrics that the input loop
  still has to send, the plugins, the shutdown signal, whether the aggregators' channel is
  closed, and which of the three loops have returned.
\<close>

record ('p, 'a, 'x) agent =
  ag_metricC :: "metric list"
  ag_aggMetricC :: "metric list"
  ag_outMetricC :: "metric list"
  ag_pending :: "metric list"
  ag_Processors :: "'p running_processor list"
  ag_Aggregators :: "'a running_aggregator list"
  ag_Outputs :: "'x running_output list"
  ag_shutdown :: bool
  ag_aggClosed :: bool
  ag_outDone :: bool
  ag_aggDone :: bool
  ag_inDone :: bool

definition take_metric :: "'p processor_apply \<Rightarrow> metric \<Rightarrow> ('p, 'a, 'x) agent \<Rightarrow> ('p, 'a, 'x) agent" where
  "take_metric ap m s =
     (case apply_processors ap (ag_Processors s) [m] of (ms, ps) \<Rightarrow>
        (case route_metrics ms (ag_Aggregators s) of (out, as) \<Rightarrow>
           s\<lparr>ag_Processors := ps, ag_Aggregators := as, ag_pending := out\<rparr>))"

text \<open>
  The loop over the aggregators' metrics applies the processors, then sends the metric it
  received: what the processors returned is not used.
\<close>

definition take_aggregate :: "'p processor_apply \<Rightarrow> metric \<Rightarrow> ('p, 'a, 'x) agent \<Rightarrow> ('p, 'a, 'x) agent" where
  "take_aggregate ap m s =
     (case apply_processors ap (ag_Processors s) [m] of (ms, ps) \<Rightarrow>
        s\<lparr>ag_Processors := ps, ag_outMetricC := ag_outMetricC s @ [m]\<rparr>)"

inductive flush_step :: "'p processor_apply \<Rightarrow> 'x output_plugin list \<Rightarrow> ('p, 'a, 'x) agent \<Rightarrow> ('p, 'a, 'x) agent \<Rightarrow> bool"
  for ap :: "'p processor_apply" and apis :: "'x output_plugin list" where
  gathered: "length (ag_metricC s) < 100 \<Longrightarrow> flush_step ap apis s (s\<lparr>ag_metricC := ag_metricC s @ [m]\<rparr>)"
| aggregated: "\<not> ag_aggClosed s \<Longrightarrow> length (ag_aggMetricC s) < 100 \<Longrightarrow>
    flush_step ap apis s (s\<lparr>ag_aggMetricC := ag_aggMetricC s @ [m]\<rparr>)"
| shutdown: "flush_step ap apis s (s\<lparr>ag_shutdown := True\<rparr>)"
| out_metric: "\<not> ag_outDone s \<Longrightarrow> ag_outMetricC s = m # ms \<Longrightarrow> add_to_outputs apis m (ag_Outputs s) = Inr ros \<Longrightarrow>
    flush_step ap apis s (s\<lparr>ag_outMetricC := ms, ag_Outputs := ros\<rparr>)"
| out_return: "\<not> ag_outDone s \<Longrightarrow> ag_shutdown s \<Longrightarrow> ag_outMetricC s = [] \<Longrightarrow>
    flush_step ap apis s (s\<lparr>ag_outDone := True\<rparr>)"
| agg_metric: "\<not> ag_aggDone s \<Longrightarrow> ag_aggMetricC s = m # ms \<Longrightarrow> length (ag_outMetricC s) < 100 \<Longrightarrow>
    flush_step ap apis s (take_aggregate ap m (s\<lparr>ag_aggMetricC := ms\<rparr>))"
| agg_return: "\<not> ag_aggDone s \<Longrightarrow> ag_aggClosed s \<Longrightarrow> ag_aggMetricC s = [] \<Longrightarrow>
    flush_step ap apis s (s\<lparr>ag_aggDone := True\<rparr>)"
| in_metric: "\<not> ag_inDone s \<Longrightarrow> ag_pending s = [] \<Longrightarrow> ag_metricC s = m # ms \<Longrightarrow>
    flush_step ap apis s (take_metric ap m (s\<lparr>ag_metricC := ms\<rparr>))"
| in_send: "ag_pending s = m # ms \<Longrightarrow> length (ag_outMetricC s) < 100 \<Longrightarrow>
    flush_step ap apis s (s\<lparr>ag_pending := ms, ag_outMetricC := ag_outMetricC s @ [m]\<rparr>)"
| in_return: "\<not> ag_inDone s \<Longrightarrow> ag_shutdown s \<Longrightarrow> ag_pending s = [] \<Longrightarrow> ag_metricC s = [] \<Longrightarrow>
    flush_step ap apis s (s\<lparr>ag_inDone := True, ag_aggClosed := True\<rparr>)"

inductive flush_run :: "'p processor_apply \<Rightarrow> 'x output_plugin list \<Rightarrow> ('p, 'a, 'x) agent \<Rightarrow> ('p, 'a, 'x) agent \<Rightarrow> bool"
  for ap :: "'p processor_apply" and apis :: "'x output_plugin list" where
  here: "flush_run ap apis s s"
| further: "flush_run ap apis s s1 \<Longrightarrow> flush_step ap apis s1 s2 \<Longrightarrow> flush_run ap apis s s2"

text \<open>The timeouts of one collection: every tick before the end counts one error, as does an error result.\<close>

datatype gather_event = GDone "string option" | GTick | GShutdown

fun gatherWithTimeout :: "gather_event list \<Rightarrow> i64 \<Rightarrow> i64 option" where
  "gatherWithTimeout [] nerrors = None"
| "gatherWithTimeout (GDone err # es) nerrors = Some (AddError err nerrors)"
| "gatherWithTimeout (GTick # es) nerrors = gatherWithTimeout es (AddError (Some ''took longer to collect'') nerrors)"
| "gatherWithTimeout (GShutdown # es) nerrors = Some nerrors"

subsection \<open>Routing\<close>

text \<open>What a processor does to one metric, by its filter.\<close>

lemma processor_Apply_append:
  "processor_Apply ap (ms @ ns) rp =
     (case processor_Apply ap ms rp of (out, rp1) \<Rightarrow>
        (case processor_Apply ap ns rp1 of (out', rp2) \<Rightarrow> (out @ out', rp2)))"
  by (induction ap ms rp rule: processor_Apply.induct) (auto split: prod.splits)

text \<open>The metrics an aggregator gets, and whether it claims the original.\<close>

definition claims :: "metric \<Rightarrow> 'a running_aggregator \<Rightarrow> bool" where
  "claims m a \<longleftrightarrow> agc_DropOriginal (ra_config a) \<and> filter_incoming (agc_Filter (ra_config a)) m \<noteq> None"

lemma offer_aggregators_eq:
  "offer_aggregators m as = (List.map (\<lambda>a. fst (RunningAggregator_Add m a)) as, \<exists>a \<in> set as. claims m a)"
  by (induction as) (auto simp: RunningAggregator_Add_def claims_def split: option.splits)

lemma claims_Add: "claims m (fst (RunningAggregator_Add m' a)) = claims m a"
  by (simp add: claims_def RunningAggregator_Add_def split: option.splits)

lemma Add_channel:
  "ra_metrics (fst (RunningAggregator_Add m a)) = ra_metrics a @ (case filter_incoming (agc_Filter (ra_config a)) m of None \<Rightarrow> [] | Some m' \<Rightarrow> [m'])"
  "ra_config (fst (RunningAggregator_Add m a)) = ra_config a"
  by (simp_all add: RunningAggregator_Add_def split: option.splits)

text \<open>The metrics a filter lets through, as an aggregator receives them.\<close>

definition passed :: "filter_rules \<Rightarrow> metric list \<Rightarrow> metric list" where
  "passed f ms = concat (List.map (\<lambda>m. case filter_incoming f m of None \<Rightarrow> [] | Some m' \<Rightarrow> [m']) ms)"

lemma route_metrics_Cons:
  "route_metrics (m # ms) as =
     (let r = route_metrics ms (List.map (\<lambda>a. fst (RunningAggregator_Add m a)) as)
      in (if \<exists>a \<in> set as. claims m a then fst r else m # fst r, snd r))"
  by (simp add: offer_aggregators_eq Let_def case_prod_beta)

lemma route_metrics_out:
  "fst (route_metrics ms as) = List.filter (\<lambda>m. \<not> (\<exists>a \<in> set as. claims m a)) ms"
proof (induction ms arbitrary: as)
  case (Cons m ms)
  then show ?case by (simp add: route_metrics_Cons Let_def claims_Add del: route_metrics.simps(2))
qed simp

lemma route_metrics_channels:
  "i < length as \<Longrightarrow> length (snd (route_metrics ms as)) = length as
   \<and> ra_metrics (snd (route_metrics ms as) ! i) = ra_metrics (as ! i) @ passed (agc_Filter (ra_config (as ! i))) ms"
proof (induction ms arbitrary: as)
  case (Cons m ms)
  let ?as = "List.map (\<lambda>a. fst (RunningAggregator_Add m a)) as"
  from Cons.IH [of ?as] Cons.prems show ?case
    by (simp add: route_metrics_Cons Let_def passed_def Add_channel del: route_metrics.simps(2))
qed (simp add: passed_def)

text \<open>
  C7. Routing of an input's metric: of the metrics the processors make of it, the outputs get, in
  order, exactly those that no aggregator with \<open>drop_original\<close> accepts, and every aggregator
  gets, in order, exactly those its own filter lets through.
\<close>

theorem take_metric_routes:
  assumes "ag_pending s = []" "i < length (ag_Aggregators s)"
  shows "let ms = fst (apply_processors ap (ag_Processors s) [m]); s' = take_metric ap m s; a = ag_Aggregators s ! i
    in ag_pending s' = List.filter (\<lambda>m'. \<not> (\<exists>a \<in> set (ag_Aggregators s). agc_DropOriginal (ra_config a)
          \<and> filter_incoming (agc_Filter (ra_config a)) m' \<noteq> None)) ms
     \<and> ra_metrics (ag_Aggregators s' ! i) = ra_metrics a @ passed (agc_Filter (ra_config a)) ms
     \<and> ag_outMetricC s' = ag_outMetricC s"
proof -
  obtain ms ps where ms: "apply_processors ap (ag_Processors s) [m] = (ms, ps)" by force
  obtain out as where r: "route_metrics ms (ag_Aggregators s) = (out, as)" by force
  have "take_metric ap m s = s\<lparr>ag_Processors := ps, ag_Aggregators := as, ag_pending := out\<rparr>"
    by (simp add: take_metric_def ms r)
  then show ?thesis
    using route_metrics_out [of ms "ag_Aggregators s"] route_metrics_channels [OF assms(2), of ms]
    by (simp add: ms r Let_def claims_def)
qed

definition demo_ra :: "nat running_aggregator" where
  "demo_ra = demo_aggregator\<lparr>ra_config := (ra_config demo_aggregator)\<lparr>agc_DropOriginal := True,
     agc_Filter := demo_rules\<lparr>NamePass := [''cpu''], namePass := Some (FSingle ''cpu''), isActive := True\<rparr>\<rparr>\<rparr>"

definition demo_agent :: "(nat, nat, bool \<times> metric option list) agent" where
  "demo_agent = \<lparr>ag_metricC = [], ag_aggMetricC = [], ag_outMetricC = [], ag_pending = [], ag_Processors = [],
     ag_Aggregators = [demo_ra], ag_Outputs = [], ag_shutdown = False, ag_aggClosed = False, ag_outDone = False,
     ag_aggDone = False, ag_inDone = False\<rparr>"

theorem take_metric_routes_witness:
  "ag_pending (take_metric (\<lambda>m p. ([m], p)) (demo_metric ''mem'') demo_agent) = [demo_metric ''mem'']
   \<and> ra_metrics (ag_Aggregators (take_metric (\<lambda>m p. ([m], p)) (demo_metric ''mem'') demo_agent) ! 0) = []"
proof -
  have "ag_pending demo_agent = []" "0 < length (ag_Aggregators demo_agent)" by (simp_all add: demo_agent_def)
  note main = take_metric_routes [OF this, of "\<lambda>m p. ([m], p)" "demo_metric ''mem''"]
  have "filter_incoming (agc_Filter (ra_config demo_ra)) (demo_metric ''mem'') = None" by code_simp
  moreover have "ra_metrics demo_ra = []" by code_simp
  ultimately show ?thesis using main by (simp add: Let_def demo_agent_def passed_def)
qed

text \<open>
  Aggregated metrics bypass the processors: what reaches the outputs' channel is the
  aggregate itself, whatever metrics the processors returned for it; they only see it.
\<close>

theorem aggregate_not_processed:
  "ag_outMetricC (take_aggregate ap m s) = ag_outMetricC s @ [m]
   \<and> ag_Processors (take_aggregate ap m s) = snd (apply_processors ap (ag_Processors s) [m])"
  by (simp add: take_aggregate_def split: prod.splits)

subsection \<open>Shutdown\<close>

text \<open>Once the loop over the outputs' channel has returned, the outputs no longer change.\<close>

lemma flush_step_out_done:
  "flush_step ap apis s s' \<Longrightarrow> ag_outDone s \<Longrightarrow> ag_outDone s' \<and> ag_Outputs s' = ag_Outputs s"
  by (erule flush_step.cases) (simp_all add: take_metric_def take_aggregate_def split: prod.splits)

lemma flush_run_out_done:
  "flush_run ap apis s s' \<Longrightarrow> ag_outDone s \<Longrightarrow> ag_outDone s' \<and> ag_Outputs s' = ag_Outputs s"
  by (induction rule: flush_run.induct) (auto dest: flush_step_out_done)

text \<open>
  C8. The shutdown of the flusher can lose metrics: with no processors and aggregators, from any
  running state whose channels to the outputs are empty and in which one gathered metric waits,
  a run leads to a state in which all three loops have returned and that metric sits in the
  outputs' channel, where no further step can ever bring it to an output. The loop over the
  outputs' channel returns as soon as it finds its channel empty, without waiting for the loops
  that still feed it.
\<close>

theorem shutdown_can_lose:
  assumes "ag_metricC s = [m]" "ag_outMetricC s = []" "ag_pending s = []" "ag_aggMetricC s = []"
    "ag_Processors s = []" "ag_Aggregators s = []" "\<not> ag_outDone s" "\<not> ag_inDone s" "\<not> ag_aggDone s"
  shows "\<exists>s'. flush_run ap apis s s' \<and> ag_outDone s' \<and> ag_inDone s' \<and> ag_aggDone s'
    \<and> ag_outMetricC s' = [m] \<and> ag_Outputs s' = ag_Outputs s
    \<and> (\<forall>s''. flush_run ap apis s' s'' \<longrightarrow> ag_Outputs s'' = ag_Outputs s)"
proof -
  define s1 where "s1 = s\<lparr>ag_shutdown := True\<rparr>"
  define s2 where "s2 = s1\<lparr>ag_outDone := True\<rparr>"
  define s3 where "s3 = take_metric ap m (s2\<lparr>ag_metricC := []\<rparr>)"
  define s4 where "s4 = s3\<lparr>ag_pending := [], ag_outMetricC := ag_outMetricC s3 @ [m]\<rparr>"
  define s5 where "s5 = s4\<lparr>ag_inDone := True, ag_aggClosed := True\<rparr>"
  define s6 where "s6 = s5\<lparr>ag_aggDone := True\<rparr>"
  note defs = s1_def s2_def s3_def s4_def s5_def s6_def take_metric_def
  have "flush_step ap apis s s1" unfolding s1_def by (rule flush_step.shutdown)
  moreover have "flush_step ap apis s1 s2" unfolding s2_def by (rule flush_step.out_return) (simp_all add: s1_def assms)
  moreover have "flush_step ap apis s2 s3" unfolding s3_def
    by (rule flush_step.in_metric) (simp_all add: s1_def s2_def assms)
  moreover have "flush_step ap apis s3 s4" unfolding s4_def
    by (rule flush_step.in_send) (simp_all add: defs assms)
  moreover have "flush_step ap apis s4 s5" unfolding s5_def
    by (rule flush_step.in_return) (simp_all add: defs assms)
  moreover have "flush_step ap apis s5 s6" unfolding s6_def
    by (rule flush_step.agg_return) (simp_all add: defs assms)
  ultimately have run: "flush_run ap apis s s6" by (meson flush_run.further flush_run.here)
  have fin: "ag_outDone s6" "ag_inDone s6" "ag_aggDone s6" "ag_outMetricC s6 = [m]" "ag_Outputs s6 = ag_Outputs s"
    by (simp_all add: defs assms)
  have "ag_Outputs s'' = ag_Outputs s" if "flush_run ap apis s6 s''" for s''
    using flush_run_out_done [OF that] fin by simp
  with run fin show ?thesis by blast
qed

theorem shutdown_can_lose_witness:
  "\<exists>s'. flush_run (\<lambda>m p. ([m], p)) [] (demo_agent\<lparr>ag_metricC := [demo_metric ''a''], ag_Aggregators := []\<rparr>) s'
    \<and> ag_outMetricC s' = [demo_metric ''a'']"
proof -
  let ?s = "demo_agent\<lparr>ag_metricC := [demo_metric ''a''], ag_Aggregators := []\<rparr>"
  have "ag_metricC ?s = [demo_metric ''a'']" "ag_outMetricC ?s = []" "ag_pending ?s = []" "ag_aggMetricC ?s = []"
    "ag_Processors ?s = []" "ag_Aggregators ?s = []" "\<not> ag_outDone ?s" "\<not> ag_inDone ?s" "\<not> ag_aggDone ?s"
    by (simp_all add: demo_agent_def)
  from shutdown_can_lose [OF this, of "\<lambda>m p. ([m], p)" "[]"] show ?thesis by blast
qed

subsection \<open>Start, connection and end of the agent\<close>

text \<open>\<open>NewAgent\<close>: the host name becomes a global tag, unless it is omitted; \<open>os.Hostname\<close> is a parameter.\<close>

record agent_config =
  acf_OmitHostname :: bool
  acf_Hostname :: string
  acf_Tags :: strmap

definition NewAgent :: "string result \<Rightarrow> agent_config \<Rightarrow> agent_config result" where
  "NewAgent os_hostname c =
     (if \<not> acf_OmitHostname c then
        res_bind (if acf_Hostname c = [] then os_hostname else Inr (acf_Hostname c)) (\<lambda>h.
          Inr (c\<lparr>acf_Hostname := h, acf_Tags := AList.update ''host'' h (acf_Tags c)\<rparr>))
      else Inr c)"

text \<open>
  What the agent asks of an output when it starts and stops: a start for a service output, two
  attempts at a connection, a close and a stop.
\<close>

record 'x output_service =
  os_Start :: "('x \<Rightarrow> 'x \<times> string option) option"
  os_Connect :: "'x \<Rightarrow> 'x \<times> string option"
  os_Close :: "'x \<Rightarrow> 'x \<times> string option"
  os_Stop :: "('x \<Rightarrow> 'x) option"

definition connect_one :: "'x output_service \<Rightarrow> 'x \<Rightarrow> 'x \<times> string option" where
  "connect_one sv x =
     (let (x1, e1) = (case os_Start sv of None \<Rightarrow> (x, None) | Some start \<Rightarrow> start x)
      in if e1 \<noteq> None then (x1, e1)
         else case os_Connect sv x1 of
           (x2, None) \<Rightarrow> (x2, None)
         | (x2, Some e) \<Rightarrow> os_Connect sv x2)"

fun Connect :: "('x output_service \<times> 'x) list \<Rightarrow> 'x list \<times> string option" where
  "Connect [] = ([], None)"
| "Connect ((sv, x) # os) =
     (case connect_one sv x of
        (x', Some e) \<Rightarrow> (x' # List.map snd os, Some e)
      | (x', None) \<Rightarrow> (case Connect os of (xs, e) \<Rightarrow> (x' # xs, e)))"

fun Close :: "('x output_service \<times> 'x) list \<Rightarrow> string option \<Rightarrow> 'x list \<times> string option" where
  "Close [] err = ([], err)"
| "Close ((sv, x) # os) err =
     (case os_Close sv x of (x1, err') \<Rightarrow>
        (let x2 = (case os_Stop sv of None \<Rightarrow> x1 | Some stop \<Rightarrow> stop x1)
         in case Close os err' of (xs, e) \<Rightarrow> (x2 # xs, e)))"

text \<open>Every output is closed, but only the last one's error is reported.\<close>

lemma Close_last_error: "snd (Close (os @ [(sv, x)]) err) = snd (os_Close sv x)"
proof (induction os arbitrary: err)
  case (Cons p os)
  obtain sv1 x1 where p: "p = (sv1, x1)" by force
  show ?case using Cons.IH [of "snd (os_Close sv1 x1)"] by (auto simp: p Let_def split: prod.split)
qed (simp add: Let_def split: prod.split)

text \<open>\<open>flush\<close>: every output writes, whatever the others return; a panic stops the agent.\<close>

fun flush :: "'x output_plugin list \<Rightarrow> 'x running_output list \<Rightarrow> 'x running_output list result" where
  "flush (api # apis) (ro # ros) =
     res_bind (Write api ro) (\<lambda>(ro', err). res_bind (flush apis ros) (\<lambda>ros'. Inr (ro' # ros')))"
| "flush apis ros = Inr ros"

text \<open>The accumulator of a gathering input, and the interval it is gathered at.\<close>

definition gather_accumulator :: "int \<Rightarrow> int \<Rightarrow> running_input \<times> i64 \<Rightarrow> (running_input \<times> i64) accumulator" where
  "gather_accumulator precision interval maker = SetPrecision precision interval (NewAccumulator maker)"

definition gather_interval :: "int \<Rightarrow> input_config \<Rightarrow> int" where
  "gather_interval agent_interval c = (if ic_interval c \<noteq> 0 then ic_interval c else agent_interval)"

end
