(* ===== verification/Aggregators.thy ===== *)
theory Aggregators
  imports RunningAggregator
begin

section \<open>Aggregator plugins: minmax, basicstats, valuecounter\<close>

text \<open>
  \<open>plugins/aggregators/minmax\<close>, \<open>basicstats\<close> and \<open>valuecounter\<close>. Each keeps a cache from the hash
  of a series to what it knows of that series; the locale \<open>series_aggregator\<close> is their common
  contract with the running aggregator, \<open>field_aggregator\<close> that of the two that keep statistics per
  numeric field. Go evaluates the float expressions one operation at a time (no fused operations).
\<close>

subsection \<open>Interface: an aggregator of series\<close>

text \<open>
  What one series knows (\<open>look\<close>) changes by \<open>step\<close> with the metrics of that series only, and is
  forgotten by a reset.
\<close>

locale series_aggregator =
  fixes add :: "metric \<Rightarrow> 'st \<Rightarrow> 'st"
    and reset :: "'st \<Rightarrow> 'st"
    and look :: "'st \<Rightarrow> u64 \<Rightarrow> 'v"
    and step :: "'st \<Rightarrow> metric \<Rightarrow> 'v \<Rightarrow> 'v"
    and unseen :: 'v
  assumes look_add: "look (add m st) h = (if HashID m = h then step st m (look st h) else look st h)"
    and look_reset: "look (reset st) h = unseen"
    and step_add: "step (add m st) = step st"
    and step_reset: "step (reset st) = step st"
begin

lemma look_adds:
  "look (fold add ms st) h = fold (step st) (List.filter (\<lambda>m. HashID m = h) ms) (look st h)"
  by (induction ms arbitrary: st) (auto simp: look_add step_add)

text \<open>A period: what a series knows is a function of its own metrics since the reset.\<close>

lemma look_period:
  "look (fold add ms (reset st)) h = fold (step st) (List.filter (\<lambda>m. HashID m = h) ms) unseen"
  by (simp add: look_adds look_reset step_reset)

end

text \<open>
  Statistics per field: the first number of a field starts its statistics, later ones update it,
  and fields that are no numbers are left out.
\<close>

locale field_aggregator = series_aggregator add reset look step unseen
  for add :: "metric \<Rightarrow> 'st \<Rightarrow> 'st" and reset and look :: "'st \<Rightarrow> u64 \<Rightarrow> 'v" and step and unseen +
  fixes fld :: "'v \<Rightarrow> string \<Rightarrow> 's option"
    and conv :: "gval \<Rightarrow> f64 option"
    and init :: "f64 \<Rightarrow> 's"
    and upd :: "f64 \<Rightarrow> 's \<Rightarrow> 's"
  assumes fld_step: "metric_ok m \<Longrightarrow> fld (step st m v) k =
      (case Option.bind (GetField m k) conv of None \<Rightarrow> fld v k
       | Some x \<Rightarrow> Some (case fld v k of None \<Rightarrow> init x | Some s \<Rightarrow> upd x s))"
    and fld_unseen: "fld unseen k = None"
begin

definition samples :: "u64 \<Rightarrow> string \<Rightarrow> metric list \<Rightarrow> f64 list" where
  "samples h k ms = concat (List.map (\<lambda>m. case Option.bind (GetField m k) conv of None \<Rightarrow> [] | Some x \<Rightarrow> [x])
     (List.filter (\<lambda>m. HashID m = h) ms))"

definition stats_of :: "f64 list \<Rightarrow> 's option \<Rightarrow> 's option" where
  "stats_of xs s0 = fold (\<lambda>x s. Some (case s of None \<Rightarrow> init x | Some s \<Rightarrow> upd x s)) xs s0"

lemma fld_adds:
  "list_all metric_ok ms \<Longrightarrow> fld (look (fold add ms st) h) k = stats_of (samples h k ms) (fld (look st h) k)"
proof (induction ms arbitrary: st)
  case (Cons m ms)
  show ?case
    using Cons.prems Cons.IH [of "add m st"]
    by (cases "Option.bind (GetField m k) conv")
      (simp_all add: look_add fld_step stats_of_def samples_def)
qed (simp add: stats_of_def samples_def)

lemma stats_of_Some: "stats_of xs (Some s) = Some (fold upd xs s)"
  by (induction xs arbitrary: s) (simp_all add: stats_of_def)

text \<open>The statistics of a field in a period, as a fold over its samples.\<close>

lemma fld_period:
  "list_all metric_ok ms \<Longrightarrow> fld (look (fold add ms (reset st)) h) k =
     (case samples h k ms of [] \<Rightarrow> None | x # xs \<Rightarrow> Some (fold upd xs (init x)))"
  by (simp add: fld_adds look_reset fld_unseen stats_of_def [of "_ # _"] split: list.split)
    (simp add: stats_of_def stats_of_Some [unfolded stats_of_def])

end

subsection \<open>Numbers and field loops\<close>

text \<open>\<open>convert\<close>, which the two numeric aggregators share.\<close>

fun convert :: "gval \<Rightarrow> f64 option" where
  "convert (GFloat64 v) = Some v"
| "convert (GInt64 v) = Some (f64_of_int (sint v))"
| "convert (GUint64 v) = Some (f64_of_int (uint v))"
| "convert _ = None"

text \<open>
  The loop over a metric's fields, with the body \<open>g\<close> for a field that converts: from the number and
  the field's entry, if any, to its new entry.
\<close>

definition each_number :: "(f64 \<Rightarrow> 's option \<Rightarrow> 's) \<Rightarrow> (string \<times> gval) list \<Rightarrow> (string, 's) gomap \<Rightarrow> (string, 's) gomap" where
  "each_number g kvs acc = fold (\<lambda>(k, v) acc. case convert v of
       Some fv \<Rightarrow> AList.update k (g fv (map_of acc k)) acc
     | None \<Rightarrow> acc) kvs acc"

lemma map_of_each_number:
  "distinct (List.map fst kvs) \<Longrightarrow> map_of (each_number g kvs acc) k =
     (case Option.bind (map_of kvs k) convert of None \<Rightarrow> map_of acc k | Some x \<Rightarrow> Some (g x (map_of acc k)))"
proof (induction kvs arbitrary: acc)
  case (Cons kv kvs)
  obtain a v where kv: "kv = (a, v)" by force
  have "a \<notin> fst ` set kvs" using Cons.prems kv by simp
  then have none: "map_of kvs a = None" by (simp add: map_of_eq_None_iff)
  have "each_number g (kv # kvs) acc = each_number g kvs (case convert v of
       Some fv \<Rightarrow> AList.update a (g fv (map_of acc a)) acc | None \<Rightarrow> acc)"
    by (simp add: each_number_def kv)
  with Cons.IH Cons.prems none show ?case
    by (auto simp: kv map_laws split: option.splits)
qed (simp add: each_number_def)

lemma gomap_ok_each_number: "gomap_ok acc \<Longrightarrow> gomap_ok (each_number g kvs acc)"
  unfolding each_number_def
  by (induction kvs arbitrary: acc) (auto split: option.splits simp: gomap_ok_update)

text \<open>A field list as pairs, and what is known of a series.\<close>

definition field_pairs :: "metric \<Rightarrow> (string \<times> gval) list" where
  "field_pairs m = List.map (\<lambda>f. (field_key f, field_value f)) (m_fields m)"

lemma field_pairs_laws:
  "metric_ok m \<Longrightarrow> distinct (List.map fst (field_pairs m))" "map_of (field_pairs m) k = GetField m k"
  by (simp_all add: field_pairs_def metric_ok_def fields_ok_def comp_def map_of_field_list GetField_def)

record 's series =
  s_name :: string
  s_tags :: strmap
  s_fields :: "(string, 's) gomap"

type_synonym 's cache = "(u64, 's series) gomap"

definition series_field :: "'s series option \<Rightarrow> string \<Rightarrow> 's option" where
  "series_field sr k = Option.bind sr (\<lambda>a. map_of (s_fields a) k)"

text \<open>The calls that push a series: one \<open>AddFields\<close> with the series' name and tags.\<close>

definition add_fields_call :: "int \<Rightarrow> string \<Rightarrow> (string, gval) gomap \<Rightarrow> strmap \<Rightarrow> acc_call" where
  "add_fields_call now n flds tags = CAdd Untyped now n flds (Some tags) []"

subsection \<open>minmax\<close>

record minmax =
  mm_min :: f64
  mm_max :: f64

definition mm_new :: "f64 \<Rightarrow> minmax" where
  "mm_new fv = \<lparr>mm_min = fv, mm_max = fv\<rparr>"

definition mm_upd :: "f64 \<Rightarrow> minmax \<Rightarrow> minmax" where
  "mm_upd fv s =
     (if f_lt fv (mm_min s) then s\<lparr>mm_min := fv\<rparr>
      else if f_lt (mm_max s) fv then s\<lparr>mm_max := fv\<rparr> else s)"

definition MinMax_Add :: "metric \<Rightarrow> minmax cache \<Rightarrow> minmax cache" where
  "MinMax_Add m cache =
     (let id = HashID m
      in case map_of cache id of
        None \<Rightarrow> AList.update id \<lparr>s_name = m_name m, s_tags = Tags m,
            s_fields = each_number (\<lambda>fv _. mm_new fv) (Fields m) []\<rparr> cache
      | Some a \<Rightarrow> AList.update id (a\<lparr>s_fields := each_number
            (\<lambda>fv e. case e of None \<Rightarrow> mm_new fv | Some s \<Rightarrow> mm_upd fv s) (Fields m) (s_fields a)\<rparr>) cache)"

definition MinMax_Push :: "int \<Rightarrow> minmax cache \<Rightarrow> acc_call list" where
  "MinMax_Push now cache = List.map (\<lambda>(_, a). add_fields_call now (s_name a)
     (fold (\<lambda>(k, v) flds. AList.update (k @ ''_max'') (GFloat64 (mm_max v))
        (AList.update (k @ ''_min'') (GFloat64 (mm_min v)) flds)) (s_fields a) []) (s_tags a)) cache"

definition MinMax_Reset :: "minmax cache \<Rightarrow> minmax cache" where
  "MinMax_Reset cache = []"

definition MinMax :: "minmax cache aggregator_plugin" where
  "MinMax = \<lparr>ap_Add = MinMax_Add, ap_Push = MinMax_Push, ap_Reset = MinMax_Reset\<rparr>"

definition mm_step :: "minmax cache \<Rightarrow> metric \<Rightarrow> minmax series option \<Rightarrow> minmax series option" where
  "mm_step _ m v = (case v of
      None \<Rightarrow> Some \<lparr>s_name = m_name m, s_tags = Tags m, s_fields = each_number (\<lambda>fv _. mm_new fv) (Fields m) []\<rparr>
    | Some a \<Rightarrow> Some (a\<lparr>s_fields := each_number
            (\<lambda>fv e. case e of None \<Rightarrow> mm_new fv | Some s \<Rightarrow> mm_upd fv s) (Fields m) (s_fields a)\<rparr>))"

interpretation minmax: field_aggregator MinMax_Add MinMax_Reset map_of mm_step None series_field convert mm_new mm_upd
proof unfold_locales
  fix m h and st :: "minmax cache"
  show "map_of (MinMax_Add m st) h = (if HashID m = h then mm_step st m (map_of st h) else map_of st h)"
    by (auto simp: MinMax_Add_def mm_step_def Let_def map_laws split: option.splits)
next
  fix m :: metric and v k and st :: "minmax cache"
  assume "metric_ok m"
  then show "series_field (mm_step st m v) k = (case Option.bind (GetField m k) convert of None \<Rightarrow> series_field v k
       | Some x \<Rightarrow> Some (case series_field v k of None \<Rightarrow> mm_new x | Some s \<Rightarrow> mm_upd x s))"
    by (auto simp: series_field_def mm_step_def map_of_each_number map_of_Fields split: option.splits)
qed (simp_all add: MinMax_Reset_def mm_step_def series_field_def fun_eq_iff)

text \<open>The samples of a field in a list of metrics: the numbers of that field, in order.\<close>

definition series_samples :: "u64 \<Rightarrow> string \<Rightarrow> metric list \<Rightarrow> f64 list" where
  "series_samples h k ms = concat (List.map (\<lambda>m. case Option.bind (GetField m k) convert of None \<Rightarrow> [] | Some x \<Rightarrow> [x])
     (List.filter (\<lambda>m. HashID m = h) ms))"

lemma minmax_samples: "minmax.samples h k ms = series_samples h k ms"
  by (simp add: minmax.samples_def series_samples_def)

text \<open>Without a NaN the two bounds are the least and the greatest sample.\<close>

definition is_min_of :: "f64 \<Rightarrow> f64 list \<Rightarrow> bool" where
  "is_min_of y xs \<longleftrightarrow> y \<in> set xs \<and> (\<forall>x \<in> set xs. f_le y x)"

definition is_max_of :: "f64 \<Rightarrow> f64 list \<Rightarrow> bool" where
  "is_max_of y xs \<longleftrightarrow> y \<in> set xs \<and> (\<forall>x \<in> set xs. f_le x y)"

lemma mm_upd_bounds:
  assumes "is_min_of (mm_min s) ys" "is_max_of (mm_max s) ys" "\<not> is_nan x"
  shows "is_min_of (mm_min (mm_upd x s)) (ys @ [x]) \<and> is_max_of (mm_max (mm_upd x s)) (ys @ [x])"
proof -
  have mn: "f_le (mm_min s) (mm_max s)" using assms(1,2) by (auto simp: is_min_of_def is_max_of_def)
  have nn: "\<not> is_nan (mm_min s)" "\<not> is_nan (mm_max s)" using mn by (auto simp: f_le_def)
  consider "f_lt x (mm_min s)" | "\<not> f_lt x (mm_min s)" "f_lt (mm_max s) x" | "\<not> f_lt x (mm_min s)" "\<not> f_lt (mm_max s) x" by blast
  then show ?thesis
  proof cases
    case 1
    then have "f_le x (mm_min s)" by (rule f_lt_imp_le)
    moreover from this have "f_le x (mm_max s)" using mn by (rule f_le_trans)
    ultimately show ?thesis
      using 1 assms f_le_trans [OF \<open>f_le x (mm_min s)\<close>] f_le_refl [OF assms(3)]
      by (simp add: is_min_of_def is_max_of_def mm_upd_def)
  next
    case 2
    then have le: "f_le (mm_max s) x" by (intro f_lt_imp_le)
    moreover have "f_le (mm_min s) x" using mn le by (rule f_le_trans)
    ultimately show ?thesis
      using 2 assms f_le_trans [OF _ le] f_le_refl [OF assms(3)]
      by (simp add: is_min_of_def is_max_of_def mm_upd_def)
  next
    case 3
    then have "f_le (mm_min s) x" "f_le x (mm_max s)" using f_not_lt_le nn assms(3) by blast+
    with 3 assms show ?thesis by (auto simp: is_min_of_def is_max_of_def mm_upd_def)
  qed
qed

lemma mm_fold_bounds:
  assumes "is_min_of (mm_min s) ys" "is_max_of (mm_max s) ys" "list_all (\<lambda>x. \<not> is_nan x) xs"
  shows "is_min_of (mm_min (fold mm_upd xs s)) (ys @ xs) \<and> is_max_of (mm_max (fold mm_upd xs s)) (ys @ xs)"
  using assms
proof (induction xs arbitrary: s ys)
  case (Cons x xs)
  from mm_upd_bounds [OF Cons.prems(1,2), of x] Cons.IH [of "mm_upd x s" "ys @ [x]"] Cons.prems(3)
  show ?case by simp
qed simp

lemma mm_new_bounds: "\<not> is_nan x \<Longrightarrow> is_min_of (mm_min (mm_new x)) [x] \<and> is_max_of (mm_max (mm_new x)) [x]"
  by (simp add: mm_new_def is_min_of_def is_max_of_def f_le_refl)

lemma mm_stats_bounds:
  assumes "list_all (\<lambda>x. \<not> is_nan x) (x # xs)"
  shows "is_min_of (mm_min (fold mm_upd xs (mm_new x))) (x # xs) \<and> is_max_of (mm_max (fold mm_upd xs (mm_new x))) (x # xs)"
  using mm_fold_bounds [of "mm_new x" "[x]" xs] mm_new_bounds [of x] assms by simp

lemma min_max_suffix: "k @ ''_min'' \<noteq> a @ ''_max''" "a @ ''_max'' \<noteq> k @ ''_min''"
  by (auto dest: arg_cong [of _ _ last])

lemma mm_push_fields:
  assumes "gomap_ok kvs"
  shows "map_of (fold (\<lambda>(k, v) flds. AList.update (k @ ''_max'') (GFloat64 (mm_max v))
        (AList.update (k @ ''_min'') (GFloat64 (mm_min v)) flds)) kvs acc) (k @ ''_min'') =
      (case map_of kvs k of None \<Rightarrow> map_of acc (k @ ''_min'') | Some v \<Rightarrow> Some (GFloat64 (mm_min v)))
    \<and> map_of (fold (\<lambda>(k, v) flds. AList.update (k @ ''_max'') (GFloat64 (mm_max v))
        (AList.update (k @ ''_min'') (GFloat64 (mm_min v)) flds)) kvs acc) (k @ ''_max'') =
      (case map_of kvs k of None \<Rightarrow> map_of acc (k @ ''_max'') | Some v \<Rightarrow> Some (GFloat64 (mm_max v)))"
  using assms
proof (induction kvs arbitrary: acc)
  case (Cons kv kvs)
  obtain a v where kv: "kv = (a, v)" by force
  have "map_of kvs a = None" using Cons.prems kv by (simp add: map_of_eq_None_iff)
  with Cons kv show ?case by (simp add: map_laws min_max_suffix split: option.split)
qed simp

text \<open>The first metric of a series names it.\<close>

lemma mm_step_head: "fold (mm_step st) ms (Some a) = Some a' \<Longrightarrow> s_name a' = s_name a \<and> s_tags a' = s_tags a"
  by (induction ms arbitrary: a) (auto simp: mm_step_def)

lemma mm_steps_Some: "\<exists>a'. fold (mm_step st) ms (Some a) = Some a' \<and> (gomap_ok (s_fields a) \<longrightarrow> gomap_ok (s_fields a'))"
proof (induction ms arbitrary: a)
  case (Cons m ms)
  show ?case
    using Cons.IH [of "a\<lparr>s_fields := each_number (\<lambda>fv e. case e of None \<Rightarrow> mm_new fv | Some s \<Rightarrow> mm_upd fv s)
      (Fields m) (s_fields a)\<rparr>"]
    by (auto simp: mm_step_def gomap_ok_each_number)
qed simp

lemma mm_period_entry:
  assumes "List.filter (\<lambda>m. HashID m = h) ms = m0 # ms'"
  obtains a where "map_of (fold MinMax_Add ms (MinMax_Reset st)) h = Some a" "s_name a = m_name m0" "s_tags a = Tags m0"
    "gomap_ok (s_fields a)"
proof -
  let ?a0 = "\<lparr>s_name = m_name m0, s_tags = Tags m0, s_fields = each_number (\<lambda>fv _. mm_new fv) (Fields m0) []\<rparr>"
  have eq: "map_of (fold MinMax_Add ms (MinMax_Reset st)) h = fold (mm_step st) ms' (Some ?a0)"
    using minmax.look_period [of ms st h] assms by (simp add: mm_step_def)
  obtain a where a: "fold (mm_step st) ms' (Some ?a0) = Some a" "gomap_ok (s_fields ?a0) \<longrightarrow> gomap_ok (s_fields a)"
    using mm_steps_Some [of st ms' ?a0] by blast
  have ok0: "gomap_ok (s_fields ?a0)" by (simp add: gomap_ok_each_number)
  show ?thesis
    by (rule that [of a]) (use eq a mm_step_head [OF a(1)] ok0 in simp_all)
qed

text \<open>
  C14. What \<open>minmax\<close> pushes at the end of a period: for every series that had a metric since the
  reset, a call with the name and tags of its first metric, in which each field that had numbers
  has as \<open>_min\<close> and \<open>_max\<close> its least and its greatest number, if none of them was NaN.
\<close>

theorem minmax_pushes_bounds:
  assumes "list_all metric_ok ms" "List.filter (\<lambda>m. HashID m = h) ms = m0 # ms'"
  shows "\<exists>flds. CAdd Untyped now (m_name m0) flds (Some (Tags m0)) [] \<in> set (MinMax_Push now (fold MinMax_Add ms (MinMax_Reset st)))
    \<and> (\<forall>k. series_samples h k ms \<noteq> [] \<and> list_all (\<lambda>x. \<not> is_nan x) (series_samples h k ms) \<longrightarrow>
         (\<exists>mn mx. map_of flds (k @ ''_min'') = Some (GFloat64 mn) \<and> is_min_of mn (series_samples h k ms)
            \<and> map_of flds (k @ ''_max'') = Some (GFloat64 mx) \<and> is_max_of mx (series_samples h k ms)))"
proof -
  obtain a where a: "map_of (fold MinMax_Add ms (MinMax_Reset st)) h = Some a" "s_name a = m_name m0" "s_tags a = Tags m0"
    "gomap_ok (s_fields a)" by (rule mm_period_entry [OF assms(2)])
  let ?flds = "fold (\<lambda>(k, v) flds. AList.update (k @ ''_max'') (GFloat64 (mm_max v))
        (AList.update (k @ ''_min'') (GFloat64 (mm_min v)) flds)) (s_fields a) []"
  have mem: "CAdd Untyped now (m_name m0) ?flds (Some (Tags m0)) [] \<in> set (MinMax_Push now (fold MinMax_Add ms (MinMax_Reset st)))"
    unfolding MinMax_Push_def add_fields_call_def using map_of_SomeD [OF a(1)] a(2,3)
    by (force simp: image_iff)
  have stats: "\<exists>mn mx. map_of ?flds (k @ ''_min'') = Some (GFloat64 mn) \<and> is_min_of mn (series_samples h k ms)
            \<and> map_of ?flds (k @ ''_max'') = Some (GFloat64 mx) \<and> is_max_of mx (series_samples h k ms)"
    if ne: "series_samples h k ms \<noteq> []" and nn: "list_all (\<lambda>x. \<not> is_nan x) (series_samples h k ms)" for k
  proof -
    obtain x xs where xs: "series_samples h k ms = x # xs" using ne unfolding neq_Nil_conv by blast
    have "map_of (s_fields a) k = Some (fold mm_upd xs (mm_new x))"
      using minmax.fld_period [OF assms(1), of st h k] a(1) xs by (simp add: minmax_samples series_field_def)
    with mm_push_fields [OF a(4)] mm_stats_bounds [of x xs] nn xs show ?thesis by simp
  qed
  show ?thesis by (rule exI [of _ ?flds]) (use mem stats in blast)
qed

definition load_metric :: "f64 \<Rightarrow> metric" where
  "load_metric x = \<lparr>m_name = ''cpu'', m_tags = [], m_fields = [\<lparr>field_key = ''load'', field_value = GFloat64 x\<rparr>],
     m_tm = 0, m_tp = Untyped, m_aggregate = False\<rparr>"

definition load_hash :: u64 where
  "load_hash = HashID (load_metric f_zero)"

lemma load_metric_simps [simp]:
  "metric_ok (load_metric x)" "HashID (load_metric x) = load_hash" "m_name (load_metric x) = ''cpu''"
  "Tags (load_metric x) = []" "GetField (load_metric x) k = (if k = ''load'' then Some (GFloat64 x) else None)"
  by (simp_all add: load_hash_def load_metric_def metric_ok_def tags_ok_def fields_ok_def HashID_def hash_bytes_def
      Tags_def GetField_def)

theorem minmax_pushes_bounds_witness:
  "\<exists>flds. CAdd Untyped 9 ''cpu'' flds (Some []) []
      \<in> set (MinMax_Push 9 (fold MinMax_Add [load_metric (f64_of_int 3), load_metric (f64_of_int 1)] (MinMax_Reset [])))
    \<and> (\<exists>mn. map_of flds ''load_min'' = Some (GFloat64 mn) \<and> is_min_of mn [f64_of_int 3, f64_of_int 1])"
proof -
  let ?ms = "[load_metric (f64_of_int 3), load_metric (f64_of_int 1)]" and ?h = load_hash
  have ok: "list_all metric_ok ?ms" by simp
  have fil: "List.filter (\<lambda>m. HashID m = ?h) ?ms = load_metric (f64_of_int 3) # [load_metric (f64_of_int 1)]" by simp
  have sam: "series_samples ?h ''load'' ?ms = [f64_of_int 3, f64_of_int 1]" by (simp add: series_samples_def)
  have nan: "\<not> is_nan (f64_of_int 3)" "\<not> is_nan (f64_of_int 1)" by (simp_all add: f64_of_int_finite)
  from minmax_pushes_bounds [OF ok fil, of 9 "[]"] obtain flds where
    f: "CAdd Untyped 9 ''cpu'' flds (Some []) [] \<in> set (MinMax_Push 9 (fold MinMax_Add ?ms (MinMax_Reset [])))"
    "\<forall>k. series_samples ?h k ?ms \<noteq> [] \<and> list_all (\<lambda>x. \<not> is_nan x) (series_samples ?h k ?ms) \<longrightarrow>
         (\<exists>mn mx. map_of flds (k @ ''_min'') = Some (GFloat64 mn) \<and> is_min_of mn (series_samples ?h k ?ms)
            \<and> map_of flds (k @ ''_max'') = Some (GFloat64 mx) \<and> is_max_of mx (series_samples ?h k ?ms))"
    by (simp only: load_metric_simps) blast
  from f(2) [rule_format, of "''load''"] sam nan
  have "\<exists>mn. map_of flds (''load'' @ ''_min'') = Some (GFloat64 mn) \<and> is_min_of mn [f64_of_int 3, f64_of_int 1]"
    by auto
  with f(1) show ?thesis by auto
qed

subsection \<open>basicstats\<close>

record basicstats =
  bs_count :: f64
  bs_min :: f64
  bs_max :: f64
  bs_sum :: f64
  bs_mean :: f64
  bs_M2 :: f64

record configured_stats =
  cs_count :: bool
  cs_min :: bool
  cs_max :: bool
  cs_mean :: bool
  cs_variance :: bool
  cs_stdev :: bool
  cs_sum :: bool

record basic_stats =
  bst_Stats :: "string list option"
  bst_cache :: "basicstats cache"
  bst_statsConfig :: "configured_stats option"

definition bs_new :: "f64 \<Rightarrow> basicstats" where
  "bs_new fv = \<lparr>bs_count = f64_of_int 1, bs_min = fv, bs_max = fv, bs_sum = fv, bs_mean = fv, bs_M2 = f_zero\<rparr>"

definition bs_upd :: "f64 \<Rightarrow> basicstats \<Rightarrow> basicstats" where
  "bs_upd fv tmp =
     (let n = f_add (bs_count tmp) (f64_of_int 1);
          delta = f_sub fv (bs_mean tmp);
          mean = f_add (bs_mean tmp) (f_div delta n);
          M2 = f_add (bs_M2 tmp) (f_mul delta (f_sub fv mean));
          t1 = tmp\<lparr>bs_count := n, bs_mean := mean, bs_M2 := M2\<rparr>;
          t2 = (if f_lt fv (bs_min t1) then t1\<lparr>bs_min := fv\<rparr>
                else if f_lt (bs_max t1) fv then t1\<lparr>bs_max := fv\<rparr> else t1)
      in t2\<lparr>bs_sum := f_add (bs_sum t2) fv\<rparr>)"

definition BasicStats_Add :: "metric \<Rightarrow> basic_stats \<Rightarrow> basic_stats" where
  "BasicStats_Add m st =
     (let id = HashID m
      in case map_of (bst_cache st) id of
        None \<Rightarrow> st\<lparr>bst_cache := AList.update id \<lparr>s_name = m_name m, s_tags = Tags m,
            s_fields = each_number (\<lambda>fv _. bs_new fv) (field_pairs m) []\<rparr> (bst_cache st)\<rparr>
      | Some a \<Rightarrow> st\<lparr>bst_cache := AList.update id (a\<lparr>s_fields := each_number
            (\<lambda>fv e. case e of None \<Rightarrow> bs_new fv | Some s \<Rightarrow> bs_upd fv s) (field_pairs m) (s_fields a)\<rparr>) (bst_cache st)\<rparr>)"

definition no_stats :: configured_stats where
  "no_stats = \<lparr>cs_count = False, cs_min = False, cs_max = False, cs_mean = False, cs_variance = False,
     cs_stdev = False, cs_sum = False\<rparr>"

definition parse_stat :: "string \<Rightarrow> configured_stats \<Rightarrow> configured_stats" where
  "parse_stat name c =
     (if name = ''count'' then c\<lparr>cs_count := True\<rparr>
      else if name = ''min'' then c\<lparr>cs_min := True\<rparr>
      else if name = ''max'' then c\<lparr>cs_max := True\<rparr>
      else if name = ''mean'' then c\<lparr>cs_mean := True\<rparr>
      else if name = ''s2'' then c\<lparr>cs_variance := True\<rparr>
      else if name = ''stdev'' then c\<lparr>cs_stdev := True\<rparr>
      else if name = ''sum'' then c\<lparr>cs_sum := True\<rparr>
      else c)"

definition parseStats :: "string list \<Rightarrow> configured_stats" where
  "parseStats names = fold parse_stat names no_stats"

definition defaultStats :: configured_stats where
  "defaultStats = \<lparr>cs_count = True, cs_min = True, cs_max = True, cs_mean = True, cs_variance = True,
     cs_stdev = True, cs_sum = False\<rparr>"

definition getConfiguredStats :: "basic_stats \<Rightarrow> basic_stats \<times> configured_stats" where
  "getConfiguredStats st =
     (case bst_statsConfig st of
        Some c \<Rightarrow> (st, c)
      | None \<Rightarrow> (let c = (case bst_Stats st of None \<Rightarrow> defaultStats | Some names \<Rightarrow> parseStats names)
                 in (st\<lparr>bst_statsConfig := Some c\<rparr>, c)))"

definition bs_emit :: "configured_stats \<Rightarrow> string \<Rightarrow> basicstats \<Rightarrow> (string, gval) gomap \<Rightarrow> (string, gval) gomap" where
  "bs_emit c k v flds =
     (let put = (\<lambda>b suffix x flds. if b then AList.update (k @ suffix) (GFloat64 x) flds else flds);
          f1 = put (cs_count c) ''_count'' (bs_count v) flds;
          f2 = put (cs_min c) ''_min'' (bs_min v) f1;
          f3 = put (cs_max c) ''_max'' (bs_max v) f2;
          f4 = put (cs_mean c) ''_mean'' (bs_mean v) f3;
          f5 = put (cs_sum c) ''_sum'' (bs_sum v) f4
      in if f_lt (f64_of_int 1) (bs_count v) then
           (let variance = f_div (bs_M2 v) (f_sub (bs_count v) (f64_of_int 1));
                f6 = put (cs_variance c) ''_s2'' variance f5
            in put (cs_stdev c) ''_stdev'' (f_sqrt variance) f6)
         else f5)"

definition BasicStats_Push :: "int \<Rightarrow> basic_stats \<Rightarrow> basic_stats \<times> acc_call list" where
  "BasicStats_Push now st =
     (let (st1, c) = getConfiguredStats st
      in (st1, concat (List.map (\<lambda>(_, a).
           (let flds = fold (\<lambda>(k, v) flds. bs_emit c k v flds) (s_fields a) []
            in if flds = [] then [] else [add_fields_call now (s_name a) flds (s_tags a)])) (bst_cache st1))))"

definition BasicStats_Reset :: "basic_stats \<Rightarrow> basic_stats" where
  "BasicStats_Reset st = st\<lparr>bst_cache := []\<rparr>"

definition NewBasicStats :: "string list option \<Rightarrow> basic_stats" where
  "NewBasicStats stats = BasicStats_Reset \<lparr>bst_Stats = stats, bst_cache = [], bst_statsConfig = None\<rparr>"

text \<open>As a plugin; the configuration that a push stores is the one it would compute again.\<close>

definition BasicStats :: "basic_stats aggregator_plugin" where
  "BasicStats = \<lparr>ap_Add = BasicStats_Add, ap_Push = (\<lambda>now st. snd (BasicStats_Push now st)), ap_Reset = BasicStats_Reset\<rparr>"

lemma getConfiguredStats_memo: "snd (getConfiguredStats (fst (getConfiguredStats st))) = snd (getConfiguredStats st)"
  by (simp add: getConfiguredStats_def Let_def split: option.splits)

definition bs_step :: "basic_stats \<Rightarrow> metric \<Rightarrow> basicstats series option \<Rightarrow> basicstats series option" where
  "bs_step _ m v = (case v of
      None \<Rightarrow> Some \<lparr>s_name = m_name m, s_tags = Tags m, s_fields = each_number (\<lambda>fv _. bs_new fv) (field_pairs m) []\<rparr>
    | Some a \<Rightarrow> Some (a\<lparr>s_fields := each_number
            (\<lambda>fv e. case e of None \<Rightarrow> bs_new fv | Some s \<Rightarrow> bs_upd fv s) (field_pairs m) (s_fields a)\<rparr>))"

interpretation basicstats: field_aggregator BasicStats_Add BasicStats_Reset "\<lambda>st. map_of (bst_cache st)" bs_step None
  series_field convert bs_new bs_upd
proof unfold_locales
  fix m h st
  show "map_of (bst_cache (BasicStats_Add m st)) h =
      (if HashID m = h then bs_step st m (map_of (bst_cache st) h) else map_of (bst_cache st) h)"
    by (auto simp: BasicStats_Add_def bs_step_def Let_def map_laws split: option.splits)
next
  fix m :: metric and v k st
  assume "metric_ok m"
  then show "series_field (bs_step st m v) k = (case Option.bind (GetField m k) convert of None \<Rightarrow> series_field v k
       | Some x \<Rightarrow> Some (case series_field v k of None \<Rightarrow> bs_new x | Some s \<Rightarrow> bs_upd x s))"
    by (auto simp: series_field_def bs_step_def map_of_each_number field_pairs_laws split: option.splits)
qed (simp_all add: BasicStats_Reset_def bs_step_def series_field_def fun_eq_iff)

lemma basicstats_samples: "basicstats.samples h k ms = series_samples h k ms"
  by (simp add: basicstats.samples_def series_samples_def)

text \<open>Three of the six statistics against their references.\<close>

lemma bs_upd_simps:
  "bs_count (bs_upd x s) = f_add (bs_count s) (f64_of_int 1)" "bs_sum (bs_upd x s) = f_add (bs_sum s) x"
  "bs_min (bs_upd x s) = (if f_lt x (bs_min s) then x else bs_min s)"
  "bs_max (bs_upd x s) = (if \<not> f_lt x (bs_min s) \<and> f_lt (bs_max s) x then x else bs_max s)"
  by (simp_all add: bs_upd_def Let_def)

lemma mm_upd_simps:
  "mm_min (mm_upd x s) = (if f_lt x (mm_min s) then x else mm_min s)"
  "mm_max (mm_upd x s) = (if \<not> f_lt x (mm_min s) \<and> f_lt (mm_max s) x then x else mm_max s)"
  by (simp_all add: mm_upd_def)

lemma bs_fold_min_max:
  "bs_min s = mm_min t \<Longrightarrow> bs_max s = mm_max t \<Longrightarrow>
   bs_min (fold bs_upd xs s) = mm_min (fold mm_upd xs t) \<and> bs_max (fold bs_upd xs s) = mm_max (fold mm_upd xs t)"
  by (induction xs arbitrary: s t) (simp_all add: bs_upd_simps mm_upd_simps)

lemma bs_fold_sum: "bs_sum (fold bs_upd xs s) = foldl f_add (bs_sum s) xs"
  by (induction xs arbitrary: s) (simp_all add: bs_upd_simps)

lemma bs_fold_count:
  "bs_count s = f64_of_int (int n) \<Longrightarrow> n + length xs < 2 ^ 53 \<Longrightarrow>
   bs_count (fold bs_upd xs s) = f64_of_int (int (n + length xs))"
proof (induction xs arbitrary: s n)
  case (Cons x xs)
  have "bs_count (bs_upd x s) = f64_of_int (int (Suc n))"
    using Cons.prems f_add_of_int [of "int n" 1] by (simp add: bs_upd_simps add.commute)
  from Cons.IH [OF this] Cons.prems show ?case by simp
qed simp

text \<open>
  C15. What \<open>basicstats\<close> knows of a field at the end of a period is, as long as there were fewer
  than \<open>2 ^ 53\<close> samples: their exact number, their sum added in order, and the same minimum and
  maximum that \<open>minmax\<close> computes from the same metrics.
\<close>

theorem basicstats_agrees:
  assumes "list_all metric_ok ms" "length (series_samples h k ms) < 2 ^ 53"
  shows "case (series_field (map_of (bst_cache (fold BasicStats_Add ms (BasicStats_Reset st))) h) k,
               series_field (map_of (fold MinMax_Add ms (MinMax_Reset mst)) h) k) of
      (Some s, Some t) \<Rightarrow> bs_count s = f64_of_int (int (length (series_samples h k ms)))
         \<and> bs_sum s = foldl f_add (hd (series_samples h k ms)) (tl (series_samples h k ms))
         \<and> bs_min s = mm_min t \<and> bs_max s = mm_max t
    | (None, None) \<Rightarrow> series_samples h k ms = []
    | _ \<Rightarrow> False"
proof (cases "series_samples h k ms")
  case Nil
  then show ?thesis
    using basicstats.fld_period [OF assms(1), of st h k] minmax.fld_period [OF assms(1), of mst h k]
    by (simp add: basicstats_samples minmax_samples)
next
  case (Cons x xs)
  have "bs_count (fold bs_upd xs (bs_new x)) = f64_of_int (int (Suc (length xs)))"
    using bs_fold_count [of "bs_new x" 1 xs] assms(2) Cons by (simp add: bs_new_def)
  moreover have "bs_sum (fold bs_upd xs (bs_new x)) = foldl f_add x xs"
    by (simp add: bs_fold_sum) (simp add: bs_new_def)
  moreover have "bs_min (fold bs_upd xs (bs_new x)) = mm_min (fold mm_upd xs (mm_new x))
      \<and> bs_max (fold bs_upd xs (bs_new x)) = mm_max (fold mm_upd xs (mm_new x))"
    by (rule bs_fold_min_max) (simp_all add: bs_new_def mm_new_def)
  ultimately show ?thesis
    using basicstats.fld_period [OF assms(1), of st h k] minmax.fld_period [OF assms(1), of mst h k] Cons
    by (simp add: basicstats_samples minmax_samples)
qed

theorem basicstats_agrees_witness:
  "\<exists>s. series_field (map_of (bst_cache (fold BasicStats_Add [load_metric (f64_of_int 3), load_metric (f64_of_int 1)]
      (BasicStats_Reset (NewBasicStats None)))) load_hash) ''load'' = Some s \<and> bs_count s = f64_of_int 2"
proof -
  let ?ms = "[load_metric (f64_of_int 3), load_metric (f64_of_int 1)]"
  have sam: "series_samples load_hash ''load'' ?ms = [f64_of_int 3, f64_of_int 1]" by (simp add: series_samples_def)
  have ok: "list_all metric_ok ?ms" "length (series_samples load_hash ''load'' ?ms) < 2 ^ 53"
    unfolding sam by simp_all
  from basicstats_agrees [OF ok, of "NewBasicStats None" "[]"] show ?thesis
    unfolding sam by (auto split: option.splits simp del: fold.simps)
qed

subsection \<open>valuecounter\<close>

text \<open>
  Per series the number of times that each value of the configured fields occurred, under a key
  made of the field and the value. Counts are Go integers of 64 bits.
\<close>

record vc_state =
  vc_Fields :: "string list"
  vc_cache :: "i64 cache"

text \<open>\<open>fmt.Sprintf("%v_%v", fk, fv)\<close> for the value types that are counted.\<close>

fun vc_key :: "string \<Rightarrow> gval \<Rightarrow> string option" where
  "vc_key fk (GUint64 v) = Some (fk @ ''_'' @ itoa (uint v))"
| "vc_key fk (GInt64 v) = Some (fk @ ''_'' @ itoa (sint v))"
| "vc_key fk (GString v) = Some (fk @ ''_'' @ v)"
| "vc_key fk (GBool v) = Some (fk @ ''_'' @ format_bool v)"
| "vc_key fk _ = None"

definition vc_bump :: "string \<Rightarrow> (string, i64) gomap \<Rightarrow> (string, i64) gomap" where
  "vc_bump fn counts = AList.update fn ((case map_of counts fn of None \<Rightarrow> 0 | Some n \<Rightarrow> n) + 1) counts"

text \<open>The two loops: for each field of the metric, for each configured name equal to its key.\<close>

definition vc_count :: "string list \<Rightarrow> (string \<times> gval) list \<Rightarrow> (string, i64) gomap \<Rightarrow> (string, i64) gomap" where
  "vc_count cfs kvs counts =
     fold (\<lambda>(fk, fv) counts. fold (\<lambda>cf counts.
        if fk = cf then (case vc_key fk fv of None \<Rightarrow> counts | Some fn \<Rightarrow> vc_bump fn counts) else counts) cfs counts) kvs counts"

definition ValueCounter_Add :: "metric \<Rightarrow> vc_state \<Rightarrow> vc_state" where
  "ValueCounter_Add m st =
     (let id = HashID m;
          cache1 = (case map_of (vc_cache st) id of
             None \<Rightarrow> AList.update id \<lparr>s_name = m_name m, s_tags = Tags m, s_fields = []\<rparr> (vc_cache st)
           | Some _ \<Rightarrow> vc_cache st)
      in case map_of cache1 id of
           None \<Rightarrow> st\<lparr>vc_cache := cache1\<rparr>
         | Some a \<Rightarrow> st\<lparr>vc_cache := AList.update id (a\<lparr>s_fields := vc_count (vc_Fields st) (Fields m) (s_fields a)\<rparr>) cache1\<rparr>)"

definition ValueCounter_Push :: "int \<Rightarrow> vc_state \<Rightarrow> acc_call list" where
  "ValueCounter_Push now st = List.map (\<lambda>(_, a). add_fields_call now (s_name a)
     (fold (\<lambda>(fk, count) flds. AList.update fk (GInt count) flds) (s_fields a) []) (s_tags a)) (vc_cache st)"

definition ValueCounter_Reset :: "vc_state \<Rightarrow> vc_state" where
  "ValueCounter_Reset st = st\<lparr>vc_cache := []\<rparr>"

definition ValueCounter :: "vc_state aggregator_plugin" where
  "ValueCounter = \<lparr>ap_Add = ValueCounter_Add, ap_Push = ValueCounter_Push, ap_Reset = ValueCounter_Reset\<rparr>"

definition vc_step :: "vc_state \<Rightarrow> metric \<Rightarrow> i64 series option \<Rightarrow> i64 series option" where
  "vc_step st m v =
     (let a = (case v of None \<Rightarrow> \<lparr>s_name = m_name m, s_tags = Tags m, s_fields = []\<rparr> | Some a \<Rightarrow> a)
      in Some (a\<lparr>s_fields := vc_count (vc_Fields st) (Fields m) (s_fields a)\<rparr>))"

lemma vc_Fields_Add [simp]: "vc_Fields (ValueCounter_Add m st) = vc_Fields st"
  by (simp add: ValueCounter_Add_def Let_def split: option.splits)

interpretation valuecounter: series_aggregator ValueCounter_Add ValueCounter_Reset "\<lambda>st. map_of (vc_cache st)" vc_step None
proof unfold_locales
  fix m h st
  show "map_of (vc_cache (ValueCounter_Add m st)) h =
      (if HashID m = h then vc_step st m (map_of (vc_cache st) h) else map_of (vc_cache st) h)"
    by (auto simp: ValueCounter_Add_def vc_step_def Let_def map_laws split: option.splits)
qed (simp_all add: ValueCounter_Reset_def vc_step_def fun_eq_iff)

text \<open>The keys a metric is counted under, one for each configured name that matches a field.\<close>

definition vc_keys :: "string list \<Rightarrow> (string \<times> gval) list \<Rightarrow> string list" where
  "vc_keys cfs kvs = concat (List.map (\<lambda>(fk, fv). case vc_key fk fv of None \<Rightarrow> []
     | Some fn \<Rightarrow> replicate (count_list cfs fk) fn) kvs)"

definition counter :: "(string, i64) gomap \<Rightarrow> string \<Rightarrow> i64" where
  "counter counts fn = (case map_of counts fn of None \<Rightarrow> 0 | Some n \<Rightarrow> n)"

lemma counter_bump: "counter (vc_bump f counts) fn = counter counts fn + (if f = fn then 1 else 0)"
  by (simp add: counter_def vc_bump_def map_laws)

lemma counter_inner:
  "counter (fold (\<lambda>cf counts. if fk = cf then (case vc_key fk fv of None \<Rightarrow> counts | Some fn \<Rightarrow> vc_bump fn counts) else counts) cfs counts) fn
   = counter counts fn + of_nat (count_list (case vc_key fk fv of None \<Rightarrow> [] | Some f \<Rightarrow> replicate (count_list cfs fk) f) fn)"
  by (induction cfs arbitrary: counts) (auto simp: counter_bump split: option.splits)

lemma counter_count:
  "counter (vc_count cfs kvs counts) fn = counter counts fn + of_nat (count_list (vc_keys cfs kvs) fn)"
  unfolding vc_count_def
proof (induction kvs arbitrary: counts)
  case (Cons kv kvs)
  obtain fk fv where kv: "kv = (fk, fv)" by force
  show ?case by (simp add: kv Cons.IH counter_inner) (simp add: vc_keys_def kv)
qed (simp add: vc_keys_def)

definition vc_counter :: "vc_state \<Rightarrow> u64 \<Rightarrow> string \<Rightarrow> i64" where
  "vc_counter st h fn = (case map_of (vc_cache st) h of None \<Rightarrow> 0 | Some a \<Rightarrow> counter (s_fields a) fn)"

lemma vc_step_counter:
  "(case fold (vc_step st) ms v of None \<Rightarrow> 0 | Some a \<Rightarrow> counter (s_fields a) fn)
   = (case v of None \<Rightarrow> 0 | Some a \<Rightarrow> counter (s_fields a) fn)
     + of_nat (count_list (concat (List.map (\<lambda>m. vc_keys (vc_Fields st) (Fields m)) ms)) fn)"
proof (induction ms arbitrary: v)
  case (Cons m ms)
  show ?case
    by (simp add: Cons.IH) (simp add: vc_step_def counter_count Let_def split: option.splits, simp add: counter_def)
qed (simp split: option.splits)

text \<open>
  \<open>valuecounter\<close> counts: in a period, the counter of a series for a key is the number of
  times, over the metrics of that series, that a configured field has the value of that key.
\<close>

theorem valuecounter_counts:
  "vc_counter (fold ValueCounter_Add ms (ValueCounter_Reset st)) h fn
   = of_nat (count_list (concat (List.map (\<lambda>m. vc_keys (vc_Fields st) (Fields m)) (List.filter (\<lambda>m. HashID m = h) ms))) fn)"
  using vc_step_counter [where st = st and ms = "List.filter (\<lambda>m. HashID m = h) ms" and v = None and fn = fn]
    valuecounter.look_period [of ms st h]
  by (simp add: vc_counter_def)

end
