(* ===== verification/Json.thy ===== *)
theory Json
  imports GoStrings Prelude
begin

section \<open>JSON texts\<close>

text \<open>
  What the source uses of \<open>encoding/json\<close>: \<open>Marshal\<close> of maps, slices, strings and numbers, and
  \<open>Unmarshal\<close> into an \<open>interface{}\<close>. Objects are lists of members; Go writes the members of a map
  sorted by key and keeps the last of several equal keys when it reads them. The type parameter is
  the number: its text when it is written, a float when it is read.
\<close>

datatype 'n json =
    JObject "(string \<times> 'n json) list"
  | JArray "'n json list"
  | JNumber 'n
  | JString string
  | JBool bool
  | JNull

abbreviation quote :: char where "quote \<equiv> CHR 0x22"
abbreviation backslash :: char where "backslash \<equiv> CHR 0x5C"

subsection \<open>Writing\<close>

definition hex_char :: "int \<Rightarrow> char" where
  "hex_char d = (if d < 10 then char_of (nat (48 + d)) else char_of (nat (87 + d)))"

definition json_rune :: "int \<times> string \<Rightarrow> string" where
  "json_rune rb =
     (let r = fst rb; b = snd rb in
      if r = 34 \<or> r = 92 then backslash # b
      else if r = 10 then [backslash, CHR ''n''] else if r = 13 then [backslash, CHR ''r'']
      else if r = 9 then [backslash, CHR ''t'']
      else if r < 32 \<or> r = 60 \<or> r = 62 \<or> r = 38 then backslash # ''u00'' @ [hex_char (r div 16), hex_char (r mod 16)]
      else if r = 65533 \<and> length b = 1 then backslash # ''ufffd''
      else if r = 8232 \<or> r = 8233 then backslash # ''u202'' @ [hex_char (r mod 16)]
      else b)"

definition json_quote :: "string \<Rightarrow> string" where
  "json_quote s = quote # concat (List.map json_rune (runes s)) @ [quote]"

fun marshal :: "string json \<Rightarrow> string" where
  "marshal (JNumber n) = n"
| "marshal (JString s) = json_quote s"
| "marshal (JBool b) = format_bool b"
| "marshal JNull = ''null''"
| "marshal (JArray xs) = ''['' @ join '','' (List.map marshal xs) @ '']''"
| "marshal (JObject kvs) = ''{'' @ join '','' (List.map (\<lambda>(k, v). json_quote k @ '':'' @ marshal v) kvs) @ ''}''"

text \<open>A map is written sorted by key.\<close>

definition json_map :: "(string, 'n json) gomap \<Rightarrow> 'n json" where
  "json_map m = JObject (sort_key fst m)"

subsection \<open>Reading\<close>

type_synonym rune_list = "(int \<times> string) list"

definition json_space :: "int \<Rightarrow> bool" where
  "json_space r \<longleftrightarrow> r = 32 \<or> r = 9 \<or> r = 10 \<or> r = 13"

definition skip :: "rune_list \<Rightarrow> rune_list" where
  "skip s = dropWhile (\<lambda>rb. json_space (fst rb)) s"

definition peek :: "rune_list \<Rightarrow> int" where
  "peek s = (case skip s of [] \<Rightarrow> -1 | rb # _ \<Rightarrow> fst rb)"

definition rest_of :: "rune_list \<Rightarrow> rune_list" where
  "rest_of s = tl (skip s)"

definition hex_val :: "int \<Rightarrow> int option" where
  "hex_val r =
     (if 48 \<le> r \<and> r \<le> 57 then Some (r - 48) else if 97 \<le> r \<and> r \<le> 102 then Some (r - 87)
      else if 65 \<le> r \<and> r \<le> 70 then Some (r - 55) else None)"

fun hex4 :: "rune_list \<Rightarrow> (int \<times> rune_list) option" where
  "hex4 (a # b # c # d # s) =
     Option.bind (hex_val (fst a)) (\<lambda>a. Option.bind (hex_val (fst b)) (\<lambda>b.
     Option.bind (hex_val (fst c)) (\<lambda>c. map_option (\<lambda>d. (((a * 16 + b) * 16 + c) * 16 + d, s)) (hex_val (fst d)))))"
| "hex4 _ = None"

text \<open>The second half of a surrogate pair, as an escape of its own.\<close>

definition low_half :: "rune_list \<Rightarrow> (int \<times> rune_list) option" where
  "low_half s =
     (case s of a # b # s1 \<Rightarrow>
        if fst a = 92 \<and> fst b = 117 then
          (case hex4 s1 of Some (v, s2) \<Rightarrow> if 56320 \<le> v \<and> v \<le> 57343 then Some (v, s2) else None | None \<Rightarrow> None)
        else None
      | _ \<Rightarrow> None)"

definition unicode_escape :: "rune_list \<Rightarrow> (string \<times> rune_list) option" where
  "unicode_escape s =
     (case hex4 s of None \<Rightarrow> None
      | Some (v, s1) \<Rightarrow>
          if 55296 \<le> v \<and> v \<le> 56319 then
            (case low_half s1 of
               Some (w, s2) \<Rightarrow> Some (encode_rune (65536 + (v - 55296) * 1024 + (w - 56320)), s2)
             | None \<Rightarrow> Some (encode_rune 65533, s1))
          else if 56320 \<le> v \<and> v \<le> 57343 then Some (encode_rune 65533, s1)
          else Some (encode_rune v, s1))"

definition escape_rune :: "rune_list \<Rightarrow> (string \<times> rune_list) option" where
  "escape_rune s =
     (case s of [] \<Rightarrow> None
      | (e, b) # s1 \<Rightarrow>
          if e = 34 \<or> e = 92 \<or> e = 47 then Some (b, s1)
          else if e = 98 then Some ([CHR 0x08], s1) else if e = 102 then Some ([CHR 0x0C], s1)
          else if e = 110 then Some ([CHR 0x0A], s1) else if e = 114 then Some ([CHR 0x0D], s1)
          else if e = 116 then Some ([CHR 0x09], s1)
          else if e = 117 then unicode_escape s1
          else None)"

lemma hex4_length: "hex4 s = Some (v, s') \<Longrightarrow> length s' < length s"
  by (induction s rule: hex4.induct) (auto simp: bind_eq_Some_conv)

lemma unicode_escape_length: "unicode_escape s = Some (b, s') \<Longrightarrow> length s' < length s"
  by (auto simp: unicode_escape_def low_half_def dest!: hex4_length split: option.splits if_splits list.splits)

lemma escape_rune_length: "escape_rune s = Some (b, s') \<Longrightarrow> length s' < length s"
  by (auto simp: escape_rune_def dest!: unicode_escape_length split: list.splits if_splits)

text \<open>The rest of a string after its opening quote.\<close>

function unquote :: "string \<Rightarrow> rune_list \<Rightarrow> (string \<times> rune_list) option" where
  "unquote acc s =
     (case s of [] \<Rightarrow> None
      | (r, b) # s1 \<Rightarrow>
          if r = 34 then Some (acc, s1)
          else if r < 32 then None
          else if r = 92 then (case escape_rune s1 of None \<Rightarrow> None | Some (e, s2) \<Rightarrow> unquote (acc @ e) s2)
          else unquote (acc @ (if r = 65533 \<and> length b = 1 then encode_rune 65533 else b)) s1)"
  by pat_completeness auto
termination by (relation "measure (\<lambda>(acc, s). length s)") (auto dest!: escape_rune_length)

declare unquote.simps [simp del]

lemma unquote_Nil [simp]: "unquote acc [] = None"
  by (simp add: unquote.simps)

lemma unquote_Cons:
  "unquote acc ((r, b) # s1) =
     (if r = 34 then Some (acc, s1) else if r < 32 then None
      else if r = 92 then (case escape_rune s1 of None \<Rightarrow> None | Some (e, s2) \<Rightarrow> unquote (acc @ e) s2)
      else unquote (acc @ (if r = 65533 \<and> length b = 1 then encode_rune 65533 else b)) s1)"
  by (subst unquote.simps) simp

definition number_rune :: "int \<Rightarrow> bool" where
  "number_rune r \<longleftrightarrow> 48 \<le> r \<and> r \<le> 57 \<or> r = 43 \<or> r = 45 \<or> r = 46 \<or> r = 69 \<or> r = 101"

definition number_tail :: "string \<Rightarrow> bool" where
  "number_tail s \<longleftrightarrow> s = [] \<or>
     (hd s = CHR ''e'' \<or> hd s = CHR ''E'') \<and>
     (let t = (if tl s \<noteq> [] \<and> (hd (tl s) = CHR ''+'' \<or> hd (tl s) = CHR ''-'') then tl (tl s) else tl s)
      in t \<noteq> [] \<and> list_all is_digit t)"

definition json_number :: "string \<Rightarrow> bool" where
  "json_number s0 \<longleftrightarrow>
     (let s = (if s0 \<noteq> [] \<and> hd s0 = CHR ''-'' then tl s0 else s0);
          ip = takeWhile is_digit s; r = dropWhile is_digit s
      in ip \<noteq> [] \<and> (hd ip = CHR ''0'' \<longrightarrow> length ip = 1) \<and>
         (if r \<noteq> [] \<and> hd r = CHR ''.'' then takeWhile is_digit (tl r) \<noteq> [] \<and> number_tail (dropWhile is_digit (tl r))
          else number_tail r))"

definition read_number :: "rune_list \<Rightarrow> (f64 json \<times> rune_list) option" where
  "read_number s =
     (let t = bytes_of_runes (takeWhile (\<lambda>rb. number_rune (fst rb)) s)
      in if json_number t then map_option (\<lambda>x. (JNumber x, dropWhile (\<lambda>rb. number_rune (fst rb)) s)) (parse_float t) else None)"

definition literal_is :: "string \<Rightarrow> rune_list \<Rightarrow> bool" where
  "literal_is w s \<longleftrightarrow> List.map fst (take (length w) s) = List.map byte_of w"

definition read_literal :: "rune_list \<Rightarrow> (f64 json \<times> rune_list) option" where
  "read_literal s =
     (if literal_is ''true'' s then Some (JBool True, drop 4 s)
      else if literal_is ''false'' s then Some (JBool False, drop 5 s)
      else if literal_is ''null'' s then Some (JNull, drop 4 s)
      else None)"

definition read_key :: "rune_list \<Rightarrow> (string \<times> rune_list) option" where
  "read_key s =
     (if peek s = 34 then
        Option.bind (unquote [] (rest_of s)) (\<lambda>(k, s1). if peek s1 = 58 then Some (k, rest_of s1) else None)
      else None)"

definition object_of :: "(string \<times> 'n json) list \<Rightarrow> 'n json" where
  "object_of kvs = JObject (fold (\<lambda>(k, v). AList.update k v) kvs [])"

fun json_value :: "nat \<Rightarrow> rune_list \<Rightarrow> (f64 json \<times> rune_list) option"
and json_elems :: "nat \<Rightarrow> rune_list \<Rightarrow> (f64 json list \<times> rune_list) option"
and json_members :: "nat \<Rightarrow> rune_list \<Rightarrow> ((string \<times> f64 json) list \<times> rune_list) option" where
  "json_value 0 s = None"
| "json_value (Suc n) s =
     (if peek s = 34 then map_option (\<lambda>(t, s1). (JString t, s1)) (unquote [] (rest_of s))
      else if peek s = 91 then
        (if peek (rest_of s) = 93 then Some (JArray [], rest_of (rest_of s))
         else map_option (\<lambda>(vs, s1). (JArray vs, s1)) (json_elems n (rest_of s)))
      else if peek s = 123 then
        (if peek (rest_of s) = 125 then Some (JObject [], rest_of (rest_of s))
         else map_option (\<lambda>(kvs, s1). (object_of kvs, s1)) (json_members n (rest_of s)))
      else if peek s = 45 \<or> 48 \<le> peek s \<and> peek s \<le> 57 then read_number (skip s)
      else read_literal (skip s))"
| "json_elems 0 s = None"
| "json_elems (Suc n) s =
     Option.bind (json_value n s) (\<lambda>(v, s1).
       if peek s1 = 44 then map_option (\<lambda>(vs, s2). (v # vs, s2)) (json_elems n (rest_of s1))
       else if peek s1 = 93 then Some ([v], rest_of s1)
       else None)"
| "json_members 0 s = None"
| "json_members (Suc n) s =
     Option.bind (read_key s) (\<lambda>(k, s0). Option.bind (json_value n s0) (\<lambda>(v, s1).
       if peek s1 = 44 then map_option (\<lambda>(kvs, s2). ((k, v) # kvs, s2)) (json_members n (rest_of s1))
       else if peek s1 = 125 then Some ([(k, v)], rest_of s1)
       else None))"

text \<open>Every two steps read a rune, so twice the length is enough fuel.\<close>

definition unmarshal :: "string \<Rightarrow> f64 json option" where
  "unmarshal buf =
     (let s = runes buf
      in case json_value (2 * length s + 2) s of
           Some (v, t) \<Rightarrow> if skip t = [] then Some v else None
         | None \<Rightarrow> None)"

subsection \<open>Reading ends and needs no more fuel\<close>

lemma unquote_length: "unquote acc s = Some (t, s') \<Longrightarrow> length s' < length s"
proof (induction acc s rule: unquote.induct)
  case (1 acc s)
  show ?case
  proof (cases s)
    case Nil
    with "1.prems" show ?thesis by simp
  next
    case (Cons rb s1)
    obtain r b where rb: "rb = (r, b)" by force
    note s = Cons [unfolded rb]
    show ?thesis
    proof (cases "r = 34 \<or> r < 32")
      case True
      with "1.prems" s show ?thesis by (auto simp: unquote_Cons split: if_splits)
    next
      case False
      show ?thesis
      proof (cases "r = 92")
        case True
        with "1.prems" s False obtain e s2 where e: "escape_rune s1 = Some (e, s2)" "unquote (acc @ e) s2 = Some (t, s')"
          by (auto simp: unquote_Cons split: option.splits)
        have "length s' < length s2" using "1.IH"(1) [OF s refl _ _ True e(1) refl e(2)] False by simp
        with escape_rune_length [OF e(1)] s show ?thesis by simp
      next
        case nb: False
        with "1.prems" s False have "unquote (acc @ (if r = 65533 \<and> length b = 1 then encode_rune 65533 else b)) s1 = Some (t, s')"
          by (simp add: unquote_Cons)
        from "1.IH"(2) [OF s refl _ _ nb this] False s show ?thesis by simp
      qed
    qed
  qed
qed

lemma length_skip: "length (skip s) \<le> length s"
  by (simp add: skip_def length_dropWhile_le)

lemma rest_of_length: "peek s \<noteq> -1 \<Longrightarrow> length (rest_of s) < length s"
  using length_skip [of s] by (auto simp: peek_def rest_of_def split: list.splits)

lemma read_key_length: "read_key s = Some (k, s') \<Longrightarrow> length s' < length s"
  by (auto simp: read_key_def bind_eq_Some_conv split: if_splits dest!: unquote_length)
    (smt (verit) rest_of_length less_trans)

lemma read_number_length:
  assumes "read_number s = Some (v, s')"
  shows "length s' < length s"
proof -
  define P where "P = (\<lambda>rb :: int \<times> string. number_rune (fst rb))"
  have "\<not> json_number []" by (simp add: json_number_def)
  with assms have "takeWhile P s \<noteq> []" "s' = dropWhile P s"
    by (auto simp: read_number_def Let_def P_def split: if_splits)
  moreover have "length (takeWhile P s) + length (dropWhile P s) = length s"
    by (metis length_append takeWhile_dropWhile_id)
  ultimately show ?thesis by (cases "takeWhile P s") auto
qed

lemma literal_is_length: "literal_is w s \<Longrightarrow> length w \<le> length s"
  unfolding literal_is_def by (metis length_map length_take min.cobounded1)

lemma read_literal_length: "read_literal s = Some (v, s') \<Longrightarrow> length s' < length s"
  using literal_is_length [of "''true''" s] literal_is_length [of "''false''" s] literal_is_length [of "''null''" s]
  by (auto simp: read_literal_def split: if_splits)

lemma json_length:
  "json_value n s = Some (v, s1) \<Longrightarrow> length s1 < length s"
  "json_elems n s = Some (vs, s1) \<Longrightarrow> length s1 < length s"
  "json_members n s = Some (kvs, s1) \<Longrightarrow> length s1 < length s"
proof (induction n s and n s and n s arbitrary: v s1 and vs s1 and kvs s1 rule: json_value_json_elems_json_members.induct)
  case (2 n s)
  have e: "json_elems n (rest_of s) = Some (vs, s1) \<Longrightarrow> peek s = 91 \<Longrightarrow> peek (rest_of s) \<noteq> 93 \<Longrightarrow> length s1 < length (rest_of s)" for vs s1
    using "2.IH"(1) by simp
  have m: "json_members n (rest_of s) = Some (kvs, s1) \<Longrightarrow> peek s = 123 \<Longrightarrow> peek (rest_of s) \<noteq> 125 \<Longrightarrow> length s1 < length (rest_of s)" for kvs s1
    using "2.IH"(2) by simp
  show ?case
    using "2.prems" rest_of_length [of s] rest_of_length [of "rest_of s"] length_skip [of s]
    by (auto split: if_splits dest!: unquote_length e m read_number_length read_literal_length)
next
  case (4 n s)
  then obtain v s2 where v: "json_value n s = Some (v, s2)" by (auto simp: bind_eq_Some_conv)
  have "length s2 < length s" using "4.IH"(1) v by blast
  moreover have "length s1 < length (rest_of s2)" if "json_elems n (rest_of s2) = Some (vs, s1)" "peek s2 = 44" for vs s1
    using "4.IH"(2) [OF v refl that(2) that(1)] .
  ultimately show ?case using "4.prems" v rest_of_length [of s2] by (fastforce split: if_splits)
next
  case (6 n s)
  then obtain k s0 v s2 where k: "read_key s = Some (k, s0)" "json_value n s0 = Some (v, s2)" by (auto simp: bind_eq_Some_conv)
  have "length s2 < length s" using "6.IH"(1) [OF k(1) refl k(2)] read_key_length [OF k(1)] by simp
  moreover have "length s1 < length (rest_of s2)" if "json_members n (rest_of s2) = Some (kvs, s1)" "peek s2 = 44" for kvs s1
    using "6.IH"(2) [OF k(1) refl k(2) refl that(2) that(1)] .
  ultimately show ?case using "6.prems" k rest_of_length [of s2] by (fastforce split: if_splits)
qed simp_all

lemma json_fuel:
  "2 * length s + 1 \<le> n \<Longrightarrow> n \<le> m \<Longrightarrow> json_value m s = json_value n s"
  "2 * length s + 2 \<le> n \<Longrightarrow> n \<le> m \<Longrightarrow> json_elems m s = json_elems n s"
  "2 * length s + 2 \<le> n \<Longrightarrow> n \<le> m \<Longrightarrow> json_members m s = json_members n s"
proof (induction n s and n s and n s arbitrary: m and m and m rule: json_value_json_elems_json_members.induct)
  case (2 n s)
  obtain m' where m: "m = Suc m'" "n \<le> m'" using "2.prems"(2) by (cases m) auto
  have e: "json_elems m' (rest_of s) = json_elems n (rest_of s)" if "peek s = 91" "peek (rest_of s) \<noteq> 93"
    using "2.IH"(1) [of m'] that rest_of_length [of s] "2.prems"(1) m(2) by simp
  have k: "json_members m' (rest_of s) = json_members n (rest_of s)" if "peek s = 123" "peek (rest_of s) \<noteq> 125"
    using "2.IH"(2) [of m'] that rest_of_length [of s] "2.prems"(1) m(2) by simp
  show ?case using e k by (simp add: m(1))
next
  case (4 n s)
  obtain m' where m: "m = Suc m'" "n \<le> m'" using "4.prems"(2) by (cases m) auto
  have v: "json_value m' s = json_value n s" using "4.IH"(1) [of m'] "4.prems"(1) m(2) by simp
  show ?case
  proof (cases "json_value n s")
    case None
    then show ?thesis by (simp add: m(1) v)
  next
    case (Some vs)
    then obtain w s1 where w: "json_value n s = Some (w, s1)" by (cases vs) simp
    have "json_elems m' (rest_of s1) = json_elems n (rest_of s1)" if p: "peek s1 = 44"
      using "4.IH"(2) [OF w refl p, of m'] json_length(1) [OF w] rest_of_length [of s1] p "4.prems"(1) m(2) by simp
    then show ?thesis by (simp add: m(1) v w)
  qed
next
  case (6 n s)
  obtain m' where m: "m = Suc m'" "n \<le> m'" using "6.prems"(2) by (cases m) auto
  show ?case
  proof (cases "read_key s")
    case None
    then show ?thesis by (simp add: m(1))
  next
    case (Some ks)
    then obtain k s0 where k: "read_key s = Some (k, s0)" by (cases ks) simp
    note l = read_key_length [OF k]
    have v: "json_value m' s0 = json_value n s0" using "6.IH"(1) [OF k refl, of m'] "6.prems"(1) m(2) l by simp
    show ?thesis
    proof (cases "json_value n s0")
      case None
      then show ?thesis by (simp add: m(1) v k)
    next
      case (Some vs)
      then obtain w s1 where w: "json_value n s0 = Some (w, s1)" by (cases vs) simp
      have "json_members m' (rest_of s1) = json_members n (rest_of s1)" if p: "peek s1 = 44"
        using "6.IH"(2) [OF k refl w refl p, of m'] json_length(1) [OF w] rest_of_length [of s1] l p "6.prems"(1) m(2) by simp
      then show ?thesis by (simp add: m(1) v w k)
    qed
  qed
qed simp_all

declare json_value.simps [simp del] json_elems.simps [simp del] json_members.simps [simp del]

text \<open>Whatever more fuel reads, \<open>unmarshal\<close> reads.\<close>

lemma unmarshal_fuel:
  assumes "\<And>n. N \<le> n \<Longrightarrow> json_value n (runes buf) = Some (v, t)" "skip t = []"
  shows "unmarshal buf = Some v"
proof -
  let ?n = "2 * length (runes buf) + 2"
  have "json_value (max N ?n) (runes buf) = json_value ?n (runes buf)" by (rule json_fuel(1)) simp_all
  with assms(1) [of "max N ?n"] have "json_value ?n (runes buf) = Some (v, t)" by (metis max.cobounded1)
  then show ?thesis by (simp only: unmarshal_def Let_def option.case prod.case assms(2) simp_thms if_True)
qed

subsection \<open>What is written is read back\<close>

definition valid_utf8 :: "string \<Rightarrow> bool" where
  "valid_utf8 s \<longleftrightarrow> list_all (\<lambda>rb. fst rb = 65533 \<longrightarrow> length (snd rb) \<noteq> 1) (runes s)"

lemma hex_val_char: "0 \<le> d \<Longrightarrow> d < 16 \<Longrightarrow> byte_of (hex_char d) < 128 \<and> hex_val (byte_of (hex_char d)) = Some d"
  by (auto simp: hex_char_def hex_val_def)

lemma runes_ascii_append: "list_all (\<lambda>c. byte_of c < 128) s \<Longrightarrow> runes (s @ t) = List.map (\<lambda>c. (byte_of c, [c])) s @ runes t"
  by (induction s) (simp_all add: runes_ascii del: runes.simps(2))

lemma runes_ascii_eq: "list_all (\<lambda>c. byte_of c < 128) s \<Longrightarrow> runes s = List.map (\<lambda>c. (byte_of c, [c])) s"
  using runes_ascii_append [of s "[]"] by simp

lemma decode_ascii: "decode_rune (c # cs) = (r, w) \<Longrightarrow> 0 \<le> r \<and> (r < 128 \<longrightarrow> w = 1 \<and> r = byte_of c \<and> byte_of c < 128)"
  by (auto simp: Let_def cont_byte_def split: if_splits list.splits)

lemma byte_inj: "byte_of c = byte_of d \<Longrightarrow> c = d"
  by (simp only: of_nat_eq_iff of_char_eq_iff)

lemma separator_bytes:
  fixes x y z :: int
  assumes "128 \<le> y" "y \<le> 191" "128 \<le> z" "z \<le> 191"
  shows "(x - 224) * 4096 + (y - 128) * 64 + (z - 128) = 8232 \<Longrightarrow> x = 226 \<and> y = 128 \<and> z = 8232 - 8064"
    "(x - 224) * 4096 + (y - 128) * 64 + (z - 128) = 8233 \<Longrightarrow> x = 226 \<and> y = 128 \<and> z = 8233 - 8064"
proof -
  have eq: "x = 226 \<and> y = 128 \<and> z = r - 8064"
    if "(x - 224) * 4096 + (y - 128) * 64 + (z - 128) = r" "r = 8232 \<or> r = 8233" for r
  proof -
    have r: "8232 \<le> r" "r \<le> 8233" using that(2) by auto
    have e: "4096 * x + 64 * y + z = r + 925824" using that(1) by simp
    have "x \<le> 226" using assms e r by linarith
    moreover have "226 \<le> x" using assms e r by linarith
    ultimately have x: "x = 226" by simp
    have "y \<le> 128" using assms e r unfolding x by linarith
    then have "y = 128" using assms by simp
    then show ?thesis using x that by auto
  qed
  show "(x - 224) * 4096 + (y - 128) * 64 + (z - 128) = 8232 \<Longrightarrow> x = 226 \<and> y = 128 \<and> z = 8232 - 8064"
    "(x - 224) * 4096 + (y - 128) * 64 + (z - 128) = 8233 \<Longrightarrow> x = 226 \<and> y = 128 \<and> z = 8233 - 8064"
    using eq [of 8232] eq [of 8233] by auto
qed

lemma encode_separator:
  assumes "decode_rune (c # cs) = (r, w)" "r = 8232 \<or> r = 8233"
  shows "encode_rune r = c # take (w - 1) cs"
proof -
  have r: "r \<noteq> 65533" "2048 \<le> r" "r < 65536" using assms(2) by auto
  have c: "0 \<le> byte_of x" "byte_of x < 256" for x :: char
  proof -
    have "of_char x mod (256 :: nat) < 256" by simp
    then show "byte_of x < 256" by simp
  qed simp
  obtain c1 c2 cs' where cs: "cs = c1 # c2 # cs'" and v: "r = (byte_of c - 224) * 4096 + (byte_of c1 - 128) * 64 + (byte_of c2 - 128)"
    "cont_byte (byte_of c1)" "cont_byte (byte_of c2)" "w = 3"
  proof -
    consider "cs = []" | c1 where "cs = [c1]" | c1 c2 cs' where "cs = c1 # c2 # cs'" by (metis list.exhaust)
    then show thesis
    proof cases
      case 3
      have four: "\<not> (240 \<le> byte_of c)"
      proof
        assume "240 \<le> byte_of c"
        with assms(1) r 3 obtain a where "r = (byte_of c - 240) * 262144 + (byte_of c1 - 128) * 4096 + (byte_of c2 - 128) * 64 + (byte_of a - 128)"
          "cont_byte (byte_of c1)" "cont_byte (byte_of c2)" "cont_byte (byte_of a)" "byte_of c = 240 \<longrightarrow> 144 \<le> byte_of c1"
          by (cases cs') (auto simp add: Let_def split: if_splits)
        with \<open>240 \<le> byte_of c\<close> r(3) show False unfolding cont_byte_def by (smt (verit))
      qed
      have "\<not> byte_of c < 224" using assms(1) r 3 by (auto simp: Let_def cont_byte_def split: if_splits)
      with four assms(1) r 3 that [OF 3] show thesis by (auto simp: Let_def split: if_splits)
    qed (use assms(1) r in \<open>auto simp: Let_def cont_byte_def split: if_splits\<close>)
  qed
  have e: "byte_of c = 226" "byte_of c1 = 128" "byte_of c2 = r - 8064"
    using separator_bytes [of "byte_of c1" "byte_of c2" "byte_of c"] v(1,2,3) assms(2) by (auto simp only: cont_byte_def)
  have ch: "x = char_of (nat (byte_of x))" for x :: char by simp
  show ?thesis using assms(2) v(4) e ch [of c] ch [of c1] ch [of c2] by (auto simp: encode_rune_def cs)
qed

text \<open>Reading one written rune.\<close>

lemma unquote_rune:
  assumes d: "decode_rune (c # cs) = (r, w)" and b: "b = c # take (w - 1) cs" and valid: "r = 65533 \<longrightarrow> length b \<noteq> 1"
  shows "unquote acc (runes (json_rune (r, b) @ t)) = unquote (acc @ b) (runes t)"
proof -
  note da = decode_ascii [OF d]
  have len: "r \<noteq> 65533 \<or> w \<noteq> 1" using valid b by (cases "w = 1") auto
  have whole: "runes (b @ t) = (r, b) # runes t"
    using decode_rune_again [OF d len, of t] by (simp add: b del: decode_rune.simps)
  show ?thesis
  proof (cases "r < 128")
    case True
    with da b have c: "b = [c]" "r = byte_of c" "byte_of c < 128" by auto
    have hex: "unquote acc (runes (backslash # ''u00'' @ [hex_char (r div 16), hex_char (r mod 16)] @ t)) = unquote (acc @ [c]) (runes t)"
    proof -
      have r: "0 \<le> r div 16" "r div 16 < 16" "0 \<le> r mod 16" "r mod 16 < 16" using True da by auto
      note h1 = hex_val_char [OF r(1,2)] and h2 = hex_val_char [OF r(3,4)]
      have "list_all (\<lambda>c. byte_of c < 128) (backslash # ''u00'' @ [hex_char (r div 16), hex_char (r mod 16)])"
        using h1 h2 by simp
      from runes_ascii_append [OF this, of t]
      have rs: "runes (backslash # ''u00'' @ [hex_char (r div 16), hex_char (r mod 16)] @ t) =
          (92, [backslash]) # (117, ''u'') # (48, ''0'') # (48, ''0'') # (byte_of (hex_char (r div 16)), [hex_char (r div 16)])
          # (byte_of (hex_char (r mod 16)), [hex_char (r mod 16)]) # runes t" by simp
      have "hex_val 48 = Some 0" by (simp add: hex_val_def)
      then have "unicode_escape (tl (tl (runes (backslash # ''u00'' @ [hex_char (r div 16), hex_char (r mod 16)] @ t)))) = Some (encode_rune r, runes t)"
        using h1 h2 True da unfolding rs by (simp add: unicode_escape_def)
      moreover have "encode_rune r = [c]" using True da by (simp add: encode_rune_def c(2))
      ultimately show ?thesis unfolding rs by (simp add: unquote_Cons escape_rune_def)
    qed
    consider "r = 34 \<or> r = 92" | "r = 10" | "r = 13" | "r = 9" | "r \<notin> {34, 92, 10, 13, 9}" "r < 32 \<or> r = 60 \<or> r = 62 \<or> r = 38"
      | "r \<notin> {34, 92, 10, 13, 9}" "\<not> (r < 32 \<or> r = 60 \<or> r = 62 \<or> r = 38)" by auto
    then show ?thesis
    proof cases
      case 1
      have "runes (backslash # c # t) = (92, [backslash]) # (r, [c]) # runes t" using c by (simp add: runes_ascii del: runes.simps(2))
      with 1 show ?thesis by (auto simp: json_rune_def c(1) unquote_Cons escape_rune_def)
    next
      case 2
      then have "c = CHR 0x0A" using c(2) byte_inj [of c "CHR 0x0A"] by simp
      then show ?thesis using 2 by (simp add: json_rune_def c(1) unquote_Cons escape_rune_def runes_ascii del: runes.simps(2))
    next
      case 3
      then have "c = CHR 0x0D" using c(2) byte_inj [of c "CHR 0x0D"] by simp
      then show ?thesis using 3 by (simp add: json_rune_def c(1) unquote_Cons escape_rune_def runes_ascii del: runes.simps(2))
    next
      case 4
      then have "c = CHR 0x09" using c(2) byte_inj [of c "CHR 0x09"] by simp
      then show ?thesis using 4 by (simp add: json_rune_def c(1) unquote_Cons escape_rune_def runes_ascii del: runes.simps(2))
    next
      case 5
      then have "json_rune (r, b) = backslash # ''u00'' @ [hex_char (r div 16), hex_char (r mod 16)]" by (simp add: json_rune_def)
      then show ?thesis using hex by (simp add: c(1))
    next
      case 6
      then have "json_rune (r, b) = b" using True by (simp add: json_rune_def)
      then show ?thesis using 6 True by (simp add: whole unquote_Cons)
    qed
  next
    case False
    show ?thesis
    proof (cases "r = 8232 \<or> r = 8233")
      case True
      have "list_all (\<lambda>c. byte_of c < 128) (backslash # ''u202'' @ [hex_char (r mod 16)])"
        using True by (auto simp: hex_char_def)
      from runes_ascii_append [OF this, of t]
      have rs: "runes (json_rune (r, b) @ t) = (92, [backslash]) # (117, ''u'') # (50, ''2'') # (48, ''0'') # (50, ''2'')
          # (byte_of (hex_char (r mod 16)), [hex_char (r mod 16)]) # runes t"
        using True by (elim disjE) (simp_all add: json_rune_def)
      have "unicode_escape (tl (tl (runes (json_rune (r, b) @ t)))) = Some (encode_rune r, runes t)"
        using True unfolding rs by (auto simp: unicode_escape_def hex_val_def hex_char_def)
      then show ?thesis using encode_separator [OF d True] b unfolding rs by (simp add: unquote_Cons escape_rune_def)
    next
      case nosep: False
      then have "json_rune (r, b) = b" using False valid by (auto simp: json_rune_def)
      then show ?thesis using False valid by (auto simp: whole unquote_Cons)
    qed
  qed
qed

lemma unquote_runes:
  "valid_utf8 s \<Longrightarrow> unquote acc (runes (concat (List.map json_rune (runes s)) @ quote # t)) = Some (acc @ s, runes t)"
proof (induction s arbitrary: acc rule: runes.induct)
  case 1
  then show ?case by (simp add: unquote_Cons runes_ascii del: runes.simps(2))
next
  case (2 c cs)
  obtain r w where d: "decode_rune (c # cs) = (r, w)" by (metis prod.exhaust)
  define b where "b = c # take (w - 1) cs"
  have rs: "runes (c # cs) = (r, b) # runes (drop (w - 1) cs)" by (simp add: d b_def del: decode_rune.simps)
  from "2.prems" have v: "r = 65533 \<longrightarrow> length b \<noteq> 1" "valid_utf8 (drop (w - 1) cs)" by (simp_all add: valid_utf8_def rs del: runes.simps)
  have "unquote acc (runes (concat (List.map json_rune (runes (c # cs))) @ quote # t)) =
      unquote (acc @ b) (runes (concat (List.map json_rune (runes (drop (w - 1) cs))) @ quote # t))"
    unfolding rs using unquote_rune [OF d b_def v(1)] by simp
  also have "\<dots> = Some ((acc @ b) @ drop (w - 1) cs, runes t)" by (rule "2.IH" [OF d [symmetric] v(2)])
  finally show ?case by (simp add: b_def)
qed

lemma peek_ascii [simp]: "byte_of c < 128 \<Longrightarrow> \<not> json_space (byte_of c) \<Longrightarrow> peek (runes (c # t)) = byte_of c \<and> rest_of (runes (c # t)) = runes t \<and> skip (runes (c # t)) = runes (c # t)"
  by (simp add: peek_def skip_def rest_of_def runes_ascii del: runes.simps(2))

lemma json_value_string: "valid_utf8 s \<Longrightarrow> 0 < n \<Longrightarrow> json_value n (runes (json_quote s @ t)) = Some (JString s, runes t)"
  using unquote_runes [of s "[]" t] peek_ascii [of quote]
  by (cases n) (simp_all add: json_quote_def json_space_def json_value.simps del: runes.simps(2))

lemma read_key_quote: "valid_utf8 k \<Longrightarrow> read_key (runes (json_quote k @ CHR '':'' # t)) = Some (k, runes t)"
  using unquote_runes [of k "[]" "CHR '':'' # t"] peek_ascii [of quote] peek_ascii [of "CHR '':''"]
  by (simp add: read_key_def json_quote_def json_space_def del: runes.simps(2))

text \<open>What follows a number must not continue it.\<close>

definition ends_number :: "string \<Rightarrow> bool" where
  "ends_number t \<longleftrightarrow> t = [] \<or> byte_of (hd t) < 128 \<and> \<not> number_rune (byte_of (hd t))"

lemma number_chars: "json_number s \<Longrightarrow> list_all (\<lambda>c. byte_of c < 128 \<and> number_rune (byte_of c)) s \<and> (hd s = CHR ''-'' \<or> is_digit (hd s)) \<and> s \<noteq> []"
proof -
  assume j: "json_number s"
  define s1 where "s1 = (if s \<noteq> [] \<and> hd s = CHR ''-'' then tl s else s)"
  define ok where "ok = (\<lambda>c :: char. byte_of c < 128 \<and> number_rune (byte_of c))"
  have dig: "is_digit c \<Longrightarrow> ok c" for c by (auto simp: ok_def is_digit_def number_rune_def)
  have tw: "list_all ok (takeWhile is_digit u)" for u using dig by (auto simp: list_all_iff dest: set_takeWhileD)
  have pc: "ok CHR ''-''" "ok CHR ''+''" "ok CHR ''.''" "ok CHR ''e''" "ok CHR ''E''" by (auto simp: ok_def number_rune_def)
  have tail: "number_tail u \<Longrightarrow> list_all ok u" for u
  proof -
    assume u: "number_tail u"
    show ?thesis
    proof (cases u)
      case (Cons c u1)
      with u have c: "ok c" using pc by (auto simp: number_tail_def)
      have "list_all ok u1"
      proof (cases u1)
        case (Cons d u2)
        from u \<open>u = c # u1\<close> Cons have "(d = CHR ''+'' \<or> d = CHR ''-'') \<and> list_all is_digit u2 \<or> list_all is_digit (d # u2)"
          by (auto simp: number_tail_def Let_def split: if_splits)
        then show ?thesis using Cons dig pc by (auto simp: list_all_iff)
      qed simp
      with Cons c show ?thesis by simp
    qed simp
  qed
  have split: "takeWhile is_digit u @ dropWhile is_digit u = u" for u by simp
  have rest: "list_all ok (dropWhile is_digit s1)"
  proof (cases "dropWhile is_digit s1")
    case (Cons c u)
    from j have "if c = CHR ''.'' then takeWhile is_digit u \<noteq> [] \<and> number_tail (dropWhile is_digit u) else number_tail (c # u)"
      unfolding json_number_def s1_def [symmetric] Let_def Cons by (cases "c = CHR ''.''") simp_all
    then have "(c = CHR ''.'' \<and> list_all ok (dropWhile is_digit u)) \<or> list_all ok (c # u)"
      using tail [of "c # u"] tail [of "dropWhile is_digit u"] by (cases "c = CHR ''.''") simp_all
    moreover have "list_all ok (takeWhile is_digit u) \<and> list_all ok (dropWhile is_digit u) \<longrightarrow> list_all ok u"
      using list_all_append [of ok "takeWhile is_digit u" "dropWhile is_digit u"] by simp
    ultimately show ?thesis using tw pc unfolding Cons by auto
  next
    case Nil
    show ?thesis unfolding Nil by simp
  qed
  then have s1: "list_all ok s1"
    using tw [of s1] list_all_append [of ok "takeWhile is_digit s1" "dropWhile is_digit s1"] by simp
  have ip: "takeWhile is_digit s1 \<noteq> []" using j by (simp add: json_number_def s1_def [symmetric] Let_def)
  then have h: "s1 \<noteq> []" "is_digit (hd s1)" by (cases s1; auto split: if_splits)+
  show ?thesis
    using s1 h pc(1) by (cases s) (auto simp: s1_def ok_def split: if_splits)
qed

lemma json_value_number:
  assumes "json_number s" "parse_float s = Some x" "ends_number t" "0 < n"
  shows "json_value n (runes (s @ t)) = Some (JNumber x, runes t)"
proof -
  note c = number_chars [OF assms(1)]
  define P where "P = (\<lambda>rb :: int \<times> string. number_rune (fst rb))"
  define rs where "rs = List.map (\<lambda>c. (byte_of c, [c])) s"
  have r: "runes (s @ t) = rs @ runes t" unfolding rs_def using c by (intro runes_ascii_append) (simp add: list_all_iff)
  have stop: "takeWhile P (runes t) = []" "dropWhile P (runes t) = runes t"
    using assms(3) by (cases t; simp add: ends_number_def P_def runes_ascii del: runes.simps(2))+
  have all: "\<forall>x \<in> set rs. P x" using c by (auto simp: rs_def P_def list_all_iff)
  have "takeWhile P (rs @ runes t) = rs" "dropWhile P (rs @ runes t) = runes t"
    using all stop by (simp_all add: takeWhile_append2 dropWhile_append2)
  moreover have "bytes_of_runes rs = s" by (simp add: rs_def bytes_of_runes_def comp_def)
  ultimately have read: "read_number (runes (s @ t)) = Some (JNumber x, runes t)"
    using assms(1,2) by (simp add: read_number_def P_def [symmetric] r)
  have hd: "byte_of (hd s) = 45 \<or> 48 \<le> byte_of (hd s) \<and> byte_of (hd s) \<le> 57"
    using c by (auto simp: is_digit_def)
  obtain d s' where s: "s = d # s'" using c by (cases s) auto
  have p: "peek (runes (s @ t)) = byte_of d \<and> skip (runes (s @ t)) = runes (s @ t)"
    using peek_ascii [of d "s' @ t"] hd by (auto simp: s json_space_def simp del: runes.simps(2))
  obtain m where n: "n = Suc m" using assms(4) by (cases n) auto
  show ?thesis
    using hd p read by (auto simp: n json_value.simps s simp del: runes.simps(2))
qed

lemma update_new: "k \<notin> fst ` set m \<Longrightarrow> AList.update k v m = m @ [(k, v)]"
  by (induction m) auto

lemma fold_update_fresh: "gomap_ok kvs \<Longrightarrow> fold (\<lambda>(k, v). AList.update k v) kvs [] = kvs"
proof -
  have "gomap_ok (acc @ kvs) \<Longrightarrow> fold (\<lambda>(k, v). AList.update k v) kvs acc = acc @ kvs" for acc
  proof (induction kvs arbitrary: acc)
    case (Cons kv kvs)
    obtain k v where kv: "kv = (k, v)" by force
    have "AList.update k v acc = acc @ [(k, v)]"
      using Cons.prems by (simp add: kv update_new)
    then show ?case using Cons.IH [of "acc @ [(k, v)]"] Cons.prems by (simp add: kv)
  qed simp
  from this [of "[]"] show "gomap_ok kvs \<Longrightarrow> fold (\<lambda>(k, v). AList.update k v) kvs [] = kvs" by simp
qed

lemma object_of_distinct: "gomap_ok kvs \<Longrightarrow> object_of kvs = JObject kvs"
  by (simp add: object_of_def fold_update_fresh)

fun json_ok :: "string json \<Rightarrow> bool" where
  "json_ok (JNumber t) = (json_number t \<and> parse_float t \<noteq> None)"
| "json_ok (JString s) = valid_utf8 s"
| "json_ok (JArray vs) = (\<forall>v \<in> set vs. json_ok v)"
| "json_ok (JObject kvs) = (gomap_ok kvs \<and> (\<forall>kv \<in> set kvs. valid_utf8 (fst kv) \<and> json_ok (snd kv)))"
| "json_ok _ = True"

definition json_read :: "string json \<Rightarrow> f64 json" where
  "json_read = map_json (\<lambda>t. the (parse_float t))"

lemma json_read_simps [simp]:
  "json_read (JNumber t) = JNumber (the (parse_float t))" "json_read (JString s) = JString s"
  "json_read (JBool b) = JBool b" "json_read JNull = JNull"
  "json_read (JArray vs) = JArray (List.map json_read vs)"
  "json_read (JObject kvs) = JObject (List.map (\<lambda>kv. (fst kv, json_read (snd kv))) kvs)"
  by (auto simp: json_read_def map_prod_def)

definition reads_as :: "string \<Rightarrow> f64 json \<Rightarrow> bool" where
  "reads_as w v \<longleftrightarrow> (\<exists>N. \<forall>n \<ge> N. \<forall>t. ends_number t \<longrightarrow> json_value n (runes (w @ t)) = Some (v, runes t))"

lemma reads_asI: "(\<And>n t. N \<le> n \<Longrightarrow> ends_number t \<Longrightarrow> json_value n (runes (w @ t)) = Some (v, runes t)) \<Longrightarrow> reads_as w v"
  unfolding reads_as_def by blast

lemma ends_number_ascii: "byte_of c < 128 \<Longrightarrow> \<not> number_rune (byte_of c) \<Longrightarrow> ends_number (c # t)"
  by (simp add: ends_number_def)

lemma literal_runes: "list_all (\<lambda>c. byte_of c < 128) w \<Longrightarrow> literal_is w (runes (w @ t)) \<and> drop (length w) (runes (w @ t)) = runes t"
  by (simp add: literal_is_def runes_ascii_append comp_def)

lemma reads_literal:
  "reads_as ''true'' (JBool True)" "reads_as ''false'' (JBool False)" "reads_as ''null'' JNull"
proof -
  have p: "peek (runes (CHR ''t'' # t)) = 116" "peek (runes (CHR ''f'' # t)) = 102" "peek (runes (CHR ''n'' # t)) = 110"
    "skip (runes (CHR ''t'' # t)) = runes (CHR ''t'' # t)" "skip (runes (CHR ''f'' # t)) = runes (CHR ''f'' # t)"
    "skip (runes (CHR ''n'' # t)) = runes (CHR ''n'' # t)" for t
    by (simp_all add: json_space_def del: runes.simps(2))
  have no: "\<not> literal_is w (runes (c # t))" if "byte_of c < 128" "w \<noteq> []" "hd w \<noteq> c" for w c t
    using that byte_inj [of "hd w" c] by (cases w) (auto simp: literal_is_def runes_ascii simp del: runes.simps(2))
  have one: "reads_as w v" if "\<And>t. read_literal (runes (w @ t)) = Some (v, runes t)" "\<And>t. peek (runes (w @ t)) \<in> {116, 102, 110}"
    "\<And>t. skip (runes (w @ t)) = runes (w @ t)" for w v
  proof (rule reads_asI)
    fix n t assume "(1 :: nat) \<le> n"
    then show "json_value n (runes (w @ t)) = Some (v, runes t)"
      using that(2) [of t] by (cases n) (auto simp: json_value.simps that(1,3))
  qed
  have lit: "read_literal (runes (CHR ''t'' # CHR ''r'' # CHR ''u'' # CHR ''e'' # t)) = Some (JBool True, runes t)"
    "read_literal (runes (CHR ''f'' # CHR ''a'' # CHR ''l'' # CHR ''s'' # CHR ''e'' # t)) = Some (JBool False, runes t)"
    "read_literal (runes (CHR ''n'' # CHR ''u'' # CHR ''l'' # CHR ''l'' # t)) = Some (JNull, runes t)" for t
    using literal_runes [of "''true''" t] literal_runes [of "''false''" t] literal_runes [of "''null''" t]
    by (simp_all add: read_literal_def no numeral_eq_Suc del: runes.simps(2))
  show "reads_as ''true'' (JBool True)"
    by (rule one) (simp_all add: lit p del: runes.simps(2))
  show "reads_as ''false'' (JBool False)"
    by (rule one) (simp_all add: lit p del: runes.simps(2))
  show "reads_as ''null'' JNull"
    by (rule one) (simp_all add: lit p del: runes.simps(2))
qed

lemma json_value_peek: "json_value n s = Some r \<Longrightarrow> peek s \<noteq> 93"
proof
  assume v: "json_value n s = Some r" and p: "peek s = 93"
  from p have "skip s \<noteq> [] \<and> fst (hd (skip s)) = 93" by (cases "skip s") (auto simp: peek_def)
  then have "read_literal (skip s) = None" by (cases "skip s") (auto simp: read_literal_def literal_is_def)
  with v p show False by (cases n) (simp_all add: json_value.simps)
qed

lemma peek_punct [simp]:
  "peek (runes (CHR '','' # t)) = 44" "rest_of (runes (CHR '','' # t)) = runes t"
  "peek (runes (CHR '']'' # t)) = 93" "rest_of (runes (CHR '']'' # t)) = runes t"
  "peek (runes (CHR ''['' # t)) = 91" "rest_of (runes (CHR ''['' # t)) = runes t"
  "peek (runes (CHR ''{'' # t)) = 123" "rest_of (runes (CHR ''{'' # t)) = runes t"
  "peek (runes (CHR ''}'' # t)) = 125" "rest_of (runes (CHR ''}'' # t)) = runes t"
  by (simp_all add: json_space_def del: runes.simps(2))

lemma punct_ends [simp]: "ends_number (CHR '','' # t)" "ends_number (CHR '']'' # t)" "ends_number (CHR ''}'' # t)"
  by (simp_all add: ends_number_def number_rune_def)

lemma elems_read:
  assumes "\<And>w v. (w, v) \<in> set wvs \<Longrightarrow> reads_as w v" "wvs \<noteq> []"
  shows "\<exists>N. \<forall>n \<ge> N. \<forall>t. json_elems n (runes (join '','' (List.map fst wvs) @ CHR '']'' # t)) = Some (List.map snd wvs, runes t)"
  using assms
proof (induction wvs)
  case (Cons wv wvs)
  obtain w v where wv: "wv = (w, v)" by force
  have "reads_as w v" using Cons.prems(1) by (simp add: wv)
  then obtain N where N: "\<And>n t. N \<le> n \<Longrightarrow> ends_number t \<Longrightarrow> json_value n (runes (w @ t)) = Some (v, runes t)"
    unfolding reads_as_def by blast
  show ?case
  proof (cases "wvs = []")
    case True
    have "json_elems n (runes (w @ CHR '']'' # t)) = Some ([v], runes t)" if "Suc N \<le> n" for n t
      using that N [of "n - 1" "CHR '']'' # t"] by (cases n) (simp_all add: json_elems.simps del: runes.simps(2))
    then show ?thesis using True by (auto simp: wv simp del: runes.simps(2))
  next
    case False
    from Cons.IH [OF Cons.prems(1) False] obtain M where
      M: "\<And>n t. M \<le> n \<Longrightarrow> json_elems n (runes (join '','' (List.map fst wvs) @ CHR '']'' # t)) = Some (List.map snd wvs, runes t)"
      by (auto simp del: runes.simps(2))
    have j: "join '','' (List.map fst (wv # wvs)) = w @ CHR '','' # join '','' (List.map fst wvs)"
      using False join_Cons [of "List.map fst wvs" "'',''" w] by (simp add: wv)
    have "json_elems n (runes (join '','' (List.map fst (wv # wvs)) @ CHR '']'' # t)) = Some (List.map snd (wv # wvs), runes t)"
      if "Suc (max N M) \<le> n" for n t
    proof -
      obtain m where m: "n = Suc m" "N \<le> m" "M \<le> m" using \<open>Suc (max N M) \<le> n\<close> by (cases n) auto
      have "json_value m (runes (w @ CHR '','' # join '','' (List.map fst wvs) @ CHR '']'' # t)) =
          Some (v, runes (CHR '','' # join '','' (List.map fst wvs) @ CHR '']'' # t))" by (rule N [OF m(2)]) simp
      with M [OF m(3)] show ?thesis
        unfolding j by (simp add: m(1) json_elems.simps wv del: runes.simps(2))
    qed
    then show ?thesis by blast
  qed
qed simp

lemma members_read:
  assumes "\<And>k w v. (k, w, v) \<in> set kwvs \<Longrightarrow> valid_utf8 k \<and> reads_as w v" "kwvs \<noteq> []"
  shows "\<exists>N. \<forall>n \<ge> N. \<forall>t. json_members n (runes (join '','' (List.map (\<lambda>(k, w, v). json_quote k @ '':'' @ w) kwvs) @ CHR ''}'' # t))
    = Some (List.map (\<lambda>(k, w, v). (k, v)) kwvs, runes t)"
  using assms
proof (induction kwvs)
  case (Cons kwv kwvs)
  obtain k w v where kwv: "kwv = (k, w, v)" by (cases kwv)
  have k: "valid_utf8 k" and "reads_as w v" using Cons.prems(1) [of k w v] by (simp_all add: kwv)
  then obtain N where N: "\<And>n t. N \<le> n \<Longrightarrow> ends_number t \<Longrightarrow> json_value n (runes (w @ t)) = Some (v, runes t)"
    unfolding reads_as_def by blast
  note key = read_key_quote [OF k]
  show ?case
  proof (cases "kwvs = []")
    case True
    have "json_members n (runes (json_quote k @ CHR '':'' # w @ CHR ''}'' # t)) = Some ([(k, v)], runes t)" if "Suc N \<le> n" for n t
      using that N [of "n - 1" "CHR ''}'' # t"] key by (cases n) (simp_all add: json_members.simps del: runes.simps(2))
    then show ?thesis using True by (auto simp: kwv simp del: runes.simps(2))
  next
    case False
    define js where "js = join '','' (List.map (\<lambda>(k, w, v). json_quote k @ '':'' @ w) kwvs)"
    from Cons.IH [OF Cons.prems(1) False] obtain M where
      M: "\<And>n t. M \<le> n \<Longrightarrow> json_members n (runes (js @ CHR ''}'' # t)) = Some (List.map (\<lambda>(k, w, v). (k, v)) kwvs, runes t)"
      by (auto simp: js_def simp del: runes.simps(2))
    have j: "join '','' (List.map (\<lambda>(k, w, v). json_quote k @ '':'' @ w) (kwv # kwvs)) = json_quote k @ CHR '':'' # w @ CHR '','' # js"
      using False join_Cons [of "List.map (\<lambda>(k, w, v). json_quote k @ '':'' @ w) kwvs" "'',''" "json_quote k @ '':'' @ w"] by (simp add: kwv js_def)
    have "json_members n (runes (join '','' (List.map (\<lambda>(k, w, v). json_quote k @ '':'' @ w) (kwv # kwvs)) @ CHR ''}'' # t))
        = Some (List.map (\<lambda>(k, w, v). (k, v)) (kwv # kwvs), runes t)"
      if "Suc (max N M) \<le> n" for n t
    proof -
      obtain m where m: "n = Suc m" "N \<le> m" "M \<le> m" using \<open>Suc (max N M) \<le> n\<close> by (cases n) auto
      have "json_value m (runes (w @ CHR '','' # js @ CHR ''}'' # t)) = Some (v, runes (CHR '','' # js @ CHR ''}'' # t))"
        by (rule N [OF m(2)]) simp
      with M [OF m(3)] key show ?thesis
        unfolding j by (simp add: m(1) json_members.simps kwv del: runes.simps(2))
    qed
    then show ?thesis by blast
  qed
qed simp

lemma marshal_reads: "json_ok j \<Longrightarrow> reads_as (marshal j) (json_read j)"
proof (induction j rule: marshal.induct)
  case (1 n)
  then obtain x where "json_number n" "parse_float n = Some x" by auto
  then show ?case by (intro reads_asI [of 1]) (simp add: json_value_number)
next
  case (2 s)
  then show ?case by (intro reads_asI [of 1]) (simp add: json_value_string)
next
  case (3 b)
  then show ?case using reads_literal(1,2) by (cases b) (simp_all add: format_bool_def)
next
  case 4
  then show ?case using reads_literal(3) by simp
next
  case (5 xs)
  show ?case
  proof (cases "xs = []")
    case True
    show ?thesis by (rule reads_asI [of 1]) (auto simp: True json_value.simps gr0_conv_Suc Suc_le_eq simp del: runes.simps(2))
  next
    case False
    define wvs where "wvs = List.map (\<lambda>x. (marshal x, json_read x)) xs"
    have ws: "List.map fst wvs = List.map marshal xs" "List.map snd wvs = List.map json_read xs" by (simp_all add: wvs_def)
    have "reads_as w v" if "(w, v) \<in> set wvs" for w v using that 5 by (auto simp: wvs_def)
    moreover have "wvs \<noteq> []" using False by (simp add: wvs_def)
    ultimately obtain N where
      N: "\<And>n t. N \<le> n \<Longrightarrow> json_elems n (runes (join '','' (List.map marshal xs) @ CHR '']'' # t)) = Some (List.map json_read xs, runes t)"
      using elems_read [of wvs] unfolding ws by blast
    have "json_value n (runes (marshal (JArray xs) @ t)) = Some (json_read (JArray xs), runes t)" if n: "Suc (Suc N) \<le> n" for n t
    proof -
      obtain m where m: "n = Suc m" "N \<le> m" "0 < m" using n by (cases n) auto
      note e = N [OF m(2), of t]
      have "peek (runes (join '','' (List.map marshal xs) @ CHR '']'' # t)) \<noteq> 93"
        using e m(3) json_value_peek by (cases m) (auto simp: json_elems.simps bind_eq_Some_conv simp del: runes.simps(2))
      with e show ?thesis by (simp add: m(1) json_value.simps del: runes.simps(2))
    qed
    then show ?thesis by (intro reads_asI) 
  qed
next
  case (6 kvs)
  show ?case
  proof (cases "kvs = []")
    case True
    show ?thesis by (rule reads_asI [of 1]) (auto simp: True json_value.simps gr0_conv_Suc Suc_le_eq simp del: runes.simps(2))
  next
    case False
    define kwvs where "kwvs = List.map (\<lambda>kv. (fst kv, marshal (snd kv), json_read (snd kv))) kvs"
    have ws: "List.map (\<lambda>(k, w, v). json_quote k @ '':'' @ w) kwvs = List.map (\<lambda>(k, v). json_quote k @ '':'' @ marshal v) kvs"
      "List.map (\<lambda>(k, w, v). (k, v)) kwvs = List.map (\<lambda>kv. (fst kv, json_read (snd kv))) kvs" by (simp_all add: kwvs_def comp_def case_prod_beta)
    have "valid_utf8 k \<and> reads_as w v" if "(k, w, v) \<in> set kwvs" for k w v using that 6 by (force simp: kwvs_def)
    moreover have "kwvs \<noteq> []" using False by (simp add: kwvs_def)
    ultimately obtain N where
      N: "\<And>n t. N \<le> n \<Longrightarrow> json_members n (runes (join '','' (List.map (\<lambda>(k, v). json_quote k @ '':'' @ marshal v) kvs) @ CHR ''}'' # t))
        = Some (List.map (\<lambda>kv. (fst kv, json_read (snd kv))) kvs, runes t)"
      using members_read [of kwvs] unfolding ws by blast
    have obj: "object_of (List.map (\<lambda>kv. (fst kv, json_read (snd kv))) kvs) = json_read (JObject kvs)"
      using 6(2) object_of_distinct [of "List.map (\<lambda>kv. (fst kv, json_read (snd kv))) kvs"] by (simp add: comp_def)
    have "json_value n (runes (marshal (JObject kvs) @ t)) = Some (json_read (JObject kvs), runes t)" if n: "Suc (Suc N) \<le> n" for n t
    proof -
      obtain m where m: "n = Suc m" "N \<le> m" "0 < m" using n by (cases n) auto
      note e = N [OF m(2), of t]
      have "peek (runes (join '','' (List.map (\<lambda>(k, v). json_quote k @ '':'' @ marshal v) kvs) @ CHR ''}'' # t)) = 34"
        using e m(3) by (cases m) (auto simp: json_members.simps bind_eq_Some_conv read_key_def simp del: runes.simps(2) split: if_splits)
      with e obj show ?thesis by (simp add: m(1) json_value.simps del: runes.simps(2) json_read_simps)
    qed
    then show ?thesis by (intro reads_asI)
  qed
qed

text \<open>The round trip, with white space after the text.\<close>

lemma unmarshal_marshal:
  assumes "json_ok j" "ends_number w" "skip (runes w) = []"
  shows "unmarshal (marshal j @ w) = Some (json_read j)"
proof -
  from marshal_reads [OF assms(1)] obtain N where
    "\<And>n. N \<le> n \<Longrightarrow> json_value n (runes (marshal j @ w)) = Some (json_read j, runes w)"
    using assms(2) unfolding reads_as_def by blast
  then show ?thesis using unmarshal_fuel assms(3) by blast
qed

end
