(* ===== verification/JsonSerializer.thy ===== *)
theory JsonSerializer
  imports Json Metric "HOL-Library.Signed_Division"
begin

section \<open>The JSON serializer\<close>

text \<open>
  \<open>plugins/serializers/json/json.go\<close>: a metric as an object of its tags, fields, name and timestamp
  in the configured unit. Numbers are written as \<open>encoding/json\<close> writes them.
\<close>

subsection \<open>Numbers\<close>

text \<open>A float as \<open>encoding/json\<close> writes it: with an exponent when it is very small or large.\<close>

definition sci_text :: "f64 \<Rightarrow> string" where
  "sci_text x =
     (case f_frac x of (p, q) \<Rightarrow> case shortest_from 17 p q (f_mag x) (dec_exp p q) 1 of (d, e) \<Rightarrow>
        let ds = rev (dropWhile (\<lambda>c. c = CHR ''0'') (rev (digits_of d)));
            ex = e + int (length (digits_of d)) - 1
        in (if f_neg x then ''-'' else '''') @ hd ds # (if tl ds = [] then [] else CHR ''.'' # tl ds)
           @ ''e'' @ (if ex < 0 then ''-'' else ''+'') @ itoa \<bar>ex\<bar>)"

definition json_float :: "f64 \<Rightarrow> string option" where
  "json_float x =
     (if is_nan x \<or> is_inf x then None
      else let a = mk_f64 False (f_mag x)
           in Some (if f_mag x \<noteq> 0 \<and> (f_lt a (mk_f64 False (round_mag 1 (10 ^ 6))) \<or> f_le (mk_f64 False (round_mag (10 ^ 21) 1)) a)
                    then sci_text x else format_float x))"

fun json_gval :: "gval \<Rightarrow> string json option" where
  "json_gval (GFloat64 v) = map_option JNumber (json_float v)"
| "json_gval (GInt64 v) = Some (JNumber (itoa (sint v)))"
| "json_gval (GUint64 v) = Some (JNumber (itoa (uint v)))"
| "json_gval (GString v) = Some (JString v)"
| "json_gval (GBool v) = Some (JBool v)"
| "json_gval _ = None"

subsection \<open>Units\<close>

text \<open>The loop that searches the power of ten; the products wrap around.\<close>

partial_function (option) truncate_from :: "i64 \<Rightarrow> i64 \<Rightarrow> i64 option" where
  "truncate_from units d = (if sint (d * 10) > sint units then Some d else truncate_from units (d * 10))"

definition truncateDuration :: "i64 \<Rightarrow> i64 option" where
  "truncateDuration units = (if sint units \<le> 0 then Some (10 ^ 9) else truncate_from units 1)"

record json_serializer =
  js_TimestampUnits :: i64

definition NewSerializer :: "i64 \<Rightarrow> json_serializer option" where
  "NewSerializer units = map_option (\<lambda>u. \<lparr>js_TimestampUnits = u\<rparr>) (truncateDuration units)"

subsection \<open>Objects\<close>

text \<open>\<open>None\<close>: a value that JSON cannot express, for which \<open>Marshal\<close> fails.\<close>

fun json_fields :: "(string, gval) gomap \<Rightarrow> (string, string json) gomap option" where
  "json_fields [] = Some []"
| "json_fields ((k, v) # kvs) =
     (case json_gval v of None \<Rightarrow> None
      | Some j \<Rightarrow> map_option (\<lambda>js. (k, j) # js) (json_fields kvs))"

definition json_timestamp :: "json_serializer \<Rightarrow> metric \<Rightarrow> int" where
  "json_timestamp s m = sint (word_of_int (m_tm m) :: i64) sdiv sint (js_TimestampUnits s)"

definition createObject :: "json_serializer \<Rightarrow> metric \<Rightarrow> string json option" where
  "createObject s m =
     map_option (\<lambda>fs. json_map
       [(''tags'', json_map (List.map (\<lambda>(k, v). (k, JString v)) (Tags m))),
        (''fields'', json_map fs),
        (''name'', JString (m_name m)),
        (''timestamp'', JNumber (itoa (json_timestamp s m)))]) (json_fields (Fields m))"

definition json_Serialize :: "json_serializer \<Rightarrow> metric \<Rightarrow> string option" where
  "json_Serialize s m = map_option (\<lambda>j. marshal j @ [CHR 0x0A]) (createObject s m)"

fun create_objects :: "json_serializer \<Rightarrow> metric list \<Rightarrow> string json list option" where
  "create_objects s [] = Some []"
| "create_objects s (m # ms) =
     (case createObject s m of None \<Rightarrow> None | Some j \<Rightarrow> map_option (\<lambda>js. j # js) (create_objects s ms))"

definition json_SerializeBatch :: "json_serializer \<Rightarrow> metric list \<Rightarrow> string option" where
  "json_SerializeBatch s ms = map_option (\<lambda>js. marshal (json_map [(''metrics'', JArray js)])) (create_objects s ms)"

subsection \<open>The unit is a power of ten\<close>

lemma sint_power_ten: "j \<le> 18 \<Longrightarrow> sint ((10 :: i64) ^ j) = 10 ^ j"
proof -
  assume "j \<le> 18"
  then have "(10 :: int) ^ j \<le> 10 ^ 18" by (intro power_increasing) simp_all
  moreover have "(0 :: int) \<le> 10 ^ j" by simp
  ultimately have "sint (word_of_int (10 ^ j) :: i64) = 10 ^ j" by (intro sint_word_of_int) (simp_all add: order_trans [of _ 0])
  then show ?thesis by simp
qed

lemma truncate_from_power:
  assumes "10 ^ k \<le> u" "u < 10 ^ 18"
  shows "\<exists>j. truncate_from (word_of_int u) (10 ^ k) = Some (10 ^ j) \<and> 10 ^ j \<le> u \<and> u < 10 ^ Suc j"
  using assms
proof (induction "18 - k" arbitrary: k)
  case (0 k)
  have "(10 :: int) ^ 18 \<le> 10 ^ k" using 0 by (intro power_increasing) simp_all
  with 0 show ?case by simp
next
  case (Suc n k)
  have k: "Suc k \<le> 18" using Suc.hyps(2) by simp
  have "0 < u" using Suc.prems(1) by (smt (verit) zero_less_power)
  then have u: "sint (word_of_int u :: i64) = u" using Suc.prems(2) by (intro sint_word_of_int) simp_all
  have s: "sint (10 * (10 :: i64) ^ k) = 10 * 10 ^ k" using sint_power_ten [OF k] by simp
  show ?case
  proof (cases "u < 10 ^ Suc k")
    case True
    then show ?thesis using Suc.prems(1) by (subst truncate_from.simps) (auto simp: s u mult.commute [of _ 10] intro!: exI [of _ k])
  next
    case False
    then have step: "truncate_from (word_of_int u) (10 ^ k) = truncate_from (word_of_int u) (10 ^ Suc k)"
      by (subst truncate_from.simps) (simp add: s u mult.commute [of _ 10])
    show ?thesis unfolding step using Suc.hyps(1) [of "Suc k"] Suc.hyps(2) False Suc.prems(2) by simp
  qed
qed

text \<open>
  The unit of the timestamps is the greatest power of ten that is at most the configured one, and
  a second when none is configured; up to \<open>10\<^sup>1\<^sup>8\<close> nanoseconds the search always ends.
\<close>

theorem truncateDuration_power:
  assumes "u < 10 ^ 18" "- (2 ^ 63) \<le> u"
  shows "if u \<le> 0 then truncateDuration (word_of_int u) = Some (10 ^ 9)
    else \<exists>j. truncateDuration (word_of_int u) = Some (10 ^ j) \<and> sint ((10 :: i64) ^ j) = 10 ^ j \<and> 10 ^ j \<le> u \<and> u < 10 ^ Suc j"
proof -
  have u: "sint (word_of_int u :: i64) = u" using assms by (intro sint_word_of_int) simp_all
  show ?thesis
  proof (cases "u \<le> 0")
    case False
    with truncate_from_power [of 0 u] assms obtain j where
      j: "truncate_from (word_of_int u) 1 = Some (10 ^ j)" "10 ^ j \<le> u" "u < 10 ^ Suc j" by auto
    have "(10 :: int) ^ j < 10 ^ 18" using j(2) assms(1) by simp
    then have "j \<le> 18" using power_less_imp_less_exp [of "10 :: int" j 18] by simp
    with j False u show ?thesis by (auto simp: truncateDuration_def sint_power_ten)
  qed (simp add: truncateDuration_def u)
qed

lemma truncateDuration_power_witness:
  "\<exists>j. truncateDuration (word_of_int 60000000000) = Some (10 ^ j) \<and> sint ((10 :: i64) ^ j) = 10 ^ j \<and> 10 ^ j \<le> (60000000000 :: int)
     \<and> 60000000000 < (10 :: int) ^ Suc j"
  using truncateDuration_power [of 60000000000] by simp

text \<open>A unit of more than about 31 years never returns: the products wrap and none exceeds it.\<close>

lemma truncateDuration_loops: "truncateDuration (2 ^ 63 - 1) = None"
proof -
  have le: "sint (d :: i64) \<le> sint (2 ^ 63 - 1 :: i64)" for d
  proof -
    have "sint d < 2 ^ 63" using sint_lt [of d] by simp
    moreover have "sint (2 ^ 63 - 1 :: i64) = 2 ^ 63 - 1" by code_simp
    ultimately show ?thesis by simp
  qed
  have "truncate_from units d = Some y \<Longrightarrow> units \<noteq> 2 ^ 63 - 1" for units d y
    by (rule truncate_from.raw_induct [where P = "\<lambda>u d y. u \<noteq> 2 ^ 63 - 1", rotated])
      (use le in \<open>auto simp: linorder_not_less [symmetric] split: if_splits\<close>)
  then have "truncate_from (2 ^ 63 - 1) 1 = None" by (metis not_None_eq)
  then show ?thesis using le [of 1] by (simp add: truncateDuration_def)
qed

end
