(* ===== verification/AzureMonitor.thy ===== *)
theory AzureMonitor
  imports JsonSerializer "HOL-Library.Multiset"
begin

section \<open>The Azure Monitor output\<close>

text \<open>
  \<open>plugins/outputs/azure_monitor/azure_monitor.go\<close>: an aggregating output. \<open>Add\<close> collects numbers in
  buckets of one minute, \<open>Push\<close> hands out the aggregates that changed, \<open>Reset\<close> forgets old buckets and
  \<open>Write\<close> sends batches as lines of JSON. An aggregate is reached through a pointer in the cache only,
  so it is its current value there. The clock is read once for each bucket, so it is a function of
  the bucket. All times are in one time zone, at whole minutes from UTC. Parameters: \<open>post\<close> sends a body
  (compression, request, answer) and changes the state of the network, \<open>rfc\<close> is the text of a time.
\<close>

subsection \<open>State\<close>

record dimension =
  dim_name :: string
  dim_value :: string

record aggregate =
  ag_name :: string
  ag_min :: f64
  ag_max :: f64
  ag_sum :: f64
  ag_count :: i64
  ag_dimensions :: "dimension list"
  ag_updated :: bool

type_synonym az_cache = "(int, (u64, aggregate) gomap) gomap"

record azure =
  az_Timeout :: int
  az_NamespacePrefix :: string
  az_StringsAsDimensions :: bool
  az_Region :: string
  az_ResourceID :: string
  az_url :: string
  az_auth :: bool
  az_cached :: az_cache
  az_MetricOutsideWindow :: "i64 option"

abbreviation minute :: int where "minute \<equiv> 60 * 10 ^ 9"

subsection \<open>Connecting\<close>

definition az_defaults :: "azure \<Rightarrow> azure" where
  "az_defaults az = az
     \<lparr>az_cached := [],
      az_Timeout := (if az_Timeout az = 0 then 5 * 10 ^ 9 else az_Timeout az),
      az_NamespacePrefix := (if az_NamespacePrefix az = [] then ''Telegraf/'' else az_NamespacePrefix az)\<rparr>"

definition url_of :: "string \<Rightarrow> string \<Rightarrow> string" where
  "url_of region resource = ''https://'' @ region @ ''.monitoring.azure.com'' @ resource @ ''/metrics''"

text \<open>The resource of a machine, from its metadata.\<close>

definition resource_of :: "string \<Rightarrow> string \<Rightarrow> string \<Rightarrow> string" where
  "resource_of sub grp vm = ''/subscriptions/'' @ sub @ ''/resourceGroups/'' @ grp
     @ ''/providers/Microsoft.Compute/virtualMachines/'' @ vm"

text \<open>
  \<open>meta\<close> is what the metadata service answers: location, subscription, group and name. \<open>auth\<close>: an
  authorizer was found in the environment. \<open>stat\<close> is the registered counter.
\<close>

definition az_where :: "string + (string \<times> string \<times> string \<times> string) \<Rightarrow> azure \<Rightarrow> string + (string \<times> string)" where
  "az_where meta az =
     (let own = (\<lambda>region resource. (if az_Region az \<noteq> [] then az_Region az else region,
                                    if az_ResourceID az \<noteq> [] then az_ResourceID az else resource))
      in if az_Region az = [] \<or> az_ResourceID az = [] then
           (case meta of Inl e \<Rightarrow> Inl e | Inr (loc, sub, grp, vm) \<Rightarrow> Inr (own loc (resource_of sub grp vm)))
         else Inr (own [] []))"

definition az_Reset :: "(int \<Rightarrow> int) \<Rightarrow> (int \<Rightarrow> int) \<Rightarrow> azure \<Rightarrow> azure" where
  "az_Reset now1 now2 az = az
     \<lparr>az_cached := List.map (\<lambda>(b, aggs).
          (b, if b > now2 b - minute then aggs else List.map (\<lambda>(i, a). (i, a\<lparr>ag_updated := False\<rparr>)) aggs))
        (List.filter (\<lambda>(b, aggs). \<not> b < now1 b - minute * 30) (az_cached az))\<rparr>"

definition az_Connect ::
  "string + (string \<times> string \<times> string \<times> string) \<Rightarrow> bool \<Rightarrow> i64 \<Rightarrow> (int \<Rightarrow> int) \<Rightarrow> (int \<Rightarrow> int) \<Rightarrow> azure \<Rightarrow> azure \<times> string option" where
  "az_Connect meta auth stat now1 now2 az =
     (let az1 = az_defaults az in
      case az_where meta az1 of
        Inl e \<Rightarrow> (az1, Some e)
      | Inr (region, resource) \<Rightarrow>
          if resource = [] then (az1, Some ''no resource ID configured or available via VM instance metadata'')
          else if region = [] then (az1, Some ''no region configured or available via VM instance metadata'')
          else let az2 = az1\<lparr>az_url := url_of region resource, az_auth := auth\<rparr>
               in if \<not> auth then (az2, None)
                  else ((az_Reset now1 now2 az2)\<lparr>az_MetricOutsideWindow := Some stat\<rparr>, None))"

subsection \<open>Adding\<close>

fun az_convert :: "gval \<Rightarrow> f64 option" where
  "az_convert (GInt64 v) = Some (f64_of_int (sint v))"
| "az_convert (GUint64 v) = Some (f64_of_int (uint v))"
| "az_convert (GFloat64 v) = Some v"
| "az_convert (GBool b) = Some (if b then f64_of_int 1 else f_zero)"
| "az_convert _ = None"

definition az_sanitize :: "string \<Rightarrow> string" where
  "az_sanitize v = concat (List.map (\<lambda>(r, b).
     if 97 \<le> r \<and> r \<le> 122 \<or> 65 \<le> r \<and> r \<le> 90 \<or> 48 \<le> r \<and> r \<le> 57 \<or> r = 95 then b else ''_'') (runes v))"

text \<open>\<open>binary.PutUvarint\<close>: seven bits a byte, the lowest first, all but the last marked.\<close>

function uvarint :: "int \<Rightarrow> string" where
  "uvarint n = (if n < 128 then [char_of n] else char_of (n mod 128 + 128) # uvarint (n div 128))"
  by pat_completeness auto
termination by (relation "measure nat") auto

declare uvarint.simps [simp del]

definition hashIDWithField :: "u64 \<Rightarrow> string \<Rightarrow> u64" where
  "hashIDWithField i fk = fnv1a (uvarint (uint i) @ [CHR 0x0A] @ fk @ [CHR 0x0A])"

text \<open>The tags that \<open>Add\<close> gives to the metric itself.\<close>

definition string_dimensions :: "bool \<Rightarrow> metric \<Rightarrow> metric" where
  "string_dimensions on m =
     (if on then fold (\<lambda>f m. case field_value f of GString v \<Rightarrow> AddTag (field_key f) v m | _ \<Rightarrow> m) (m_fields m) m
      else m)"

definition dimensions_of :: "metric \<Rightarrow> dimension list" where
  "dimensions_of m = List.map (\<lambda>t. \<lparr>dim_name = tag_key t, dim_value = tag_value t\<rparr>) (m_tags m)"

definition ag_new :: "string \<Rightarrow> dimension list \<Rightarrow> f64 \<Rightarrow> aggregate" where
  "ag_new name dims fv =
     \<lparr>ag_name = name, ag_min = fv, ag_max = fv, ag_sum = fv, ag_count = 1, ag_dimensions = dims, ag_updated = True\<rparr>"

definition ag_upd :: "f64 \<Rightarrow> aggregate \<Rightarrow> aggregate" where
  "ag_upd fv a = a
     \<lparr>ag_min := (if f_lt fv (ag_min a) then fv else ag_min a),
      ag_max := (if f_lt (ag_max a) fv then fv else ag_max a),
      ag_sum := f_add (ag_sum a) fv, ag_count := ag_count a + 1, ag_updated := True\<rparr>"

definition ag_put :: "string \<Rightarrow> dimension list \<Rightarrow> f64 \<Rightarrow> aggregate option \<Rightarrow> aggregate" where
  "ag_put name dims fv old = (case old of None \<Rightarrow> ag_new name dims fv | Some a \<Rightarrow> ag_upd fv a)"

definition az_add_field :: "int \<Rightarrow> metric \<Rightarrow> field \<Rightarrow> az_cache \<Rightarrow> az_cache" where
  "az_add_field b m f c =
     (case az_convert (field_value f) of None \<Rightarrow> c
      | Some fv \<Rightarrow>
          let name = m_name m @ ''-'' @ az_sanitize (field_key f);
              i = hashIDWithField (HashID m) (field_key f);
              aggs = (case map_of c b of None \<Rightarrow> [] | Some aggs \<Rightarrow> aggs)
          in AList.update b (AList.update i (ag_put name (dimensions_of m) fv (map_of aggs i)) aggs) c)"

definition bucket_of :: "int \<Rightarrow> int" where
  "bucket_of t = t - t mod minute"

definition az_Add :: "int \<Rightarrow> metric \<Rightarrow> azure \<Rightarrow> azure result" where
  "az_Add now m az =
     (let b = bucket_of (m_tm m) in
      if b < now - minute * 30 then
        (case az_MetricOutsideWindow az of
           None \<Rightarrow> Inl (Panic ''nil pointer dereference'')
         | Some n \<Rightarrow> Inr (az\<lparr>az_MetricOutsideWindow := Some (n + 1)\<rparr>))
      else let m' = string_dimensions (az_StringsAsDimensions az) m
           in Inr (az\<lparr>az_cached := fold (az_add_field b m') (m_fields m') (az_cached az)\<rparr>))"

subsection \<open>Pushing\<close>

definition ag_metric :: "int \<Rightarrow> aggregate \<Rightarrow> metric" where
  "ag_metric b a = New (ag_name a)
     (fold (\<lambda>d. AList.update (dim_name d) (dim_value d)) (ag_dimensions a) [])
     [(''min'', GFloat64 (ag_min a)), (''max'', GFloat64 (ag_max a)), (''sum'', GFloat64 (ag_sum a)),
      (''count'', GInt64 (ag_count a))] b None"

definition az_Push :: "(int \<Rightarrow> int) \<Rightarrow> azure \<Rightarrow> metric list" where
  "az_Push now az = concat (List.map (\<lambda>(b, aggs).
       if b > now b - minute then []
       else List.map (\<lambda>(i, a). ag_metric b a) (List.filter (\<lambda>(i, a). ag_updated a) aggs))
     (az_cached az))"

subsection \<open>Writing\<close>

record az_series =
  se_DimensionValues :: "string list"
  se_Min :: f64
  se_Max :: f64
  se_Sum :: f64
  se_Count :: i64

record az_metric =
  am_Time :: int
  am_Metric :: string
  am_Namespace :: string
  am_DimensionNames :: "string list"
  am_Series :: "az_series list"

definition getFloatField :: "metric \<Rightarrow> string \<Rightarrow> f64 result" where
  "getFloatField m key =
     (case GetField m key of
        None \<Rightarrow> Inl (Err (''missing field: '' @ key))
      | Some (GFloat64 v) \<Rightarrow> Inr v
      | Some _ \<Rightarrow> Inl (Err (''unexpected type: '' @ key)))"

definition getIntField :: "metric \<Rightarrow> string \<Rightarrow> i64 result" where
  "getIntField m key =
     (case GetField m key of
        None \<Rightarrow> Inl (Err (''missing field: '' @ key))
      | Some (GInt64 v) \<Rightarrow> Inr v
      | Some _ \<Rightarrow> Inl (Err (''unexpected type: '' @ key)))"

text \<open>The dimensions sent: the test \<open>len(dimensionNames) > 10\<close> stops after eleven.\<close>

fun az_dimensions :: "nat \<Rightarrow> tag list \<Rightarrow> (string \<times> string) list" where
  "az_dimensions n [] = []"
| "az_dimensions n (t # ts) =
     (if n > 10 \<or> tag_key t = [] \<or> tag_value t = [] then az_dimensions n ts
      else (tag_key t, tag_value t) # az_dimensions (Suc n) ts)"

definition translate :: "metric \<Rightarrow> string \<Rightarrow> az_metric result" where
  "translate m pre =
     res_bind (getFloatField m ''min'') (\<lambda>mn. res_bind (getFloatField m ''max'') (\<lambda>mx.
     res_bind (getFloatField m ''sum'') (\<lambda>sm. res_bind (getIntField m ''count'') (\<lambda>cnt.
       let names = split2 (m_name m) ''-''; dims = az_dimensions 0 (m_tags m)
       in Inr \<lparr>am_Time = m_tm m,
               am_Metric = (if length names > 1 then names ! 1 else ''Missing''),
               am_Namespace = pre @ (if length names > 0 then names ! 0 else ''Missing''),
               am_DimensionNames = List.map fst dims,
               am_Series = [\<lparr>se_DimensionValues = List.map snd dims, se_Min = mn, se_Max = mx,
                             se_Sum = sm, se_Count = cnt\<rparr>]\<rparr>))))"

definition hashIDWithTagKeysOnly :: "metric \<Rightarrow> u64" where
  "hashIDWithTagKeysOnly m = fnv1a (m_name m @ [CHR 0x0A]
     @ concat (List.map (\<lambda>t. tag_key t @ [CHR 0x0A]) (m_tags m))
     @ uvarint (uint (word_of_int (m_tm m) :: u64)) @ [CHR 0x0A])"

definition az_collect_one :: "string \<Rightarrow> metric \<Rightarrow> (u64, az_metric) gomap \<Rightarrow> (u64, az_metric) gomap" where
  "az_collect_one pre m azs =
     (let i = hashIDWithTagKeysOnly m in
      case translate m pre of
        Inl e \<Rightarrow> azs
      | Inr amm \<Rightarrow>
          (case map_of azs i of
             None \<Rightarrow> AList.update i amm azs
           | Some azm \<Rightarrow> AList.update i (azm\<lparr>am_Series := am_Series azm @ am_Series amm\<rparr>) azs))"

definition az_collect :: "string \<Rightarrow> metric list \<Rightarrow> (u64, az_metric) gomap" where
  "az_collect pre ms = fold (az_collect_one pre) ms []"

text \<open>The JSON of a metric; a list that was never appended to is \<open>null\<close>.\<close>

definition json_strings :: "string list \<Rightarrow> string json" where
  "json_strings xs = (if xs = [] then JNull else JArray (List.map JString xs))"

definition series_json :: "az_series \<Rightarrow> string json option" where
  "series_json s =
     (case (json_float (se_Min s), json_float (se_Max s), json_float (se_Sum s)) of
        (Some mn, Some mx, Some sm) \<Rightarrow> Some (JObject
          [(''dimValues'', json_strings (se_DimensionValues s)), (''min'', JNumber mn), (''max'', JNumber mx),
           (''sum'', JNumber sm), (''count'', JNumber (itoa (sint (se_Count s))))])
      | _ \<Rightarrow> None)"

definition az_json :: "(int \<Rightarrow> string option) \<Rightarrow> az_metric \<Rightarrow> string option" where
  "az_json rfc m =
     (case rfc (am_Time m) of None \<Rightarrow> None
      | Some t \<Rightarrow>
          if list_all (\<lambda>s. series_json s \<noteq> None) (am_Series m) then
            Some (marshal (JObject [(''time'', JString t), (''data'', JObject [(''baseData'', JObject
              [(''metric'', JString (am_Metric m)), (''namespace'', JString (am_Namespace m)),
               (''dimNames'', json_strings (am_DimensionNames m)),
               (''series'', JArray (List.map (\<lambda>s. the (series_json s)) (am_Series m)))])])]))
          else None)"

definition az_send :: "(string \<Rightarrow> 's \<Rightarrow> 's \<times> string option) \<Rightarrow> azure \<Rightarrow> string \<Rightarrow> 's \<Rightarrow> ('s \<times> string option) result" where
  "az_send post az body s = (if az_auth az then Inr (post body s) else Inl (Panic ''nil pointer dereference''))"

fun az_write_all ::
  "(string \<Rightarrow> 's \<Rightarrow> 's \<times> string option) \<Rightarrow> (int \<Rightarrow> string option) \<Rightarrow> azure \<Rightarrow> string \<Rightarrow> az_metric list \<Rightarrow> 's
     \<Rightarrow> ('s \<times> string option) result" where
  "az_write_all post rfc az body [] s = az_send post az body s"
| "az_write_all post rfc az body (m # ms) s =
     (case az_json rfc m of
        None \<Rightarrow> Inr (s, Some ''json: unsupported value'')
      | Some js \<Rightarrow>
          if length body + length js + 1 > 4000000 then
            res_bind (az_send post az body s) (\<lambda>(s', err).
              if err \<noteq> None then Inr (s', err) else az_write_all post rfc az (js @ [CHR 0x0A]) ms s')
          else az_write_all post rfc az (body @ js @ [CHR 0x0A]) ms s)"

definition az_Write ::
  "(string \<Rightarrow> 's \<Rightarrow> 's \<times> string option) \<Rightarrow> (int \<Rightarrow> string option) \<Rightarrow> azure \<Rightarrow> metric list \<Rightarrow> 's \<Rightarrow> ('s \<times> string option) result" where
  "az_Write post rfc az ms s =
     (let azs = az_collect (az_NamespacePrefix az) ms
      in if length azs = 0 then Inr (s, None) else az_write_all post rfc az [] (List.map snd azs) s)"


subsection \<open>The cache as a map from buckets and identifiers to aggregates\<close>

type_synonym az_key = "int \<times> u64"

definition cache_look :: "az_cache \<Rightarrow> az_key \<Rightarrow> aggregate option" where
  "cache_look c k = (case map_of c (fst k) of None \<Rightarrow> None | Some aggs \<Rightarrow> map_of aggs (snd k))"

definition cache_ok :: "az_cache \<Rightarrow> bool" where
  "cache_ok c \<longleftrightarrow> gomap_ok c \<and> (\<forall>(b, aggs) \<in> set c. gomap_ok aggs)"

type_synonym az_contrib = "az_key \<times> string \<times> dimension list \<times> f64"

text \<open>What a field of a metric contributes, and how a contribution changes the map.\<close>

definition field_contrib :: "metric \<Rightarrow> field \<Rightarrow> az_contrib option" where
  "field_contrib m f = map_option (\<lambda>fv. ((bucket_of (m_tm m), hashIDWithField (HashID m) (field_key f)),
     m_name m @ ''-'' @ az_sanitize (field_key f), dimensions_of m, fv)) (az_convert (field_value f))"

definition too_old :: "int \<Rightarrow> metric \<Rightarrow> bool" where
  "too_old now m \<longleftrightarrow> bucket_of (m_tm m) < now - minute * 30"

definition contribs :: "bool \<Rightarrow> int \<Rightarrow> metric \<Rightarrow> az_contrib list" where
  "contribs on now m =
     (if too_old now m then []
      else List.map_filter (field_contrib (string_dimensions on m)) (m_fields (string_dimensions on m)))"

fun contribute :: "az_contrib \<Rightarrow> (az_key \<Rightarrow> aggregate option) \<Rightarrow> az_key \<Rightarrow> aggregate option" where
  "contribute (k, name, dims, v) st = st(k := Some (ag_put name dims v (st k)))"

lemma cache_ok_add_field: "cache_ok c \<Longrightarrow> cache_ok (az_add_field b m f c)"
proof (cases "az_convert (field_value f)")
  case (Some fv)
  assume ok: "cache_ok c"
  let ?aggs = "case map_of c b of None \<Rightarrow> [] | Some aggs \<Rightarrow> aggs"
  have "gomap_ok ?aggs" using ok by (force simp: cache_ok_def split: option.split dest: map_of_SomeD)
  with Some ok set_update [of b _ c] show ?thesis
    by (fastforce simp: az_add_field_def cache_ok_def Let_def gomap_ok_update)
qed (simp add: az_add_field_def)

lemma look_add_field:
  assumes "bucket_of (m_tm m) = b"
  shows "cache_look (az_add_field b m f c) =
    (case field_contrib m f of None \<Rightarrow> cache_look c | Some x \<Rightarrow> contribute x (cache_look c))"
  using assms
  by (cases "az_convert (field_value f)")
    (auto simp: fun_eq_iff az_add_field_def field_contrib_def cache_look_def map_laws Let_def split: option.split)

lemma look_add_fields:
  assumes "bucket_of (m_tm m) = b"
  shows "cache_look (fold (az_add_field b m) fs c) = fold contribute (List.map_filter (field_contrib m) fs) (cache_look c)"
  by (induction fs arbitrary: c)
    (auto simp: look_add_field [OF assms] map_filter_simps split: option.split)

lemma cache_ok_add_fields: "cache_ok c \<Longrightarrow> cache_ok (fold (az_add_field b m) fs c)"
  by (induction fs arbitrary: c) (simp_all add: cache_ok_add_field)

lemma string_dimensions_frame:
  "m_fields (string_dimensions on m) = m_fields m \<and> m_name (string_dimensions on m) = m_name m
   \<and> m_tm (string_dimensions on m) = m_tm m"
proof -
  have "m_fields (fold g fs m) = m_fields m \<and> m_name (fold g fs m) = m_name m \<and> m_tm (fold g fs m) = m_tm m"
    if "\<And>f m. m_fields (g f m) = m_fields m \<and> m_name (g f m) = m_name m \<and> m_tm (g f m) = m_tm m" for g fs m
    by (induction fs arbitrary: m) (simp_all add: that)
  from this [of "\<lambda>f m. case field_value f of GString v \<Rightarrow> AddTag (field_key f) v m | _ \<Rightarrow> m" "m_fields m" m]
  show ?thesis by (simp add: string_dimensions_def AddTag_def split: gval.split)
qed

lemma az_Add_look:
  assumes "az_MetricOutsideWindow az \<noteq> None"
  obtains az' where "az_Add now m az = Inr az'" "az_MetricOutsideWindow az' \<noteq> None"
    "cache_look (az_cached az') = fold contribute (contribs (az_StringsAsDimensions az) now m) (cache_look (az_cached az))"
    "az_StringsAsDimensions az' = az_StringsAsDimensions az" "cache_ok (az_cached az) \<Longrightarrow> cache_ok (az_cached az')"
proof (cases "too_old now m")
  case True
  with assms that [of "az\<lparr>az_MetricOutsideWindow := map_option (\<lambda>n. n + 1) (az_MetricOutsideWindow az)\<rparr>"] show ?thesis
    by (auto simp: az_Add_def too_old_def contribs_def)
next
  case False
  let ?m = "string_dimensions (az_StringsAsDimensions az) m"
  have b: "bucket_of (m_tm ?m) = bucket_of (m_tm m)" by (simp add: string_dimensions_frame)
  show ?thesis
    using False assms that [of "az\<lparr>az_cached := fold (az_add_field (bucket_of (m_tm m)) ?m) (m_fields ?m) (az_cached az)\<rparr>"]
    by (simp add: az_Add_def too_old_def contribs_def look_add_fields [OF b] cache_ok_add_fields Let_def)
qed

text \<open>What \<open>Reset\<close> does to an aggregate.\<close>

definition reset_look :: "(int \<Rightarrow> int) \<Rightarrow> (int \<Rightarrow> int) \<Rightarrow> (az_key \<Rightarrow> aggregate option) \<Rightarrow> az_key \<Rightarrow> aggregate option" where
  "reset_look now1 now2 st k =
     (let b = fst k in
      if b < now1 b - minute * 30 then None
      else if b > now2 b - minute then st k
      else map_option (\<lambda>a. a\<lparr>ag_updated := False\<rparr>) (st k))"

lemma map_of_map_values: "map_of (List.map (\<lambda>(k, v). (k, f k v)) m) k = map_option (f k) (map_of m k)"
  by (induction m) auto

lemma map_of_filter_by_key: "map_of (List.filter (\<lambda>(k, v). P k) m) k = (if P k then map_of m k else None)"
  by (induction m) auto

lemma look_Reset: "cache_look (az_cached (az_Reset now1 now2 az)) = reset_look now1 now2 (cache_look (az_cached az))"
proof (rule ext)
  fix k :: az_key
  obtain b i where k: "k = (b, i)" by force
  show "cache_look (az_cached (az_Reset now1 now2 az)) k = reset_look now1 now2 (cache_look (az_cached az)) k"
    using map_of_map_values [of "\<lambda>b aggs. if b > now2 b - minute then aggs else List.map (\<lambda>(i, a). (i, a\<lparr>ag_updated := False\<rparr>)) aggs"
        "List.filter (\<lambda>(b, aggs). \<not> b < now1 b - minute * 30) (az_cached az)" b]
      map_of_map_values [of "\<lambda>_ a. a\<lparr>ag_updated := False\<rparr>" _ i]
    by (auto simp: k cache_look_def reset_look_def az_Reset_def Let_def map_of_filter_by_key split: option.split)
qed

lemma cache_ok_Reset: "cache_ok (az_cached az) \<Longrightarrow> cache_ok (az_cached (az_Reset now1 now2 az))"
proof -
  assume ok: "cache_ok (az_cached az)"
  have "fst \<circ> (\<lambda>(b, aggs). (b, f b aggs)) = fst" for f :: "int \<Rightarrow> (u64, aggregate) gomap \<Rightarrow> (u64, aggregate) gomap" by auto
  moreover have "fst \<circ> (\<lambda>(i, a). (i, a\<lparr>ag_updated := False\<rparr>)) = (fst :: u64 \<times> aggregate \<Rightarrow> u64)" by auto
  ultimately show ?thesis
    using ok by (auto simp: cache_ok_def az_Reset_def gomap_ok_filter)
qed


subsection \<open>Histories\<close>

datatype az_op = AzAdd int metric | AzReset "int \<Rightarrow> int" "int \<Rightarrow> int"

fun az_step :: "az_op \<Rightarrow> azure \<Rightarrow> azure result" where
  "az_step (AzAdd now m) az = az_Add now m az"
| "az_step (AzReset now1 now2) az = Inr (az_Reset now1 now2 az)"

fun az_run :: "az_op list \<Rightarrow> azure \<Rightarrow> azure result" where
  "az_run [] az = Inr az"
| "az_run (op # ops) az = res_bind (az_step op az) (az_run ops)"

text \<open>The same history on the map: contributions are put, resets age and mark.\<close>

fun map_step :: "bool \<Rightarrow> az_op \<Rightarrow> (az_key \<Rightarrow> aggregate option) \<Rightarrow> az_key \<Rightarrow> aggregate option" where
  "map_step on (AzAdd now m) st = fold contribute (contribs on now m) st"
| "map_step on (AzReset now1 now2) st = reset_look now1 now2 st"

lemma az_run_look:
  assumes "az_MetricOutsideWindow az \<noteq> None" "cache_ok (az_cached az)"
  shows "\<exists>az'. az_run ops az = Inr az' \<and> az_MetricOutsideWindow az' \<noteq> None \<and> cache_ok (az_cached az')
    \<and> cache_look (az_cached az') = fold (map_step (az_StringsAsDimensions az)) ops (cache_look (az_cached az))"
  using assms
proof (induction ops arbitrary: az)
  case (Cons op ops)
  have "\<exists>az'. az_step op az = Inr az' \<and> az_MetricOutsideWindow az' \<noteq> None \<and> cache_ok (az_cached az')
    \<and> az_StringsAsDimensions az' = az_StringsAsDimensions az
    \<and> cache_look (az_cached az') = map_step (az_StringsAsDimensions az) op (cache_look (az_cached az))"
  proof (cases op)
    case (AzAdd now m)
    from az_Add_look [OF Cons.prems(1), of now m] Cons.prems(2) show ?thesis
      by (metis AzAdd az_step.simps(1) map_step.simps(1))
  next
    case (AzReset now1 now2)
    have "az_MetricOutsideWindow (az_Reset now1 now2 az) = az_MetricOutsideWindow az"
      "az_StringsAsDimensions (az_Reset now1 now2 az) = az_StringsAsDimensions az"
      by (simp_all add: az_Reset_def)
    with AzReset Cons.prems show ?thesis by (simp add: look_Reset cache_ok_Reset)
  qed
  then obtain az' where az': "az_step op az = Inr az'" "az_MetricOutsideWindow az' \<noteq> None" "cache_ok (az_cached az')"
    "az_StringsAsDimensions az' = az_StringsAsDimensions az"
    "cache_look (az_cached az') = map_step (az_StringsAsDimensions az) op (cache_look (az_cached az))" by blast
  from Cons.IH [OF az'(2,3)] az'(1,4,5) show ?case by simp
qed simp

text \<open>All entries of the cache as one list.\<close>

definition entries :: "az_cache \<Rightarrow> (az_key \<times> aggregate) list" where
  "entries c = concat (List.map (\<lambda>(b, aggs). List.map (\<lambda>(i, a). ((b, i), a)) aggs) c)"

definition due :: "(int \<Rightarrow> int) \<Rightarrow> az_key \<Rightarrow> aggregate \<Rightarrow> bool" where
  "due now k a \<longleftrightarrow> ag_updated a \<and> fst k \<le> now (fst k) - minute"

lemma map_of_entries: "gomap_ok c \<Longrightarrow> map_of (entries c) k = cache_look c k"
proof (induction c)
  case (Cons x c)
  obtain b aggs where x: "x = (b, aggs)" by force
  obtain b' i where k: "k = (b', i)" by force
  have here: "map_of (List.map (\<lambda>(i, a). ((b, i), a)) aggs) (b', i) = (if b' = b then map_of aggs i else None)"
    by (induction aggs) auto
  have "map_of c b = None" using Cons.prems by (simp add: x map_of_eq_None_iff_keys)
  then have "cache_look c (b, i) = None" by (simp add: cache_look_def)
  moreover have "entries (x # c) = List.map (\<lambda>(i, a). ((b, i), a)) aggs @ entries c" by (simp add: x entries_def)
  moreover have "cache_look (x # c) k = (if b' = b then map_of aggs i else cache_look c k)" by (simp add: x k cache_look_def)
  moreover have "map_of (entries c) k = cache_look c k" using Cons by simp
  ultimately show ?case using here by (auto simp: k map_add_def split: option.splits)
qed (simp add: entries_def cache_look_def)

lemma entries_keys: "k \<in> set (keys_of (entries c)) \<Longrightarrow> fst k \<in> set (keys_of c)"
  by (force simp: entries_def)

lemma entries_ok: "cache_ok c \<Longrightarrow> gomap_ok (entries c)"
proof (induction c)
  case (Cons x c)
  obtain b aggs where x: "x = (b, aggs)" by force
  have "List.map fst (List.map (\<lambda>(i, a). ((b, i), a)) aggs) = List.map (Pair b) (keys_of aggs)"
    by (auto simp: case_prod_beta)
  moreover have "gomap_ok aggs" "cache_ok c" "b \<notin> set (keys_of c)" using Cons.prems by (auto simp: x cache_ok_def)
  moreover have "entries (x # c) = List.map (\<lambda>(i, a). ((b, i), a)) aggs @ entries c" by (simp add: x entries_def)
  ultimately show ?case
    using Cons.IH entries_keys [of _ c] by (fastforce simp: distinct_map inj_on_def)
qed (simp add: entries_def)

lemma Push_entries: "az_Push now az = List.map (\<lambda>(k, a). ag_metric (fst k) a) (List.filter (\<lambda>(k, a). due now k a) (entries (az_cached az)))"
proof -
  have here: "List.map (\<lambda>(k, a). ag_metric (fst k) a) (List.filter (\<lambda>(k, a). due now k a) (List.map (\<lambda>(i, a). ((b, i), a)) aggs))
     = (if b > now b - minute then [] else List.map (\<lambda>(i, a). ag_metric b a) (List.filter (\<lambda>(i, a). ag_updated a) aggs))" for b aggs
    by (induction aggs) (auto simp: due_def)
  have "List.map (\<lambda>(k, a). ag_metric (fst k) a) (List.filter (\<lambda>(k, a). due now k a) (entries c))
     = concat (List.map (\<lambda>(b, aggs). if b > now b - minute then []
        else List.map (\<lambda>(i, a). ag_metric b a) (List.filter (\<lambda>(i, a). ag_updated a) aggs)) c)" for c
    by (induction c) (auto simp: entries_def here)
  then show ?thesis by (simp add: az_Push_def)
qed

lemma mset_filter_map:
  assumes "gomap_ok xs"
  shows "mset (List.map (\<lambda>(k, v). f k v) (List.filter (\<lambda>(k, v). P k v) xs)) =
    image_mset (\<lambda>k. f k (the (map_of xs k))) (mset_set {k. \<exists>v. map_of xs k = Some v \<and> P k v})"
proof -
  let ?ys = "List.filter (\<lambda>(k, v). P k v) xs"
  have ys: "gomap_ok ?ys" by (rule gomap_ok_filter [OF assms])
  have keys: "set (keys_of ?ys) = {k. \<exists>v. map_of xs k = Some v \<and> P k v}"
    using assms by (force simp: image_iff)
  have "List.map (\<lambda>(k, v). f k v) ?ys = List.map (\<lambda>k. f k (the (map_of xs k))) (keys_of ?ys)"
    using assms by (auto simp: map_of_is_SomeI)
  then have "mset (List.map (\<lambda>(k, v). f k v) ?ys) = image_mset (\<lambda>k. f k (the (map_of xs k))) (mset (keys_of ?ys))"
    by (metis mset_map)
  moreover have "mset (keys_of ?ys) = mset_set {k. \<exists>v. map_of xs k = Some v \<and> P k v}"
    using mset_set_set [OF ys] by (simp only: keys)
  ultimately show ?thesis by (simp only:)
qed

text \<open>
  C32. The Azure output is a map from minute and series to aggregate. For every history of added metrics
  and resets, whatever the clock reads, the calls succeed once the output is connected; the cache then
  says what the map says to which each contribution in the time window was put, and from which each
  reset removed the minutes older than half an hour; and a push hands out exactly one metric for
  every aggregate of the map that changed since it was last marked and whose minute is over.
\<close>

theorem azure_refines:
  assumes "az_MetricOutsideWindow az \<noteq> None" "cache_ok (az_cached az)"
  shows "\<exists>az'. az_run ops az = Inr az'
    \<and> (let st = fold (map_step (az_StringsAsDimensions az)) ops (cache_look (az_cached az)) in
         cache_look (az_cached az') = st
         \<and> mset (az_Push now az') = image_mset (\<lambda>k. ag_metric (fst k) (the (st k)))
              (mset_set {k. \<exists>a. st k = Some a \<and> due now k a}))"
proof -
  obtain az' where az': "az_run ops az = Inr az'" "cache_ok (az_cached az')"
    "cache_look (az_cached az') = fold (map_step (az_StringsAsDimensions az)) ops (cache_look (az_cached az))"
    using az_run_look [OF assms] by blast
  have "map_of (entries (az_cached az')) = cache_look (az_cached az')"
    using az'(2) by (simp add: fun_eq_iff map_of_entries cache_ok_def)
  with mset_filter_map [OF entries_ok [OF az'(2)], of "\<lambda>k a. ag_metric (fst k) a" "due now"] az'(1,3)
  show ?thesis by (simp add: Push_entries Let_def)
qed


subsection \<open>Where an aggregate comes from\<close>







subsection \<open>From a push to a document\<close>











definition azure_ready :: azure where
  "azure_ready = fst (az_Connect (Inl ''no metadata'') True 0 (\<lambda>_. 0) (\<lambda>_. 0)
     \<lparr>az_Timeout = 0, az_NamespacePrefix = [], az_StringsAsDimensions = True, az_Region = ''r'', az_ResourceID = ''/s'',
      az_url = [], az_auth = False, az_cached = [], az_MetricOutsideWindow = None\<rparr>)"

definition cpu_sample :: "int \<Rightarrow> f64 \<Rightarrow> metric" where
  "cpu_sample t v = New ''cpu'' [(''host'', ''a'')] [(''busy%'', GFloat64 v), (''state'', GString ''up'')] t None"

lemma azure_ready_simps:
  "az_MetricOutsideWindow azure_ready = Some 0" "az_cached azure_ready = []" "az_StringsAsDimensions azure_ready"
  "az_NamespacePrefix azure_ready = ''Telegraf/''" "az_url azure_ready = ''https://r.monitoring.azure.com/s/metrics''"
  by (simp_all add: azure_ready_def az_Connect_def az_where_def az_defaults_def az_Reset_def Let_def url_of_def)

theorem azure_refines_witness:
  "\<exists>az'. az_run [AzAdd 0 (cpu_sample 0 (f64_of_int 3)), AzReset (\<lambda>_. 0) (\<lambda>_. 0)] azure_ready = Inr az'
    \<and> (let st = fold (map_step True) [AzAdd 0 (cpu_sample 0 (f64_of_int 3)), AzReset (\<lambda>_. 0) (\<lambda>_. 0)] (\<lambda>_. None) in
         cache_look (az_cached az') = st
         \<and> mset (az_Push (\<lambda>_. minute) az') = image_mset (\<lambda>k. ag_metric (fst k) (the (st k)))
              (mset_set {k. \<exists>a. st k = Some a \<and> due (\<lambda>_. minute) k a}))"
proof -
  have "cache_look [] = (\<lambda>_. None)" by (simp add: cache_look_def fun_eq_iff)
  moreover have "az_StringsAsDimensions azure_ready = True" using azure_ready_simps(3) by simp
  ultimately show ?thesis
    using azure_refines [of azure_ready "[AzAdd 0 (cpu_sample 0 (f64_of_int 3)), AzReset (\<lambda>_. 0) (\<lambda>_. 0)]" "\<lambda>_. minute"]
    by (simp only: azure_ready_simps cache_ok_def) simp
qed

definition azure_fed :: azure where
  "azure_fed = projr (az_run [AzAdd 0 (cpu_sample 61000000000 (f64_of_int 3)), AzAdd 0 (cpu_sample 62000000000 (f64_of_int 5))] azure_ready)"

definition azure_fed_push :: metric where
  "azure_fed_push = hd (az_Push (\<lambda>_. 3 * minute) azure_fed)"


text \<open>What the document of the demo says.\<close>

lemma azure_fed_document:
  "translate azure_fed_push ''ns/'' = Inr \<lparr>am_Time = 60000000000, am_Metric = ''busy_'', am_Namespace = ''ns/cpu'',
     am_DimensionNames = [''host'', ''state''], am_Series = [\<lparr>se_DimensionValues = [''a'', ''up''], se_Min = f64_of_int 3,
       se_Max = f64_of_int 5, se_Sum = f64_of_int 8, se_Count = 2\<rparr>]\<rparr>"
  by code_simp

subsection \<open>What can go wrong\<close>

text \<open>
  \<open>Push\<close> and \<open>Reset\<close> read the clock on their own. If the minute of an aggregate ends between the two,
  \<open>Push\<close> withholds it as too early and \<open>Reset\<close> marks it as sent: no later push hands it out unless
  more is added to it.
\<close>

theorem azure_boundary_loses:
  assumes "cache_ok (az_cached az)" "cache_look (az_cached az) (b, i) = Some a"
    "now b < b + minute" "b + minute \<le> now2 b" "now1 b \<le> b + minute * 30"
  shows "\<not> due now (b, i) a
    \<and> (\<exists>a'. cache_look (az_cached (az_Reset now1 now2 az)) (b, i) = Some a' \<and> ag_sum a' = ag_sum a
         \<and> (\<forall>later. \<not> due later (b, i) a'))"
  using assms by (simp add: due_def look_Reset reset_look_def)

theorem azure_boundary_loses_witness:
  "\<exists>i a. cache_look (az_cached azure_fed) (60000000000, i) = Some a \<and> ag_updated a
    \<and> \<not> due (\<lambda>_. 119999999999) (60000000000, i) a
    \<and> (\<exists>a'. cache_look (az_cached (az_Reset (\<lambda>_. 120000000000) (\<lambda>_. 120000000000) azure_fed)) (60000000000, i) = Some a'
         \<and> ag_sum a' = ag_sum a \<and> (\<forall>later. \<not> due later (60000000000, i) a'))"
proof -
  let ?i = "hashIDWithField (HashID (string_dimensions True (cpu_sample 61000000000 (f64_of_int 3)))) ''busy%''"
  let ?a = "the (cache_look (az_cached azure_fed) (60000000000, ?i))"
  have ok: "cache_ok (az_cached azure_fed)"
    using az_run_look [of azure_ready "[AzAdd 0 (cpu_sample 61000000000 (f64_of_int 3)), AzAdd 0 (cpu_sample 62000000000 (f64_of_int 5))]"]
    by (auto simp: azure_fed_def azure_ready_simps cache_ok_def simp del: az_run.simps)
  have "cache_look (az_cached azure_fed) (60000000000, ?i) \<noteq> None \<and> ag_updated ?a" by code_simp
  then have a: "cache_look (az_cached azure_fed) (60000000000, ?i) = Some ?a" "ag_updated ?a" by auto
  show ?thesis
    using azure_boundary_loses [OF ok a(1), of "\<lambda>_. 119999999999" "\<lambda>_. 120000000000" "\<lambda>_. 120000000000"] a
    by (intro exI [of _ ?i] exI [of _ ?a]) simp
qed

text \<open>An error of the authorizer is dropped by \<open>Connect\<close>; the first late metric then dereferences the missing counter.\<close>

lemma azure_unauthorized_panics:
  assumes "snd (az_Connect meta auth stat now1 now2 az) = None" "\<not> auth" "az_MetricOutsideWindow az = None" "too_old now m"
  shows "az_Add now m (fst (az_Connect meta auth stat now1 now2 az)) = Inl (Panic ''nil pointer dereference'')"
proof -
  let ?az = "az_defaults az"
  obtain rr where "az_where meta ?az = Inr rr" "snd rr \<noteq> []" "fst rr \<noteq> []"
    using assms(1) by (auto simp: az_Connect_def Let_def split: sum.splits prod.splits if_splits)
  with assms(2) have "fst (az_Connect meta auth stat now1 now2 az) = ?az\<lparr>az_url := url_of (fst rr) (snd rr), az_auth := auth\<rparr>"
    by (cases rr) (simp add: az_Connect_def Let_def)
  with assms(3,4) show ?thesis by (simp add: az_Add_def too_old_def az_defaults_def)
qed

text \<open>A value that JSON cannot express stops the whole batch, whatever the service answers.\<close>

lemma azure_nan_blocks:
  assumes "az_json rfc x = None" "x \<in> set (List.map snd (az_collect (az_NamespacePrefix az) ms))"
    "\<And>body s. snd (post body s) = None" "az_auth az"
  shows "\<exists>s' e. az_Write post rfc az ms s = Inr (s', Some e)"
proof -
  have "\<exists>s' e. az_write_all post rfc az body xs s = Inr (s', Some e)" if "x \<in> set xs" for xs body s
    using that
  proof (induction xs arbitrary: body s)
    case (Cons y xs)
    have ok: "az_send post az body s = Inr (fst (post body s), None)"
      using assms(3)[of body s] assms(4) by (cases "post body s") (simp add: az_send_def)
    show ?case
    proof (cases "az_json rfc y")
      case (Some js)
      with Cons.prems assms(1) have "x \<in> set xs" by auto
      from Cons.IH [OF this] Some ok show ?thesis by simp
    qed simp
  qed simp
  from this [OF assms(2)] assms(2) show ?thesis by (auto simp: az_Write_def Let_def)
qed

text \<open>Metrics with the same tag keys share the dimension names of the first, even where an empty value was left out.\<close>

lemma azure_series_misaligned:
  "am_DimensionNames (snd (hd (az_collect []
     [New ''n-x'' [(''a'', ''1''), (''b'', '''')] [(''min'', GFloat64 f_zero), (''max'', GFloat64 f_zero), (''sum'', GFloat64 f_zero), (''count'', GInt64 1)] 0 None,
      New ''n-x'' [(''a'', ''''), (''b'', ''2'')] [(''min'', GFloat64 f_zero), (''max'', GFloat64 f_zero), (''sum'', GFloat64 f_zero), (''count'', GInt64 1)] 0 None])))
   = [''a'']
   \<and> List.map se_DimensionValues (am_Series (snd (hd (az_collect []
     [New ''n-x'' [(''a'', ''1''), (''b'', '''')] [(''min'', GFloat64 f_zero), (''max'', GFloat64 f_zero), (''sum'', GFloat64 f_zero), (''count'', GInt64 1)] 0 None,
      New ''n-x'' [(''a'', ''''), (''b'', ''2'')] [(''min'', GFloat64 f_zero), (''max'', GFloat64 f_zero), (''sum'', GFloat64 f_zero), (''count'', GInt64 1)] 0 None]))))
   = [[''1''], [''2'']]"
  by code_simp

text \<open>A dash in the name of a metric is taken for the one before the field.\<close>

lemma azure_dash_splits_name:
  "translate (ag_metric 0 (ag_new ''my-app-used'' [] f_zero)) ''T/'' = Inr \<lparr>am_Time = 0, am_Metric = ''app-used'',
     am_Namespace = ''T/my'', am_DimensionNames = [], am_Series = [\<lparr>se_DimensionValues = [], se_Min = f_zero,
     se_Max = f_zero, se_Sum = f_zero, se_Count = 1\<rparr>]\<rparr>"
  by code_simp


subsection \<open>An aggregate is what its samples say\<close>

fun samples_of :: "bool \<Rightarrow> az_key \<Rightarrow> az_op list \<Rightarrow> f64 list" where
  "samples_of on k [] = []"
| "samples_of on k (AzAdd now m # ops) =
     List.map (\<lambda>(_, _, _, v). v) (List.filter (\<lambda>x. fst x = k) (contribs on now m)) @ samples_of on k ops"
| "samples_of on k (AzReset now1 now2 # ops) = samples_of on k ops"

text \<open>The numbers of an aggregate that has received a list of samples.\<close>

definition summarises :: "f64 list \<Rightarrow> aggregate option \<Rightarrow> bool" where
  "summarises xs ao \<longleftrightarrow>
     (case ao of None \<Rightarrow> xs = []
      | Some a \<Rightarrow> xs \<noteq> [] \<and> ag_count a = of_nat (length xs) \<and> ag_sum a = foldl f_add (hd xs) (tl xs)
          \<and> (no_nan xs \<longrightarrow> ag_min a \<in> set xs \<and> ag_max a \<in> set xs
               \<and> (\<forall>x \<in> set xs. f_le (ag_min a) x \<and> f_le x (ag_max a))))"

lemma summarises_put:
  assumes "summarises xs ao"
  shows "summarises (xs @ [v]) (Some (ag_put n d v ao))"
proof (cases ao)
  case None
  with assms show ?thesis by (auto simp: summarises_def ag_put_def ag_new_def f_le_refl)
next
  case (Some a)
  then have xs: "xs \<noteq> []" "ag_count a = of_nat (length xs)" "ag_sum a = foldl f_add (hd xs) (tl xs)"
    and bounds: "no_nan xs \<Longrightarrow> ag_min a \<in> set xs \<and> ag_max a \<in> set xs \<and> (\<forall>x \<in> set xs. f_le (ag_min a) x \<and> f_le x (ag_max a))"
    using assms by (auto simp: summarises_def)
  have "ag_min (ag_upd v a) \<in> set (xs @ [v]) \<and> ag_max (ag_upd v a) \<in> set (xs @ [v])
      \<and> (\<forall>x \<in> set (xs @ [v]). f_le (ag_min (ag_upd v a)) x \<and> f_le x (ag_max (ag_upd v a)))" if "no_nan (xs @ [v])"
  proof -
    have v: "\<not> is_nan v" "no_nan xs" using that by auto
    note b = bounds [OF v(2)]
    then have ends: "\<not> is_nan (ag_min a)" "\<not> is_nan (ag_max a)" using v(2) by auto
    have le: "f_lt v (ag_min a) \<Longrightarrow> f_le v (ag_min a)" "f_lt (ag_max a) v \<Longrightarrow> f_le (ag_max a) v" by (rule f_lt_imp_le, assumption)+
    have nle: "\<not> f_lt v (ag_min a) \<Longrightarrow> f_le (ag_min a) v" "\<not> f_lt (ag_max a) v \<Longrightarrow> f_le v (ag_max a)"
      using f_not_lt_le v(1) ends by blast+
    have trans: "f_le v (ag_min a) \<Longrightarrow> x \<in> set xs \<Longrightarrow> f_le v x" "f_le (ag_max a) v \<Longrightarrow> x \<in> set xs \<Longrightarrow> f_le x v" for x
      using b f_le_trans by blast+
    show ?thesis
      using b le nle trans f_le_refl [OF v(1)] by (auto simp: ag_upd_def)
  qed
  moreover have "foldl f_add (hd (xs @ [v])) (tl (xs @ [v])) = f_add (foldl f_add (hd xs) (tl xs)) v"
    using xs(1) by simp
  ultimately show ?thesis
    using xs by (simp add: summarises_def ag_put_def Some) (simp add: ag_upd_def)
qed

lemma summarises_contributes:
  "summarises xs (st k) \<Longrightarrow>
   summarises (xs @ List.map (\<lambda>(_, _, _, v). v) (List.filter (\<lambda>x. fst x = k) cs)) (fold contribute cs st k)"
proof (induction cs arbitrary: xs st)
  case (Cons c cs)
  obtain k' n d v where c: "c = (k', n, d, v)" by (cases c) auto
  show ?case
  proof (cases "k' = k")
    case True
    have "summarises (xs @ [v]) (contribute c st k)"
      using summarises_put [OF Cons.prems, of v n d] by (simp add: c True)
    note Cons.IH [of "xs @ [v]" "contribute c st", OF this]
    then show ?thesis using True by (simp add: c del: fun_upd_apply)
  next
    case False
    then have "summarises xs (contribute c st k)" using Cons.prems by (simp add: c)
    note Cons.IH [of xs "contribute c st", OF this]
    then show ?thesis using False by (simp add: c del: fun_upd_apply)
  qed
qed simp

lemma summarises_reset:
  "summarises xs (st k) \<Longrightarrow> \<not> fst k < now1 (fst k) - minute * 30 \<Longrightarrow> summarises xs (reset_look now1 now2 st k)"
  by (auto simp: reset_look_def Let_def summarises_def split: option.splits)

definition kept :: "az_key \<Rightarrow> az_op \<Rightarrow> bool" where
  "kept k op \<longleftrightarrow> (case op of AzReset now1 now2 \<Rightarrow> \<not> fst k < now1 (fst k) - minute * 30 | _ \<Rightarrow> True)"

lemma summarises_history:
  assumes "summarises xs (st k)" "list_all (kept k) ops"
  shows "summarises (xs @ samples_of on k ops) (fold (map_step on) ops st k)"
  using assms
proof (induction on k ops arbitrary: xs st rule: samples_of.induct)
  case (2 on k now m ops)
  let ?ys = "List.map (\<lambda>(_, _, _, v). v) (List.filter (\<lambda>x. fst x = k) (contribs on now m))"
  have "summarises (xs @ ?ys) (fold contribute (contribs on now m) st k)"
    by (rule summarises_contributes) (rule 2(2))
  with 2(1) [of "xs @ ?ys" "fold contribute (contribs on now m) st"] 2(3) show ?case by simp
next
  case (3 on k now1 now2 ops)
  then have "summarises xs (reset_look now1 now2 st k)" by (intro summarises_reset) (simp_all add: kept_def)
  with 3(1) [of xs "reset_look now1 now2 st"] 3(3) show ?case by simp
qed simp

text \<open>
  C33. An aggregate says exactly what its samples say: for every history from an empty cache whose resets
  are not half an hour past the minute, the cache has an aggregate for a minute and series exactly
  when a number was accepted for them; its count is their number, its sum their sum in the
  order they came, and, when none is a NaN, its minimum and maximum are the least and the greatest of them.
\<close>

theorem azure_aggregates:
  assumes "az_MetricOutsideWindow az \<noteq> None" "az_cached az = []" "list_all (kept k) ops"
  shows "\<exists>az'. az_run ops az = Inr az'
    \<and> summarises (samples_of (az_StringsAsDimensions az) k ops) (cache_look (az_cached az') k)"
proof -
  have "cache_ok (az_cached az)" "cache_look (az_cached az) k = None"
    using assms(2) by (simp_all add: cache_ok_def cache_look_def)
  with az_run_look [OF assms(1), of ops]
    summarises_history [of "[]" "cache_look (az_cached az)" k ops "az_StringsAsDimensions az"] assms(3)
  show ?thesis by (auto simp: summarises_def [of "[]"])
qed

theorem azure_aggregates_witness:
  "\<exists>az'. az_run [AzAdd 0 (cpu_sample 61000000000 (f64_of_int 3)), AzReset (\<lambda>_. 0) (\<lambda>_. 0), AzAdd 0 (cpu_sample 62000000000 (f64_of_int 5))] azure_ready = Inr az'
    \<and> summarises (samples_of (az_StringsAsDimensions azure_ready) (60000000000, 7)
        [AzAdd 0 (cpu_sample 61000000000 (f64_of_int 3)), AzReset (\<lambda>_. 0) (\<lambda>_. 0), AzAdd 0 (cpu_sample 62000000000 (f64_of_int 5))])
      (cache_look (az_cached az') (60000000000, 7))"
  by (rule azure_aggregates) (simp_all add: azure_ready_simps kept_def)

end
