(* ===== verification/CloudWatch.thy ===== *)
theory CloudWatch
  imports Metric "HOL-Library.Multiset"
begin

section \<open>The CloudWatch output\<close>

text \<open>
  \<open>plugins/outputs/cloudwatch/cloudwatch.go\<close>: a metric becomes one datum per field or, when statistics
  are written, one per complete set of statistic fields. Go visits maps in any order, so the list
  of fields to visit is an argument; its order is the one chosen. The client library is the parameter \<open>put\<close>, which
  takes the datums of a call and changes the state of the service. No field holds a \<open>time.Time\<close>.
\<close>

subsection \<open>Fields\<close>

datatype statisticType = StatNone | StatMax | StatMin | StatSum | StatCount

record statisticField =
  sf_metricName :: string
  sf_fieldName :: string
  sf_tags :: strmap
  sf_values :: "(statisticType, f64) gomap"
  sf_timestamp :: int

record valueField =
  vf_metricName :: string
  vf_fieldName :: string
  vf_tags :: strmap
  vf_value :: f64
  vf_timestamp :: int

datatype cloudwatchField = StatisticF statisticField | ValueF valueField

record metricDatum =
  md_MetricName :: string
  md_Value :: "f64 option"
  md_Dimensions :: "(string \<times> string) list"
  md_Timestamp :: int
  md_StatisticValues :: "(f64 \<times> f64 \<times> f64 \<times> f64) option"

fun addValue :: "statisticType \<Rightarrow> f64 \<Rightarrow> cloudwatchField \<Rightarrow> cloudwatchField" where
  "addValue sType v (StatisticF f) =
     StatisticF (if sType \<noteq> StatNone then f\<lparr>sf_values := AList.update sType v (sf_values f)\<rparr> else f)"
| "addValue sType v (ValueF f) = ValueF (if sType = StatNone then f\<lparr>vf_value := v\<rparr> else f)"

text \<open>The dimensions: the host, then the other tags sorted, ten at most.\<close>

fun fill_dimensions :: "strmap \<Rightarrow> nat \<Rightarrow> string list \<Rightarrow> (string \<times> string) list" where
  "fill_dimensions mTags i [] = []"
| "fill_dimensions mTags i (k # ks) =
     (if i \<ge> 10 then []
      else (k, case map_of mTags k of Some v \<Rightarrow> v | None \<Rightarrow> []) # fill_dimensions mTags (Suc i) ks)"

definition BuildDimensions :: "strmap \<Rightarrow> (string \<times> string) list" where
  "BuildDimensions mTags =
     (let keys = sort (List.filter (\<lambda>k. k \<noteq> ''host'') (keys_of mTags))
      in case map_of mTags ''host'' of
           Some host \<Rightarrow> (''host'', host) # fill_dimensions mTags 1 keys
         | None \<Rightarrow> fill_dimensions mTags 0 keys)"

definition hasAllFields :: "statisticField \<Rightarrow> bool" where
  "hasAllFields f \<longleftrightarrow> list_all (\<lambda>s. map_of (sf_values f) s \<noteq> None) [StatMin, StatMax, StatSum, StatCount]"

definition stat_value :: "statisticField \<Rightarrow> statisticType \<Rightarrow> f64" where
  "stat_value f s = (case map_of (sf_values f) s of Some v \<Rightarrow> v | None \<Rightarrow> f_zero)"

definition single_datum :: "statisticField \<Rightarrow> statisticType \<times> f64 \<Rightarrow> metricDatum list" where
  "single_datum f sv =
     (let named = (\<lambda>s. [\<lparr>md_MetricName = join ''_'' [sf_metricName f, sf_fieldName f, s], md_Value = Some (snd sv),
                         md_Dimensions = BuildDimensions (sf_tags f), md_Timestamp = sf_timestamp f,
                         md_StatisticValues = None\<rparr>])
      in case fst sv of StatMin \<Rightarrow> named ''min'' | StatMax \<Rightarrow> named ''max'' | StatSum \<Rightarrow> named ''sum''
         | StatCount \<Rightarrow> named ''count'' | StatNone \<Rightarrow> [])"

fun buildDatum :: "cloudwatchField \<Rightarrow> metricDatum list" where
  "buildDatum (StatisticF f) =
     (if hasAllFields f then
        [\<lparr>md_MetricName = join ''_'' [sf_metricName f, sf_fieldName f], md_Value = None,
          md_Dimensions = BuildDimensions (sf_tags f), md_Timestamp = sf_timestamp f,
          md_StatisticValues = Some (stat_value f StatMin, stat_value f StatMax, stat_value f StatSum, stat_value f StatCount)\<rparr>]
      else concat (List.map (single_datum f) (sf_values f)))"
| "buildDatum (ValueF f) =
     [\<lparr>md_MetricName = join ''_'' [vf_metricName f, vf_fieldName f], md_Value = Some (vf_value f),
       md_Dimensions = BuildDimensions (vf_tags f), md_Timestamp = vf_timestamp f, md_StatisticValues = None\<rparr>]"

subsection \<open>Metrics\<close>

definition getStatisticType :: "string \<Rightarrow> statisticType \<times> string" where
  "getStatisticType name =
     (if has_suffix name ''_max'' then (StatMax, trim_suffix name ''_max'')
      else if has_suffix name ''_min'' then (StatMin, trim_suffix name ''_min'')
      else if has_suffix name ''_sum'' then (StatSum, trim_suffix name ''_sum'')
      else if has_suffix name ''_count'' then (StatCount, trim_suffix name ''_count'')
      else (StatNone, name))"

fun cw_number :: "gval \<Rightarrow> f64 option" where
  "cw_number (GInt v) = Some (f64_of_int (sint v))"
| "cw_number (GInt32 v) = Some (f64_of_int (sint v))"
| "cw_number (GInt64 v) = Some (f64_of_int (sint v))"
| "cw_number (GUint64 v) = Some (f64_of_int (uint v))"
| "cw_number (GFloat64 v) = Some v"
| "cw_number (GBool b) = Some (if b then f64_of_int 1 else f_zero)"
| "cw_number _ = None"

text \<open>The constants 8.515920e-109 and 1.174271e+108, rounded to the nearest float.\<close>

definition cw_smallest :: f64 where
  "cw_smallest = mk_f64 False (round_mag 8515920 (10 ^ 115))"

definition cw_largest :: f64 where
  "cw_largest = mk_f64 False (round_mag (1174271 * 10 ^ 102) 1)"

lemma cw_smallest_bits [code]: "cw_smallest = F64 2990390152743231051"
  by code_simp

lemma cw_largest_bits [code]: "cw_largest = F64 6223974682790954209"
  by code_simp

definition cw_convert :: "gval \<Rightarrow> f64 option" where
  "cw_convert v =
     (case cw_number v of None \<Rightarrow> None
      | Some x \<Rightarrow>
          if is_nan x then None else if is_inf x then None
          else if f_lt f_zero x \<and> f_lt x cw_smallest then None
          else if f_lt cw_largest x then None
          else Some x)"

definition value_field :: "metric \<Rightarrow> string \<Rightarrow> f64 \<Rightarrow> valueField" where
  "value_field m k v = \<lparr>vf_metricName = m_name m, vf_fieldName = k, vf_tags = Tags m, vf_value = v, vf_timestamp = m_tm m\<rparr>"

definition statistic_field :: "metric \<Rightarrow> string \<Rightarrow> (statisticType, f64) gomap \<Rightarrow> statisticField" where
  "statistic_field m b vals = \<lparr>sf_metricName = m_name m, sf_fieldName = b, sf_tags = Tags m, sf_values = vals, sf_timestamp = m_tm m\<rparr>"

definition build_field :: "bool \<Rightarrow> metric \<Rightarrow> string \<times> gval \<Rightarrow> (string, cloudwatchField) gomap \<Rightarrow> (string, cloudwatchField) gomap" where
  "build_field buildStatistic m kv fs =
     (case cw_convert (snd kv) of None \<Rightarrow> fs
      | Some val \<Rightarrow> (case getStatisticType (fst kv) of (sType, fieldName) \<Rightarrow>
          if \<not> buildStatistic \<or> sType = StatNone then AList.update (fst kv) (ValueF (value_field m (fst kv) val)) fs
          else (case map_of fs fieldName of
                  None \<Rightarrow> AList.update fieldName (StatisticF (statistic_field m fieldName [(sType, val)])) fs
                | Some f \<Rightarrow> AList.update fieldName (addValue sType val f) fs)))"

text \<open>\<open>kvs\<close> are the fields of the metric in the order visited.\<close>

definition BuildMetricDatum :: "bool \<Rightarrow> metric \<Rightarrow> (string, gval) gomap \<Rightarrow> metricDatum list" where
  "BuildMetricDatum buildStatistic m kvs =
     concat (List.map (\<lambda>(k, f). buildDatum f) (fold (build_field buildStatistic m) kvs []))"

subsection \<open>Writing\<close>

definition PartitionDatums :: "nat \<Rightarrow> 'a list \<Rightarrow> 'a list list result" where
  "PartitionDatums sz datums =
     (if sz = 0 then Inl (Panic ''integer divide by zero'')
      else let n = length datums div sz + (if length datums mod sz \<noteq> 0 then 1 else 0)
           in Inr (List.map (\<lambda>i. take (min (sz * (i + 1)) (length datums) - sz * i) (drop (sz * i) datums)) [0..<n]))"

fun write_partitions :: "('a list \<Rightarrow> 's \<Rightarrow> 's \<times> string option) \<Rightarrow> 'a list list \<Rightarrow> 's \<Rightarrow> 's \<times> string option" where
  "write_partitions put [] s = (s, None)"
| "write_partitions put (p # ps) s =
     (case put p s of (s', None) \<Rightarrow> write_partitions put ps s' | (s', Some e) \<Rightarrow> (s', Some e))"

definition cw_Write ::
  "(metricDatum list \<Rightarrow> 's \<Rightarrow> 's \<times> string option) \<Rightarrow> bool \<Rightarrow> metric list \<Rightarrow> 's \<Rightarrow> ('s \<times> string option) result" where
  "cw_Write put writeStatistics ms s =
     res_bind (PartitionDatums 20 (concat (List.map (\<lambda>m. BuildMetricDatum writeStatistics m (Fields m)) ms)))
       (\<lambda>ps. Inr (write_partitions put ps s))"

subsection \<open>The partitions\<close>

lemma chunk_eq: "take (min (n * (i + 1)) (length xs) - n * i) (drop (n * i) xs) = take n (drop (n * i) xs)"
  by (simp add: min_def)

fun chunks :: "nat \<Rightarrow> 'a list \<Rightarrow> 'a list list" where
  "chunks n xs = (if n = 0 \<or> xs = [] then [] else take n xs # chunks n (drop n xs))"

declare chunks.simps [simp del]

lemma chunk_count: "0 < n \<Longrightarrow> xs \<noteq> [] \<Longrightarrow> length xs div n + (if length xs mod n \<noteq> 0 then 1 else 0)
   = Suc (length (drop n xs) div n + (if length (drop n xs) mod n \<noteq> 0 then 1 else 0))"
  by (cases "n \<le> length xs") (auto simp: le_div_geq le_mod_geq)

lemma PartitionDatums_chunks:
  assumes "0 < n"
  shows "PartitionDatums n xs = Inr (chunks n xs)"
proof -
  have "List.map (\<lambda>i. take n (drop (n * i) xs)) [0..<length xs div n + (if length xs mod n \<noteq> 0 then 1 else 0)] = chunks n xs"
    using assms
  proof (induction n xs rule: chunks.induct)
    case (1 n xs)
    show ?case
    proof (cases "xs = []")
      case False
      let ?c = "\<lambda>xs. length xs div n + (if length xs mod n \<noteq> 0 then 1 else 0)"
      have "List.map (\<lambda>i. take n (drop (n * i) xs)) [0..<Suc (?c (drop n xs))]
          = take n xs # List.map (\<lambda>i. take n (drop (n * i) (drop n xs))) [0..<?c (drop n xs)]"
        by (simp add: upt_rec [of 0] map_Suc_upt [symmetric] comp_def add.commute del: upt_Suc)
      with 1 False chunk_count [of n xs] show ?thesis by (simp add: chunks.simps [of n xs] del: upt_Suc)
    qed (simp add: chunks.simps)
  qed
  then show ?thesis using assms by (simp only: PartitionDatums_def Let_def chunk_eq) simp
qed

lemma concat_chunks: "0 < n \<Longrightarrow> concat (chunks n xs) = xs"
  by (induction n xs rule: chunks.induct) (auto simp: chunks.simps)

lemma chunks_size: "p \<in> set (chunks n xs) \<Longrightarrow> p \<noteq> [] \<and> length p \<le> n"
proof (induction n xs rule: chunks.induct)
  case (1 n xs)
  then show ?case by (auto simp: chunks.simps [of n xs] split: if_splits)
qed


subsection \<open>The datums of a metric\<close>

definition conv_at :: "(string, gval) gomap \<Rightarrow> string \<Rightarrow> f64 option" where
  "conv_at kvs k = Option.bind (map_of kvs k) cw_convert"

fun stat_suffix :: "statisticType \<Rightarrow> string" where
  "stat_suffix StatMax = ''_max''"
| "stat_suffix StatMin = ''_min''"
| "stat_suffix StatSum = ''_sum''"
| "stat_suffix StatCount = ''_count''"
| "stat_suffix StatNone = ''''"

lemma has_suffix_iff: "has_suffix s p \<longleftrightarrow> (\<exists>b. s = b @ p)"
  by (auto simp: has_suffix_def) (metis append_take_drop_id)

lemma getStatisticType_parts: "getStatisticType k = (s, b) \<Longrightarrow> k = b @ stat_suffix s"
  by (auto simp: getStatisticType_def has_suffix_iff split: if_splits)

lemma has_suffix_last: "has_suffix (b @ s) p \<Longrightarrow> s \<noteq> [] \<Longrightarrow> p \<noteq> [] \<Longrightarrow> last s = last p"
  by (auto simp: has_suffix_iff) (metis last_appendR)

lemma getStatisticType_suffix: "s \<noteq> StatNone \<Longrightarrow> getStatisticType (b @ stat_suffix s) = (s, b)"
  by (cases s) (auto simp: getStatisticType_def has_suffix_iff dest!: arg_cong [where f = last])

definition stat_field :: "string \<Rightarrow> bool" where
  "stat_field k \<longleftrightarrow> fst (getStatisticType k) \<noteq> StatNone"

lemma stat_field_iff: "stat_field k \<longleftrightarrow> (\<exists>b s. s \<noteq> StatNone \<and> k = b @ stat_suffix s)"
  using getStatisticType_parts [of k] getStatisticType_suffix
  by (auto simp: stat_field_def) (metis prod.collapse)

definition complete :: "(string, gval) gomap \<Rightarrow> string \<Rightarrow> bool" where
  "complete kvs b \<longleftrightarrow> (\<forall>s. s \<noteq> StatNone \<longrightarrow> conv_at kvs (b @ stat_suffix s) \<noteq> None)"

definition value_datum :: "metric \<Rightarrow> string \<Rightarrow> f64 \<Rightarrow> metricDatum" where
  "value_datum m k v =
     \<lparr>md_MetricName = m_name m @ ''_'' @ k, md_Value = Some v, md_Dimensions = BuildDimensions (Tags m),
      md_Timestamp = m_tm m, md_StatisticValues = None\<rparr>"

definition stat_datum :: "metric \<Rightarrow> (string, gval) gomap \<Rightarrow> string \<Rightarrow> metricDatum" where
  "stat_datum m kvs b =
     (let v = (\<lambda>s. the (conv_at kvs (b @ stat_suffix s)))
      in \<lparr>md_MetricName = m_name m @ ''_'' @ b, md_Value = None, md_Dimensions = BuildDimensions (Tags m),
          md_Timestamp = m_tm m, md_StatisticValues = Some (v StatMin, v StatMax, v StatSum, v StatCount)\<rparr>)"

text \<open>No field is named like the common part of statistic fields.\<close>

definition no_clash :: "(string, gval) gomap \<Rightarrow> bool" where
  "no_clash kvs \<longleftrightarrow> (\<forall>k s. conv_at kvs k \<noteq> None \<longrightarrow> \<not> stat_field k \<longrightarrow> s \<noteq> StatNone \<longrightarrow> conv_at kvs (k @ stat_suffix s) = None)"

lemma no_clashD:
  "no_clash kvs \<Longrightarrow> conv_at kvs k = Some v \<Longrightarrow> \<not> stat_field k \<Longrightarrow> s \<noteq> StatNone \<Longrightarrow> conv_at kvs (k @ stat_suffix s) = None"
  by (auto simp: no_clash_def)

definition vals_ok :: "(string, gval) gomap \<Rightarrow> string \<Rightarrow> (statisticType, f64) gomap \<Rightarrow> bool" where
  "vals_ok kvs b vals \<longleftrightarrow> gomap_ok vals \<and> vals \<noteq> [] \<and> StatNone \<notin> set (keys_of vals)
     \<and> (\<forall>s. s \<noteq> StatNone \<longrightarrow> map_of vals s = conv_at kvs (b @ stat_suffix s))"

text \<open>The key in the map of fields that a field goes to, and what may be there.\<close>

definition home :: "string \<Rightarrow> string" where
  "home k = (if stat_field k then snd (getStatisticType k) else k)"

lemma home_suffix [simp]: "s \<noteq> StatNone \<Longrightarrow> home (b @ stat_suffix s) = b \<and> stat_field (b @ stat_suffix s)"
  using getStatisticType_suffix [of s b] by (simp add: home_def stat_field_def)

lemma home_parts: "stat_field k \<Longrightarrow> \<exists>s. s \<noteq> StatNone \<and> k = home k @ stat_suffix s"
  using getStatisticType_parts [of k] by (auto simp: home_def stat_field_def)

definition entry_ok :: "metric \<Rightarrow> (string, gval) gomap \<Rightarrow> string \<Rightarrow> cloudwatchField \<Rightarrow> bool" where
  "entry_ok m kvs k f \<longleftrightarrow> (\<exists>v. f = ValueF (value_field m k v) \<and> conv_at kvs k = Some v \<and> \<not> stat_field k)
     \<or> (\<exists>vals. f = StatisticF (statistic_field m k vals) \<and> vals_ok kvs k vals)"

definition fields_inv :: "metric \<Rightarrow> (string, gval) gomap \<Rightarrow> (string, cloudwatchField) gomap \<Rightarrow> bool" where
  "fields_inv m kvs fs \<longleftrightarrow> gomap_ok fs \<and> (\<forall>k f. map_of fs k = Some f \<longrightarrow> entry_ok m kvs k f)
     \<and> (\<forall>k v. conv_at kvs k = Some v \<longrightarrow> map_of fs (home k) \<noteq> None)"

lemma fields_inv_put:
  assumes "fields_inv m kvs fs" "entry_ok m kvs' b f"
    "\<And>b' f'. b' \<noteq> b \<Longrightarrow> entry_ok m kvs b' f' \<Longrightarrow> entry_ok m kvs' b' f'"
    "\<And>k v. conv_at kvs' k = Some v \<Longrightarrow> conv_at kvs k = Some v \<or> home k = b"
  shows "fields_inv m kvs' (AList.update b f fs)"
  unfolding fields_inv_def
proof (intro conjI allI impI)
  show "gomap_ok (AList.update b f fs)" using assms(1) by (simp add: fields_inv_def gomap_ok_update)
  show "entry_ok m kvs' k g" if "map_of (AList.update b f fs) k = Some g" for k g
    using that assms(1-3) unfolding fields_inv_def map_of_update by (auto split: if_splits)
  show "map_of (AList.update b f fs) (home k) \<noteq> None" if "conv_at kvs' k = Some v" for k v
    using assms(4) [OF that] assms(1) unfolding fields_inv_def map_of_update by auto
qed

lemma conv_at_snoc: "k \<notin> set (keys_of kvs) \<Longrightarrow> conv_at (kvs @ [(k, v)]) x = (if x = k then cw_convert v else conv_at kvs x)"
  using map_of_eq_None_iff [of kvs k] by (auto simp: conv_at_def map_add_def split: option.split)

lemma conv_at_fresh: "k \<notin> set (keys_of kvs) \<Longrightarrow> conv_at kvs k = None"
  using map_of_eq_None_iff [of kvs k] unfolding conv_at_def by force

lemma entry_ok_snoc:
  assumes "entry_ok m kvs b f" "k \<notin> set (keys_of kvs)" "b \<noteq> home k"
  shows "entry_ok m (kvs @ [(k, v)]) b f"
proof -
  have "b @ stat_suffix s \<noteq> k" if "s \<noteq> StatNone" for s using that assms(3) by auto
  moreover have "b \<noteq> k" if "\<not> stat_field b" using that assms(3) by (auto simp: home_def)
  ultimately show ?thesis
    using assms(1) by (auto simp: entry_ok_def vals_ok_def conv_at_snoc [OF assms(2)])
qed

lemma fields_inv_step:
  assumes "fields_inv m kvs fs" "k \<notin> set (keys_of kvs)" "no_clash (kvs @ [(k, v)])"
  shows "fields_inv m (kvs @ [(k, v)]) (build_field True m (k, v) fs)"
proof (cases "cw_convert v")
  case None
  then have "conv_at (kvs @ [(k, v)]) = conv_at kvs"
    using conv_at_snoc [OF assms(2)] conv_at_fresh [OF assms(2)] by (auto simp: fun_eq_iff)
  then have "fields_inv m (kvs @ [(k, v)]) = fields_inv m kvs"
    unfolding fields_inv_def entry_ok_def vals_ok_def by (simp only:)
  with None assms(1) show ?thesis by (simp add: build_field_def)
next
  case (Some x)
  note conv = this
  note at = conv_at_snoc [OF assms(2), of v] conv_at_fresh [OF assms(2)]
  have put: "fields_inv m (kvs @ [(k, v)]) (AList.update (home k) f fs)" if "entry_ok m (kvs @ [(k, v)]) (home k) f" for f
    by (rule fields_inv_put [OF assms(1) that]) (use entry_ok_snoc assms(2) in \<open>auto simp: at split: if_splits\<close>)
  show ?thesis
  proof (cases "stat_field k")
    case False
    obtain s b where g: "getStatisticType k = (s, b)" by force
    with False have "s = StatNone" by (simp add: stat_field_def)
    have hk: "home k = k" using False by (simp add: home_def)
    with conv g \<open>s = StatNone\<close> have "build_field True m (k, v) fs = AList.update (home k) (ValueF (value_field m k x)) fs"
      by (simp add: build_field_def)
    moreover have "entry_ok m (kvs @ [(k, v)]) (home k) (ValueF (value_field m k x))"
      unfolding hk entry_ok_def using False conv by (simp add: at)
    ultimately show ?thesis using put by (simp only:)
  next
    case True
    define b where "b = home k"
    obtain s where s: "s \<noteq> StatNone" "k = b @ stat_suffix s" using home_parts [OF True] b_def by blast
    have eq: "b @ stat_suffix s' = k \<longleftrightarrow> s' = s" if "s' \<noteq> StatNone" for s'
      using getStatisticType_suffix [OF that, of b] getStatisticType_suffix [OF s(1), of b] s(2) by (metis prod.inject)
    have atk: "conv_at (kvs @ [(k, v)]) (b @ stat_suffix s') = (if s' = s then Some x else conv_at kvs (b @ stat_suffix s'))"
      if "s' \<noteq> StatNone" for s' using at(1) eq [OF that] conv by simp
    have g: "getStatisticType k = (s, b)" unfolding s(2) by (rule getStatisticType_suffix [OF s(1)])
    show ?thesis
    proof (cases "map_of fs b")
      case None
      then have none: "conv_at kvs (b @ stat_suffix s') = None" if "s' \<noteq> StatNone" for s'
        using assms(1) home_suffix [OF that, of b] unfolding fields_inv_def by (metis not_None_eq)
      have "entry_ok m (kvs @ [(k, v)]) b (StatisticF (statistic_field m b [(s, x)]))"
        using s(1) none by (auto simp: entry_ok_def vals_ok_def atk)
      then have "fields_inv m (kvs @ [(k, v)]) (AList.update b (StatisticF (statistic_field m b [(s, x)])) fs)"
        using put unfolding b_def by blast
      with None conv s(1) g show ?thesis by (simp add: build_field_def)
    next
      case (Some f)
      note fs = this
      from assms(1) fs consider (val) w where "conv_at kvs b = Some w" "\<not> stat_field b"
        | (stat) vals where "f = StatisticF (statistic_field m b vals)" "vals_ok kvs b vals"
        unfolding fields_inv_def entry_ok_def by blast
      then show ?thesis
      proof cases
        case val
        then have "b \<noteq> k" using at(2) by auto
        with val(1) have "conv_at (kvs @ [(k, v)]) b = Some w" by (simp add: at(1))
        from no_clashD [OF assms(3) this val(2) s(1)] atk [OF s(1)] show ?thesis by simp
      next
        case stat
        have b': "build_field True m (k, v) fs = AList.update b (StatisticF (statistic_field m b (AList.update s x vals))) fs"
          using fs conv s(1) g by (simp add: build_field_def stat statistic_field_def)
        have "AList.update s x vals \<noteq> []" by (cases vals) auto
        then have "vals_ok (kvs @ [(k, v)]) b (AList.update s x vals)"
          using stat(2) s(1) by (auto simp: vals_ok_def atk map_laws gomap_ok_update update_keys)
        then have "entry_ok m (kvs @ [(k, v)]) b (StatisticF (statistic_field m b (AList.update s x vals)))"
          by (auto simp: entry_ok_def)
        then show ?thesis using put unfolding b' b_def by blast
      qed
    qed
  qed
qed

lemma fields_inv_build:
  assumes "gomap_ok kvs" "no_clash kvs"
  shows "fields_inv m kvs (fold (build_field True m) kvs [])"
  using assms
proof (induction kvs rule: rev_induct)
  case Nil
  show ?case by (simp add: fields_inv_def conv_at_def)
next
  case (snoc kv kvs)
  obtain k v where kv: "kv = (k, v)" by force
  have k: "k \<notin> set (keys_of kvs)" using snoc.prems(1) by (auto simp: kv)
  have "no_clash kvs"
    using snoc.prems(2) conv_at_fresh [OF k] unfolding kv no_clash_def conv_at_snoc [OF k] by (metis option.distinct(1))
  then have "fields_inv m kvs (fold (build_field True m) kvs [])" using snoc by simp
  from fields_inv_step [OF this k snoc.prems(2) [unfolded kv]] show ?case by (simp add: kv)
qed

lemma single_datum_value: "s \<noteq> StatNone \<Longrightarrow> single_datum (statistic_field m b vals) (s, v) = [value_datum m (b @ stat_suffix s) v]"
  by (cases s) (simp_all add: single_datum_def statistic_field_def value_datum_def)

lemma buildDatum_value: "buildDatum (ValueF (value_field m k v)) = [value_datum m k v]"
  by (simp add: value_field_def value_datum_def)

lemma complete_all: "complete kvs b \<longleftrightarrow> list_all (\<lambda>s. conv_at kvs (b @ stat_suffix s) \<noteq> None) [StatMin, StatMax, StatSum, StatCount]"
  using statisticType.exhaust by (auto simp: complete_def) (metis statisticType.exhaust stat_suffix.simps)

lemma buildDatum_statistic:
  assumes "vals_ok kvs b vals"
  shows "buildDatum (StatisticF (statistic_field m b vals)) =
    (if complete kvs b then [stat_datum m kvs b]
     else List.map (\<lambda>(s, v). value_datum m (b @ stat_suffix s) v) vals)"
proof -
  let ?f = "statistic_field m b vals"
  have at: "map_of vals s = conv_at kvs (b @ stat_suffix s)" if "s \<noteq> StatNone" for s
    using assms that by (simp add: vals_ok_def)
  have all: "hasAllFields ?f \<longleftrightarrow> complete kvs b"
    unfolding complete_all by (simp add: hasAllFields_def statistic_field_def at)
  have "stat_value ?f s = the (conv_at kvs (b @ stat_suffix s))" if "complete kvs b" "s \<noteq> StatNone" for s
    using that by (auto simp: stat_value_def statistic_field_def at complete_def split: option.split)
  then have one: "complete kvs b \<Longrightarrow> buildDatum (StatisticF ?f) = [stat_datum m kvs b]"
    by (simp add: all stat_datum_def Let_def) (simp add: statistic_field_def)
  have "concat (List.map (single_datum ?f) vs) = List.map (\<lambda>(s, v). value_datum m (b @ stat_suffix s) v) vs"
    if "StatNone \<notin> set (keys_of vs)" for vs
    using that by (induction vs) (auto simp: single_datum_value)
  moreover have "StatNone \<notin> set (keys_of vals)" using assms by (simp add: vals_ok_def)
  ultimately have "\<not> complete kvs b \<Longrightarrow> buildDatum (StatisticF ?f) = List.map (\<lambda>(s, v). value_datum m (b @ stat_suffix s) v) vals"
    by (simp add: all, simp add: statistic_field_def)
  with one show ?thesis by simp
qed

text \<open>The datums that a metric with these fields should become.\<close>

definition wanted_datums :: "metric \<Rightarrow> (string, gval) gomap \<Rightarrow> metricDatum set" where
  "wanted_datums m kvs =
     {value_datum m k v |k v. conv_at kvs k = Some v \<and> \<not> (stat_field k \<and> complete kvs (snd (getStatisticType k)))}
     \<union> {stat_datum m kvs b |b. complete kvs b}"

declare buildDatum.simps [simp del]

lemma field_datums:
  assumes "fields_inv m kvs fs" "map_of fs b = Some f" "no_clash kvs"
  shows "set (buildDatum f) =
    {value_datum m k v |k v. conv_at kvs k = Some v \<and> home k = b \<and> \<not> (stat_field k \<and> complete kvs b)}
    \<union> {stat_datum m kvs b' |b'. complete kvs b' \<and> b' = b}" (is "_ = ?R")
proof -
  note home = home_parts
  from assms consider (val) v where "f = ValueF (value_field m b v)" "conv_at kvs b = Some v" "\<not> stat_field b"
    | (stat) vals where "f = StatisticF (statistic_field m b vals)" "vals_ok kvs b vals"
    unfolding fields_inv_def entry_ok_def by blast
  then show ?thesis
  proof cases
    case val
    have none: "conv_at kvs (b @ stat_suffix s) = None" if "s \<noteq> StatNone" for s
      using no_clashD [OF assms(3) val(2,3) that] .
    then have nc: "\<not> complete kvs b" using none [of StatMin] unfolding complete_def by blast
    have only: "k = b" if "conv_at kvs k = Some w" "home k = b" for k w
      using home [of k] none that by (cases "stat_field k") (force simp: home_def)+
    have hb: "home b = b" using val(3) by (simp add: home_def)
    have "?R = {value_datum m b v}"
    proof (intro equalityI subsetI)
      fix d
      assume "d \<in> ?R"
      with nc obtain k w where d: "d = value_datum m k w" "conv_at kvs k = Some w" "home k = b" by auto
      with only [OF d(2,3)] val(2) show "d \<in> {value_datum m b v}" by simp
    next
      fix d
      assume "d \<in> {value_datum m b v}"
      with val(2,3) hb show "d \<in> ?R" by auto
    qed
    then show ?thesis by (simp only: val(1) buildDatum_value list.set)
  next
    case stat
    have at: "map_of vals s = conv_at kvs (b @ stat_suffix s)" if "s \<noteq> StatNone" for s
      using stat(2) that by (simp add: vals_ok_def)
    obtain s v vs where first: "vals = (s, v) # vs" using stat(2) by (cases vals) (auto simp: vals_ok_def)
    then have "s \<noteq> StatNone" using stat(2) by (auto simp: vals_ok_def)
    with at [OF this] first have sv: "s \<noteq> StatNone" "conv_at kvs (b @ stat_suffix s) = Some v" by simp_all
    have stats: "\<exists>s. s \<noteq> StatNone \<and> k = b @ stat_suffix s \<and> stat_field k" if "conv_at kvs k = Some w" "home k = b" for k w
      using home [of k] no_clashD [OF assms(3) that(1) _ sv(1)] that sv(2) by (cases "stat_field k") (auto simp: home_def)
    have vals: "(s, w) \<in> set vals \<longleftrightarrow> s \<noteq> StatNone \<and> conv_at kvs (b @ stat_suffix s) = Some w" for s w
      using stat(2) at by (cases "s = StatNone") (force simp: vals_ok_def)+
    show ?thesis
    proof (cases "complete kvs b")
      case True
      then show ?thesis using stats by (auto simp: stat(1) buildDatum_statistic [OF stat(2)])
    next
      case False
      then have "set (buildDatum f) = {value_datum m (b @ stat_suffix s) v |s v. s \<noteq> StatNone \<and> conv_at kvs (b @ stat_suffix s) = Some v}"
        using vals unfolding stat(1) buildDatum_statistic [OF stat(2)] by force
      also have "\<dots> = {value_datum m k v |k v. conv_at kvs k = Some v \<and> home k = b}"
      proof (intro set_eqI iffI)
        fix d
        assume "d \<in> {value_datum m (b @ stat_suffix s) v |s v. s \<noteq> StatNone \<and> conv_at kvs (b @ stat_suffix s) = Some v}"
        then obtain s v where "d = value_datum m (b @ stat_suffix s) v" "s \<noteq> StatNone" "conv_at kvs (b @ stat_suffix s) = Some v" by blast
        with home_suffix [of s b] show "d \<in> {value_datum m k v |k v. conv_at kvs k = Some v \<and> home k = b}" by blast
      next
        fix d
        assume "d \<in> {value_datum m k v |k v. conv_at kvs k = Some v \<and> home k = b}"
        then obtain k v where d: "d = value_datum m k v" "conv_at kvs k = Some v" "home k = b" by blast
        from stats [OF d(2,3)] d
        show "d \<in> {value_datum m (b @ stat_suffix s) v |s v. s \<noteq> StatNone \<and> conv_at kvs (b @ stat_suffix s) = Some v}" by blast
      qed
      also have "\<dots> = ?R" using False by simp
      finally show ?thesis .
    qed
  qed
qed


lemma buildDatum_ok:
  assumes "fields_inv m kvs fs" "map_of fs b = Some f" "no_clash kvs"
  shows "buildDatum f \<noteq> [] \<and> distinct (buildDatum f)"
proof -
  from assms consider (val) v where "f = ValueF (value_field m b v)"
    | (stat) vals where "f = StatisticF (statistic_field m b vals)" "vals_ok kvs b vals"
    unfolding fields_inv_def entry_ok_def by blast
  then show ?thesis
  proof cases
    case stat
    then have "gomap_ok vals" "vals \<noteq> []" "StatNone \<notin> set (keys_of vals)" by (auto simp: vals_ok_def)
    moreover have "inj_on (\<lambda>(s, v). value_datum m (b @ stat_suffix s) v) (set vals)"
    proof (rule inj_onI, clarify)
      fix s v s' v'
      assume in_vals: "(s, v) \<in> set vals" "(s', v') \<in> set vals"
        and eq: "value_datum m (b @ stat_suffix s) v = value_datum m (b @ stat_suffix s') v'"
      from in_vals \<open>StatNone \<notin> set (keys_of vals)\<close> have "s \<noteq> StatNone" "s' \<noteq> StatNone" by force+
      moreover from eq have "b @ stat_suffix s = b @ stat_suffix s'" "v = v'" by (simp_all add: value_datum_def)
      ultimately show "s = s' \<and> v = v'" by (metis getStatisticType_suffix prod.inject)
    qed
    moreover have "distinct vals" using \<open>gomap_ok vals\<close> by (simp add: distinct_map)
    ultimately show ?thesis
      by (simp add: stat(1) buildDatum_statistic [OF stat(2)] distinct_map del: buildDatum.simps)
  qed (simp add: buildDatum_value)
qed

lemma value_datum_inj [simp]: "value_datum m k v = value_datum m k' v' \<longleftrightarrow> k = k' \<and> v = v'"
  by (auto simp: value_datum_def)

lemma stat_datum_differs [simp]: "value_datum m k v \<noteq> stat_datum m kvs b" "stat_datum m kvs b \<noteq> value_datum m k v"
  by (simp_all add: value_datum_def stat_datum_def Let_def)

lemma stat_datum_inj [simp]: "stat_datum m kvs b = stat_datum m kvs b' \<longleftrightarrow> b = b'"
  by (auto simp: stat_datum_def Let_def)

lemma distinct_concat_values:
  assumes "gomap_ok fs" "\<And>k f. (k, f) \<in> set fs \<Longrightarrow> g f \<noteq> [] \<and> distinct (g f)"
    "\<And>k f k' f'. (k, f) \<in> set fs \<Longrightarrow> (k', f') \<in> set fs \<Longrightarrow> k \<noteq> k' \<Longrightarrow> set (g f) \<inter> set (g f') = {}"
  shows "distinct (concat (List.map (\<lambda>(k, f). g f) fs))"
  using assms
proof (induction fs)
  case (Cons x fs)
  obtain k f where x: "x = (k, f)" by force
  have "set (g f) \<inter> set (g f') = {}" if "(k', f') \<in> set fs" for k' f'
  proof -
    have "k \<noteq> k'" using Cons.prems(1) that by (force simp: x)
    with Cons.prems(3) [of k f k' f'] that show ?thesis by (simp add: x)
  qed
  moreover have "distinct (concat (List.map (\<lambda>(k, f). g f) fs))"
  proof (rule Cons.IH)
    show "gomap_ok fs" using Cons.prems(1) by (simp add: x)
    show "g f \<noteq> [] \<and> distinct (g f)" if "(k, f) \<in> set fs" for k f
      using Cons.prems(2) [of k f] that by simp
    show "set (g f) \<inter> set (g f') = {}" if "(k, f) \<in> set fs" "(k', f') \<in> set fs" "k \<noteq> k'" for k f k' f'
      using Cons.prems(3) [of k f k' f'] that by simp
  qed
  moreover have "distinct (g f)" using Cons.prems(2) by (auto simp: x)
  ultimately show ?case by (auto simp: x)
qed simp

text \<open>
  C35. With statistics on, a metric whose fields do not clash becomes, whatever the order in which its
  fields are visited, exactly these datums, each once: one statistic set for every name with
  minimum, maximum, sum and count, made of those four numbers; and one value for every other
  field with a number in the range of the service.
\<close>

theorem cloudwatch_datums:
  assumes "gomap_ok kvs" "no_clash kvs"
  shows "set (BuildMetricDatum True m kvs) = wanted_datums m kvs \<and> distinct (BuildMetricDatum True m kvs)"
proof
  let ?fs = "fold (build_field True m) kvs []"
  have inv: "fields_inv m kvs ?fs" by (rule fields_inv_build [OF assms])
  then have look: "(b, f) \<in> set ?fs \<longleftrightarrow> map_of ?fs b = Some f" for b f by (simp add: fields_inv_def)
  have home: "b = home k \<Longrightarrow> conv_at kvs k = Some v \<Longrightarrow> \<exists>f. (b, f) \<in> set ?fs" for b k v
    using inv unfolding look fields_inv_def by blast
  have complete_in: "\<exists>f. (b, f) \<in> set ?fs" if "complete kvs b" for b
    using that home [of b "b @ stat_suffix StatMin"] home_suffix [of StatMin b] unfolding complete_def
    by (metis not_None_eq statisticType.distinct(3))
  have datums: "set (BuildMetricDatum True m kvs) = (\<Union>(b, f) \<in> set ?fs. set (buildDatum f))"
    by (auto simp: BuildMetricDatum_def)
  note each = field_datums [OF inv _ assms(2)]
  show "set (BuildMetricDatum True m kvs) = wanted_datums m kvs"
    unfolding datums wanted_datums_def
  proof (intro equalityI subsetI)
    fix d
    assume "d \<in> (\<Union>(b, f) \<in> set ?fs. set (buildDatum f))"
    then obtain b f where "map_of ?fs b = Some f" "d \<in> set (buildDatum f)" by (auto simp: look)
    with each show "d \<in> {value_datum m k v |k v. conv_at kvs k = Some v \<and> \<not> (stat_field k \<and> complete kvs (snd (getStatisticType k)))}
       \<union> {stat_datum m kvs b |b. complete kvs b}"
      by (auto simp: home_def)
  next
    fix d
    assume "d \<in> {value_datum m k v |k v. conv_at kvs k = Some v \<and> \<not> (stat_field k \<and> complete kvs (snd (getStatisticType k)))}
       \<union> {stat_datum m kvs b |b. complete kvs b}"
    then consider (val) k v where "d = value_datum m k v" "conv_at kvs k = Some v" "\<not> (stat_field k \<and> complete kvs (home k))"
      | (stat) b where "d = stat_datum m kvs b" "complete kvs b" by (auto simp: home_def)
    then show "d \<in> (\<Union>(b, f) \<in> set ?fs. set (buildDatum f))"
    proof cases
      case val
      with home obtain f where f: "(home k, f) \<in> set ?fs" by blast
      then have "d \<in> set (buildDatum f)" using val by (simp add: look each)
      with f show ?thesis by blast
    next
      case stat
      then obtain f where f: "(b, f) \<in> set ?fs" using complete_in by blast
      then have "d \<in> set (buildDatum f)" using stat by (simp add: look each)
      with f show ?thesis by blast
    qed
  qed
  show "distinct (BuildMetricDatum True m kvs)"
    unfolding BuildMetricDatum_def
  proof (rule distinct_concat_values)
    show "gomap_ok ?fs" using inv by (simp add: fields_inv_def)
    show "buildDatum f \<noteq> [] \<and> distinct (buildDatum f)" if "(k, f) \<in> set ?fs" for k f
      using buildDatum_ok [OF inv _ assms(2)] that by (simp add: look)
    show "set (buildDatum f) \<inter> set (buildDatum f') = {}" if "(k, f) \<in> set ?fs" "(k', f') \<in> set ?fs" "k \<noteq> k'" for k f k' f'
      using that by (auto simp: look each)
  qed
qed


text \<open>The witness: a complete set, an incomplete one, and a plain field.\<close>

definition cw_fields :: "(string, gval) gomap" where
  "cw_fields = [(''a_min'', GInt64 1), (''x'', GFloat64 f_zero), (''b_sum'', GInt64 7), (''a_count'', GInt64 3),
     (''a_max'', GInt64 5), (''s'', GString ''no''), (''a_sum'', GInt64 9)]"

definition cw_metric :: metric where
  "cw_metric = New ''cpu'' [(''host'', ''h'')] cw_fields 0 None"

lemma conv_at_keys: "conv_at kvs k \<noteq> None \<Longrightarrow> k \<in> set (keys_of kvs)"
  using conv_at_fresh by metis

lemma cw_fields_no_clash: "no_clash cw_fields"
proof -
  have "stat_field k" if "k \<in> {''a_min'', ''b_sum'', ''a_count'', ''a_max'', ''a_sum''}" for k
    using that by (elim insertE emptyE) (simp_all, code_simp+)
  moreover have "keys_of cw_fields = [''a_min'', ''x'', ''b_sum'', ''a_count'', ''a_max'', ''s'', ''a_sum'']" by code_simp
  ultimately have "k = ''x'' \<or> k = ''s''" if "conv_at cw_fields k \<noteq> None" "\<not> stat_field k" for k
    using conv_at_keys [OF that(1)] that(2) by auto
  moreover have "conv_at cw_fields (''x'' @ stat_suffix s) = None" "conv_at cw_fields (''s'' @ stat_suffix s) = None"
    if "s \<noteq> StatNone" for s
    using that by (cases s; simp add: conv_at_def cw_fields_def)+
  ultimately show ?thesis unfolding no_clash_def by blast
qed

theorem cloudwatch_datums_witness:
  "set (BuildMetricDatum True cw_metric cw_fields) = wanted_datums cw_metric cw_fields
   \<and> distinct (BuildMetricDatum True cw_metric cw_fields)"
  by (rule cloudwatch_datums) (simp add: cw_fields_def, rule cw_fields_no_clash)

lemma cloudwatch_demo:
  "List.map (\<lambda>d. (md_MetricName d, md_Value d, md_StatisticValues d)) (BuildMetricDatum True cw_metric cw_fields) =
     [(''cpu_a'', None, Some (f64_of_int 1, f64_of_int 5, f64_of_int 9, f64_of_int 3)),
      (''cpu_x'', Some f_zero, None), (''cpu_b_sum'', Some (f64_of_int 7), None)]"
  by code_simp

subsection \<open>Dimensions and calls\<close>

lemma fill_dimensions_map:
  "fill_dimensions tags i ks = List.map (\<lambda>k. (k, case map_of tags k of Some v \<Rightarrow> v | None \<Rightarrow> [])) (take (10 - i) ks)"
proof (induction ks arbitrary: i)
  case (Cons k ks)
  show ?case
  proof (cases "10 \<le> i")
    case False
    then have "10 - i = Suc (10 - Suc i)" by simp
    with False Cons show ?thesis by simp
  qed simp
qed simp

lemma length_others:
  "distinct ks \<Longrightarrow> length (List.filter (\<lambda>k. k \<noteq> x) ks) = length ks - (if x \<in> set ks then 1 else 0)"
proof (induction ks)
  case (Cons k ks)
  then show ?case by (cases ks) auto
qed simp

text \<open>
  C36. The dimensions of a metric with any tags are at most ten and, with fewer tags, all of them;
  each is a tag with its value, no key is given twice, and the host is always the first.
\<close>

theorem cloudwatch_dimensions:
  assumes "gomap_ok tags"
  shows "length (BuildDimensions tags) = min 10 (length tags) \<and> distinct (keys_of (BuildDimensions tags))
    \<and> set (BuildDimensions tags) \<subseteq> set tags
    \<and> (\<forall>h. map_of tags ''host'' = Some h \<longrightarrow> BuildDimensions tags \<noteq> [] \<and> hd (BuildDimensions tags) = (''host'', h))"
proof -
  let ?others = "sort (List.filter (\<lambda>k. k \<noteq> ''host'') (keys_of tags))"
  let ?tag = "\<lambda>k. (k, case map_of tags k of Some v \<Rightarrow> v | None \<Rightarrow> [])"
  have tag: "?tag k \<in> set tags" if "k \<in> set (keys_of tags)" for k
    using that assms by (auto simp: map_of_is_SomeI)
  have "distinct ?others" using assms by simp
  then have d: "distinct (take n ?others)" for n by (rule distinct_take)
  have in_keys: "k \<in> set (keys_of tags) \<and> k \<noteq> ''host''" if "k \<in> set (take n ?others)" for k n
    using set_take_subset [of n ?others] that by auto
  have len: "length ?others = length tags - (if ''host'' \<in> set (keys_of tags) then 1 else 0)"
    using length_others [OF assms, of "''host''"] by simp
  have keys: "keys_of (List.map ?tag ks) = ks" for ks by (simp add: comp_def)
  have tags: "set (List.map ?tag (take n ?others)) \<subseteq> set tags" for n
    using tag in_keys by (metis (no_types, lifting) image_subsetI list.set_map)
  show ?thesis
  proof (cases "map_of tags ''host''")
    case None
    then have no: "''host'' \<notin> set (keys_of tags)" by (simp add: map_of_eq_None_iff)
    have B: "BuildDimensions tags = List.map ?tag (take 10 ?others)"
      using None by (simp add: BuildDimensions_def fill_dimensions_map Let_def)
    have "length (BuildDimensions tags) = min 10 (length tags)"
      using len no unfolding B by (simp only: length_map length_take if_False)
    with None tags [of 10] d [of 10] show ?thesis unfolding B keys by simp
  next
    case (Some h)
    then have h: "(''host'', h) \<in> set tags" and yes: "''host'' \<in> set (keys_of tags)" by (force dest: map_of_SomeD)+
    have B: "BuildDimensions tags = (''host'', h) # List.map ?tag (take 9 ?others)"
      using Some by (simp add: BuildDimensions_def fill_dimensions_map Let_def)
    have "0 < length tags" using h by (cases tags) auto
    then have "length (BuildDimensions tags) = min 10 (length tags)"
      using len yes unfolding B by (simp only: length_map length_take if_True list.size)
    moreover have "keys_of (BuildDimensions tags) = ''host'' # take 9 ?others" unfolding B using keys by simp
    moreover have "''host'' \<notin> set (take 9 ?others)" using in_keys by blast
    ultimately show ?thesis using Some tags [of 9] d [of 9] h unfolding B by simp
  qed
qed

theorem cloudwatch_dimensions_witness:
  "length (BuildDimensions [(''z'', ''1''), (''host'', ''h''), (''a'', ''2'')]) = 3
   \<and> hd (BuildDimensions [(''z'', ''1''), (''host'', ''h''), (''a'', ''2'')]) = (''host'', ''h'')"
  using cloudwatch_dimensions [of "[(''z'', ''1''), (''host'', ''h''), (''a'', ''2'')]"] by simp

text \<open>A service that records its calls and fails from some call on.\<close>

lemma write_partitions_prefix:
  assumes "\<And>(p :: 'a list) ps. put p (ps, n) = (if n = length ps then ((ps, n), Some e) else ((ps @ [p], n), None))" "length ps0 \<le> n"
  shows "write_partitions put ps (ps0, n) =
    ((ps0 @ take (n - length ps0) ps, n), if n < length ps0 + length ps then Some e else None)"
  using assms(2)
proof (induction ps arbitrary: ps0)
  case (Cons p ps)
  show ?case
  proof (cases "n = length ps0")
    case False
    then have "n - length ps0 = Suc (n - length (ps0 @ [p]))" "length (ps0 @ [p]) \<le> n" using Cons.prems by auto
    with Cons.IH [of "ps0 @ [p]"] False show ?thesis by (simp add: assms(1))
  next
    case True
    have "put p (ps0, length ps0) = ((ps0, length ps0), Some e)" using assms(1) [of p ps0] True by simp
    then show ?thesis using True by simp
  qed
qed simp

text \<open>
  A write calls the service with the datums of all metrics in order, in calls of one to twenty
  datums, and stops at the first call that fails: against a service that accepts the first \<open>n\<close> calls, those
  calls have been made and no others, and the error is returned exactly when a call was left.
\<close>

theorem cloudwatch_calls:
  fixes put :: "metricDatum list \<Rightarrow> metricDatum list list \<times> nat \<Rightarrow> (metricDatum list list \<times> nat) \<times> string option"
  assumes "\<And>p ps. put p (ps, n) = (if n = length ps then ((ps, n), Some e) else ((ps @ [p], n), None))"
  shows "\<exists>calls. concat calls = concat (List.map (\<lambda>m. BuildMetricDatum on m (Fields m)) ms)
    \<and> (\<forall>c \<in> set calls. 1 \<le> length c \<and> length c \<le> 20)
    \<and> cw_Write put on ms ([], n) = Inr ((take n calls, n), if n < length calls then Some e else None)"
proof -
  let ?ds = "concat (List.map (\<lambda>m. BuildMetricDatum on m (Fields m)) ms)"
  have "cw_Write put on ms ([], n) = Inr (write_partitions put (chunks 20 ?ds) ([], n))"
    by (simp add: cw_Write_def PartitionDatums_chunks)
  moreover have "\<forall>c \<in> set (chunks 20 ?ds). 1 \<le> length c \<and> length c \<le> 20"
    using chunks_size [of _ 20 ?ds] by (auto simp: Suc_le_eq)
  ultimately show ?thesis
    using concat_chunks [of 20 ?ds] write_partitions_prefix [OF assms, of "[]" "chunks 20 ?ds"]
    by (intro exI [of _ "chunks 20 ?ds"]) simp
qed

theorem cloudwatch_calls_witness:
  "\<exists>calls. concat calls = concat (List.map (\<lambda>m. BuildMetricDatum True m (Fields m)) [cw_metric])
    \<and> (\<forall>c \<in> set calls. 1 \<le> length c \<and> length c \<le> 20)
    \<and> cw_Write (\<lambda>p (ps, n). if n = length ps then ((ps, n), Some ''throttled'') else ((ps @ [p], n), None)) True [cw_metric] ([], 0)
      = Inr ((take 0 calls, 0), if 0 < length calls then Some ''throttled'' else None)"
  by (rule cloudwatch_calls) simp

text \<open>
  A field that is named like the common part of statistic fields takes their place, or they take
  its values for its own, depending on the order in which the map is visited: either way data is lost.
\<close>

lemma cloudwatch_clash_loses:
  "List.map (\<lambda>d. (md_MetricName d, md_Value d)) (BuildMetricDatum True cw_metric
     [(''a'', GInt64 1), (''a_min'', GInt64 2)]) = [(''cpu_a'', Some (f64_of_int 1))]
   \<and> List.map (\<lambda>d. (md_MetricName d, md_Value d)) (BuildMetricDatum True cw_metric
     [(''a_min'', GInt64 2), (''a'', GInt64 1), (''a_max'', GInt64 3)]) = [(''cpu_a'', Some (f64_of_int 1))]"
  by code_simp

text \<open>The range check has no lower side: -1e300 passes, 1e300 does not.\<close>

lemma cloudwatch_negative_unbounded:
  "cw_convert (GFloat64 (F64 18318360957983683996)) = Some (F64 18318360957983683996)
   \<and> cw_convert (GFloat64 (f_minus (F64 18318360957983683996))) = None"
  by code_simp

end
