(* ===== verification/Converter.thy ===== *)
theory Converter
  imports NameFilter
begin

section \<open>The converter processor\<close>

text \<open>
  \<open>plugins/processors/converter/converter.go\<close>: tags become fields, fields become tags or change
  their type, by rules given as lists of patterns. A conversion gives \<open>None\<close> where the code returns
  \<open>false\<close>. The results of the implementation-defined conversions of an out-of-range float are the
  parameters \<open>impl\<close> and \<open>uimpl\<close>; debug messages are left out.
\<close>

subsection \<open>Conversions of one value\<close>

text \<open>
  \<open>value != 0\<close> stands in a case of several types, where \<open>value\<close> still is the interface: it is
  compared with the \<open>int\<close> zero and differs from it, having another dynamic type.
\<close>

fun toBool :: "gval \<Rightarrow> bool option" where
  "toBool (GInt64 v) = Some True"
| "toBool (GUint64 v) = Some True"
| "toBool (GFloat64 v) = Some True"
| "toBool (GBool v) = Some v"
| "toBool (GString v) = parse_bool v"
| "toBool _ = None"

definition MaxInt64 :: i64 where "MaxInt64 = word_of_int (2 ^ 63 - 1)"
definition MinInt64 :: i64 where "MinInt64 = word_of_int (- (2 ^ 63))"
definition MaxUint64 :: u64 where "MaxUint64 = word_of_int (2 ^ 64 - 1)"

fun toInteger :: "(f64 \<Rightarrow> i64) \<Rightarrow> gval \<Rightarrow> i64 option" where
  "toInteger impl (GInt64 v) = Some v"
| "toInteger impl (GUint64 v) = Some (if v \<le> MaxInt64 then v else MaxInt64)"
| "toInteger impl (GFloat64 v) =
     Some (if f_lt v (f64_of_int (- (2 ^ 63))) then MinInt64
           else if f_lt (f64_of_int (2 ^ 63 - 1)) v then MaxInt64
           else f64_to_i64 impl v)"
| "toInteger impl (GBool v) = Some (if v then 1 else 0)"
| "toInteger impl (GString v) = parse_int v"
| "toInteger impl _ = None"

fun toUnsigned :: "(f64 \<Rightarrow> u64) \<Rightarrow> gval \<Rightarrow> u64 option" where
  "toUnsigned uimpl (GUint64 v) = Some v"
| "toUnsigned uimpl (GInt64 v) = Some (if sint v < 0 then 0 else v)"
| "toUnsigned uimpl (GFloat64 v) =
     Some (if f_lt v f_zero then 0
           else if f_lt (f64_of_int (2 ^ 64 - 1)) v then MaxUint64
           else f64_to_u64 uimpl v)"
| "toUnsigned uimpl (GBool v) = Some (if v then 1 else 0)"
| "toUnsigned uimpl (GString v) = parse_uint v"
| "toUnsigned uimpl _ = None"

fun toFloat :: "gval \<Rightarrow> f64 option" where
  "toFloat (GInt64 v) = Some (f64_of_int (sint v))"
| "toFloat (GUint64 v) = Some (f64_of_int (uint v))"
| "toFloat (GFloat64 v) = Some v"
| "toFloat (GBool v) = Some (f64_of_int (if v then 1 else 0))"
| "toFloat (GString v) = parse_float v"
| "toFloat _ = None"

fun toString :: "gval \<Rightarrow> string option" where
  "toString (GInt64 v) = Some (itoa (sint v))"
| "toString (GUint64 v) = Some (itoa (uint v))"
| "toString (GFloat64 v) = Some (format_float v)"
| "toString (GBool v) = Some (format_bool v)"
| "toString (GString v) = Some v"
| "toString _ = None"

subsection \<open>Configuration and state\<close>

record conversion =
  cv_Tag :: "string list"
  cv_String :: "string list"
  cv_Integer :: "string list"
  cv_Unsigned :: "string list"
  cv_Boolean :: "string list"
  cv_Float :: "string list"

record conversion_filter =
  cf_Tag :: "sfilter option"
  cf_String :: "sfilter option"
  cf_Integer :: "sfilter option"
  cf_Unsigned :: "sfilter option"
  cf_Boolean :: "sfilter option"
  cf_Float :: "sfilter option"

record converter =
  co_Tags :: "conversion option"
  co_Fields :: "conversion option"
  co_initialized :: bool
  co_tagConversions :: "conversion_filter option"
  co_fieldConversions :: "conversion_filter option"



subsection \<open>Converting a metric\<close>

definition hits :: "sfilter option \<Rightarrow> string \<Rightarrow> bool" where
  "hits f key = (case f of None \<Rightarrow> False | Some g \<Rightarrow> Match g key)"

definition tag_to_field :: "string \<Rightarrow> gval option \<Rightarrow> metric \<Rightarrow> metric" where
  "tag_to_field key v m =
     (case v of None \<Rightarrow> RemoveTag key m | Some x \<Rightarrow> AddField key x (RemoveTag key m))"

text \<open>
  One tag. The integer rule does not end the round when it succeeds: the later rules are tried too.
\<close>

definition convert_tag :: "(f64 \<Rightarrow> i64) \<Rightarrow> (f64 \<Rightarrow> u64) \<Rightarrow> conversion_filter \<Rightarrow> string \<Rightarrow> string \<Rightarrow> metric \<Rightarrow> metric" where
  "convert_tag impl uimpl cf key value m =
     (if hits (cf_String cf) key then tag_to_field key (Some (GString value)) m
      else if hits (cf_Integer cf) key \<and> toInteger impl (GString value) = None then RemoveTag key m
      else
        let m1 = (if hits (cf_Integer cf) key
                  then tag_to_field key (map_option GInt64 (toInteger impl (GString value))) m else m)
        in if hits (cf_Unsigned cf) key then tag_to_field key (map_option GUint64 (toUnsigned uimpl (GString value))) m1
           else if hits (cf_Boolean cf) key then tag_to_field key (map_option GBool (toBool (GString value))) m1
           else if hits (cf_Float cf) key then tag_to_field key (map_option GFloat64 (toFloat (GString value))) m1
           else m1)"

definition convertTags :: "(f64 \<Rightarrow> i64) \<Rightarrow> (f64 \<Rightarrow> u64) \<Rightarrow> converter \<Rightarrow> metric \<Rightarrow> metric" where
  "convertTags impl uimpl p m =
     (case co_tagConversions p of None \<Rightarrow> m
      | Some cf \<Rightarrow> fold (\<lambda>(key, value). convert_tag impl uimpl cf key value) (Tags m) m)"

definition field_to_tag :: "string \<Rightarrow> string option \<Rightarrow> metric \<Rightarrow> metric" where
  "field_to_tag key v m =
     (case v of None \<Rightarrow> RemoveField key m | Some x \<Rightarrow> AddTag key x (RemoveField key m))"

definition replace_field :: "string \<Rightarrow> gval option \<Rightarrow> metric \<Rightarrow> metric" where
  "replace_field key v m =
     (case v of None \<Rightarrow> RemoveField key m | Some x \<Rightarrow> AddField key x (RemoveField key m))"

definition convert_field :: "(f64 \<Rightarrow> i64) \<Rightarrow> (f64 \<Rightarrow> u64) \<Rightarrow> conversion_filter \<Rightarrow> string \<Rightarrow> gval \<Rightarrow> metric \<Rightarrow> metric" where
  "convert_field impl uimpl cf key value m =
     (if hits (cf_Tag cf) key then field_to_tag key (toString value) m
      else if hits (cf_Float cf) key then replace_field key (map_option GFloat64 (toFloat value)) m
      else if hits (cf_Integer cf) key then replace_field key (map_option GInt64 (toInteger impl value)) m
      else if hits (cf_Unsigned cf) key then replace_field key (map_option GUint64 (toUnsigned uimpl value)) m
      else if hits (cf_Boolean cf) key then replace_field key (map_option GBool (toBool value)) m
      else if hits (cf_String cf) key then replace_field key (map_option GString (toString value)) m
      else m)"

definition convertFields :: "(f64 \<Rightarrow> i64) \<Rightarrow> (f64 \<Rightarrow> u64) \<Rightarrow> converter \<Rightarrow> metric \<Rightarrow> metric" where
  "convertFields impl uimpl p m =
     (case co_fieldConversions p of None \<Rightarrow> m
      | Some cf \<Rightarrow> fold (\<lambda>(key, value). convert_field impl uimpl cf key value) (Fields m) m)"


subsection \<open>What a conversion reads back\<close>

text \<open>The tag and the field of one key, and what the rules make of them.\<close>

definition at_key :: "metric \<Rightarrow> string \<Rightarrow> string option \<times> gval option" where
  "at_key m k = (GetTag m k, GetField m k)"

definition converted_field :: "(f64 \<Rightarrow> i64) \<Rightarrow> (f64 \<Rightarrow> u64) \<Rightarrow> conversion_filter \<Rightarrow> string \<Rightarrow> gval \<Rightarrow> string option \<times> gval option \<Rightarrow> string option \<times> gval option" where
  "converted_field impl uimpl cf k v old =
     (if hits (cf_Tag cf) k then (case toString v of Some s \<Rightarrow> Some s | None \<Rightarrow> fst old, None)
      else (fst old,
        if hits (cf_Float cf) k then map_option GFloat64 (toFloat v)
        else if hits (cf_Integer cf) k then map_option GInt64 (toInteger impl v)
        else if hits (cf_Unsigned cf) k then map_option GUint64 (toUnsigned uimpl v)
        else if hits (cf_Boolean cf) k then map_option GBool (toBool v)
        else if hits (cf_String cf) k then map_option GString (toString v)
        else snd old))"

text \<open>The value of a tag as a field: the string rule first; then the last of the rules that hit, where it succeeds.\<close>

definition converted_tag :: "(f64 \<Rightarrow> i64) \<Rightarrow> (f64 \<Rightarrow> u64) \<Rightarrow> conversion_filter \<Rightarrow> string \<Rightarrow> string \<Rightarrow> gval option \<Rightarrow> gval option" where
  "converted_tag impl uimpl cf k v old =
     (let i = parse_int v; int_hit = hits (cf_Integer cf) k;
          or_int = (\<lambda>r. case r of Some x \<Rightarrow> Some x | None \<Rightarrow> if int_hit then map_option GInt64 i else old)
      in if hits (cf_String cf) k then Some (GString v)
         else if int_hit \<and> i = None then old
         else if hits (cf_Unsigned cf) k then or_int (map_option GUint64 (parse_uint v))
         else if hits (cf_Boolean cf) k then or_int (map_option GBool (parse_bool v))
         else if hits (cf_Float cf) k then or_int (map_option GFloat64 (parse_float v))
         else or_int None)"

definition any_tag_rule :: "conversion_filter \<Rightarrow> string \<Rightarrow> bool" where
  "any_tag_rule cf k \<longleftrightarrow> hits (cf_String cf) k \<or> hits (cf_Integer cf) k \<or> hits (cf_Unsigned cf) k
     \<or> hits (cf_Boolean cf) k \<or> hits (cf_Float cf) k"

lemma toInteger_string [simp]: "toInteger impl (GString v) = parse_int v"
  by simp

lemma convertField_converted [simp]:
  "convertField (GString s) = GString s" "convertField (GInt64 i) = GInt64 i" "convertField (GUint64 i) = GUint64 i"
  "convertField (GBool b) = GBool b" "convertField (GFloat64 x) = GFloat64 x"
  by simp_all

lemmas key_laws = GetTag_AddTag GetTag_RemoveTag GetField_AddField GetField_RemoveField

lemma at_key_sel [simp]: "fst (at_key m k) = GetTag m k" "snd (at_key m k) = GetField m k"
  by (simp_all add: at_key_def)

lemma at_key_field_to_tag: "metric_ok m \<Longrightarrow> at_key (field_to_tag k s m) x =
    (if x = k then (case s of Some v \<Rightarrow> Some v | None \<Rightarrow> GetTag m k, None) else at_key m x)"
  by (cases s) (simp_all add: at_key_def field_to_tag_def key_laws)

lemma at_key_replace_field: "metric_ok m \<Longrightarrow>
    at_key (replace_field k v m) x = (if x = k then (GetTag m k, map_option convertField v) else at_key m x)"
  by (cases v) (simp_all add: at_key_def replace_field_def key_laws)

lemma at_key_tag_to_field: "metric_ok m \<Longrightarrow> at_key (tag_to_field k v m) x =
    (if x = k then (None, case v of Some y \<Rightarrow> Some (convertField y) | None \<Rightarrow> GetField m k) else at_key m x)"
  by (cases v) (simp_all add: at_key_def tag_to_field_def key_laws)

lemmas at_key_moves = at_key_field_to_tag at_key_replace_field at_key_tag_to_field

lemma metric_ok_moves [simp]:
  assumes "metric_ok m"
  shows "metric_ok (field_to_tag k s m)" "metric_ok (replace_field k v m)" "metric_ok (tag_to_field k v m)"
  using assms by (simp_all add: field_to_tag_def replace_field_def tag_to_field_def split: option.split)

text \<open>Both loops visit every key on its own.\<close>

interpretation field_visitor: key_visitor "convert_field impl uimpl cf" at_key "converted_field impl uimpl cf" metric_ok
  for impl uimpl cf
proof
  fix m k v x
  assume m: "metric_ok m"
  show "at_key (convert_field impl uimpl cf k v m) x = (if x = k then converted_field impl uimpl cf k v (at_key m k) else at_key m x)"
    using m at_key_def [of m k]
    by (simp add: convert_field_def converted_field_def at_key_moves option.map_comp comp_def cong: option.case_cong)
  show "metric_ok (convert_field impl uimpl cf k v m)"
    using m by (simp add: convert_field_def)
qed

lemma at_key_convert_tag:
  assumes "metric_ok m"
  shows "at_key (convert_tag impl uimpl cf k v m) x =
    (if x = k then if any_tag_rule cf k then (None, converted_tag impl uimpl cf k v (snd (at_key m k))) else at_key m k
     else at_key m x)"
proof (cases "hits (cf_String cf) k")
  case True
  with assms show ?thesis by (simp add: convert_tag_def at_key_moves converted_tag_def any_tag_rule_def)
next
  case s: False
  have rem: "at_key (RemoveTag k m) x = (if x = k then (None, GetField m k) else at_key m x)"
    using assms by (simp add: at_key_def key_laws)
  have ok: "metric_ok (tag_to_field k w m)" for w using assms by simp
  have gt: "GetField (tag_to_field k (Some w) m) k = Some (convertField w)" for w
    using at_key_tag_to_field [OF assms, of k "Some w" k] by (simp add: at_key_def)
  show ?thesis
  proof (cases "hits (cf_Integer cf) k")
    case False
    with s assms show ?thesis
      by (cases "hits (cf_Unsigned cf) k"; cases "hits (cf_Boolean cf) k"; cases "hits (cf_Float cf) k")
        (simp_all add: convert_tag_def at_key_moves converted_tag_def any_tag_rule_def option.case_eq_if option.map_sel)
  next
    case True
    show ?thesis
    proof (cases "parse_int v")
      case None
      with s True rem show ?thesis by (simp add: convert_tag_def converted_tag_def any_tag_rule_def)
    next
      case (Some i)
      with s True assms ok show ?thesis
        by (cases "hits (cf_Unsigned cf) k"; cases "hits (cf_Boolean cf) k"; cases "hits (cf_Float cf) k")
          (simp_all add: convert_tag_def at_key_moves gt converted_tag_def any_tag_rule_def option.case_eq_if option.map_sel)
    qed
  qed
qed

interpretation tag_visitor: key_visitor "convert_tag impl uimpl cf" at_key
  "\<lambda>k v old. if any_tag_rule cf k then (None, converted_tag impl uimpl cf k v (snd old)) else old" metric_ok
  for impl uimpl cf
proof
  fix m k v x
  assume m: "metric_ok m"
  show "at_key (convert_tag impl uimpl cf k v m) x =
      (if x = k then if any_tag_rule cf k then (None, converted_tag impl uimpl cf k v (snd (at_key m k))) else at_key m k
       else at_key m x)"
    using m by (rule at_key_convert_tag)
  show "metric_ok (convert_tag impl uimpl cf k v m)"
    using m by (simp add: convert_tag_def Let_def)
qed

lemma at_key_convertFields:
  assumes "metric_ok m" "co_fieldConversions p = Some cf"
  shows "at_key (convertFields impl uimpl p m) k =
      (case GetField m k of None \<Rightarrow> at_key m k | Some v \<Rightarrow> converted_field impl uimpl cf k v (at_key m k))"
    and "metric_ok (convertFields impl uimpl p m)"
  using field_visitor.look_visits [OF assms(1) gomap_ok_Fields, of impl uimpl cf m k]
    field_visitor.ok_visits [OF assms(1), of impl uimpl cf "Fields m"] assms
  by (simp_all add: convertFields_def map_of_Fields)

text \<open>
  Converting fields: each field is treated on its own by the first of the rules tag, float,
  integer, unsigned, boolean and string that hits its key. It gets the converted value, becomes a
  tag, or is removed when its value cannot be converted; a field that no rule hits stays, and so
  does every tag whose key is not converted.
\<close>

theorem convertFields_spec:
  assumes "metric_ok m" "co_fieldConversions p = Some cf"
  shows "metric_ok (convertFields impl uimpl p m)
    \<and> (GetTag (convertFields impl uimpl p m) k, GetField (convertFields impl uimpl p m) k) =
        (case GetField m k of
           None \<Rightarrow> (GetTag m k, None)
         | Some v \<Rightarrow>
             if hits (cf_Tag cf) k then (case toString v of Some s \<Rightarrow> Some s | None \<Rightarrow> GetTag m k, None)
             else (GetTag m k,
               if hits (cf_Float cf) k then map_option GFloat64 (toFloat v)
               else if hits (cf_Integer cf) k then map_option GInt64 (toInteger impl v)
               else if hits (cf_Unsigned cf) k then map_option GUint64 (toUnsigned uimpl v)
               else if hits (cf_Boolean cf) k then map_option GBool (toBool v)
               else if hits (cf_String cf) k then map_option GString (toString v)
               else Some v))"
proof -
  show ?thesis
    using at_key_convertFields(1) [OF assms, of impl uimpl k] at_key_convertFields(2) [OF assms, of impl uimpl]
    by (simp add: at_key_def converted_field_def split: option.split)
qed

theorem convertFields_spec_witness:
  "GetField (convertFields (\<lambda>_. 0) (\<lambda>_. 0)
      \<lparr>co_Tags = None, co_Fields = None, co_initialized = True, co_tagConversions = None,
       co_fieldConversions = Some \<lparr>cf_Tag = None, cf_String = None, cf_Integer = Some (FSingle ''n''), cf_Unsigned = None, cf_Boolean = None, cf_Float = None\<rparr>\<rparr>
      (New ''cpu'' [] [(''n'', GString ''42'')] 0 None)) ''n'' = Some (GInt64 42)"
proof -
  let ?m = "New ''cpu'' [] [(''n'', GString ''42'')] 0 None"
  have m: "metric_ok ?m" by (rule metric_ok_New) simp
  have f: "GetField ?m ''n'' = Some (GString ''42'')" by code_simp
  have "parse_int ''42'' = Some 42" by code_simp
  with convertFields_spec [OF m, of "\<lparr>co_Tags = None, co_Fields = None, co_initialized = True, co_tagConversions = None,
       co_fieldConversions = Some \<lparr>cf_Tag = None, cf_String = None, cf_Integer = Some (FSingle ''n''), cf_Unsigned = None, cf_Boolean = None, cf_Float = None\<rparr>\<rparr>"
       _ "\<lambda>_. 0" "\<lambda>_. 0" "''n''"] f
  show ?thesis by (simp add: hits_def)
qed

text \<open>
  Converting tags: a tag that one of the five rules hits is removed, and it becomes a field,
  unless its value does not convert. The string rule wins over all others; an integer that another
  rule hits too is not final: an unsigned, boolean or float value replaces it, in this order of
  preference. Tags that no rule hits, and the fields of all other keys, stay.
\<close>

theorem convertTags_spec:
  assumes "metric_ok m" "co_tagConversions p = Some cf"
  shows "metric_ok (convertTags impl uimpl p m)
    \<and> GetTag (convertTags impl uimpl p m) k = (if any_tag_rule cf k then None else GetTag m k)
    \<and> GetField (convertTags impl uimpl p m) k =
        (case GetTag m k of
           Some v \<Rightarrow> if any_tag_rule cf k then converted_tag impl uimpl cf k v (GetField m k) else GetField m k
         | None \<Rightarrow> GetField m k)"
proof -
  define m' where "m' = convertTags impl uimpl p m"
  have eq: "m' = fold (\<lambda>(key, value). convert_tag impl uimpl cf key value) (Tags m) m"
    by (simp add: m'_def convertTags_def assms(2))
  have "at_key m' k = (case GetTag m k of None \<Rightarrow> at_key m k
      | Some v \<Rightarrow> if any_tag_rule cf k then (None, converted_tag impl uimpl cf k v (GetField m k)) else at_key m k)"
    unfolding eq using tag_visitor.look_visits [OF assms(1) gomap_ok_Tags, of impl uimpl cf m k]
    by (cases "GetTag m k"; cases "any_tag_rule cf k") (simp_all add: map_of_Tags [OF assms(1)])
  moreover have "metric_ok m'" unfolding eq using assms(1) by (rule tag_visitor.ok_visits)
  ultimately show ?thesis
    unfolding m'_def [symmetric] by (auto simp: at_key_def split: option.split)
qed

theorem convertTags_spec_witness:
  "let m = convertTags (\<lambda>_. 0) (\<lambda>_. 0)
      \<lparr>co_Tags = None, co_Fields = None, co_initialized = True,
       co_tagConversions = Some \<lparr>cf_Tag = None, cf_String = None, cf_Integer = Some (FSet [''port'', ''host'']), cf_Unsigned = None,
         cf_Boolean = Some (FSingle ''port''), cf_Float = None\<rparr>, co_fieldConversions = None\<rparr>
      (New ''cpu'' [(''port'', ''1''), (''host'', ''a'')] [] 0 None)
   in GetField m ''port'' = Some (GBool True) \<and> GetTag m ''host'' = None \<and> GetField m ''host'' = None"
proof -
  let ?m = "New ''cpu'' [(''port'', ''1''), (''host'', ''a'')] [] 0 None"
  let ?cf = "\<lparr>cf_Tag = None, cf_String = None, cf_Integer = Some (FSet [''port'', ''host'']), cf_Unsigned = None,
         cf_Boolean = Some (FSingle ''port''), cf_Float = None\<rparr>"
  let ?p = "\<lparr>co_Tags = None, co_Fields = None, co_initialized = True, co_tagConversions = Some ?cf, co_fieldConversions = None\<rparr>"
  have m: "metric_ok ?m" by (rule metric_ok_New) simp
  have v: "GetTag ?m ''port'' = Some ''1''" "GetTag ?m ''host'' = Some ''a''" "GetField ?m ''port'' = None" "GetField ?m ''host'' = None"
    "parse_int ''1'' = Some 1" "parse_int ''a'' = None" "parse_bool ''1'' = Some True"
    by code_simp+
  have p: "co_tagConversions ?p = Some ?cf" by simp
  show ?thesis
    using convertTags_spec [OF m p, of "\<lambda>_. 0" "\<lambda>_. 0" "''port''"] convertTags_spec [OF m p, of "\<lambda>_. 0" "\<lambda>_. 0" "''host''"]
    by (simp add: v hits_def any_tag_rule_def converted_tag_def)
qed

subsection \<open>To a string and back\<close>








end
