(* ===== verification/GoText.thy ===== *)
theory GoText
  imports Metric
begin

section \<open>More of the standard library: lines, searching, printing of values\<close>

text \<open>
  \<open>strings.Index\<close>, the lines of \<open>bufio.Scanner\<close> (below its limit of 64 kilobytes a line), \<open>math.Pow10\<close>,
  the texts of hardware and internet addresses, and what \<open>%v\<close> prints for the values of a field.
\<close>

fun str_index :: "string \<Rightarrow> string \<Rightarrow> nat option" where
  "str_index [] sub = (if sub = [] then Some 0 else None)"
| "str_index (c # cs) sub = (if has_prefix (c # cs) sub then Some 0 else map_option Suc (str_index cs sub))"

lemma str_index_first:
  assumes "c \<notin> set a"
  shows "str_index (a @ c # b) [c] = Some (length a)"
  using assms by (induction a) (auto simp: has_prefix_def)

definition drop_cr :: "string \<Rightarrow> string" where
  "drop_cr l = trim_suffix l [CHR 0x0D]"

definition scan_lines :: "string \<Rightarrow> string list" where
  "scan_lines s = (let ls = split s [CHR 0x0A] in List.map drop_cr (if last ls = [] then butlast ls else ls))"

text \<open>\<open>math.Pow10\<close>: two tables of the powers of ten below 32 and of their multiples of 32.\<close>

definition pow10tab :: "nat \<Rightarrow> f64" where
  "pow10tab n = mk_f64 False (round_mag (10 ^ n) 1)"

definition pow10negtab :: "nat \<Rightarrow> f64" where
  "pow10negtab n = mk_f64 False (round_mag 1 (10 ^ n))"

definition Pow10 :: "int \<Rightarrow> f64" where
  "Pow10 n =
     (if 0 \<le> n \<and> n \<le> 308 then f_mul (pow10tab (32 * nat (n div 32))) (pow10tab (nat (n mod 32)))
      else if - 323 \<le> n \<and> n \<le> 0 then f_div (pow10negtab (32 * nat (- n div 32))) (pow10tab (nat (- n mod 32)))
      else if 0 < n then f_inf False else f_zero)"

subsection \<open>Addresses\<close>

definition hex_digit :: "int \<Rightarrow> char" where
  "hex_digit d = char_of (nat (if d < 10 then 48 + d else 87 + d))"

definition hex_byte :: "char \<Rightarrow> string" where
  "hex_byte c = [hex_digit (byte_of c div 16), hex_digit (byte_of c mod 16)]"

text \<open>\<open>net.HardwareAddr.String\<close>\<close>

definition hwaddr_text :: "string \<Rightarrow> string" where
  "hwaddr_text b = join '':'' (List.map hex_byte b)"

text \<open>\<open>net.IP.String\<close> for 4 and 16 bytes; the longest run of zero words, of two at least, is a double colon.\<close>

definition ip4_text :: "string \<Rightarrow> string" where
  "ip4_text b = join ''.'' (List.map (\<lambda>c. itoa (byte_of c)) b)"

fun words_of :: "string \<Rightarrow> int list" where
  "words_of (a # b # r) = (byte_of a * 256 + byte_of b) # words_of r"
| "words_of _ = []"

fun hex_word :: "nat \<Rightarrow> int \<Rightarrow> string" where
  "hex_word 0 w = []"
| "hex_word (Suc n) w = (if w < 16 then [hex_digit w] else hex_word n (w div 16) @ [hex_digit (w mod 16)])"

definition zero_run :: "int list \<Rightarrow> nat" where
  "zero_run ws = length (takeWhile (\<lambda>w. w = 0) ws)"

text \<open>Start and length of the longest run, the first of several, among the words from \<open>i\<close> on.\<close>

fun longest_zeros :: "nat \<Rightarrow> int list \<Rightarrow> nat \<times> nat \<Rightarrow> nat \<times> nat" where
  "longest_zeros i [] best = best"
| "longest_zeros i (w # ws) best =
     longest_zeros (Suc i) ws (if zero_run (w # ws) > snd best then (i, zero_run (w # ws)) else best)"

definition ip6_text :: "string \<Rightarrow> string" where
  "ip6_text b =
     (let ws = words_of b; part = (\<lambda>ws. join '':'' (List.map (hex_word 4) ws))
      in case longest_zeros 0 ws (0, 0) of (i, n) \<Rightarrow>
           if n \<le> 1 then part ws else part (take i ws) @ ''::'' @ part (drop (i + n) ws))"

definition ip_text :: "string \<Rightarrow> string" where
  "ip_text b =
     (if length b = 4 then ip4_text b
      else if take 10 b = replicate 10 (CHR 0x00) \<and> take 2 (drop 10 b) = [CHR 0xFF, CHR 0xFF] then ip4_text (drop 12 b)
      else ip6_text b)"

subsection \<open>The verb v\<close>

text \<open>A float with the fewest digits, with an exponent of two digits at least below 1e-4 and from 1e21 on.\<close>

definition fmt_float :: "f64 \<Rightarrow> string" where
  "fmt_float x =
     (if is_nan x then ''NaN'' else if is_inf x then (if f_neg x then ''-Inf'' else ''+Inf'')
      else if f_mag x = 0 then (if f_neg x then ''-0'' else ''0'')
      else case f_frac x of (p, q) \<Rightarrow> case shortest_from 17 p q (f_mag x) (dec_exp p q) 1 of (d, e) \<Rightarrow>
        let ds = rev (dropWhile (\<lambda>c. c = CHR ''0'') (rev (digits_of d)));
            ex = e + int (length (digits_of d)) - 1
        in if ex < - 4 \<or> 21 \<le> ex
           then (if f_neg x then ''-'' else '''') @ hd ds # (if tl ds = [] then [] else CHR ''.'' # tl ds)
                @ ''e'' @ (if ex < 0 then ''-'' else ''+'') @ (if \<bar>ex\<bar> < 10 then ''0'' else '''') @ itoa \<bar>ex\<bar>
           else format_float x)"

text \<open>\<open>other\<close>: the text of a value that is none of the types below.\<close>

fun fmt_v :: "(gval \<Rightarrow> string) \<Rightarrow> gval \<Rightarrow> string" where
  "fmt_v other GNil = ''<nil>''"
| "fmt_v other (GFloat64 v) = fmt_float v"
| "fmt_v other (GInt64 v) = itoa (sint v)"
| "fmt_v other (GInt v) = itoa (sint v)"
| "fmt_v other (GInt32 v) = itoa (sint v)"
| "fmt_v other (GInt16 v) = itoa (sint v)"
| "fmt_v other (GInt8 v) = itoa (sint v)"
| "fmt_v other (GUint64 v) = itoa (uint v)"
| "fmt_v other (GUint v) = itoa (uint v)"
| "fmt_v other (GUint32 v) = itoa (uint v)"
| "fmt_v other (GUint16 v) = itoa (uint v)"
| "fmt_v other (GUint8 v) = itoa (uint v)"
| "fmt_v other (GString v) = v"
| "fmt_v other (GBool b) = format_bool b"
| "fmt_v other v = other v"

subsection \<open>Values of numbers that fail to parse\<close>

definition signed :: "string \<Rightarrow> bool" where
  "signed s \<longleftrightarrow> s \<noteq> [] \<and> (hd s = CHR ''-'' \<or> hd s = CHR ''+'')"

definition float_syntax :: "string \<Rightarrow> bool" where
  "float_syntax s \<longleftrightarrow>
     (let b = (if signed s then tl s else s);
          ip = takeWhile is_digit b; r = dropWhile is_digit b;
          pt = (r \<noteq> [] \<and> hd r = CHR ''.'');
          fp = (if pt then takeWhile is_digit (tl r) else []);
          r' = (if pt then dropWhile is_digit (tl r) else r)
      in \<not> (ip = [] \<and> fp = []) \<and> parse_exp r' \<noteq> None)"

text \<open>\<open>ParseFloat\<close> and \<open>Atoi\<close> with the error dropped: zero for bad syntax, an infinity or the nearest integer out of range.\<close>

definition float_value :: "string \<Rightarrow> f64" where
  "float_value s =
     (case parse_float s of Some v \<Rightarrow> v
      | None \<Rightarrow> if float_syntax s then f_inf (hd s = CHR ''-'') else f_zero)"

definition atoi_value :: "string \<Rightarrow> i64" where
  "atoi_value s =
     (case parse_int s of Some v \<Rightarrow> v
      | None \<Rightarrow> let ds = (if signed s then tl s else s)
                in if ds \<noteq> [] \<and> list_all is_digit ds
                   then if hd s = CHR ''-'' then word_of_int (- (2 ^ 63)) else word_of_int (2 ^ 63 - 1)
                   else 0)"

end
