(* ===== verification/CsvReader.thy ===== *)
theory CsvReader
  imports GoText
begin

section \<open>Comma-separated records\<close>

text \<open>
  \<open>encoding/csv\<close> as the CSV parser configures it: records of any length, no lazy quotes, spaces kept. The state of a
  reader is the text that it has not read yet, which it takes line by line.
\<close>

abbreviation quote :: char where "quote \<equiv> CHR 0x22"
abbreviation newline :: char where "newline \<equiv> CHR 0x0A"
abbreviation return_char :: char where "return_char \<equiv> CHR 0x0D"

text \<open>\<open>readLine\<close>: the next line, with a carriage return before the newline or the end of the text left out.\<close>

definition read_line :: "string \<Rightarrow> string \<times> string" where
  "read_line s =
     (let l = takeWhile (\<lambda>c. c \<noteq> newline) s; r = dropWhile (\<lambda>c. c \<noteq> newline) s
      in if r = [] then (trim_suffix l [return_char], []) else (trim_suffix l [return_char] @ [newline], tl r))"

definition length_nl :: "string \<Rightarrow> nat" where
  "length_nl l = (if l \<noteq> [] \<and> last l = newline then 1 else 0)"

lemma length_trim_suffix: "length (trim_suffix s t) \<le> length s"
  by (simp add: trim_suffix_def)

lemma read_line_length: "length (fst (read_line s)) + length (snd (read_line s)) \<le> length s"
proof -
  let ?p = "\<lambda>c. c \<noteq> newline"
  have "length (takeWhile ?p s) + length (dropWhile ?p s) = length s"
    by (metis length_append takeWhile_dropWhile_id)
  moreover have "length (trim_suffix (takeWhile ?p s) [return_char]) \<le> length (takeWhile ?p s)" by (rule length_trim_suffix)
  ultimately show ?thesis by (cases "dropWhile ?p s") (auto simp: read_line_def Let_def)
qed

lemma read_line_shorter: "s \<noteq> [] \<Longrightarrow> length (snd (read_line s)) < length s"
proof -
  assume s: "s \<noteq> []"
  have le: "length (dropWhile (\<lambda>c. c \<noteq> newline) s) \<le> length s" by (rule length_dropWhile_le)
  show ?thesis
  proof (cases "dropWhile (\<lambda>c. c \<noteq> newline) s")
    case Nil
    with s show ?thesis by (simp add: read_line_def Let_def)
  next
    case (Cons c r)
    with le show ?thesis by (simp add: read_line_def Let_def)
  qed
qed

datatype csv_error = CsvEOF | CsvErr string

text \<open>
  The fields of a record, from a line and the text after it. In a quoted field, which \<open>csv_quoted\<close> reads, two quotes stand
  for one and the next line is taken when the line ends.
\<close>

definition next_is :: "int \<Rightarrow> string \<Rightarrow> bool" where
  "next_is c l \<longleftrightarrow> l \<noteq> [] \<and> fst (decode_rune l) = c"

lemma encode_rune_nonempty [simp]: "encode_rune c \<noteq> []"
  by (simp add: encode_rune_def)

lemma after_quote_shorter:
  "quote \<in> set l \<Longrightarrow> length (tl (dropWhile (\<lambda>c. c \<noteq> quote) l)) < length l"
proof -
  assume "quote \<in> set l"
  then have "dropWhile (\<lambda>c. c \<noteq> quote) l \<noteq> []" by (simp add: dropWhile_eq_Nil_conv)
  then have "length (tl (dropWhile (\<lambda>c. c \<noteq> quote) l)) < length (dropWhile (\<lambda>c. c \<noteq> quote) l)"
    by (cases "dropWhile (\<lambda>c. c \<noteq> quote) l") auto
  also have "\<dots> \<le> length l" by (rule length_dropWhile_le)
  finally show ?thesis .
qed

function (sequential) csv_fields :: "int \<Rightarrow> string list \<Rightarrow> string \<Rightarrow> string \<Rightarrow> (csv_error + string list) \<times> string"
  and csv_quoted :: "int \<Rightarrow> string list \<Rightarrow> string \<Rightarrow> string \<Rightarrow> string \<Rightarrow> (csv_error + string list) \<times> string" where
  "csv_fields comma fs l s =
     (if l = [] \<or> hd l \<noteq> quote then
        (case str_index l (encode_rune comma) of
           Some i \<Rightarrow>
             if quote \<in> set (take i l) then (Inl (CsvErr ''bare quote''), s)
             else csv_fields comma (fs @ [take i l]) (drop (i + length (encode_rune comma)) l) s
         | None \<Rightarrow>
             if quote \<in> set (take (length l - length_nl l) l) then (Inl (CsvErr ''bare quote''), s)
             else (Inr (fs @ [take (length l - length_nl l) l]), s))
      else csv_quoted comma fs [] (tl l) s)"
| "csv_quoted comma fs acc l s =
     (if quote \<in> set l then
        let a = takeWhile (\<lambda>c. c \<noteq> quote) l; l1 = tl (dropWhile (\<lambda>c. c \<noteq> quote) l)
        in if next_is 34 l1 then csv_quoted comma fs (acc @ a @ [quote]) (tl l1) s
           else if next_is comma l1 then csv_fields comma (fs @ [acc @ a]) (drop (length (encode_rune comma)) l1) s
           else if length_nl l1 = length l1 then (Inr (fs @ [acc @ a]), s)
           else (Inl (CsvErr ''quote''), s)
      else if l \<noteq> [] then csv_quoted comma fs (acc @ l) (fst (read_line s)) (snd (read_line s))
      else (Inl (CsvErr ''quote''), s))"
  by pat_completeness auto

termination
proof (relation "measure (\<lambda>x. case x of Inl (comma, fs, l, s) \<Rightarrow> length l + length s
    | Inr (comma, fs, acc, l, s) \<Rightarrow> length l + length s)", goal_cases)
  case (2 comma fs l s i)
  then have "l \<noteq> []" by (cases l) simp_all
  moreover have "0 < length (encode_rune comma)" by simp
  ultimately show ?case by (simp add: diff_less)
next
  case (3 comma fs l s)
  then show ?case by (cases l) simp_all
next
  case (4 comma fs acc l s x xa)
  then show ?case using after_quote_shorter [of l] by (auto simp: next_is_def)
next
  case (5 comma fs acc l s x xa)
  then show ?case using after_quote_shorter [of l] by (auto simp: next_is_def)
next
  case (6 comma fs acc l s)
  then show ?case using read_line_length [of s] by (cases l; cases "read_line s") auto
qed simp_all

declare csv_fields.simps [simp del] csv_quoted.simps [simp del]

text \<open>The next record, with empty lines and comments skipped; no comment character is rune 0.\<close>

definition validDelim :: "int \<Rightarrow> bool" where
  "validDelim r \<longleftrightarrow> r \<noteq> 0 \<and> r \<noteq> 34 \<and> r \<noteq> 13 \<and> r \<noteq> 10 \<and> r \<noteq> 65533
     \<and> 0 \<le> r \<and> r \<le> 1114111 \<and> \<not> (55296 \<le> r \<and> r \<le> 57343)"

function csv_next :: "int \<Rightarrow> int \<Rightarrow> string \<Rightarrow> (csv_error + string list) \<times> string" where
  "csv_next comma comment s =
     (if s = [] then (Inl CsvEOF, [])
      else let l = fst (read_line s); r = snd (read_line s)
           in if comment \<noteq> 0 \<and> next_is comment l then csv_next comma comment r
              else if length l = length_nl l then csv_next comma comment r
              else csv_fields comma [] l r)"
  by pat_completeness auto
termination
  by (relation "measure (\<lambda>(comma, comment, s). length s)") (auto simp: read_line_shorter)

declare csv_next.simps [simp del]

definition csv_Read :: "int \<Rightarrow> int \<Rightarrow> string \<Rightarrow> (csv_error + string list) \<times> string" where
  "csv_Read comma comment s =
     (if comma = comment \<or> \<not> validDelim comma \<or> (comment \<noteq> 0 \<and> \<not> validDelim comment)
      then (Inl (CsvErr ''csv: invalid field or comment delimiter''), s)
      else csv_next comma comment s)"

lemma csv_demo:
  "csv_Read 44 35 (''# no'' @ [newline, newline] @ ''a,'' @ [quote] @ ''b'' @ [quote, quote] @ '',c'' @ [return_char, newline]
     @ ''d'' @ [quote] @ '',e'' @ [newline] @ ''rest'') = (Inr [''a'', ''b'' @ [quote] @ '',c'' @ [newline] @ ''d'', ''e''], ''rest'')"
  "csv_Read 44 0 (''a'' @ [quote] @ ''b'' @ [newline] @ ''rest'') = (Inl (CsvErr ''bare quote''), ''rest'')"
  "csv_Read 44 0 ([quote] @ ''a'' @ [newline] @ ''b'') = (Inl (CsvErr ''quote''), [])"
  "csv_Read 44 0 [newline] = (Inl CsvEOF, [])"
  by code_simp+

subsection \<open>Reading everything\<close>

lemma csv_fields_shorter:
  "length (snd (csv_fields comma fs l s)) \<le> length s"
  "length (snd (csv_quoted comma fs acc l s)) \<le> length s"
proof (induction comma fs l s and comma fs acc l s rule: csv_fields_csv_quoted.induct)
  case (1 comma fs l s)
  then show ?case by (subst csv_fields.simps) (auto split: option.split)
next
  case (2 comma fs acc l s)
  have "length (snd (read_line s)) \<le> length s" using read_line_length [of s] by simp
  with 2 show ?case by (subst csv_quoted.simps) (auto simp: Let_def)
qed

lemma csv_next_shorter: "csv_next comma comment s = (Inr rec, r) \<Longrightarrow> length r < length s"
proof (induction comma comment s rule: csv_next.induct)
  case (1 comma comment s)
  have s: "s \<noteq> []" using 1(3) by (auto simp: csv_next.simps)
  let ?skip = "(comment \<noteq> 0 \<and> next_is comment (fst (read_line s))) \<or> length (fst (read_line s)) = length_nl (fst (read_line s))"
  have IH: "length r < length (snd (read_line s))" if "?skip" "csv_next comma comment (snd (read_line s)) = (Inr rec, r)"
    using 1(1) [OF s refl refl _ that(2)] 1(2) [OF s refl refl _ _ that(2)] that(1) by blast
  have "(if ?skip then csv_next comma comment (snd (read_line s))
      else csv_fields comma [] (fst (read_line s)) (snd (read_line s))) = (Inr rec, r)"
    using 1(3) s by (auto simp: csv_next.simps [of comma comment s] Let_def split: if_splits)
  with IH read_line_shorter [OF s] csv_fields_shorter(1) [of comma "[]" "fst (read_line s)" "snd (read_line s)"]
  show ?case by (simp split: if_split_asm)
qed

function csv_ReadAll :: "int \<Rightarrow> int \<Rightarrow> string \<Rightarrow> (string + string list list) \<times> string" where
  "csv_ReadAll comma comment s =
     (case csv_Read comma comment s of
        (Inl CsvEOF, r) \<Rightarrow> (Inr [], r)
      | (Inl (CsvErr e), r) \<Rightarrow> (Inl e, r)
      | (Inr rec, r) \<Rightarrow> (case csv_ReadAll comma comment r of (Inl e, r1) \<Rightarrow> (Inl e, r1) | (Inr recs, r1) \<Rightarrow> (Inr (rec # recs), r1)))"
  by pat_completeness auto
termination
  by (relation "measure (\<lambda>(comma, comment, s). length s)")
    (auto simp: csv_Read_def split: if_splits dest!: csv_next_shorter [OF sym] csv_next_shorter)

declare csv_ReadAll.simps [simp del]

subsection \<open>Quoted records are read back\<close>

definition quoted_body :: "string \<Rightarrow> string" where
  "quoted_body x = concat (List.map (\<lambda>c. if c = quote then [quote, quote] else [c]) x)"

definition quoted :: "string \<Rightarrow> string" where
  "quoted x = quote # quoted_body x @ [quote]"

definition csv_row :: "char \<Rightarrow> string list \<Rightarrow> string" where
  "csv_row comma fs = join [comma] (List.map quoted fs) @ [newline]"

definition csv_text :: "char \<Rightarrow> string list list \<Rightarrow> string" where
  "csv_text comma rows = concat (List.map (csv_row comma) rows)"

lemma read_line_Cons: "c \<noteq> newline \<Longrightarrow> c \<noteq> return_char \<Longrightarrow> read_line (c # P) = (c # fst (read_line P), snd (read_line P))"
  by (cases "takeWhile (\<lambda>c. c \<noteq> newline) P" rule: rev_cases)
    (auto simp: read_line_def Let_def trim_suffix_def has_suffix_def)

lemma read_line_newline: "read_line (newline # P) = ([newline], P)"
  by (simp add: read_line_def trim_suffix_def has_suffix_def)

lemma read_line_nonempty: "P \<noteq> [] \<Longrightarrow> hd P \<noteq> return_char \<Longrightarrow> fst (read_line P) \<noteq> []"
  by (cases P; cases "hd P = newline") (simp_all add: read_line_newline read_line_Cons)

lemma next_is_ascii: "byte_of c < 128 \<Longrightarrow> next_is r (c # l) \<longleftrightarrow> r = byte_of c"
  by (auto simp: next_is_def)

lemma quoted_plain:
  assumes "c \<noteq> quote" "c \<noteq> return_char" "P \<noteq> []" "hd P \<noteq> return_char"
  shows "csv_quoted comma fs acc (fst (read_line (c # P))) (snd (read_line (c # P)))
    = csv_quoted comma fs (acc @ [c]) (fst (read_line P)) (snd (read_line P))"
proof (cases "c = newline")
  case True
  then show ?thesis by (simp add: read_line_newline csv_quoted.simps [of comma fs acc "[newline]"])
next
  case False
  obtain d l where l: "fst (read_line P) = d # l" using read_line_nonempty [OF assms(3,4)] by (cases "fst (read_line P)") auto
  have "csv_quoted comma fs acc (c # d # l) s = csv_quoted comma fs (acc @ [c]) (d # l) s" for s
    using assms(1) by (simp add: csv_quoted.simps [of comma fs acc] csv_quoted.simps [of comma fs "acc @ [c]"] Let_def)
  with False assms(2) show ?thesis by (simp add: read_line_Cons l)
qed

lemma quoted_quote:
  "csv_quoted comma fs acc (fst (read_line (quote # quote # P))) (snd (read_line (quote # quote # P)))
    = csv_quoted comma fs (acc @ [quote]) (fst (read_line P)) (snd (read_line P))"
  by (simp add: read_line_Cons csv_quoted.simps [of comma fs acc] next_is_ascii)

lemma quoted_body_read:
  assumes "return_char \<notin> set x" "P \<noteq> []" "hd P \<noteq> return_char"
  shows "csv_quoted comma fs acc (fst (read_line (quoted_body x @ P))) (snd (read_line (quoted_body x @ P)))
    = csv_quoted comma fs (acc @ x) (fst (read_line P)) (snd (read_line P))"
  using assms(1)
proof (induction x arbitrary: acc)
  case (Cons c x)
  have "quoted_body x @ P \<noteq> []" "hd (quoted_body x @ P) \<noteq> return_char"
    using Cons.prems assms(2,3) by (cases x; auto simp: quoted_body_def)+
  moreover have "c \<noteq> return_char" using Cons.prems by auto
  ultimately have plain: "c \<noteq> quote \<Longrightarrow> ?case"
    using Cons quoted_plain [of c "quoted_body x @ P" comma fs acc] by (simp add: quoted_body_def)
  have "c = quote \<Longrightarrow> ?case"
    using Cons quoted_quote [of comma fs acc "quoted_body x @ P"] by (simp add: quoted_body_def)
  with plain show ?case by blast
qed (simp add: quoted_body_def)

text \<open>A separator that is an ASCII character.\<close>

definition separator :: "char \<Rightarrow> bool" where
  "separator c \<longleftrightarrow> byte_of c < 128 \<and> validDelim (byte_of c)"

lemma separatorD:
  "separator c \<Longrightarrow> encode_rune (byte_of c) = [c] \<and> byte_of c \<noteq> 34 \<and> byte_of c \<noteq> 10 \<and> c \<noteq> quote \<and> c \<noteq> newline \<and> c \<noteq> return_char"
  by (auto simp: separator_def validDelim_def encode_rune_def)

lemma quoted_end:
  assumes "separator c"
  shows "csv_quoted (byte_of c) fs acc (fst (read_line (quote # c # P))) (snd (read_line (quote # c # P)))
      = csv_fields (byte_of c) (fs @ [acc]) (fst (read_line P)) (snd (read_line P))"
    "csv_quoted (byte_of c) fs acc (fst (read_line (quote # newline # P))) (snd (read_line (quote # newline # P)))
      = (Inr (fs @ [acc]), P)"
  using separatorD [OF assms] assms
  by (simp_all add: read_line_Cons read_line_newline csv_quoted.simps [of _ fs acc] next_is_ascii separator_def length_nl_def)

lemma quoted_read:
  assumes "return_char \<notin> set x" "P \<noteq> []" "hd P \<noteq> return_char"
  shows "csv_fields comma fs (fst (read_line (quoted x @ P))) (snd (read_line (quoted x @ P)))
    = csv_quoted comma fs x (fst (read_line (quote # P))) (snd (read_line (quote # P)))"
  using quoted_body_read [OF assms(1), of "quote # P" comma fs "[]"]
  by (simp add: quoted_def read_line_Cons [of quote] csv_fields.simps [of comma fs])

lemma csv_row_read:
  assumes "separator c" "\<And>x. x \<in> set (x0 # xs) \<Longrightarrow> return_char \<notin> set x"
  shows "csv_fields (byte_of c) fs (fst (read_line (csv_row c (x0 # xs) @ P))) (snd (read_line (csv_row c (x0 # xs) @ P)))
    = (Inr (fs @ x0 # xs), P)"
  using assms(2)
proof (induction xs arbitrary: fs x0)
  case Nil
  then show ?case using quoted_read [of x0 "newline # P" "byte_of c" fs] quoted_end(2) [OF assms(1)] by (simp add: csv_row_def)
next
  case (Cons x1 xs)
  have row: "csv_row c (x0 # x1 # xs) @ P = quoted x0 @ c # csv_row c (x1 # xs) @ P" by (simp add: csv_row_def)
  have "csv_fields (byte_of c) (fs @ [x0]) (fst (read_line (csv_row c (x1 # xs) @ P))) (snd (read_line (csv_row c (x1 # xs) @ P)))
      = (Inr ((fs @ [x0]) @ x1 # xs), P)"
    using Cons.prems by (intro Cons.IH) auto
  then show ?case
    using Cons.prems separatorD [OF assms(1)] unfolding row
    by (simp add: quoted_read quoted_end(1) [OF assms(1)])
qed

text \<open>Tables of records with a field at least are read back to the end of the text, however the fields are made.\<close>

lemma csv_Read_row:
  assumes "separator c" "comment \<noteq> byte_of c" "comment = 0 \<or> validDelim comment" "fs \<noteq> []" "\<And>x. x \<in> set fs \<Longrightarrow> return_char \<notin> set x"
  shows "csv_Read (byte_of c) comment (csv_row c fs @ P) = (Inr fs, P)"
proof -
  obtain x0 xs where fs: "fs = x0 # xs" using assms(4) by (cases fs) auto
  obtain t where t: "csv_row c fs @ P = quote # t" by (cases xs) (auto simp: fs csv_row_def quoted_def)
  obtain d u where u: "t = d # u" "d \<noteq> return_char"
  proof -
    have "\<exists>d u. t = d # u \<and> d \<noteq> return_char"
      using t assms(5) [of x0] by (cases x0; cases xs) (auto simp: fs csv_row_def quoted_def quoted_body_def split: if_splits)
    then show ?thesis using that by blast
  qed
  have l: "fst (read_line (quote # t)) = quote # fst (read_line t)" by (simp add: read_line_Cons)
  have ne: "fst (read_line t) \<noteq> []" using read_line_nonempty [of t] u by simp
  have "comment \<noteq> 34 \<or> comment = 0" using assms(3) by (auto simp: validDelim_def)
  then have "csv_next (byte_of c) comment (quote # t) = csv_fields (byte_of c) [] (fst (read_line (quote # t))) (snd (read_line (quote # t)))"
    using l ne by (subst csv_next.simps) (auto simp: Let_def next_is_ascii length_nl_def)
  moreover have "csv_fields (byte_of c) [] (fst (read_line (csv_row c (x0 # xs) @ P))) (snd (read_line (csv_row c (x0 # xs) @ P)))
      = (Inr ([] @ x0 # xs), P)"
    using assms(5) by (intro csv_row_read [OF assms(1)]) (simp add: fs)
  ultimately show ?thesis using assms(1-3) t by (auto simp: csv_Read_def separator_def fs)
qed

lemma csv_text_read:
  assumes "separator c" "comment \<noteq> byte_of c" "comment = 0 \<or> validDelim comment"
    "\<And>fs. fs \<in> set rows \<Longrightarrow> fs \<noteq> [] \<and> (\<forall>x \<in> set fs. return_char \<notin> set x)"
  shows "csv_ReadAll (byte_of c) comment (csv_text c rows) = (Inr rows, [])"
  using assms(4)
proof (induction rows)
  case Nil
  show ?case using assms(1-3) by (simp add: csv_ReadAll.simps [of _ _ "[]"] csv_text_def csv_Read_def csv_next.simps separator_def)
next
  case (Cons fs rows)
  have "csv_Read (byte_of c) comment (csv_row c fs @ csv_text c rows) = (Inr fs, csv_text c rows)"
    using Cons.prems by (intro csv_Read_row [OF assms(1-3)]) auto
  moreover have "csv_ReadAll (byte_of c) comment (csv_text c rows) = (Inr rows, [])" using Cons.prems by (intro Cons.IH) auto
  moreover have "csv_text c (fs # rows) = csv_row c fs @ csv_text c rows" by (simp add: csv_text_def)
  ultimately show ?case by (subst csv_ReadAll.simps) simp
qed

end
