(* ===== verification/ValueParsers.thy ===== *)
theory ValueParsers
  imports GoText
begin

section \<open>Parsers of single values and of key-value lines\<close>

text \<open>
  \<open>plugins/parsers/value/parser.go\<close> and \<open>plugins/parsers/logfmt/parser.go\<close>, with the guess of the type of a
  text that logfmt and CSV share. The decoder of logfmt records is a library, so it is a parameter.
\<close>

subsection \<open>Guessing a type\<close>

definition guess_value :: "string \<Rightarrow> gval" where
  "guess_value s =
     (case parse_int s of Some i \<Rightarrow> GInt64 i
      | None \<Rightarrow> case parse_float s of Some x \<Rightarrow> GFloat64 x
      | None \<Rightarrow> case parse_bool s of Some b \<Rightarrow> GBool b
      | None \<Rightarrow> GString s)"

lemma guess_value_ok [simp]: "field_value_ok (guess_value s)"
  by (simp add: guess_value_def split: option.split)

lemma guess_value_not_nil [simp]: "guess_value s \<noteq> GNil"
  by (simp add: guess_value_def split: option.split)

lemma guess_value_itoa: "- (2 ^ 63) \<le> i \<Longrightarrow> i < 2 ^ 63 \<Longrightarrow> guess_value (itoa i) = GInt64 (word_of_int i)"
  by (simp add: guess_value_def parse_int_itoa)

subsection \<open>Single values\<close>

record value_parser =
  vp_MetricName :: string
  vp_DataType :: string
  vp_DefaultTags :: strmap

definition value_of_type :: "string \<Rightarrow> string \<Rightarrow> gval option" where
  "value_of_type t s =
     (if t \<in> set [[], ''int'', ''integer''] then map_option GInt (parse_int s)
      else if t \<in> set [''float'', ''long''] then map_option GFloat64 (parse_float s)
      else if t \<in> set [''str'', ''string''] then Some (GString s)
      else if t \<in> set [''bool'', ''boolean''] then map_option GBool (parse_bool s)
      else Some GNil)"

definition value_metric :: "value_parser \<Rightarrow> int \<Rightarrow> string \<Rightarrow> metric list result" where
  "value_metric v now s =
     (case value_of_type (vp_DataType v) s of
        None \<Rightarrow> Inl (Err ''invalid syntax'')
      | Some x \<Rightarrow> Inr [New (vp_MetricName v) (vp_DefaultTags v) [(''value'', x)] now None])"

definition value_Parse :: "value_parser \<Rightarrow> int \<Rightarrow> string \<Rightarrow> metric list result" where
  "value_Parse v now buf =
     (let s = trim_space (trim_func (in_cutset [CHR 0x00]) buf)
      in if vp_DataType v \<noteq> ''string''
         then (let values = fields_of s in if values = [] then Inr [] else value_metric v now (last values))
         else value_metric v now s)"

definition value_ParseLine :: "value_parser \<Rightarrow> int \<Rightarrow> string \<Rightarrow> metric result" where
  "value_ParseLine v now line =
     res_bind (value_Parse v now line)
       (\<lambda>ms. case ms of [] \<Rightarrow> Inl (Err ''Can not parse the line'') | m # _ \<Rightarrow> Inr m)"

definition value_SetDefaultTags :: "strmap \<Rightarrow> value_parser \<Rightarrow> value_parser" where
  "value_SetDefaultTags tags v = v\<lparr>vp_DefaultTags := tags\<rparr>"

text \<open>The type \<open>str\<close> keeps one word of a text, the type \<open>string\<close> the whole text; of another type's value nothing is left.\<close>

definition value_field :: "string \<Rightarrow> string \<Rightarrow> gval option option" where
  "value_field t buf =
     (case value_Parse \<lparr>vp_MetricName = ''m'', vp_DataType = t, vp_DefaultTags = []\<rparr> 0 buf of
        Inr [m] \<Rightarrow> Some (GetField m ''value'') | _ \<Rightarrow> None)"

lemma value_types:
  "value_field ''string'' '' two words '' = Some (Some (GString ''two words''))"
  "value_field ''str'' '' two words '' = Some (Some (GString ''words''))"
  "value_field ''int'' ''7 8 9'' = Some (Some (GInt64 9))"
  "value_field ''uint'' ''7'' = Some None"
  "value_field ''int'' ''7.0'' = None"
  by code_simp+

subsection \<open>Logfmt\<close>

text \<open>What the decoder makes of a text: the pairs of each record, and an error.\<close>

type_synonym logfmt_decoder = "string \<Rightarrow> (string \<times> string) list list \<times> string option"

record logfmt_parser =
  lf_MetricName :: string
  lf_DefaultTags :: strmap

definition logfmt_field :: "string \<times> string \<Rightarrow> (string, gval) gomap \<Rightarrow> (string, gval) gomap" where
  "logfmt_field kv fs = (if snd kv = [] then fs else AList.update (fst kv) (guess_value (snd kv)) fs)"

definition logfmt_fields :: "(string \<times> string) list \<Rightarrow> (string, gval) gomap" where
  "logfmt_fields kvs = fold logfmt_field kvs []"

definition applyDefaultTags :: "logfmt_parser \<Rightarrow> metric \<Rightarrow> metric" where
  "applyDefaultTags p m = fold (\<lambda>(k, v) m. if HasTag m k then m else AddTag k v m) (lf_DefaultTags p) m"

definition logfmt_Parse :: "logfmt_decoder \<Rightarrow> logfmt_parser \<Rightarrow> int \<Rightarrow> string \<Rightarrow> metric list result" where
  "logfmt_Parse dec p now b =
     (case dec b of
        (recs, Some e) \<Rightarrow> Inl (Err e)
      | (recs, None) \<Rightarrow>
          Inr (List.map (\<lambda>fs. applyDefaultTags p (New (lf_MetricName p) [] fs now None))
            (List.filter (\<lambda>fs. fs \<noteq> []) (List.map logfmt_fields recs))))"

definition logfmt_ParseLine :: "logfmt_decoder \<Rightarrow> logfmt_parser \<Rightarrow> int \<Rightarrow> string \<Rightarrow> metric result" where
  "logfmt_ParseLine dec p now s =
     res_bind (logfmt_Parse dec p now s)
       (\<lambda>ms. case ms of [] \<Rightarrow> Inl (Err ''no metric in line'') | m # _ \<Rightarrow> Inr m)"

definition logfmt_SetDefaultTags :: "strmap \<Rightarrow> logfmt_parser \<Rightarrow> logfmt_parser" where
  "logfmt_SetDefaultTags tags p = p\<lparr>lf_DefaultTags := tags\<rparr>"

lemma gomap_ok_logfmt_fields: "gomap_ok (logfmt_fields kvs)"
proof -
  have "gomap_ok fs \<Longrightarrow> gomap_ok (fold logfmt_field kvs fs)" for fs
    by (induction kvs arbitrary: fs) (simp_all add: logfmt_field_def gomap_ok_update)
  then show ?thesis by (simp add: logfmt_fields_def)
qed

text \<open>A field has the last value of its key that is not empty.\<close>

lemma map_of_logfmt_fields:
  "map_of (logfmt_fields kvs) k = map_option guess_value (map_of (rev (List.filter (\<lambda>kv. snd kv \<noteq> []) kvs)) k)"
proof -
  have "map_of (fold logfmt_field kvs fs) k
      = (case map_of (rev (List.filter (\<lambda>kv. snd kv \<noteq> []) kvs)) k of Some s \<Rightarrow> Some (guess_value s) | None \<Rightarrow> map_of fs k)" for fs
    by (induction kvs arbitrary: fs) (auto simp: logfmt_field_def map_laws map_add_def split: option.splits)
  then show ?thesis by (simp add: logfmt_fields_def split: option.split)
qed

lemma applyDefaultTags_fields [simp]: "m_fields (applyDefaultTags p m) = m_fields m"
proof -
  have "m_fields (fold (\<lambda>(k, v) m. if HasTag m k then m else AddTag k v m) kvs m) = m_fields m" for kvs
    by (induction kvs arbitrary: m) (auto simp: AddTag_def)
  then show ?thesis by (simp add: applyDefaultTags_def)
qed

lemma logfmt_metric_fields:
  assumes "logfmt_Parse dec p now b = Inr ms" "m \<in> set ms"
  obtains kvs where "kvs \<in> set (fst (dec b))"
    "\<And>k. GetField m k = map_option guess_value (map_of (rev (List.filter (\<lambda>kv. snd kv \<noteq> []) kvs)) k)"
proof -
  from assms obtain kvs where kvs: "kvs \<in> set (fst (dec b))"
    "m = applyDefaultTags p (New (lf_MetricName p) [] (logfmt_fields kvs) now None)"
    by (auto simp: logfmt_Parse_def split: prod.splits option.splits)
  have "GetField m k = map_option guess_value (map_of (rev (List.filter (\<lambda>kv. snd kv \<noteq> []) kvs)) k)" for k
    using get_field_New [OF gomap_ok_logfmt_fields, of kvs k]
    by (auto simp: kvs(2) GetField_def New_def convertible_def map_of_logfmt_fields split: option.splits)
  with kvs(1) show ?thesis by (rule that)
qed

end
