(* ===== verification/CsvParser.thy ===== *)
theory CsvParser
  imports CsvReader ValueParsers
begin

section \<open>The CSV parser\<close>

text \<open>
  \<open>plugins/parsers/csv/parser.go\<close> and its constructor in \<open>plugins/parsers/registry.go\<close>: header rows, columns, tags,
  the name and the time of a record. The clock and the parsing of times by layout are parameters.
\<close>

record csv_parser =
  cp_MetricName :: string
  cp_HeaderRowCount :: int
  cp_SkipRows :: int
  cp_SkipColumns :: int
  cp_Delimiter :: string
  cp_Comment :: string
  cp_TrimSpace :: bool
  cp_ColumnNames :: "string list"
  cp_TagColumns :: "string list"
  cp_MeasurementColumn :: string
  cp_TimestampColumn :: string
  cp_TimestampFormat :: string
  cp_DefaultTags :: strmap

definition newCSVParser :: "csv_parser \<Rightarrow> csv_parser result" where
  "newCSVParser p =
     (if cp_HeaderRowCount p = 0 \<and> cp_ColumnNames p = [] then Inl (Err ''there must be a header if `csv_column_names` is not specified'')
      else if cp_Delimiter p \<noteq> [] \<and> length (runes (cp_Delimiter p)) > 1 then Inl (Err ''csv_delimiter must be a single character'')
      else if cp_Comment p \<noteq> [] \<and> length (runes (cp_Comment p)) > 1 then Inl (Err ''csv_delimiter must be a single character'')
      else Inr p)"

text \<open>\<open>compile\<close>: the separator and the comment character of the reader.\<close>

definition csv_compile :: "csv_parser \<Rightarrow> int \<times> int" where
  "csv_compile p =
     (if cp_Delimiter p = [] then 44 else fst (decode_rune (cp_Delimiter p)),
      if cp_Comment p = [] then 0 else fst (decode_rune (cp_Comment p)))"

subsection \<open>A record\<close>

definition csv_trim :: "csv_parser \<Rightarrow> string \<Rightarrow> string" where
  "csv_trim p s = (if cp_TrimSpace p then trim_func (in_cutset '' '') s else s)"

definition slice_from :: "int \<Rightarrow> 'a list \<Rightarrow> 'a list result" where
  "slice_from k xs = (if 0 \<le> k \<and> k \<le> int (length xs) then Inr (drop (nat k) xs) else Inl (Panic ''slice bounds out of range''))"

definition csv_column :: "csv_parser \<Rightarrow> string \<times> string \<Rightarrow> strmap \<times> (string, gval) gomap \<Rightarrow> strmap \<times> (string, gval) gomap" where
  "csv_column p nv tf =
     (let v = csv_trim p (snd nv)
      in if fst nv \<in> set (cp_TagColumns p) then (AList.update (fst nv) v (fst tf), snd tf)
         else (fst tf, AList.update (fst nv) (guess_value v) (snd tf)))"

definition csv_columns :: "csv_parser \<Rightarrow> string list \<Rightarrow> strmap \<times> (string, gval) gomap" where
  "csv_columns p record = fold (csv_column p) (zip (cp_ColumnNames p) record) ([], [])"

definition csv_name :: "csv_parser \<Rightarrow> (string, gval) gomap \<Rightarrow> string" where
  "csv_name p fs = (case map_of fs (cp_MeasurementColumn p) of Some v \<Rightarrow> fmt_v (\<lambda>_. []) v | None \<Rightarrow> cp_MetricName p)"

definition csv_time :: "(string \<Rightarrow> string \<Rightarrow> int option) \<Rightarrow> int \<Rightarrow> csv_parser \<Rightarrow> (string, gval) gomap \<Rightarrow> int result" where
  "csv_time tparse now p fs =
     (if cp_TimestampColumn p = [] then Inr now
      else case map_of fs (cp_TimestampColumn p) of
        None \<Rightarrow> Inl (Err ''timestamp column could not be found'')
      | Some v \<Rightarrow>
          if cp_TimestampFormat p = [] then Inl (Err ''timestamp format must be specified'')
          else case tparse (cp_TimestampFormat p) (fmt_v (\<lambda>_. []) v) of None \<Rightarrow> Inl (Err ''parsing time'') | Some t \<Rightarrow> Inr t)"

definition parseRecord :: "(string \<Rightarrow> string \<Rightarrow> int option) \<Rightarrow> int \<Rightarrow> csv_parser \<Rightarrow> string list \<Rightarrow> metric result" where
  "parseRecord tparse now p record0 =
     res_bind (slice_from (cp_SkipColumns p) record0) (\<lambda>record.
       let tags = add_all (cp_DefaultTags p) (fst (csv_columns p record));
           fs = snd (csv_columns p record)
       in res_bind (csv_time tparse now p fs) (\<lambda>t. Inr (New (csv_name p fs) tags fs t None)))"

subsection \<open>A document\<close>

fun csv_skip_rows :: "nat \<Rightarrow> csv_parser \<Rightarrow> string \<Rightarrow> string" where
  "csv_skip_rows 0 p s = s"
| "csv_skip_rows (Suc n) p s = csv_skip_rows n p (snd (csv_Read (fst (csv_compile p)) (snd (csv_compile p)) s))"

fun add_header :: "csv_parser \<Rightarrow> string list \<Rightarrow> string list \<Rightarrow> string list" where
  "add_header p names [] = names"
| "add_header p [] (h # hs) = csv_trim p h # add_header p [] hs"
| "add_header p (n # names) (h # hs) = (n @ csv_trim p h) # add_header p names hs"

fun csv_headers :: "nat \<Rightarrow> csv_parser \<Rightarrow> string list \<Rightarrow> string \<Rightarrow> (csv_error + string list) \<times> string" where
  "csv_headers 0 p names s = (Inr names, s)"
| "csv_headers (Suc n) p names s =
     (case csv_Read (fst (csv_compile p)) (snd (csv_compile p)) s of
        (Inl e, r) \<Rightarrow> (Inl e, r)
      | (Inr h, r) \<Rightarrow> csv_headers n p (add_header p names h) r)"

definition csv_error_text :: "csv_error \<Rightarrow> go_err" where
  "csv_error_text e = Err (case e of CsvEOF \<Rightarrow> ''EOF'' | CsvErr t \<Rightarrow> t)"

text \<open>The column names are kept in the parser, so that later documents use them.\<close>

definition csv_header_part :: "csv_parser \<Rightarrow> string \<Rightarrow> (csv_parser \<times> string) result" where
  "csv_header_part p s =
     (if cp_ColumnNames p = [] then
        (case csv_headers (nat (cp_HeaderRowCount p)) p [] s of
           (Inl e, r) \<Rightarrow> Inl (csv_error_text e)
         | (Inr names, r) \<Rightarrow> res_bind (slice_from (cp_SkipColumns p) names) (\<lambda>ns. Inr (p\<lparr>cp_ColumnNames := ns\<rparr>, r)))
      else Inr (p, csv_skip_rows (nat (cp_HeaderRowCount p)) p s))"

text \<open>The metrics before a record that fails are returned with the error.\<close>

fun parse_records :: "(string \<Rightarrow> string \<Rightarrow> int option) \<Rightarrow> int \<Rightarrow> csv_parser \<Rightarrow> string list list \<Rightarrow> metric list \<times> go_err option" where
  "parse_records tparse now p [] = ([], None)"
| "parse_records tparse now p (r # rs) =
     (case parseRecord tparse now p r of
        Inl e \<Rightarrow> ([], Some e)
      | Inr m \<Rightarrow> (case parse_records tparse now p rs of (ms, e) \<Rightarrow> (m # ms, e)))"

definition csv_Parse ::
  "(string \<Rightarrow> string \<Rightarrow> int option) \<Rightarrow> int \<Rightarrow> string \<Rightarrow> csv_parser \<Rightarrow> csv_parser \<times> metric list \<times> go_err option" where
  "csv_Parse tparse now buf p =
     (case csv_header_part p (csv_skip_rows (nat (cp_SkipRows p)) p buf) of
        Inl e \<Rightarrow> (p, [], Some e)
      | Inr (p1, s) \<Rightarrow>
          (case csv_ReadAll (fst (csv_compile p)) (snd (csv_compile p)) s of
             (Inl e, r) \<Rightarrow> (p1, [], Some (Err e))
           | (Inr table, r) \<Rightarrow> (p1, parse_records tparse now p1 table)))"

definition csv_ParseLine :: "(string \<Rightarrow> string \<Rightarrow> int option) \<Rightarrow> int \<Rightarrow> string \<Rightarrow> csv_parser \<Rightarrow> metric result" where
  "csv_ParseLine tparse now line p =
     (if cp_ColumnNames p = [] then Inl (Err ''[parsers.csv] data columns must be specified'')
      else case csv_Read (fst (csv_compile p)) (snd (csv_compile p)) line of
        (Inl e, r) \<Rightarrow> Inl (csv_error_text e)
      | (Inr record, r) \<Rightarrow> parseRecord tparse now p record)"

definition csv_SetDefaultTags :: "strmap \<Rightarrow> csv_parser \<Rightarrow> csv_parser" where
  "csv_SetDefaultTags tags p = p\<lparr>cp_DefaultTags := tags\<rparr>"

subsection \<open>What a record becomes\<close>

lemma csv_columns_laws:
  "map_of (fst (csv_columns p r)) n
     = (if n \<in> set (cp_TagColumns p) then map_option (csv_trim p) (map_of (rev (zip (cp_ColumnNames p) r)) n) else None)"
  "map_of (snd (csv_columns p r)) n
     = (if n \<in> set (cp_TagColumns p) then None
        else map_option (\<lambda>s. guess_value (csv_trim p s)) (map_of (rev (zip (cp_ColumnNames p) r)) n))"
  "gomap_ok (fst (csv_columns p r))" "gomap_ok (snd (csv_columns p r))"
proof -
  have "map_of (fst (fold (csv_column p) kvs tf)) n
      = (if n \<in> set (cp_TagColumns p)
         then (case map_of (rev kvs) n of Some s \<Rightarrow> Some (csv_trim p s) | None \<Rightarrow> map_of (fst tf) n) else map_of (fst tf) n)
    \<and> map_of (snd (fold (csv_column p) kvs tf)) n
      = (if n \<in> set (cp_TagColumns p) then map_of (snd tf) n
         else (case map_of (rev kvs) n of Some s \<Rightarrow> Some (guess_value (csv_trim p s)) | None \<Rightarrow> map_of (snd tf) n))" for kvs tf
    by (induction kvs arbitrary: tf) (auto simp: csv_column_def Let_def map_laws map_add_def split: option.splits)
  then show "map_of (fst (csv_columns p r)) n
     = (if n \<in> set (cp_TagColumns p) then map_option (csv_trim p) (map_of (rev (zip (cp_ColumnNames p) r)) n) else None)"
    "map_of (snd (csv_columns p r)) n
     = (if n \<in> set (cp_TagColumns p) then None
        else map_option (\<lambda>s. guess_value (csv_trim p s)) (map_of (rev (zip (cp_ColumnNames p) r)) n))"
    by (auto simp: csv_columns_def split: option.split)
  have "gomap_ok (fst tf) \<Longrightarrow> gomap_ok (snd tf) \<Longrightarrow>
      gomap_ok (fst (fold (csv_column p) kvs tf)) \<and> gomap_ok (snd (fold (csv_column p) kvs tf))" for kvs tf
    by (induction kvs arbitrary: tf) (auto simp: csv_column_def Let_def gomap_ok_update)
  then show "gomap_ok (fst (csv_columns p r))" "gomap_ok (snd (csv_columns p r))" by (simp_all add: csv_columns_def)
qed

text \<open>The text that a row has under a column name, the last of several columns of that name.\<close>

definition csv_cell :: "csv_parser \<Rightarrow> string list \<Rightarrow> string \<Rightarrow> string option" where
  "csv_cell p row n =
     map_option (csv_trim p) (map_of (rev (zip (cp_ColumnNames p) (drop (nat (cp_SkipColumns p)) row))) n)"

definition csv_row_says :: "csv_parser \<Rightarrow> int \<Rightarrow> string list \<Rightarrow> metric \<Rightarrow> bool" where
  "csv_row_says p now row m \<longleftrightarrow>
     (\<forall>n. GetField m n = (if n \<in> set (cp_TagColumns p) then None else map_option guess_value (csv_cell p row n)))
     \<and> (\<forall>n. GetTag m n =
          (case map_of (cp_DefaultTags p) n of Some v \<Rightarrow> Some v
           | None \<Rightarrow> if n \<in> set (cp_TagColumns p) then csv_cell p row n else None))
     \<and> m_name m = (case (if cp_MeasurementColumn p \<in> set (cp_TagColumns p) then None else csv_cell p row (cp_MeasurementColumn p)) of
          Some s \<Rightarrow> fmt_v (\<lambda>_. []) (guess_value s) | None \<Rightarrow> cp_MetricName p)
     \<and> m_tm m = now"

lemma parseRecord_says:
  assumes "gomap_ok (cp_DefaultTags p)" "cp_TimestampColumn p = []" "0 \<le> cp_SkipColumns p" "cp_SkipColumns p \<le> int (length row)"
  shows "\<exists>m. parseRecord tparse now p row = Inr m \<and> csv_row_says p now row m"
proof -
  let ?r = "drop (nat (cp_SkipColumns p)) row"
  let ?tags = "add_all (cp_DefaultTags p) (fst (csv_columns p ?r))" and ?fs = "snd (csv_columns p ?r)"
  let ?m = "New (csv_name p ?fs) ?tags ?fs now None"
  have "parseRecord tparse now p row = Inr ?m"
    using assms(2-4) by (simp add: parseRecord_def slice_from_def csv_time_def Let_def)
  moreover have "GetField ?m n = convertible ?fs n" "GetTag ?m n = map_of ?tags n" for n
    using get_field_New [OF csv_columns_laws(4)] get_tag_New [OF gomap_ok_add_all [OF csv_columns_laws(3)]]
    by (simp_all add: GetField_def GetTag_def New_def)
  moreover have "m_name ?m = csv_name p ?fs" "m_tm ?m = now" by (simp_all add: New_def)
  ultimately show ?thesis
    using assms(1)
    by (auto simp: csv_row_says_def convertible_def csv_cell_def csv_columns_laws map_of_add_all csv_name_def comp_def
        split: option.split)
qed

lemma parse_records_say:
  assumes "gomap_ok (cp_DefaultTags p)" "cp_TimestampColumn p = []" "0 \<le> cp_SkipColumns p"
    "\<And>row. row \<in> set rows \<Longrightarrow> cp_SkipColumns p \<le> int (length row)"
  shows "\<exists>ms. parse_records tparse now p rows = (ms, None) \<and> list_all2 (csv_row_says p now) rows ms"
  using assms(4)
proof (induction rows)
  case (Cons row rows)
  obtain m where "parseRecord tparse now p row = Inr m" "csv_row_says p now row m"
    using parseRecord_says [OF assms(1-3), of row tparse now] Cons.prems by auto
  moreover obtain ms where "parse_records tparse now p rows = (ms, None)" "list_all2 (csv_row_says p now) rows ms"
    using Cons by auto
  ultimately show ?case by simp
qed simp

subsection \<open>Documents are tables\<close>

definition header_names :: "csv_parser \<Rightarrow> string list list \<Rightarrow> string list" where
  "header_names p hs = fold (\<lambda>h ns. add_header p ns h) hs []"

definition csv_plain_row :: "string list \<Rightarrow> bool" where
  "csv_plain_row fs \<longleftrightarrow> fs \<noteq> [] \<and> (\<forall>x \<in> set fs. return_char \<notin> set x)"

text \<open>The separator and the comment character of a parser are these ASCII characters.\<close>

definition csv_uses :: "csv_parser \<Rightarrow> char \<Rightarrow> bool" where
  "csv_uses p c \<longleftrightarrow> separator c \<and> (cp_Delimiter p = [c] \<or> cp_Delimiter p = [] \<and> c = CHR '','')
     \<and> (cp_Comment p = [] \<or> (\<exists>d. cp_Comment p = [d] \<and> separator d \<and> d \<noteq> c))"

lemma csv_usesD:
  assumes "csv_uses p c"
  obtains k where "csv_compile p = (byte_of c, k)" "k \<noteq> byte_of c" "k = 0 \<or> validDelim k" "separator c"
proof -
  have dec: "fst (decode_rune [d]) = byte_of d" if "separator d" for d using that by (simp add: separator_def)
  have sep: "separator c" using assms by (simp add: csv_uses_def)
  have comma: "fst (csv_compile p) = byte_of c"
    using assms dec [OF sep] by (auto simp: csv_uses_def csv_compile_def)
  have "snd (csv_compile p) \<noteq> byte_of c \<and> (snd (csv_compile p) = 0 \<or> validDelim (snd (csv_compile p)))"
  proof (cases "cp_Comment p = []")
    case True
    have "byte_of c \<noteq> 0" using sep by (auto simp: separator_def validDelim_def)
    with True show ?thesis by (simp add: csv_compile_def)
  next
    case False
    then obtain d where d: "cp_Comment p = [d]" "separator d" "d \<noteq> c" using assms by (auto simp: csv_uses_def)
    then have "byte_of d \<noteq> byte_of c" by (simp only: of_nat_eq_iff of_char_eq_iff not_False_eq_True)
    with d dec [OF d(2)] show ?thesis by (simp add: csv_compile_def separator_def)
  qed
  with comma sep show ?thesis by (intro that [of "snd (csv_compile p)"]) (simp_all add: prod_eq_iff)
qed

lemma csv_Read_plain:
  assumes "csv_uses p c" "csv_plain_row fs"
  shows "csv_Read (fst (csv_compile p)) (snd (csv_compile p)) (csv_row c fs @ s) = (Inr fs, s)"
proof -
  obtain k where k: "csv_compile p = (byte_of c, k)" "k \<noteq> byte_of c" "k = 0 \<or> validDelim k" "separator c"
    using csv_usesD [OF assms(1)] by blast
  show ?thesis using assms(2) by (simp only: k(1) fst_conv snd_conv csv_plain_row_def) (intro csv_Read_row [OF k(4,2,3)]; simp)
qed

lemma csv_text_Cons: "csv_text c (fs # rows) @ s = csv_row c fs @ csv_text c rows @ s"
  by (simp add: csv_text_def)

lemma csv_skip_plain:
  "csv_uses p c \<Longrightarrow> list_all csv_plain_row hs \<Longrightarrow> csv_skip_rows (length hs) p (csv_text c hs @ s) = s"
  by (induction hs) (simp_all add: csv_text_Cons csv_Read_plain, simp add: csv_text_def)

lemma csv_headers_plain:
  "csv_uses p c \<Longrightarrow> list_all csv_plain_row hs \<Longrightarrow>
   csv_headers (length hs) p ns (csv_text c hs @ s) = (Inr (fold (\<lambda>h ns. add_header p ns h) hs ns), s)"
  by (induction hs arbitrary: ns) (simp_all add: csv_text_Cons csv_Read_plain, simp add: csv_text_def)

lemma csv_header_part_plain:
  assumes "csv_uses p c" "list_all csv_plain_row hs" "length hs = nat (cp_HeaderRowCount p)" "0 \<le> cp_SkipColumns p"
    "cp_ColumnNames p = [] \<Longrightarrow> cp_SkipColumns p \<le> int (length (header_names p hs))"
    "names = (if cp_ColumnNames p = [] then drop (nat (cp_SkipColumns p)) (header_names p hs) else cp_ColumnNames p)"
  shows "csv_header_part p (csv_text c hs @ s) = Inr (p\<lparr>cp_ColumnNames := names\<rparr>, s)"
proof (cases "cp_ColumnNames p = []")
  case True
  with csv_headers_plain [OF assms(1,2), of "[]" s] assms(4-6) show ?thesis
    by (simp add: csv_header_part_def assms(3) header_names_def slice_from_def)
next
  case False
  have "p\<lparr>cp_ColumnNames := cp_ColumnNames p\<rparr> = p" by simp
  with False csv_skip_plain [OF assms(1,2), of s] assms(6) show ?thesis
    by (simp add: csv_header_part_def assms(3) del: csv_parser.surjective)
qed

text \<open>
  C39. A document is read as a table. From rows written with quoted fields, whatever characters but carriage returns the fields
  have, the parser skips the configured rows, takes the names of the columns from the header rows unless it has
  names, keeps them, and makes one metric for each row: every column outside the tag columns is a field of the type that its text
  looks like, the tag columns and the default tags are the tags, and a measurement column gives the name.
\<close>

theorem csv_document_read:
  assumes "csv_uses p c" "list_all csv_plain_row (skips @ hs @ rows)"
    "length skips = nat (cp_SkipRows p)" "length hs = nat (cp_HeaderRowCount p)"
    "gomap_ok (cp_DefaultTags p)" "cp_TimestampColumn p = []" "0 \<le> cp_SkipColumns p"
    "\<And>row. row \<in> set rows \<Longrightarrow> cp_SkipColumns p \<le> int (length row)"
    "cp_ColumnNames p = [] \<Longrightarrow> cp_SkipColumns p \<le> int (length (header_names p hs))"
    "names = (if cp_ColumnNames p = [] then drop (nat (cp_SkipColumns p)) (header_names p hs) else cp_ColumnNames p)"
  shows "\<exists>ms. csv_Parse tparse now (csv_text c (skips @ hs @ rows)) p = (p\<lparr>cp_ColumnNames := names\<rparr>, ms, None)
    \<and> list_all2 (csv_row_says (p\<lparr>cp_ColumnNames := names\<rparr>) now) rows ms"
proof -
  let ?p = "p\<lparr>cp_ColumnNames := names\<rparr>"
  obtain k where k: "csv_compile p = (byte_of c, k)" "k \<noteq> byte_of c" "k = 0 \<or> validDelim k" "separator c"
    using csv_usesD [OF assms(1)] by blast
  have parts: "list_all csv_plain_row skips" "list_all csv_plain_row hs" "list_all csv_plain_row rows" using assms(2) by simp_all
  have whole: "csv_text c (skips @ hs @ rows) = csv_text c skips @ csv_text c hs @ csv_text c rows" by (simp add: csv_text_def)
  have skip: "csv_skip_rows (nat (cp_SkipRows p)) p (csv_text c (skips @ hs @ rows)) = csv_text c hs @ csv_text c rows"
    using csv_skip_plain [OF assms(1) parts(1)] by (simp add: whole assms(3))
  have header: "csv_header_part p (csv_text c hs @ csv_text c rows) = Inr (?p, csv_text c rows)"
    by (rule csv_header_part_plain [OF assms(1) parts(2) assms(4,7,9,10)])
  have table: "csv_ReadAll (byte_of c) k (csv_text c rows) = (Inr rows, [])"
    using parts(3) by (intro csv_text_read [OF k(4,2,3)]) (simp add: list_all_iff csv_plain_row_def)
  obtain ms where "parse_records tparse now ?p rows = (ms, None)" "list_all2 (csv_row_says ?p now) rows ms"
    using parse_records_say [of ?p rows tparse now] assms(5-8) by auto
  then show ?thesis by (simp add: csv_Parse_def skip header table k(1))
qed

definition csv_plain_parser :: csv_parser where
  "csv_plain_parser = \<lparr>cp_MetricName = ''csv'', cp_HeaderRowCount = 1, cp_SkipRows = 0, cp_SkipColumns = 0, cp_Delimiter = [],
     cp_Comment = [], cp_TrimSpace = False, cp_ColumnNames = [], cp_TagColumns = [], cp_MeasurementColumn = [],
     cp_TimestampColumn = [], cp_TimestampFormat = [], cp_DefaultTags = []\<rparr>"

definition csv_demo_parser :: csv_parser where
  "csv_demo_parser = csv_plain_parser\<lparr>cp_HeaderRowCount := 2, cp_SkipRows := 1, cp_SkipColumns := 1, cp_Delimiter := '';'',
     cp_Comment := ''#'', cp_TagColumns := [''host''], cp_MeasurementColumn := ''name'', cp_DefaultTags := [(''dc'', ''eu'')]\<rparr>"

theorem csv_document_read_witness:
  "\<exists>ms. csv_Parse (\<lambda>_ _. None) 5 (csv_text CHR '';'' ([[''made by'']] @ [[''no'', ''ho'', ''na'', ''lo''], ['''', ''st'', ''me'', ''ad'']]
        @ [[''1'', ''a;b'', ''sys'', ''0.5''], [''2'', ''c'', ''sys'', ''7'']])) csv_demo_parser
      = (csv_demo_parser\<lparr>cp_ColumnNames := [''host'', ''name'', ''load'']\<rparr>, ms, None)
    \<and> list_all2 (csv_row_says (csv_demo_parser\<lparr>cp_ColumnNames := [''host'', ''name'', ''load'']\<rparr>) 5)
        [[''1'', ''a;b'', ''sys'', ''0.5''], [''2'', ''c'', ''sys'', ''7'']] ms"
proof (rule csv_document_read)
  have "separator CHR '';'' \<and> separator CHR ''#''" by (simp add: separator_def validDelim_def)
  then show "csv_uses csv_demo_parser CHR '';''"
    by (simp add: csv_uses_def csv_demo_parser_def csv_plain_parser_def)
  have names: "header_names csv_demo_parser [[''no'', ''ho'', ''na'', ''lo''], ['''', ''st'', ''me'', ''ad'']] = [''no'', ''host'', ''name'', ''load'']"
    by code_simp
  then show "[''host'', ''name'', ''load''] = (if cp_ColumnNames csv_demo_parser = []
      then drop (nat (cp_SkipColumns csv_demo_parser)) (header_names csv_demo_parser [[''no'', ''ho'', ''na'', ''lo''], ['''', ''st'', ''me'', ''ad'']])
      else cp_ColumnNames csv_demo_parser)"
    by (simp add: csv_demo_parser_def csv_plain_parser_def)
  from names show "cp_SkipColumns csv_demo_parser
      \<le> int (length (header_names csv_demo_parser [[''no'', ''ho'', ''na'', ''lo''], ['''', ''st'', ''me'', ''ad'']]))"
    by (simp add: csv_demo_parser_def csv_plain_parser_def)
qed (auto simp: csv_demo_parser_def csv_plain_parser_def csv_plain_row_def)

text \<open>
  A record with fewer columns than are skipped makes the parser panic. A time is taken from the text of the guessed value, so
  leading zeros are lost before it is parsed, and so it is with a name. The names of the first header stay for later documents.
\<close>

lemma csv_narrow_record_panics:
  "int (length record) < cp_SkipColumns p \<Longrightarrow> parseRecord tparse now p record = Inl (Panic ''slice bounds out of range'')"
  by (simp add: parseRecord_def slice_from_def)

definition clock_layout :: "string \<Rightarrow> string \<Rightarrow> int option" where
  "clock_layout f s = (if f = ''1504'' \<and> length s = 4 then map_option sint (parse_int s) else None)"

lemma csv_time_rewritten:
  "parseRecord clock_layout 0 (csv_plain_parser\<lparr>cp_ColumnNames := [''at''], cp_TimestampColumn := ''at'', cp_TimestampFormat := ''1504''\<rparr>)
     [''1015''] \<noteq> Inl (Err ''parsing time'')"
  "parseRecord clock_layout 0 (csv_plain_parser\<lparr>cp_ColumnNames := [''at''], cp_TimestampColumn := ''at'', cp_TimestampFormat := ''1504''\<rparr>)
     [''0915''] = Inl (Err ''parsing time'')"
  by code_simp+

lemma csv_name_rewritten:
  "map_option m_name (case parseRecord (\<lambda>_ _. None) 0 (csv_plain_parser\<lparr>cp_ColumnNames := [''id''], cp_MeasurementColumn := ''id''\<rparr>) [''007'']
     of Inr m \<Rightarrow> Some m | Inl _ \<Rightarrow> None) = Some ''7''"
  by code_simp

lemma csv_header_stays:
  "cp_ColumnNames (fst (csv_Parse (\<lambda>_ _. None) 0 (''b'' @ [newline] @ ''2'')
     (fst (csv_Parse (\<lambda>_ _. None) 0 (''a'' @ [newline] @ ''1'') csv_plain_parser)))) = [''a'']"
  by code_simp

end
