(* ===== verification/JsonParser.thy ===== *)
theory JsonParser
  imports JsonSerializer
begin

section \<open>The JSON parser\<close>

text \<open>
  \<open>plugins/parsers/json/parser.go\<close>: objects are flattened to fields, some of which become tags, the
  name or the time. The parser keeps the name that it read last. A decoded value is one of the six
  JSON kinds, so the flattener's error for other types cannot occur. Members are visited in the
  order of their list. Parameters: \<open>query\<close> is \<open>gjson.GetBytes\<close> (the raw result and whether it is an object
  or array), \<open>tparse\<close> is \<open>time.Parse\<close>, \<open>fix_year\<close> adds the current year to a time of the year 0,
  \<open>conv\<close> is the conversion of floats out of range, \<open>now\<close> the clock.
\<close>

subsection \<open>Flattening\<close>

abbreviation trim_bars :: "string \<Rightarrow> string" where
  "trim_bars \<equiv> trim_func (in_cutset ''_'')"

definition sub_name :: "string \<Rightarrow> string \<Rightarrow> string" where
  "sub_name fieldname k = fieldname @ ''_'' @ k @ ''_''"

fun FullFlattenJSON :: "bool \<Rightarrow> bool \<Rightarrow> string \<Rightarrow> f64 json \<Rightarrow> (string, gval) gomap \<Rightarrow> (string, gval) gomap"
and flatten_members :: "bool \<Rightarrow> bool \<Rightarrow> string \<Rightarrow> (string \<times> f64 json) list \<Rightarrow> (string, gval) gomap \<Rightarrow> (string, gval) gomap"
and flatten_items :: "bool \<Rightarrow> bool \<Rightarrow> string \<Rightarrow> nat \<Rightarrow> f64 json list \<Rightarrow> (string, gval) gomap \<Rightarrow> (string, gval) gomap" where
  "FullFlattenJSON cs cb name (JObject kvs) fs = flatten_members cs cb (trim_bars name) kvs fs"
| "FullFlattenJSON cs cb name (JArray vs) fs = flatten_items cs cb (trim_bars name) 0 vs fs"
| "FullFlattenJSON cs cb name (JNumber x) fs = AList.update (trim_bars name) (GFloat64 x) fs"
| "FullFlattenJSON cs cb name (JString s) fs = (if cs then AList.update (trim_bars name) (GString s) fs else fs)"
| "FullFlattenJSON cs cb name (JBool b) fs = (if cb then AList.update (trim_bars name) (GBool b) fs else fs)"
| "FullFlattenJSON cs cb name JNull fs = fs"
| "flatten_members cs cb name [] fs = fs"
| "flatten_members cs cb name ((k, v) # kvs) fs =
     flatten_members cs cb name kvs (FullFlattenJSON cs cb (sub_name name k) v fs)"
| "flatten_items cs cb name i [] fs = fs"
| "flatten_items cs cb name i (v # vs) fs =
     flatten_items cs cb name (Suc i) vs (FullFlattenJSON cs cb (sub_name name (itoa (int i))) v fs)"

definition FlattenJSON :: "string \<Rightarrow> f64 json \<Rightarrow> (string, gval) gomap \<Rightarrow> (string, gval) gomap" where
  "FlattenJSON name v fs = FullFlattenJSON False False name v fs"

subsection \<open>Times\<close>

text \<open>\<open>strings.EqualFold\<close> with an ASCII text: besides the case of letters, two other runes fold to \<open>s\<close> and \<open>k\<close>.\<close>

definition fold_rune :: "int \<Rightarrow> int" where
  "fold_rune r = (if 65 \<le> r \<and> r \<le> 90 then r + 32 else if r = 383 then 115 else if r = 8490 then 107 else r)"

definition equal_fold :: "string \<Rightarrow> string \<Rightarrow> bool" where
  "equal_fold s t \<longleftrightarrow> List.map (fold_rune \<circ> fst) (runes s) = List.map (fold_rune \<circ> fst) (runes t)"

definition split_fraction :: "string \<Rightarrow> string \<times> string option" where
  "split_fraction s =
     (let p = (\<lambda>c. c \<noteq> CHR ''.'' \<and> c \<noteq> CHR '','')
      in (takeWhile p s, case dropWhile p s of [] \<Rightarrow> None | _ # r \<Rightarrow> Some r))"

definition fraction_nanos :: "string \<Rightarrow> i64 option" where
  "fraction_nanos fr = (let d = take 9 fr in parse_int (d @ replicate (9 - length d) CHR ''0''))"

definition unix_parts :: "(f64 \<Rightarrow> i64) \<Rightarrow> gval \<Rightarrow> (int \<times> int) option" where
  "unix_parts conv v =
     (case v of
        GString s \<Rightarrow>
          (case split_fraction s of
             (ip, None) \<Rightarrow> map_option (\<lambda>i. (sint i, 0)) (parse_int ip)
           | (ip, Some fr) \<Rightarrow>
               Option.bind (parse_int ip) (\<lambda>i. map_option (\<lambda>n. (sint i, sint n)) (fraction_nanos fr)))
      | GFloat64 x \<Rightarrow>
          (let ip = f64_of_int (f_trunc x); fr = f_sub x ip
           in Some (sint (f64_to_i64 conv ip), sint (f64_to_i64 conv (f_mul fr (f64_of_int (10 ^ 9))))))
      | _ \<Rightarrow> None)"

definition parseUnixTimestamp :: "(f64 \<Rightarrow> i64) \<Rightarrow> gval \<Rightarrow> string \<Rightarrow> int option" where
  "parseUnixTimestamp conv v format =
     (case unix_parts conv v of None \<Rightarrow> None
      | Some (i, fr) \<Rightarrow>
          if equal_fold format ''unix'' then Some (i * 10 ^ 9 + fr)
          else if equal_fold format ''unix_ms'' then Some (i sdiv 1000 * 10 ^ 9 + i smod 1000 * 10 ^ 6)
          else None)"

subsection \<open>Objects to metrics\<close>

record json_parser =
  jp_MetricName :: string
  jp_TagKeys :: "string list"
  jp_StringFields :: "string list"
  jp_JSONNameKey :: string
  jp_JSONQuery :: string
  jp_JSONTimeKey :: string
  jp_JSONTimeFormat :: string
  jp_DefaultTags :: strmap

record json_lib =
  jl_query :: "string \<Rightarrow> string \<Rightarrow> string \<times> bool"
  jl_tparse :: "string \<Rightarrow> string \<Rightarrow> int option"
  jl_fix_year :: "int \<Rightarrow> int \<Rightarrow> int"
  jl_conv :: "f64 \<Rightarrow> i64"

definition tag_of_field :: "string \<Rightarrow> strmap \<times> (string, gval) gomap \<Rightarrow> strmap \<times> (string, gval) gomap" where
  "tag_of_field name tf =
     (case map_of (snd tf) name of
        Some (GString v) \<Rightarrow> (AList.update name v (fst tf), AList.delete name (snd tf))
      | Some (GBool v) \<Rightarrow> (AList.update name (format_bool v) (fst tf), AList.delete name (snd tf))
      | Some (GFloat64 v) \<Rightarrow> (AList.update name (format_float v) (fst tf), AList.delete name (snd tf))
      | _ \<Rightarrow> tf)"

definition keeps_field :: "string list \<Rightarrow> string \<times> gval \<Rightarrow> bool" where
  "keeps_field strs kv \<longleftrightarrow> fst kv \<in> set strs \<or> (case snd kv of GString _ \<Rightarrow> False | GBool _ \<Rightarrow> False | _ \<Rightarrow> True)"

definition switchFieldToTag :: "json_parser \<Rightarrow> strmap \<Rightarrow> (string, gval) gomap \<Rightarrow> strmap \<times> (string, gval) gomap" where
  "switchFieldToTag p tags fs =
     (case fold tag_of_field (jp_TagKeys p) (tags, fs) of
        (tags1, fs1) \<Rightarrow> (tags1, List.filter (keeps_field (jp_StringFields p)) fs1))"

definition object_time :: "json_lib \<Rightarrow> int \<Rightarrow> json_parser \<Rightarrow> (string, gval) gomap \<Rightarrow> int result" where
  "object_time lib now p fs =
     (if jp_JSONTimeKey p = [] then Inr now
      else if jp_JSONTimeFormat p = [] then Inl (Err ''json_time_format is required'')
      else case map_of fs (jp_JSONTimeKey p) of
        None \<Rightarrow> Inl (Err ''JSON time key could not be found'')
      | Some v \<Rightarrow>
          (case (if equal_fold (jp_JSONTimeFormat p) ''unix'' \<or> equal_fold (jp_JSONTimeFormat p) ''unix_ms''
                 then parseUnixTimestamp (jl_conv lib) v (jp_JSONTimeFormat p)
                 else case v of GString s \<Rightarrow> jl_tparse lib (jp_JSONTimeFormat p) s | _ \<Rightarrow> None) of
             None \<Rightarrow> Inl (Err ''time'')
           | Some t \<Rightarrow> Inr (jl_fix_year lib now t)))"

definition object_name :: "json_parser \<Rightarrow> (string, gval) gomap \<Rightarrow> json_parser" where
  "object_name p fs =
     (if jp_JSONNameKey p = [] then p
      else case map_of fs (jp_JSONNameKey p) of Some (GString n) \<Rightarrow> p\<lparr>jp_MetricName := n\<rparr> | _ \<Rightarrow> p)"

definition parseObject :: "json_lib \<Rightarrow> int \<Rightarrow> f64 json \<Rightarrow> json_parser \<Rightarrow> json_parser \<times> metric result" where
  "parseObject lib now obj p0 =
     (let fs = FullFlattenJSON True True [] obj [];
          p = object_name p0 fs
      in case object_time lib now p fs of
           Inl e \<Rightarrow> (p, Inl e)
         | Inr t \<Rightarrow>
             (case switchFieldToTag p (add_all (jp_DefaultTags p) []) fs of
                (tags, nFields) \<Rightarrow> (p, Inr (New (jp_MetricName p) tags nFields t None))))"

fun parse_objects :: "json_lib \<Rightarrow> int \<Rightarrow> f64 json list \<Rightarrow> json_parser \<Rightarrow> json_parser \<times> metric list result" where
  "parse_objects lib now [] p = (p, Inr [])"
| "parse_objects lib now (v # vs) p =
     (case parseObject lib now v p of
        (p1, Inl e) \<Rightarrow> (p1, Inl e)
      | (p1, Inr m) \<Rightarrow> (case parse_objects lib now vs p1 of
          (p2, Inl e) \<Rightarrow> (p2, Inl e)
        | (p2, Inr ms) \<Rightarrow> (p2, Inr (m # ms))))"

text \<open>Decoding into \<open>map[string]interface{}\<close>: an object, or null for the nil map.\<close>

definition as_object :: "f64 json \<Rightarrow> f64 json option" where
  "as_object v = (case v of JObject kvs \<Rightarrow> Some v | JNull \<Rightarrow> Some (JObject []) | _ \<Rightarrow> None)"

definition as_objects :: "f64 json \<Rightarrow> f64 json list option" where
  "as_objects v =
     (case v of JNull \<Rightarrow> Some []
      | JArray vs \<Rightarrow> if list_all (\<lambda>v. as_object v \<noteq> None) vs then Some (List.map (the \<circ> as_object) vs) else None
      | _ \<Rightarrow> None)"

definition isarray :: "string \<Rightarrow> bool" where
  "isarray buf \<longleftrightarrow> CHR ''['' \<in> set buf \<and> CHR ''{'' \<in> set buf
     \<and> length (takeWhile (\<lambda>c. c \<noteq> CHR ''['') buf) < length (takeWhile (\<lambda>c. c \<noteq> CHR ''{'') buf)"

definition utf8BOM :: string where
  "utf8BOM = [CHR 0xEF, CHR 0xBB, CHR 0xBF]"

definition parseArray :: "json_lib \<Rightarrow> int \<Rightarrow> string \<Rightarrow> json_parser \<Rightarrow> json_parser \<times> metric list result" where
  "parseArray lib now buf p =
     (case Option.bind (unmarshal buf) as_objects of
        None \<Rightarrow> (p, Inl (Err ''unable to parse out as JSON Array''))
      | Some vs \<Rightarrow> parse_objects lib now vs p)"

definition parse_document :: "json_lib \<Rightarrow> int \<Rightarrow> string \<Rightarrow> json_parser \<Rightarrow> json_parser \<times> metric list result" where
  "parse_document lib now buf0 p =
     (let buf = trim_prefix (trim_space buf0) utf8BOM in
      if buf = [] then (p, Inr [])
      else if \<not> isarray buf then
        (case Option.bind (unmarshal buf) as_object of
           None \<Rightarrow> (p, Inl (Err ''unable to parse out as JSON''))
         | Some v \<Rightarrow> (case parseObject lib now v p of (p1, Inl e) \<Rightarrow> (p1, Inl e) | (p1, Inr m) \<Rightarrow> (p1, Inr [m])))
      else parseArray lib now buf p)"

definition json_Parse :: "json_lib \<Rightarrow> int \<Rightarrow> string \<Rightarrow> json_parser \<Rightarrow> json_parser \<times> metric list result" where
  "json_Parse lib now buf p =
     (if jp_JSONQuery p = [] then parse_document lib now buf p
      else case jl_query lib buf (jp_JSONQuery p) of (raw, ok) \<Rightarrow>
        if ok then parse_document lib now raw p
        else (p, Inl (Err ''Query path must lead to a JSON object or array of objects'')))"

definition json_ParseLine :: "json_lib \<Rightarrow> int \<Rightarrow> string \<Rightarrow> json_parser \<Rightarrow> json_parser \<times> metric result" where
  "json_ParseLine lib now line p =
     (case json_Parse lib now (line @ [CHR 0x0A]) p of
        (p1, Inl e) \<Rightarrow> (p1, Inl e)
      | (p1, Inr []) \<Rightarrow> (p1, Inl (Err ''can not parse the line''))
      | (p1, Inr (m # _)) \<Rightarrow> (p1, Inr m))"

definition json_SetDefaultTags :: "strmap \<Rightarrow> json_parser \<Rightarrow> json_parser" where
  "json_SetDefaultTags tags p = p\<lparr>jp_DefaultTags := tags\<rparr>"

subsection \<open>Flattening as a list of leaves\<close>

fun leaves :: "string \<Rightarrow> f64 json \<Rightarrow> (string \<times> gval) list"
and member_leaves :: "string \<Rightarrow> (string \<times> f64 json) list \<Rightarrow> (string \<times> gval) list"
and item_leaves :: "string \<Rightarrow> nat \<Rightarrow> f64 json list \<Rightarrow> (string \<times> gval) list" where
  "leaves name (JObject kvs) = member_leaves (trim_bars name) kvs"
| "leaves name (JArray vs) = item_leaves (trim_bars name) 0 vs"
| "leaves name (JNumber x) = [(trim_bars name, GFloat64 x)]"
| "leaves name (JString s) = [(trim_bars name, GString s)]"
| "leaves name (JBool b) = [(trim_bars name, GBool b)]"
| "leaves name JNull = []"
| "member_leaves name [] = []"
| "member_leaves name ((k, v) # kvs) = leaves (sub_name name k) v @ member_leaves name kvs"
| "item_leaves name i [] = []"
| "item_leaves name i (v # vs) = leaves (sub_name name (itoa (int i))) v @ item_leaves name (Suc i) vs"

definition numeric :: "string \<times> gval \<Rightarrow> bool" where
  "numeric kv \<longleftrightarrow> (case snd kv of GFloat64 _ \<Rightarrow> True | _ \<Rightarrow> False)"


lemma FlattenJSON_leaves:
  "FullFlattenJSON False False name v fs = fold (\<lambda>(k, x). AList.update k x) (List.filter numeric (leaves name v)) fs"
  "flatten_members False False name kvs fs = fold (\<lambda>(k, x). AList.update k x) (List.filter numeric (member_leaves name kvs)) fs"
  "flatten_items False False name i vs fs = fold (\<lambda>(k, x). AList.update k x) (List.filter numeric (item_leaves name i vs)) fs"
  by (induction name v and name kvs and name i vs arbitrary: fs and fs and fs rule: leaves_member_leaves_item_leaves.induct)
    (simp_all add: numeric_def)

subsection \<open>Names of leaves\<close>







subsection \<open>Integers as JSON numbers\<close>

lemma itoa_shape:
  obtains ds where "itoa i = (if i < 0 then ''-'' else '''') @ ds" "ds = digits_of \<bar>i\<bar>" "ds \<noteq> []" "list_all is_digit ds"
    "digits_value 0 ds = \<bar>i\<bar>" "hd ds = CHR ''0'' \<longrightarrow> length ds = 1"
proof
  show "itoa i = (if i < 0 then ''-'' else '''') @ digits_of \<bar>i\<bar>" by (simp add: itoa_def)
  show "digits_of \<bar>i\<bar> \<noteq> []" "list_all is_digit (digits_of \<bar>i\<bar>)" "digits_value 0 (digits_of \<bar>i\<bar>) = \<bar>i\<bar>"
    using digits_of_digits [of "\<bar>i\<bar>"] digits_value_digits_of [of "\<bar>i\<bar>"] by simp_all
  show "hd (digits_of \<bar>i\<bar>) = CHR ''0'' \<longrightarrow> length (digits_of \<bar>i\<bar>) = 1"
    using digits_of_no_zero [of "\<bar>i\<bar>"] by (cases "i = 0") (auto simp: digits_of.simps [of 0])
qed simp

lemma all_digits_takeWhile: "list_all is_digit ds \<Longrightarrow> takeWhile is_digit ds = ds \<and> dropWhile is_digit ds = []"
  by (simp add: list_all_iff)

lemma json_number_itoa [simp]: "json_number (itoa i)"
proof -
  obtain ds where ds: "itoa i = (if i < 0 then ''-'' else '''') @ ds" "ds \<noteq> []" "list_all is_digit ds" "hd ds = CHR ''0'' \<longrightarrow> length ds = 1"
    by (rule itoa_shape [of i])
  then have "hd ds \<noteq> CHR ''-''" using digit_not_minus [of "hd ds"] by (cases ds) auto
  then have s: "(if itoa i \<noteq> [] \<and> hd (itoa i) = CHR ''-'' then tl (itoa i) else itoa i) = ds"
    using ds(1,2) by (cases "i < 0") auto
  show ?thesis
    unfolding json_number_def Let_def s conjunct1 [OF all_digits_takeWhile [OF ds(3)]] conjunct2 [OF all_digits_takeWhile [OF ds(3)]]
    using ds(2,4) by (simp add: number_tail_def)
qed




subsection \<open>A serialized metric is parsed back\<close>

















subsection \<open>Tags of a parsed object\<close>










definition parser_for :: "string list \<Rightarrow> json_parser" where
  "parser_for ks =
     \<lparr>jp_MetricName = [], jp_TagKeys = List.map ((@) ''tags_'') ks, jp_StringFields = [], jp_JSONNameKey = ''name'',
      jp_JSONQuery = [], jp_JSONTimeKey = ''timestamp'', jp_JSONTimeFormat = ''unix'', jp_DefaultTags = []\<rparr>"




definition demo_json_lib :: json_lib where
  "demo_json_lib = \<lparr>jl_query = (\<lambda>_ _. ([], False)), jl_tparse = (\<lambda>_ _. None), jl_fix_year = (\<lambda>_ t. t), jl_conv = (\<lambda>_. 0)\<rparr>"


subsection \<open>What is lost\<close>

definition plain_parser :: json_parser where
  "plain_parser = (parser_for [])\<lparr>jp_MetricName := ''json'', jp_JSONTimeKey := []\<rparr>"

text \<open>An object without a name takes the name of the one before it, also of another buffer.\<close>

definition named_then_not :: string where
  "named_then_not = marshal (JArray [JObject [(''name'', JString ''disk'')], JObject [(''x'', JNumber ''1'')]])"

lemma json_name_sticks:
  "case snd (json_Parse demo_json_lib 0 named_then_not plain_parser) of Inr ms \<Rightarrow> List.map m_name ms = [''disk'', ''disk''] | Inl _ \<Rightarrow> False"
  by code_simp

text \<open>Keys that differ in underscores at their end are one field.\<close>

lemma json_bars_collide:
  "keys_of (FullFlattenJSON True True [] (JObject [(''a'', JNumber f_zero), (''a_'', JNumber f_zero), (''_a'', JNumber f_zero)]) []) = [''a'']"
  by code_simp

text \<open>The fraction of a negative time counts forward.\<close>

lemma negative_fraction: "unix_parts (\<lambda>_. 0) (GString ''-1.5'') = Some (-1, 500000000)"
  by code_simp

text \<open>An array without an object in it is decoded as an object, which fails.\<close>

lemma empty_array_fails: "snd (json_Parse demo_json_lib 0 ''[]'' plain_parser) = Inl (Err ''unable to parse out as JSON'')"
  by code_simp

end
