(* ===== verification/Templating.thy ===== *)
theory Templating
  imports GoStrings
begin

section \<open>Templates for dotted names\<close>

text \<open>
  \<open>internal/templating\<close>: a template maps the parts of a dotted name to a measurement, tags and a
  field; an engine picks the template of a name with a tree of filters. The tree's nodes are a
  datatype, since no node is shared. A node's children are sorted by value with the wildcard last;
  that order is the type class instance of \<open>wild\<close>. Error messages are shortened.
\<close>

subsection \<open>One template\<close>

record tmpl =
  t_separator :: string
  t_parts :: "string list"
  t_defaultTags :: strmap
  t_greedyField :: bool
  t_greedyMeasurement :: bool

definition NewTemplate :: "string \<Rightarrow> string \<Rightarrow> strmap \<Rightarrow> tmpl result" where
  "NewTemplate separator pattern defaultTags =
     (let parts = split pattern separator
      in if list_ex (\<lambda>p. has_prefix p ''measurement'') parts then
           Inr \<lparr>t_separator = separator, t_parts = parts, t_defaultTags = defaultTags,
                t_greedyField = list_ex (\<lambda>p. p = ''field*'') parts,
                t_greedyMeasurement = list_ex (\<lambda>p. p = ''measurement*'') parts\<rparr>
         else Inl (Err ''no measurement specified for template''))"

definition NewDefaultTemplateWithPattern :: "string \<Rightarrow> tmpl result" where
  "NewDefaultTemplateWithPattern pattern = NewTemplate ''.'' pattern []"

record applied =
  ap_measurement :: "string list"
  ap_tags :: "(string, string list) gomap"
  ap_field :: "string list"

definition append_tag :: "string \<Rightarrow> string \<Rightarrow> (string, string list) gomap \<Rightarrow> (string, string list) gomap" where
  "append_tag k v tags = AList.update k ((case map_of tags k of None \<Rightarrow> [] | Some vs \<Rightarrow> vs) @ [v]) tags"

text \<open>
  The loop over the template's parts, with the name's parts from the same position on. Its
  \<open>break\<close>s leave the switch only, so the parts after a greedy one still count.
\<close>

fun apply_parts :: "string list \<Rightarrow> string list \<Rightarrow> applied \<Rightarrow> applied" where
  "apply_parts (p # ps) (f # fs) r =
     apply_parts ps fs
       (if p = [] then r
        else if p = ''measurement'' then r\<lparr>ap_measurement := ap_measurement r @ [f]\<rparr>
        else if p = ''field'' then r\<lparr>ap_field := ap_field r @ [f]\<rparr>
        else if p = ''field*'' then r\<lparr>ap_field := ap_field r @ f # fs\<rparr>
        else if p = ''measurement*'' then r\<lparr>ap_measurement := ap_measurement r @ f # fs\<rparr>
        else r\<lparr>ap_tags := append_tag p f (ap_tags r)\<rparr>)"
| "apply_parts ps fs r = r"

definition Template_Apply :: "tmpl \<Rightarrow> string \<Rightarrow> string \<Rightarrow> (string \<times> strmap \<times> string) result" where
  "Template_Apply t line joiner =
     (let fields = split line (t_separator t);
          tags0 = fold (\<lambda>(k, v) tags. append_tag k v tags) (t_defaultTags t) [];
          greedyMeasurement = (t_greedyMeasurement t \<or> list_ex (\<lambda>p. p = ''measurement*'') (t_parts t));
          greedyField = (t_greedyField t \<or> list_ex (\<lambda>p. p = ''field*'') (t_parts t))
      in if greedyField \<and> greedyMeasurement then Inl (Err ''either field* or measurement*'')
         else let r = apply_parts (t_parts t) fields \<lparr>ap_measurement = [], ap_tags = tags0, ap_field = []\<rparr>
              in Inr (join joiner (ap_measurement r),
                      List.map (\<lambda>(k, vs). (k, join joiner vs)) (ap_tags r),
                      join joiner (ap_field r)))"

subsection \<open>The filter tree\<close>

datatype wild = Wild (wild_value: string)

text \<open>\<open>Less\<close> of two values, with the star last.\<close>

definition wild_Less :: "string \<Rightarrow> string \<Rightarrow> bool" where
  "wild_Less a b \<longleftrightarrow> (if a = ''*'' \<and> b \<noteq> ''*'' then False
     else if a \<noteq> ''*'' \<and> b = ''*'' then True
     else a < b)"

instantiation wild :: linorder
begin

definition less_wild :: "wild \<Rightarrow> wild \<Rightarrow> bool" where
  "less_wild a b \<longleftrightarrow> wild_Less (wild_value a) (wild_value b)"

definition less_eq_wild :: "wild \<Rightarrow> wild \<Rightarrow> bool" where
  "less_eq_wild a b \<longleftrightarrow> \<not> wild_Less (wild_value b) (wild_value a)"

instance
proof
  fix x y z :: wild
  show "x < y \<longleftrightarrow> x \<le> y \<and> \<not> y \<le> x"
    by (cases x; cases y) (auto simp: less_wild_def less_eq_wild_def wild_Less_def)
  show "x \<le> x" by (simp add: less_eq_wild_def wild_Less_def)
  show "x \<le> y \<Longrightarrow> y \<le> z \<Longrightarrow> x \<le> z"
    by (auto simp: less_eq_wild_def wild_Less_def split: if_splits)
  show "x \<le> y \<Longrightarrow> y \<le> x \<Longrightarrow> x = y"
    by (cases x; cases y) (auto simp: less_eq_wild_def wild_Less_def split: if_splits)
  show "x \<le> y \<or> y \<le> x" by (auto simp: less_eq_wild_def wild_Less_def)
qed

end

datatype node = Node (n_separator: string) (n_value: string) (n_children: "node list") (n_template: "tmpl option")

abbreviation node_key :: "node \<Rightarrow> wild" where
  "node_key n \<equiv> Wild (n_value n)"

text \<open>The first child with a value.\<close>

fun upd_child :: "string \<Rightarrow> (node \<Rightarrow> node) \<Rightarrow> node list \<Rightarrow> node list" where
  "upd_child v f [] = []"
| "upd_child v f (c # cs) = (if n_value c = v then f c # cs else c # upd_child v f cs)"

fun recursiveInsert :: "string list \<Rightarrow> tmpl \<Rightarrow> node \<Rightarrow> node" where
  "recursiveInsert [] t (Node s v cs _) = Node s v cs (Some t)"
| "recursiveInsert (x # xs) t (Node s v cs tm) =
     (if list_ex (\<lambda>c. n_value c = x) cs then Node s v (upd_child x (recursiveInsert xs t) cs) tm
      else Node s v (sort_key node_key (cs @ [recursiveInsert xs t (Node [] x [] None)])) tm)"

definition node_insert :: "string \<Rightarrow> tmpl \<Rightarrow> node \<Rightarrow> node" where
  "node_insert flt t n =
     (case n of Node _ v cs tm \<Rightarrow> recursiveInsert (split flt (t_separator t)) t (Node (t_separator t) v cs tm))"

fun recursiveSearch :: "string list \<Rightarrow> node \<Rightarrow> tmpl option" where
  "recursiveSearch [] n = n_template n"
| "recursiveSearch (x # xs) n =
     (let cs = n_children n in
      if cs = [] then n_template n
      else
        let len = (if n_value (last cs) = ''*'' then length cs - 1 else length cs);
            i = search_between (\<lambda>i. n_value (cs ! i) \<ge> x) 0 len
        in if i < length cs \<and> n_value (cs ! i) = x then recursiveSearch xs (cs ! i)
           else if n_value (last cs) = ''*'' then recursiveSearch xs (last cs)
           else n_template n)"

definition node_search :: "string \<Rightarrow> node \<Rightarrow> tmpl option" where
  "node_search line n = recursiveSearch (split line (n_separator n)) n"

subsection \<open>Matcher and engine\<close>

record matcher =
  ma_root :: node
  ma_defaultTemplate :: tmpl

definition newMatcher :: "tmpl \<Rightarrow> matcher" where
  "newMatcher d = \<lparr>ma_root = Node [] [] [] None, ma_defaultTemplate = d\<rparr>"

definition matcher_add :: "string \<Rightarrow> tmpl \<Rightarrow> matcher \<Rightarrow> matcher" where
  "matcher_add flt t m =
     (if flt = [] then m\<lparr>ma_defaultTemplate := t,
          ma_root := (case ma_root m of Node _ v cs tm \<Rightarrow> Node (t_separator t) v cs tm)\<rparr>
      else m\<lparr>ma_root := node_insert flt t (ma_root m)\<rparr>)"

definition matcher_match :: "string \<Rightarrow> matcher \<Rightarrow> tmpl" where
  "matcher_match line m = (case node_search line (ma_root m) of Some t \<Rightarrow> t | None \<Rightarrow> ma_defaultTemplate m)"

record template_spec =
  sp_separator :: string
  sp_filter :: string
  sp_template :: string
  sp_tagstring :: string

text \<open>A tag without an equals sign has one part; the second is then out of range.\<close>

fun spec_tags :: "string list \<Rightarrow> strmap \<Rightarrow> strmap result" where
  "spec_tags [] tags = Inr tags"
| "spec_tags (kv # kvs) tags =
     (case split kv ''='' of
        p0 # p1 # _ \<Rightarrow> spec_tags kvs (AList.update p0 p1 tags)
      | _ \<Rightarrow> Inl (Panic ''index out of range''))"

definition addSpec :: "template_spec \<Rightarrow> matcher \<Rightarrow> matcher result" where
  "addSpec sp m =
     res_bind (if sp_tagstring sp \<noteq> [] then spec_tags (split (sp_tagstring sp) '','') [] else Inr []) (\<lambda>tags.
     res_bind (NewTemplate (sp_separator sp) (sp_template sp) tags) (\<lambda>t.
       Inr (matcher_add (sp_filter sp) t m)))"

text \<open>Format is [separator] [filter] template [tag1=value1,tag2=value2].\<close>

definition parse_spec :: "string \<Rightarrow> template_spec option" where
  "parse_spec pattern =
     (let parts = fields_of pattern; n = length parts;
          base = \<lparr>sp_separator = ''.'', sp_filter = [], sp_template = [], sp_tagstring = []\<rparr>
      in if n < 1 then None
         else if n = 1 then Some (base\<lparr>sp_template := pattern\<rparr>)
         else if n = 4 then Some \<lparr>sp_separator = parts ! 0, sp_filter = parts ! 1, sp_template = parts ! 2, sp_tagstring = parts ! 3\<rparr>
         else if contains (parts ! (n - 1)) ''='' then
           Some (base\<lparr>sp_tagstring := parts ! (n - 1), sp_template := parts ! (n - 2),
                      sp_filter := (if n = 3 then parts ! 0 else [])\<rparr>)
         else if n = 2 then Some (base\<lparr>sp_template := parts ! (n - 1), sp_filter := parts ! 0\<rparr>)
         else Some (base\<lparr>sp_template := parts ! (n - 1), sp_separator := parts ! 0, sp_filter := parts ! 1\<rparr>))"

text \<open>
  The order of specifications: those without a filter first, then by the number of template parts.
  Go's sort may leave equal ones in any order; the model keeps them in the order given.
\<close>

definition spec_less :: "template_spec \<Rightarrow> template_spec \<Rightarrow> bool" where
  "spec_less j k =
     (if sp_filter j = [] \<and> sp_filter k = [] then
        length (split (sp_template j) (sp_separator j)) < length (split (sp_template k) (sp_separator k))
      else if sp_filter j = [] then True
      else if sp_filter k = [] then False
      else length (split (sp_template j) (sp_separator j)) < length (split (sp_template k) (sp_separator k)))"

fun insert_spec :: "template_spec \<Rightarrow> template_spec list \<Rightarrow> template_spec list" where
  "insert_spec x [] = [x]"
| "insert_spec x (y # ys) = (if spec_less y x then y # insert_spec x ys else x # y # ys)"

definition parseTemplateSpecs :: "string list \<Rightarrow> template_spec list" where
  "parseTemplateSpecs templates =
     foldr insert_spec (concat (List.map (\<lambda>p. case parse_spec p of None \<Rightarrow> [] | Some sp \<Rightarrow> [sp]) templates)) []"

record engine =
  en_joiner :: string
  en_matcher :: matcher

fun add_specs :: "template_spec list \<Rightarrow> matcher \<Rightarrow> matcher result" where
  "add_specs [] m = Inr m"
| "add_specs (sp # sps) m = res_bind (addSpec sp m) (add_specs sps)"

definition NewEngine :: "string \<Rightarrow> tmpl \<Rightarrow> string list \<Rightarrow> engine result" where
  "NewEngine joiner d templates =
     res_bind (add_specs (parseTemplateSpecs templates) (newMatcher d)) (\<lambda>m.
       Inr \<lparr>en_joiner = joiner, en_matcher = m\<rparr>)"

definition Engine_Apply :: "engine \<Rightarrow> string \<Rightarrow> (string \<times> strmap \<times> string) result" where
  "Engine_Apply e line = Template_Apply (matcher_match line (en_matcher e)) line (en_joiner e)"

subsection \<open>The tree finds what was inserted\<close>

text \<open>Well-formed: the children strictly sorted, at every node.\<close>

fun node_ok :: "node \<Rightarrow> bool" where
  "node_ok (Node s v cs tm) = (sorted_wrt (<) (List.map node_key cs) \<and> list_all node_ok cs)"

text \<open>The reference search: by linear lookup, exact child first, then the wildcard.\<close>

definition child :: "string \<Rightarrow> node \<Rightarrow> node option" where
  "child x n = List.find (\<lambda>c. n_value c = x) (n_children n)"

fun walk :: "string list \<Rightarrow> node \<Rightarrow> tmpl option" where
  "walk [] n = n_template n"
| "walk (x # xs) n =
     (case child x n of
        Some c \<Rightarrow> walk xs c
      | None \<Rightarrow> (case child ''*'' n of Some c \<Rightarrow> walk xs c | None \<Rightarrow> n_template n))"

lemma node_ok_iff:
  "node_ok n \<longleftrightarrow> sorted_wrt (<) (List.map node_key (n_children n)) \<and> list_all node_ok (n_children n)"
  by (cases n) simp

lemma find_sorted:
  assumes "sorted_wrt (<) (List.map node_key cs)" "i < length cs"
  shows "List.find (\<lambda>c. n_value c = n_value (cs ! i)) cs = Some (cs ! i)"
proof -
  have "n_value (cs ! j) \<noteq> n_value (cs ! i)" if "j < i" for j
    using sorted_wrt_nth_less [OF assms(1), of j i] that assms(2) by auto
  then show ?thesis using assms(2) by (auto simp: find_Some_iff)
qed

text \<open>Where the binary search ends: at the child with the value, if there is one.\<close>

lemma star_last:
  assumes "sorted_wrt (<) (List.map node_key cs)" "i < length cs" "n_value (cs ! i) = ''*''"
  shows "i = length cs - 1"
proof (rule ccontr)
  assume "i \<noteq> length cs - 1"
  then have "node_key (cs ! i) < node_key (cs ! (length cs - 1))"
    using sorted_wrt_nth_less [OF assms(1), of i "length cs - 1"] assms(2) by simp
  with assms(3) show False by (simp add: less_wild_def wild_Less_def split: if_splits)
qed

lemma binary_search_child:
  fixes cs :: "node list" and x :: string
  assumes srt: "sorted_wrt (<) (List.map node_key cs)" and ne: "cs \<noteq> []"
  defines "len \<equiv> if n_value (last cs) = ''*'' then length cs - 1 else length cs"
  defines "i \<equiv> search_between (\<lambda>i. n_value (cs ! i) \<ge> x) 0 len"
  shows "List.find (\<lambda>c. n_value c = x) cs = (if i < length cs \<and> n_value (cs ! i) = x then Some (cs ! i) else
    if x = ''*'' \<and> n_value (last cs) = ''*'' then Some (last cs) else None)"
proof -
  have lst: "last cs = cs ! (length cs - 1)" using ne by (rule last_conv_nth)
  have nostar: "n_value (cs ! k) \<noteq> ''*''" if "k < len" for k
  proof
    assume a: "n_value (cs ! k) = ''*''"
    have "k < length cs" using that by (auto simp: len_def split: if_splits)
    with star_last [OF srt _ a] that a lst ne show False by (auto simp: len_def split: if_splits)
  qed
  have lt: "n_value (cs ! a) < n_value (cs ! b)" if "a < b" "b < len" for a b
  proof -
    have "b < length cs" using that by (auto simp: len_def split: if_splits)
    then have "node_key (cs ! a) < node_key (cs ! b)"
      using sorted_wrt_nth_less [OF srt, of a b] that by simp
    with nostar [of a] nostar [of b] that show ?thesis by (simp add: less_wild_def wild_Less_def)
  qed
  have mono: "n_value (cs ! b) \<ge> x" if "a \<le> b" "b < len" "n_value (cs ! a) \<ge> x" for a b
    using lt [of a b] that by (cases "a = b") auto
  have i: "i \<le> len" "\<And>k. k < i \<Longrightarrow> \<not> n_value (cs ! k) \<ge> x" "\<And>k. i \<le> k \<Longrightarrow> k < len \<Longrightarrow> n_value (cs ! k) \<ge> x"
  proof -
    have "search_between (\<lambda>i. n_value (cs ! i) \<ge> x) 0 len \<le> len
      \<and> (\<forall>k. k < search_between (\<lambda>i. n_value (cs ! i) \<ge> x) 0 len \<longrightarrow> \<not> n_value (cs ! k) \<ge> x)
      \<and> (\<forall>k. search_between (\<lambda>i. n_value (cs ! i) \<ge> x) 0 len \<le> k \<and> k < len \<longrightarrow> n_value (cs ! k) \<ge> x)"
      by (rule search_between_first) (use mono in blast, auto)
    then show "i \<le> len" "\<And>k. k < i \<Longrightarrow> \<not> n_value (cs ! k) \<ge> x" "\<And>k. i \<le> k \<Longrightarrow> k < len \<Longrightarrow> n_value (cs ! k) \<ge> x"
      unfolding i_def [symmetric] by blast+
  qed
  show ?thesis
  proof (cases "i < length cs \<and> n_value (cs ! i) = x")
    case True
    with find_sorted [OF srt, of i] show ?thesis by auto
  next
    case notat: False
    have only_star: "x = ''*'' \<and> k = length cs - 1" if k: "k < length cs" "n_value (cs ! k) = x" for k
    proof -
      have "\<not> k < len"
      proof
        assume kl: "k < len"
        then have "i \<le> k" using i(2) [of k] k(2) by force
        then have "i < k" using notat k by (cases "i = k") auto
        then have "n_value (cs ! i) < x" using lt [of i k] kl k(2) by simp
        moreover have "n_value (cs ! i) \<ge> x" using i(3) [of i] \<open>i < k\<close> kl by simp
        ultimately show False by simp
      qed
      with k have "n_value (last cs) = ''*''" "k = length cs - 1" by (auto simp: len_def split: if_splits)
      with k lst show ?thesis by simp
    qed
    show ?thesis
    proof (cases "x = ''*'' \<and> n_value (last cs) = ''*''")
      case True
      then show ?thesis using find_sorted [OF srt, of "length cs - 1"] lst ne notat by auto
    next
      case False
      have "n_value c \<noteq> x" if "c \<in> set cs" for c
        using only_star that False lst by (metis in_set_conv_nth)
      then have "List.find (\<lambda>c. n_value c = x) cs = None" by (simp add: find_None_iff)
      with notat False show ?thesis by auto
    qed
  qed
qed

lemma find_star: "sorted_wrt (<) (List.map node_key cs) \<Longrightarrow> cs \<noteq> [] \<Longrightarrow>
    List.find (\<lambda>c. n_value c = ''*'') cs = (if n_value (last cs) = ''*'' then Some (last cs) else None)"
  using find_sorted [of cs "length cs - 1"] star_last [of cs] last_conv_nth [of cs]
  by (auto simp: find_None_iff in_set_conv_nth)

lemma child_step:
  assumes "node_ok n" "n_children n \<noteq> []"
  shows "recursiveSearch (x # xs) n =
    (case child x n of Some c \<Rightarrow> recursiveSearch xs c
     | None \<Rightarrow> (case child ''*'' n of Some c \<Rightarrow> recursiveSearch xs c | None \<Rightarrow> n_template n))"
proof -
  have srt: "sorted_wrt (<) (List.map node_key (n_children n))" using assms(1) by (simp add: node_ok_iff)
  show ?thesis
    unfolding recursiveSearch.simps Let_def child_def binary_search_child [OF srt assms(2), of x] find_star [OF srt assms(2)]
    using assms(2) by (auto split: if_splits)
qed

lemma child_ok: "node_ok n \<Longrightarrow> child x n = Some c \<Longrightarrow> node_ok c"
  by (auto simp: node_ok_iff [of n] child_def find_Some_iff list_all_iff)

lemma search_walk: "node_ok n \<Longrightarrow> recursiveSearch xs n = walk xs n"
proof (induction xs arbitrary: n)
  case (Cons x xs)
  show ?case
  proof (cases "n_children n = []")
    case True
    then show ?thesis by (simp add: child_def)
  next
    case False
    show ?thesis
      unfolding child_step [OF Cons.prems False] walk.simps
      using Cons.IH child_ok [OF Cons.prems] by (simp split: option.split)
  qed
qed simp

text \<open>The template at the end of a path of values.\<close>

fun path :: "string list \<Rightarrow> node \<Rightarrow> tmpl option" where
  "path [] n = n_template n"
| "path (x # xs) n = (case child x n of Some c \<Rightarrow> path xs c | None \<Rightarrow> None)"

lemma walk_path: "path xs n = Some t \<Longrightarrow> walk xs n = Some t"
  by (induction xs arbitrary: n) (auto split: option.splits)

lemma value_recursiveInsert [simp]: "n_value (recursiveInsert xs t n) = n_value n"
  by (induction xs t n rule: recursiveInsert.induct) auto

lemma find_upd_child:
  assumes "\<And>c. n_value (f c) = n_value c" "list_ex (\<lambda>c. n_value c = v) cs"
  shows "List.find (\<lambda>c. n_value c = x) (upd_child v f cs) =
    (if x = v then map_option f (List.find (\<lambda>c. n_value c = x) cs) else List.find (\<lambda>c. n_value c = x) cs)"
  using assms(2) by (induction cs) (auto simp: assms(1))

lemma keys_upd_child: "(\<And>c. n_value (f c) = n_value c) \<Longrightarrow> List.map node_key (upd_child v f cs) = List.map node_key cs"
  by (induction cs) auto

lemma all_upd_child: "list_all P cs \<Longrightarrow> (\<And>c. P c \<Longrightarrow> P (f c)) \<Longrightarrow> list_all P (upd_child v f cs)"
  by (induction cs) auto

lemma new_child_sorted:
  assumes "sorted_wrt (<) (List.map node_key cs)" "\<not> list_ex (\<lambda>c. n_value c = n_value n) cs"
  shows "sorted_wrt (<) (List.map node_key (sort_key node_key (cs @ [n])))"
proof -
  have "distinct (List.map node_key (cs @ [n]))"
    using assms by (auto simp: strict_sorted_iff list_ex_iff)
  moreover have "sorted (List.map node_key (sort_key node_key (cs @ [n])))" by (rule sorted_sort_key)
  moreover have "distinct (List.map node_key (sort_key node_key (cs @ [n]))) = distinct (List.map node_key (cs @ [n]))"
    unfolding distinct_map by simp
  ultimately show ?thesis by (simp only: strict_sorted_iff)
qed

lemma node_ok_insert: "node_ok n \<Longrightarrow> node_ok (recursiveInsert xs t n)"
proof (induction xs t n rule: recursiveInsert.induct)
  case (2 x xs t s v cs tm)
  show ?case
  proof (cases "list_ex (\<lambda>c. n_value c = x) cs")
    case True
    have IH: "node_ok (recursiveInsert xs t c)" if "node_ok c" for c using 2(1) [OF True] that by blast
    show ?thesis using 2(3) True IH by (simp add: keys_upd_child all_upd_child)
  next
    case False
    have "node_ok (recursiveInsert xs t (Node [] x [] None))" using 2(2) [OF False] by simp
    then show ?thesis
      using 2(3) False new_child_sorted [of cs "recursiveInsert xs t (Node [] x [] None)"]
      by (simp add: list_all_iff)
  qed
qed simp

lemma find_new_child:
  assumes "sorted_wrt (<) (List.map node_key cs)" "\<not> list_ex (\<lambda>c. n_value c = n_value n) cs"
  shows "List.find (\<lambda>c. n_value c = x) (sort_key node_key (cs @ [n])) =
    (if x = n_value n then Some n else List.find (\<lambda>c. n_value c = x) cs)"
proof -
  let ?cs = "sort_key node_key (cs @ [n])"
  note srt = new_child_sorted [OF assms]
  have find_mem: "List.find (\<lambda>c. n_value c = n_value d) cs' = Some d"
    if "d \<in> set cs'" "sorted_wrt (<) (List.map node_key cs')" for d cs'
    using that find_sorted by (metis in_set_conv_nth)
  show ?thesis
  proof (cases "x = n_value n")
    case True
    then show ?thesis using find_mem [OF _ srt, of n] by simp
  next
    case False
    show ?thesis
    proof (cases "List.find (\<lambda>c. n_value c = x) cs")
      case None
      then have "\<forall>c \<in> set ?cs. n_value c \<noteq> x" using False by (auto simp: find_None_iff)
      then have "List.find (\<lambda>c. n_value c = x) ?cs = None" unfolding find_None_iff by blast
      with None False show ?thesis by simp
    next
      case (Some d)
      then have "d \<in> set cs" "n_value d = x" by (auto simp: find_Some_iff)
      then show ?thesis using find_mem [OF _ srt, of d] Some False by simp
    qed
  qed
qed

text \<open>Inserting changes the path inserted and no other.\<close>

lemma path_insert:
  "node_ok n \<Longrightarrow> path ys (recursiveInsert xs t n) = (if ys = xs then Some t else path ys n)"
proof (induction xs t n arbitrary: ys rule: recursiveInsert.induct)
  case (1 t s v cs tm)
  then show ?case by (cases ys) (simp_all add: child_def)
next
  case (2 x xs t s v cs tm)
  note ok = 2(3)
  show ?case
  proof (cases ys)
    case Nil
    then show ?thesis by simp
  next
    case (Cons y ys')
    show ?thesis
    proof (cases "list_ex (\<lambda>c. n_value c = x) cs")
      case True
      then obtain c where c: "List.find (\<lambda>c. n_value c = x) cs = Some c"
        by (metis (mono_tags, lifting) find_None_iff list_ex_iff option.exhaust)
      have cok: "node_ok c" using child_ok [OF ok, of x c] c by (simp add: child_def)
      have "path ys' (recursiveInsert xs t c) = (if ys' = xs then Some t else path ys' c)"
        by (rule 2(1) [OF True cok])
      then show ?thesis
        using True c Cons find_upd_child [of "recursiveInsert xs t" x cs y] by (auto simp: child_def split: option.splits)
    next
      case False
      have "path ys' (recursiveInsert xs t (Node [] x [] None)) = (if ys' = xs then Some t else path ys' (Node [] x [] None))"
        using 2(2) [OF False] by simp
      moreover have "path ys' (Node [] x [] None) = None" by (cases ys') (simp_all add: child_def)
      moreover have "List.find (\<lambda>c. n_value c = x) cs = None"
        using False by (simp add: find_None_iff list_ex_iff)
      ultimately show ?thesis
        using False ok Cons find_new_child [of cs "recursiveInsert xs t (Node [] x [] None)" y]
        by (auto simp: child_def split: option.splits)
    qed
  qed
qed

text \<open>A matcher after adding filters with one separator.\<close>

lemma matcher_add_root:
  "n_separator (ma_root (matcher_add flt t m)) = t_separator t"
  "node_ok (ma_root m) \<Longrightarrow> node_ok (ma_root (matcher_add flt t m))"
  "node_ok (ma_root m) \<Longrightarrow> path ys (ma_root (matcher_add flt t m)) =
     (if flt \<noteq> [] \<and> ys = split flt (t_separator t) then Some t else path ys (ma_root m))"
proof -
  obtain s v cs tm where r: "ma_root m = Node s v cs tm" by (cases "ma_root m")
  have p: "path ys (Node s' v cs tm) = path ys (Node s v cs tm)" for ys s'
    by (cases ys) (simp_all add: child_def)
  have sep: "n_separator (recursiveInsert xs t' n) = n_separator n" for xs t' n
    by (induction xs t' n rule: recursiveInsert.induct) auto
  show "n_separator (ma_root (matcher_add flt t m)) = t_separator t"
    by (simp add: matcher_add_def node_insert_def r sep)
  show "node_ok (ma_root m) \<Longrightarrow> node_ok (ma_root (matcher_add flt t m))"
    using node_ok_insert by (simp add: matcher_add_def node_insert_def r)
  show "node_ok (ma_root m) \<Longrightarrow> path ys (ma_root (matcher_add flt t m)) =
     (if flt \<noteq> [] \<and> ys = split flt (t_separator t) then Some t else path ys (ma_root m))"
    using p [of ys "t_separator t"] path_insert [of "Node (t_separator t) v cs tm" ys "split flt (t_separator t)" t]
    by (auto simp: matcher_add_def node_insert_def r)
qed

lemma matcher_adds:
  assumes "\<forall>(flt, t) \<in> set fts. t_separator t = sep" "sep \<noteq> []" "node_ok (ma_root m)" "fts \<noteq> []"
  shows "n_separator (ma_root (fold (\<lambda>(flt, t). matcher_add flt t) fts m)) = sep
    \<and> node_ok (ma_root (fold (\<lambda>(flt, t). matcher_add flt t) fts m))
    \<and> (flt \<noteq> [] \<longrightarrow> path (split flt sep) (ma_root (fold (\<lambda>(flt, t). matcher_add flt t) fts m)) =
        (case map_of (rev fts) flt of Some t \<Rightarrow> Some t | None \<Rightarrow> path (split flt sep) (ma_root m)))"
  using assms
proof (induction fts arbitrary: m)
  case (Cons ft fts)
  obtain f t where ft: "ft = (f, t)" by force
  have sep: "t_separator t = sep" using Cons.prems(1) ft by auto
  let ?m = "matcher_add f t m"
  note r = matcher_add_root [where flt = f and t = t and m = m]
  have ok: "node_ok (ma_root ?m)" using r(2) Cons.prems(3) by blast
  have inj: "split flt sep = split f sep \<longleftrightarrow> flt = f"
    using join_split [OF \<open>sep \<noteq> []\<close>, of flt] join_split [OF \<open>sep \<noteq> []\<close>, of f] by metis
  show ?case
  proof (cases "fts = []")
    case True
    then show ?thesis using r(1) ok r(3) [OF Cons.prems(3)] sep inj by (simp add: ft)
  next
    case False
    then show ?thesis using Cons.IH [of ?m] Cons.prems r(3) [OF Cons.prems(3)] sep inj ok
      by (auto simp: ft map_add_def split: option.splits)
  qed
qed simp

text \<open>
  C18. Template lookup: after any filters with a common separator were added to a matcher, a name
  equal to one of the filters gets the template that was added last for it; the binary search in
  the sorted children never misses it.
\<close>

theorem matcher_finds_filter:
  assumes "\<forall>(flt, t) \<in> set fts. t_separator t = sep" "sep \<noteq> []" "flt \<noteq> []" "map_of (rev fts) flt = Some t"
  shows "matcher_match flt (fold (\<lambda>(flt, t). matcher_add flt t) fts (newMatcher d)) = t"
proof -
  let ?m = "fold (\<lambda>(flt, t). matcher_add flt t) fts (newMatcher d)"
  have "fts \<noteq> []" using assms(4) by auto
  moreover have "node_ok (ma_root (newMatcher d))" by (simp add: newMatcher_def)
  ultimately have r: "n_separator (ma_root ?m) = sep" "node_ok (ma_root ?m)" "path (split flt sep) (ma_root ?m) = Some t"
    using matcher_adds [OF assms(1,2)] assms(3,4) by auto
  then show ?thesis
    using search_walk [OF r(2), of "split flt sep"] walk_path [OF r(3)]
    by (simp add: matcher_match_def node_search_def)
qed

definition demo_template :: "string \<Rightarrow> tmpl" where
  "demo_template p = \<lparr>t_separator = ''.'', t_parts = split p ''.'', t_defaultTags = [], t_greedyField = False, t_greedyMeasurement = False\<rparr>"

theorem matcher_finds_filter_witness:
  "matcher_match ''servers.localhost'' (fold (\<lambda>(flt, t). matcher_add flt t)
      [(''servers.*'', demo_template ''measurement.host''), (''servers.localhost'', demo_template ''x.measurement'')]
      (newMatcher (demo_template ''measurement''))) = demo_template ''x.measurement''"
  by (rule matcher_finds_filter [of _ "''.''"]) (auto simp: demo_template_def)

text \<open>
  A tag string with a part that has no equals sign, in which every part before it is well
  formed, makes the engine panic instead of returning an error.
\<close>

theorem bad_tagstring_panics:
  assumes "list_all (\<lambda>kv. contains kv ''='') kvs" "\<not> contains bad ''=''"
    "split (sp_tagstring sp) '','' = kvs @ bad # rest" "sp_tagstring sp \<noteq> []"
  shows "add_specs (sp # sps) m = Inl (Panic ''index out of range'')"
proof -
  have one: "split s ''='' = [s]" if "\<not> contains s ''=''" for s
  proof -
    have "split_from ''='' acc s = [rev acc @ s]" for acc
      using that by (induction s arbitrary: acc) auto
    then show ?thesis by (simp add: split_def)
  qed
  have two: "\<exists>p0 p1 r. split s ''='' = p0 # p1 # r" if "contains s ''=''" for s
  proof -
    have "\<exists>p0 p1 r. split_from ''='' acc s = p0 # p1 # r" for acc
      using that
    proof (induction s arbitrary: acc)
      case (Cons c cs)
      show ?case
      proof (cases "has_prefix (c # cs) ''=''")
        case True
        then show ?thesis by (cases "split_from ''='' [] (drop (length ''='' - 1) cs)") auto
      next
        case False
        with Cons show ?thesis by auto
      qed
    qed simp
    then show ?thesis by (simp add: split_def)
  qed
  have "spec_tags (kvs @ bad # rest) tags = Inl (Panic ''index out of range'')" for tags
    using assms(1)
  proof (induction kvs arbitrary: tags)
    case Nil
    then show ?case using one [OF assms(2)] by simp
  next
    case (Cons kv kvs)
    then have "contains kv ''=''" by simp
    from two [OF this] obtain p0 p1 r where "split kv ''='' = p0 # p1 # r" by blast
    with Cons show ?case by simp
  qed
  then show ?thesis using assms(3,4) by (simp add: addSpec_def)
qed

theorem bad_tagstring_panics_witness:
  "add_specs [\<lparr>sp_separator = ''.'', sp_filter = ''servers.*'', sp_template = ''.host.measurement'', sp_tagstring = ''region=eu,prod''\<rparr>]
      (newMatcher (demo_template ''measurement'')) = Inl (Panic ''index out of range'')"
proof -
  have c: "list_all (\<lambda>kv. contains kv ''='') [''region=eu'']" "\<not> contains ''prod'' ''=''"
    "split ''region=eu,prod'' '','' = [''region=eu''] @ ''prod'' # []"
    by code_simp+
  show ?thesis
    by (rule bad_tagstring_panics [OF c(1,2)]) (simp_all only: template_spec.simps c(3) list.distinct not_False_eq_True)
qed

end
