(* ===== verification/InfluxSerializer.thy ===== *)
theory InfluxSerializer
  imports Metric
begin

section \<open>The line protocol serializer\<close>

text \<open>
  \<open>plugins/serializers/influx\<close> (\<open>escape.go\<close>, \<open>influx.go\<close>, \<open>reader.go\<close>). The writer is a
  \<open>bytes.Buffer\<close>, as in \<open>Serialize\<close>, \<open>SerializeBatch\<close> and the reader: a string to which bytes are
  appended, which never fails. Debug messages are left out; the format of the errors' texts is kept
  as their parts. A backslash is \<open>CHR 0x5C\<close>, a double quote \<open>CHR 0x22\<close>.
\<close>

subsection \<open>Escaping\<close>

abbreviation bsl :: char where "bsl \<equiv> CHR 0x5C"
abbreviation dq :: char where "dq \<equiv> CHR 0x22"

text \<open>A \<open>strings.Replacer\<close> whose old strings are single bytes replaces byte by byte.\<close>

definition white_escape :: "char \<Rightarrow> string option" where
  "white_escape c =
     (if c = CHR 0x09 then Some [bsl, CHR ''t''] else if c = CHR 0x0A then Some [bsl, CHR ''n'']
      else if c = CHR 0x0C then Some [bsl, CHR ''f''] else if c = CHR 0x0D then Some [bsl, CHR ''r''] else None)"

definition escaper :: "char \<Rightarrow> string" where
  "escaper c = (case white_escape c of Some e \<Rightarrow> e
     | None \<Rightarrow> if c = CHR '','' \<or> c = CHR '' '' \<or> c = CHR ''='' then [bsl, c] else [c])"

definition nameEscaper :: "char \<Rightarrow> string" where
  "nameEscaper c = (case white_escape c of Some e \<Rightarrow> e
     | None \<Rightarrow> if c = CHR '','' \<or> c = CHR '' '' then [bsl, c] else [c])"

definition stringFieldEscaper :: "char \<Rightarrow> string" where
  "stringFieldEscaper c = (case white_escape c of Some e \<Rightarrow> e
     | None \<Rightarrow> if c = dq \<or> c = bsl then [bsl, c] else [c])"

definition replace_bytes :: "(char \<Rightarrow> string) \<Rightarrow> string \<Rightarrow> string" where
  "replace_bytes esc s = concat (List.map esc s)"

definition white :: string where
  "white = [CHR 0x09, CHR 0x0A, CHR 0x0C, CHR 0x0D]"

definition escape :: "string \<Rightarrow> string" where
  "escape s = (if contains_any s (white @ '' ,='') then replace_bytes escaper s else s)"

definition nameEscape :: "string \<Rightarrow> string" where
  "nameEscape s = (if contains_any s (white @ '' ,'') then replace_bytes nameEscaper s else s)"

definition stringFieldEscape :: "string \<Rightarrow> string" where
  "stringFieldEscape s = (if contains_any s (white @ [bsl, dq]) then replace_bytes stringFieldEscaper s else s)"

subsection \<open>The serializer\<close>

datatype metric_error = MetricError string string

record serializer =
  sz_maxLineBytes :: int
  sz_bytesWritten :: int
  sz_sortFields :: bool
  sz_uintSupport :: bool
  sz_header :: string
  sz_footer :: string
  sz_pair :: string

definition NewSerializer :: serializer where
  "NewSerializer = \<lparr>sz_maxLineBytes = 0, sz_bytesWritten = 0, sz_sortFields = False, sz_uintSupport = False,
     sz_header = [], sz_footer = [], sz_pair = []\<rparr>"

definition SetMaxLineBytes :: "int \<Rightarrow> serializer \<Rightarrow> serializer" where
  "SetMaxLineBytes n s = s\<lparr>sz_maxLineBytes := n\<rparr>"

definition SetFieldSortOrder :: "bool \<Rightarrow> serializer \<Rightarrow> serializer" where
  "SetFieldSortOrder b s = s\<lparr>sz_sortFields := b\<rparr>"

definition SetFieldTypeSupport :: "bool \<Rightarrow> serializer \<Rightarrow> serializer" where
  "SetFieldTypeSupport b s = s\<lparr>sz_uintSupport := b\<rparr>"

definition newMetricError :: "serializer \<Rightarrow> string \<Rightarrow> metric_error" where
  "newMetricError s reason =
     (if length (sz_header s) \<noteq> 0 then MetricError (trim_right_func (in_cutset '' '') (sz_header s)) reason
      else MetricError [] reason)"

text \<open>A write to the buffer counts its bytes; the count is never reset.\<close>

definition sz_write :: "string \<Rightarrow> serializer \<times> string \<Rightarrow> serializer \<times> string" where
  "sz_write b sw = (case sw of (s, w) \<Rightarrow> (s\<lparr>sz_bytesWritten := sz_bytesWritten s + int (length b)\<rparr>, w @ b))"

definition tag_text :: "tag \<Rightarrow> string" where
  "tag_text t =
     (let key = escape (tag_key t); value = escape (tag_value t)
      in if key = [] \<or> value = [] then [] else CHR '','' # key @ CHR ''='' # value)"

definition buildHeader :: "metric \<Rightarrow> serializer \<Rightarrow> serializer \<times> metric_error option" where
  "buildHeader m s0 =
     (let s = s0\<lparr>sz_header := []\<rparr>; name = nameEscape (m_name m)
      in if name = [] then (s, Some (newMetricError s ''invalid name''))
         else (s\<lparr>sz_header := name @ concat (List.map tag_text (m_tags m)) @ '' ''\<rparr>, None))"

definition UnixNano :: "int \<Rightarrow> i64" where
  "UnixNano t = word_of_int t"

definition buildFooter :: "metric \<Rightarrow> serializer \<Rightarrow> serializer" where
  "buildFooter m s = s\<lparr>sz_footer := CHR '' '' # itoa (sint (UnixNano (m_tm m))) @ [CHR 0x0A]\<rparr>"

definition appendUintField :: "u64 \<Rightarrow> string" where "appendUintField v = itoa (uint v) @ ''u''"
definition appendIntField :: "i64 \<Rightarrow> string" where "appendIntField v = itoa (sint v) @ ''i''"
definition appendFloatField :: "f64 \<Rightarrow> string" where "appendFloatField v = format_float v"
definition appendBoolField :: "bool \<Rightarrow> string" where "appendBoolField b = format_bool b"

definition appendStringField :: "string \<Rightarrow> string" where
  "appendStringField v = dq # stringFieldEscape v @ [dq]"

definition line_MaxInt64 :: u64 where "line_MaxInt64 = word_of_int (2 ^ 63 - 1)"

text \<open>The text of a value, or the reason why it has none.\<close>

fun appendFieldValue :: "serializer \<Rightarrow> gval \<Rightarrow> string + string" where
  "appendFieldValue s (GUint64 v) =
     Inr (if sz_uintSupport s then appendUintField v
          else if v \<le> line_MaxInt64 then appendIntField v else appendIntField line_MaxInt64)"
| "appendFieldValue s (GInt64 v) = Inr (appendIntField v)"
| "appendFieldValue s (GFloat64 v) =
     (if is_nan v then Inl ''is NaN'' else if is_inf v then Inl ''is Inf'' else Inr (appendFloatField v))"
| "appendFieldValue s (GString v) = Inr (appendStringField v)"
| "appendFieldValue s (GBool v) = Inr (appendBoolField v)"
| "appendFieldValue s _ = Inl ''invalid value type''"

definition buildFieldPair :: "field \<Rightarrow> serializer \<Rightarrow> serializer \<times> string option" where
  "buildFieldPair f s0 =
     (let key = escape (field_key f); s = s0\<lparr>sz_pair := []\<rparr>
      in if key = [] then (s, Some ''invalid field key'')
         else case appendFieldValue s (field_value f) of
           Inl e \<Rightarrow> (s\<lparr>sz_pair := key @ ''=''\<rparr>, Some e)
         | Inr v \<Rightarrow> (s\<lparr>sz_pair := key @ CHR ''='' # v\<rparr>, None))"

text \<open>
  One round of the loop over the fields. \<open>pairsLen\<close> and \<open>firstField\<close> are the loop's variables: the
  lengths of all pairs written for the metric, and whether the current line has none yet.
\<close>

type_synonym write_state = "(serializer \<times> string) \<times> int \<times> bool"

definition put_pair :: "write_state \<Rightarrow> write_state" where
  "put_pair st =
     (case st of (sw, pairsLen, firstField) \<Rightarrow>
        let s = fst sw; sw1 = (if firstField then sz_write (sz_header s) sw else sz_write '','' sw)
        in (sz_write (sz_pair s) sw1, pairsLen + int (length (sz_pair s)), False))"

definition bytes_needed :: "serializer \<Rightarrow> int" where
  "bytes_needed s = int (length (sz_header s)) + int (length (sz_pair s)) + int (length (sz_footer s))"

definition write_field :: "field \<Rightarrow> write_state \<Rightarrow> write_state \<times> metric_error option" where
  "write_field f st =
     (case st of ((s0, w), pairsLen, firstField) \<Rightarrow>
        let (s, err) = buildFieldPair f s0
        in if err \<noteq> None then (((s, w), pairsLen, firstField), None)
           else if sz_maxLineBytes s > 0 \<and> bytes_needed s + pairsLen + (if firstField then 0 else 1) > sz_maxLineBytes s then
             if firstField then (((s, w), pairsLen, firstField), Some (newMetricError s ''need more space''))
             else if bytes_needed s > sz_maxLineBytes s
             then ((sz_write (sz_footer s) (s, w), pairsLen, True), Some (newMetricError s ''need more space''))
             else (put_pair (sz_write (sz_footer s) (s, w), pairsLen, True), None)
           else (put_pair ((s, w), pairsLen, firstField), None))"

fun write_fields :: "field list \<Rightarrow> write_state \<Rightarrow> (serializer \<times> string) \<times> metric_error option" where
  "write_fields [] (sw, pairsLen, firstField) =
     (if firstField then (sw, Some (newMetricError (fst sw) ''no serializable fields''))
      else (sz_write (sz_footer (fst sw)) sw, None))"
| "write_fields (f # fs) st =
     (case write_field f st of
        (st1, Some e) \<Rightarrow> (fst st1, Some e)
      | (st1, None) \<Rightarrow> write_fields fs st1)"

text \<open>\<open>writeMetric\<close> sorts the fields of the metric itself.\<close>

definition writeMetric :: "metric \<Rightarrow> serializer \<times> string \<Rightarrow> (serializer \<times> string) \<times> metric \<times> metric_error option" where
  "writeMetric m sw0 =
     (case sw0 of (s0, w) \<Rightarrow>
        case buildHeader m s0 of
          (s1, Some e) \<Rightarrow> ((s1, w), m, Some e)
        | (s1, None) \<Rightarrow>
            let s2 = buildFooter m s1;
                m1 = (if sz_sortFields s2 then m\<lparr>m_fields := sort_key field_key (m_fields m)\<rparr> else m);
                (sw3, err) = write_fields (m_fields m1) ((s2, w), 0, True)
            in (sw3, m1, err))"

definition Serialize :: "metric \<Rightarrow> serializer \<Rightarrow> serializer \<times> metric \<times> (metric_error + string)" where
  "Serialize m s =
     (case writeMetric m (s, []) of
        ((s1, w), m1, Some e) \<Rightarrow> (s1, m1, Inl e)
      | ((s1, w), m1, None) \<Rightarrow> (s1, m1, Inr w))"

definition sz_Write :: "metric \<Rightarrow> serializer \<times> string \<Rightarrow> (serializer \<times> string) \<times> metric \<times> int \<times> metric_error option" where
  "sz_Write m sw = (case writeMetric m sw of (sw1, m1, err) \<Rightarrow> (sw1, m1, sz_bytesWritten (fst sw1), err))"

fun write_batch :: "metric list \<Rightarrow> serializer \<times> string \<Rightarrow> serializer \<times> metric list \<times> (metric_error + string)" where
  "write_batch [] (s, w) = (s, [], Inr w)"
| "write_batch (m # ms) sw =
     (case sz_Write m sw of
        ((s1, w1), m1, n, Some e) \<Rightarrow> (s1, m1 # ms, Inl e)
      | (sw1, m1, n, None) \<Rightarrow> (case write_batch ms sw1 of (s2, ms2, r) \<Rightarrow> (s2, m1 # ms2, r)))"

definition SerializeBatch :: "metric list \<Rightarrow> serializer \<Rightarrow> serializer \<times> metric list \<times> (metric_error + string)" where
  "SerializeBatch ms s = write_batch ms (s, [])"

subsection \<open>The reader\<close>

text \<open>\<open>bytes.Buffer.Read\<close> into a slice of some length: the bytes read, or \<open>None\<close> for \<open>io.EOF\<close>.\<close>

definition buffer_read :: "nat \<Rightarrow> string \<Rightarrow> string \<times> string option" where
  "buffer_read n buf =
     (if buf = [] then (if n = 0 then ([], Some []) else ([], None)) else (drop n buf, Some (take n buf)))"

record reader =
  rd_metrics :: "metric list"
  rd_serializer :: serializer
  rd_offset :: nat
  rd_buf :: string

definition NewReader :: "metric list \<Rightarrow> serializer \<Rightarrow> reader" where
  "NewReader ms s = \<lparr>rd_metrics = ms, rd_serializer = s, rd_offset = 0, rd_buf = []\<rparr>"

definition SetMetrics :: "metric list \<Rightarrow> reader \<Rightarrow> reader" where
  "SetMetrics ms r = r\<lparr>rd_metrics := ms, rd_offset := 0, rd_buf := []\<rparr>"

text \<open>The loop over the metrics from the offset on: the first that can be serialized fills the buffer.\<close>

fun fill_buffer :: "metric list \<Rightarrow> reader \<Rightarrow> reader" where
  "fill_buffer [] r = r"
| "fill_buffer (m # ms) r =
     (case sz_Write m (rd_serializer r, rd_buf r) of
        ((s, w), m1, n, err) \<Rightarrow>
          let r1 = r\<lparr>rd_serializer := s, rd_metrics := (rd_metrics r)[rd_offset r := m1], rd_offset := rd_offset r + 1\<rparr>
          in if err \<noteq> None then fill_buffer ms (r1\<lparr>rd_buf := []\<rparr>) else r1\<lparr>rd_buf := w\<rparr>)"

definition reader_Read :: "nat \<Rightarrow> reader \<Rightarrow> reader \<times> string option" where
  "reader_Read n r =
     (if length (rd_buf r) > 0 then (case buffer_read n (rd_buf r) of (b, out) \<Rightarrow> (r\<lparr>rd_buf := b\<rparr>, out))
      else if rd_offset r \<ge> length (rd_metrics r) then (r, None)
      else let r1 = fill_buffer (drop (rd_offset r) (rd_metrics r)) r
           in case buffer_read n (rd_buf r1) of (b, out) \<Rightarrow> (r1\<lparr>rd_buf := b\<rparr>, out))"

subsection \<open>The lines of a metric\<close>

text \<open>The text of a field, if it has one; it depends on the serializer's support of unsigned values only.\<close>

definition pair_of :: "bool \<Rightarrow> field \<Rightarrow> string option" where
  "pair_of u f =
     (if escape (field_key f) = [] then None
      else case appendFieldValue (NewSerializer\<lparr>sz_uintSupport := u\<rparr>) (field_value f) of
        Inl e \<Rightarrow> None | Inr v \<Rightarrow> Some (escape (field_key f) @ CHR ''='' # v))"

definition pairs_of :: "bool \<Rightarrow> field list \<Rightarrow> string list" where
  "pairs_of u fs = concat (List.map (\<lambda>f. case pair_of u f of None \<Rightarrow> [] | Some p \<Rightarrow> [p]) fs)"

definition line_of :: "string \<Rightarrow> string \<Rightarrow> string list \<Rightarrow> string" where
  "line_of h ft ps = h @ join '','' ps @ ft"

text \<open>The check of the maximum counts one separator in a line that has any.\<close>

definition line_checked :: "int \<Rightarrow> int \<Rightarrow> string list \<Rightarrow> bool" where
  "line_checked mx n ps \<longleftrightarrow> 0 < mx \<longrightarrow> n + int (sum_list (List.map length ps)) + (if length ps > 1 then 1 else 0) \<le> mx"

lemma appendFieldValue_support:
  "appendFieldValue s v = appendFieldValue (NewSerializer\<lparr>sz_uintSupport := sz_uintSupport s\<rparr>) v"
  by (cases v) simp_all

lemma buildFieldPair_Some: "pair_of (sz_uintSupport s) f = Some p \<Longrightarrow> buildFieldPair f s = (s\<lparr>sz_pair := p\<rparr>, None)"
  using appendFieldValue_support [of "s\<lparr>sz_pair := []\<rparr>" "field_value f"]
  by (auto simp: pair_of_def buildFieldPair_def Let_def split: if_splits sum.splits)

lemma buildFieldPair_None:
  assumes "pair_of (sz_uintSupport s) f = None"
  obtains q e where "buildFieldPair f s = (s\<lparr>sz_pair := q\<rparr>, Some e)"
  using assms appendFieldValue_support [of "s\<lparr>sz_pair := []\<rparr>" "field_value f"]
  by (fastforce simp: pair_of_def buildFieldPair_def Let_def split: if_splits sum.splits)

lemma sz_write_simps [simp]:
  "snd (sz_write b sw) = snd sw @ b" "sz_header (fst (sz_write b sw)) = sz_header (fst sw)"
  "sz_footer (fst (sz_write b sw)) = sz_footer (fst sw)" "sz_pair (fst (sz_write b sw)) = sz_pair (fst sw)"
  "sz_maxLineBytes (fst (sz_write b sw)) = sz_maxLineBytes (fst sw)"
  "sz_uintSupport (fst (sz_write b sw)) = sz_uintSupport (fst sw)"
  by (cases sw; simp add: sz_write_def)+

text \<open>What the serializer keeps while the fields of one metric are written.\<close>

definition line_env :: "string \<Rightarrow> string \<Rightarrow> int \<Rightarrow> bool \<Rightarrow> serializer \<Rightarrow> bool" where
  "line_env h ft mx u s \<longleftrightarrow> sz_header s = h \<and> sz_footer s = ft \<and> sz_maxLineBytes s = mx \<and> sz_uintSupport s = u"

lemma line_env_laws [simp]:
  "line_env h ft mx u (s\<lparr>sz_pair := q\<rparr>) = line_env h ft mx u s"
  "line_env h ft mx u (fst (sz_write b sw)) = line_env h ft mx u (fst sw)"
  by (simp_all add: line_env_def)

lemma put_pair_parts:
  "snd (fst (put_pair (sw, n, first))) = snd sw @ (if first then sz_header (fst sw) else '','') @ sz_pair (fst sw)"
  "snd (put_pair (sw, n, first)) = (n + int (length (sz_pair (fst sw))), False)"
  "line_env h ft mx u (fst (fst (put_pair (sw, n, first)))) = line_env h ft mx u (fst sw)"
  by (simp_all add: put_pair_def Let_def)

text \<open>
  The text that the rest of the loop appends: a line that is begun is continued with some fields,
  then whole lines follow. \<open>c\<close> is the length of the pairs already on the line.
\<close>

definition appended :: "string \<Rightarrow> string \<Rightarrow> int \<Rightarrow> int \<Rightarrow> bool \<Rightarrow> string list \<Rightarrow> string \<Rightarrow> bool" where
  "appended h ft mx c first ps t \<longleftrightarrow>
     (let n = int (length h) + int (length ft) in
      if first then \<exists>gs. gs \<noteq> [] \<and> [] \<notin> set gs \<and> concat gs = ps \<and> t = concat (List.map (line_of h ft) gs)
          \<and> (\<forall>g \<in> set gs. line_checked mx n g)
      else \<exists>g gs. [] \<notin> set gs \<and> g @ concat gs = ps
          \<and> t = concat (List.map (\<lambda>p. CHR '','' # p) g) @ ft @ concat (List.map (line_of h ft) gs)
          \<and> (g \<noteq> [] \<longrightarrow> 0 < mx \<longrightarrow> n + c + int (sum_list (List.map length g)) + 1 \<le> mx)
          \<and> (\<forall>g \<in> set gs. line_checked mx n g))"

lemma join_commas: "join '','' (p # ps) = p @ concat (List.map (\<lambda>q. CHR '','' # q) ps)"
  by (induction ps arbitrary: p) simp_all

text \<open>A first pair begins a line.\<close>

lemma appended_begin:
  assumes "appended h ft mx (int (length p)) False ps t"
    "0 < mx \<longrightarrow> int (length h) + int (length p) + int (length ft) \<le> mx"
  shows "appended h ft mx c True (p # ps) (h @ p @ t)"
proof -
  let ?n = "int (length h) + int (length ft)"
  obtain g gs where g: "[] \<notin> set gs" "g @ concat gs = ps"
    "t = concat (List.map (\<lambda>p. CHR '','' # p) g) @ ft @ concat (List.map (line_of h ft) gs)"
    "g \<noteq> [] \<longrightarrow> 0 < mx \<longrightarrow> ?n + int (length p) + int (sum_list (List.map length g)) + 1 \<le> mx"
    "\<forall>g \<in> set gs. line_checked mx ?n g"
    using assms(1) unfolding appended_def Let_def by auto
  have "line_checked mx ?n (p # g)"
    using assms(2) g(4) by (cases g) (auto simp: line_checked_def)
  moreover have "h @ p @ t = concat (List.map (line_of h ft) ((p # g) # gs))"
    by (simp add: g(3) line_of_def join_commas)
  moreover have "concat ((p # g) # gs) = p # ps" "[] \<notin> set ((p # g) # gs)" using g(1,2) by simp_all
  ultimately have "\<exists>gs. gs \<noteq> [] \<and> [] \<notin> set gs \<and> concat gs = p # ps \<and> h @ p @ t = concat (List.map (line_of h ft) gs)
      \<and> (\<forall>g \<in> set gs. line_checked mx ?n g)"
    using g(5) by (intro exI [of _ "(p # g) # gs"]) auto
  then show ?thesis by (simp add: appended_def Let_def)
qed

text \<open>A further pair continues the line, or ends it and begins the next one.\<close>

lemma appended_continue:
  assumes "appended h ft mx (c + int (length p)) False ps t"
    "0 < mx \<longrightarrow> int (length h) + c + int (length p) + int (length ft) + 1 \<le> mx"
  shows "appended h ft mx c False (p # ps) ('','' @ p @ t)"
proof -
  let ?n = "int (length h) + int (length ft)"
  obtain g gs where g: "[] \<notin> set gs" "g @ concat gs = ps"
    "t = concat (List.map (\<lambda>p. CHR '','' # p) g) @ ft @ concat (List.map (line_of h ft) gs)"
    "g \<noteq> [] \<longrightarrow> 0 < mx \<longrightarrow> ?n + (c + int (length p)) + int (sum_list (List.map length g)) + 1 \<le> mx"
    "\<forall>g \<in> set gs. line_checked mx ?n g"
    using assms(1) unfolding appended_def Let_def by auto
  have "0 < mx \<longrightarrow> ?n + c + int (sum_list (List.map length (p # g))) + 1 \<le> mx"
    using assms(2) g(4) by (cases "g = []") auto
  with g(1,2,5) have "\<exists>g gs. [] \<notin> set gs \<and> g @ concat gs = p # ps
      \<and> '','' @ p @ t = concat (List.map (\<lambda>p. CHR '','' # p) g) @ ft @ concat (List.map (line_of h ft) gs)
      \<and> (g \<noteq> [] \<longrightarrow> 0 < mx \<longrightarrow> ?n + c + int (sum_list (List.map length g)) + 1 \<le> mx)
      \<and> (\<forall>g \<in> set gs. line_checked mx ?n g)"
    by (intro exI [of _ "p # g"] exI [of _ gs]) (simp add: g(3))
  then show ?thesis by (simp add: appended_def Let_def)
qed

lemma appended_break:
  assumes "appended h ft mx c' True ps t"
  shows "appended h ft mx c False ps (ft @ t)"
proof -
  let ?n = "int (length h) + int (length ft)"
  obtain gs where "[] \<notin> set gs" "concat gs = ps" "t = concat (List.map (line_of h ft) gs)" "\<forall>g \<in> set gs. line_checked mx ?n g"
    using assms unfolding appended_def Let_def by auto
  then have "\<exists>g gs. [] \<notin> set gs \<and> g @ concat gs = ps
      \<and> ft @ t = concat (List.map (\<lambda>p. CHR '','' # p) g) @ ft @ concat (List.map (line_of h ft) gs)
      \<and> (g \<noteq> [] \<longrightarrow> 0 < mx \<longrightarrow> ?n + c + int (sum_list (List.map length g)) + 1 \<le> mx)
      \<and> (\<forall>g \<in> set gs. line_checked mx ?n g)"
    by (intro exI [of _ "[]"] exI [of _ gs]) simp
  then show ?thesis by (simp add: appended_def Let_def)
qed

lemma appended_end: "appended h ft mx c False [] ft"
proof -
  have "\<exists>g gs. [] \<notin> set gs \<and> g @ concat gs = ([] :: string list)
      \<and> ft = concat (List.map (\<lambda>p. CHR '','' # p) g) @ ft @ concat (List.map (line_of h ft) gs)
      \<and> (g \<noteq> [] \<longrightarrow> 0 < mx \<longrightarrow> int (length h) + int (length ft) + c + int (sum_list (List.map length g)) + 1 \<le> mx)
      \<and> (\<forall>g \<in> set gs. line_checked mx (int (length h) + int (length ft)) g)"
    by (intro exI [of _ "[]"]) simp
  then show ?thesis by (simp add: appended_def Let_def)
qed

lemma write_fields_appended:
  assumes "write_fields fs ((s, w), n, first) = ((s', w'), None)" "line_env h ft mx u s" "0 \<le> n" "c \<le> n"
  shows "\<exists>t. w' = w @ t \<and> appended h ft mx c first (pairs_of u fs) t \<and> line_env h ft mx u s'"
  using assms
proof (induction fs arbitrary: s w n first c)
  case Nil
  then have "\<not> first" "w' = w @ ft" "line_env h ft mx u s'"
    by (auto simp: sz_write_def line_env_def split: if_splits)
  then show ?case using appended_end [of h ft mx c] by (intro exI [of _ ft]) (simp add: pairs_of_def)
next
  case (Cons f fs)
  show ?case
  proof (cases "pair_of u f")
    case None
    then have "pair_of (sz_uintSupport s) f = None" using Cons.prems(2) by (simp add: line_env_def)
    then obtain q e where b: "buildFieldPair f s = (s\<lparr>sz_pair := q\<rparr>, Some e)" by (rule buildFieldPair_None)
    have "write_fields fs ((s\<lparr>sz_pair := q\<rparr>, w), n, first) = ((s', w'), None)"
      using Cons.prems(1) by (simp add: write_field_def b)
    from Cons.IH [OF this _ Cons.prems(3,4)] Cons.prems(2) show ?thesis by (simp add: pairs_of_def None)
  next
    case (Some p)
    then have "pair_of (sz_uintSupport s) f = Some p" using Cons.prems(2) by (simp add: line_env_def)
    then have b: "buildFieldPair f s = (s\<lparr>sz_pair := p\<rparr>, None)" by (rule buildFieldPair_Some)
    define s1 where "s1 = s\<lparr>sz_pair := p\<rparr>"
    have env: "line_env h ft mx u s1" "sz_pair s1 = p" using Cons.prems(2) by (simp_all add: s1_def)
    have hdr: "sz_header s1 = h" "sz_footer s1 = ft" using env(1) by (simp_all add: line_env_def)
    have need: "bytes_needed s1 = int (length h) + int (length p) + int (length ft)" "sz_maxLineBytes s1 = mx"
      using env by (simp_all add: bytes_needed_def line_env_def)
    have ps: "pairs_of u (f # fs) = p # pairs_of u fs" by (simp add: pairs_of_def Some)
    have next_: "\<exists>t. w' = snd (fst st) @ t \<and> appended h ft mx c1 False (pairs_of u fs) t \<and> line_env h ft mx u s'"
      if "write_fields fs st = ((s', w'), None)" "line_env h ft mx u (fst (fst st))" "0 \<le> fst (snd st)" "c1 \<le> fst (snd st)" "\<not> snd (snd st)" for st c1
    proof -
      obtain s2 w2 n2 f2 where st: "st = ((s2, w2), n2, f2)" by (metis prod.exhaust)
      from Cons.IH [of s2 w2 n2 f2 c1] that show ?thesis by (simp add: st)
    qed
    define full where "full = (0 < mx \<and> bytes_needed s1 + n + (if first then 0 else 1) > mx)"
    have wstep: "write_field f ((s, w), n, first) =
        (if full then
           if first then (((s1, w), n, first), Some (newMetricError s1 ''need more space''))
           else if bytes_needed s1 > mx
           then ((sz_write (sz_footer s1) (s1, w), n, True), Some (newMetricError s1 ''need more space''))
           else (put_pair (sz_write (sz_footer s1) (s1, w), n, True), None)
         else (put_pair ((s1, w), n, first), None))"
      unfolding write_field_def prod.case b Let_def s1_def [symmetric] need(2) full_def by simp
    show ?thesis
    proof (cases full)
      case False
      then have wf: "write_fields fs (put_pair ((s1, w), n, first)) = ((s', w'), None)"
        using Cons.prems(1) by (simp add: wstep)
      show ?thesis
      proof (cases first)
        case True
        have "\<exists>t. w' = (w @ h @ p) @ t \<and> appended h ft mx (int (length p)) False (pairs_of u fs) t \<and> line_env h ft mx u s'"
          using next_ [OF wf, of "int (length p)"] env Cons.prems(3) True by (simp add: put_pair_parts hdr)
        then obtain t where t: "w' = w @ h @ p @ t" "appended h ft mx (int (length p)) False (pairs_of u fs) t" "line_env h ft mx u s'"
          by auto
        have "0 < mx \<longrightarrow> int (length h) + int (length p) + int (length ft) \<le> mx"
          using False need(1) Cons.prems(3) True by (auto simp: full_def)
        from appended_begin [OF t(2) this, of c] t(1,3) True show ?thesis by (auto simp: ps)
      next
        case f: False
        have "\<exists>t. w' = (w @ '','' @ p) @ t \<and> appended h ft mx (c + int (length p)) False (pairs_of u fs) t \<and> line_env h ft mx u s'"
          using next_ [OF wf, of "c + int (length p)"] env Cons.prems(3,4) f by (simp add: put_pair_parts hdr)
        then obtain t where t: "w' = w @ '','' @ p @ t" "appended h ft mx (c + int (length p)) False (pairs_of u fs) t" "line_env h ft mx u s'"
          by auto
        have "0 < mx \<longrightarrow> int (length h) + c + int (length p) + int (length ft) + 1 \<le> mx"
          using False need(1) Cons.prems(4) f by (auto simp: full_def)
        from appended_continue [OF t(2) this] t(1,3) f show ?thesis by (auto simp: ps)
      qed
    next
      case True
      then have f: "\<not> first" "\<not> bytes_needed s1 > mx" and
        wf: "write_fields fs (put_pair (sz_write (sz_footer s1) (s1, w), n, True)) = ((s', w'), None)"
        using Cons.prems(1) by (auto simp: wstep split: if_splits)
      have "\<exists>t. w' = (w @ ft @ h @ p) @ t \<and> appended h ft mx (int (length p)) False (pairs_of u fs) t \<and> line_env h ft mx u s'"
        using next_ [OF wf, of "int (length p)"] env Cons.prems(3) by (simp add: put_pair_parts hdr)
      then obtain t where t: "w' = w @ ft @ h @ p @ t" "appended h ft mx (int (length p)) False (pairs_of u fs) t" "line_env h ft mx u s'"
        by auto
      have "0 < mx \<longrightarrow> int (length h) + int (length p) + int (length ft) \<le> mx" using f(2) need(1) by simp
      from appended_break [OF appended_begin [OF t(2) this]] t(1,3) f(1) show ?thesis by (auto simp: ps)
    qed
  qed
qed

definition header_of :: "metric \<Rightarrow> string" where
  "header_of m = nameEscape (m_name m) @ concat (List.map tag_text (m_tags m)) @ '' ''"

definition footer_of :: "metric \<Rightarrow> string" where
  "footer_of m = CHR '' '' # itoa (sint (UnixNano (m_tm m))) @ [CHR 0x0A]"

lemma writeMetric_fields:
  assumes "writeMetric m (s, w) = (sw', m', None)"
  obtains s2 where "write_fields (m_fields m') ((s2, w), 0, True) = (sw', None)"
    "line_env (header_of m) (footer_of m) (sz_maxLineBytes s) (sz_uintSupport s) s2"
    "m' = (if sz_sortFields s then m\<lparr>m_fields := sort_key field_key (m_fields m)\<rparr> else m)" "nameEscape (m_name m) \<noteq> []"
proof -
  have ne: "nameEscape (m_name m) \<noteq> []"
    using assms by (auto simp: writeMetric_def buildHeader_def Let_def)
  define s2 where "s2 = s\<lparr>sz_header := header_of m, sz_footer := footer_of m\<rparr>"
  define m1 where "m1 = (if sz_sortFields s then m\<lparr>m_fields := sort_key field_key (m_fields m)\<rparr> else m)"
  have "writeMetric m (s, w) = (case write_fields (m_fields m1) ((s2, w), 0, True) of (sw3, err) \<Rightarrow> (sw3, m1, err))"
    using ne by (simp add: writeMetric_def buildHeader_def buildFooter_def s2_def header_of_def footer_of_def m1_def Let_def)
  with assms have "write_fields (m_fields m1) ((s2, w), 0, True) = (sw', None)" "m' = m1"
    by (auto split: prod.splits)
  moreover have "line_env (header_of m) (footer_of m) (sz_maxLineBytes s) (sz_uintSupport s) s2"
    by (simp add: line_env_def s2_def)
  ultimately show ?thesis using that ne by (simp add: m1_def)
qed

lemma length_join_commas: "length (join '','' ps) = sum_list (List.map length ps) + (length ps - 1)"
proof (induction ps)
  case (Cons p ps)
  then show ?case by (cases ps) simp_all
qed simp

lemma length_line_of: "int (length (line_of h ft ps)) =
    int (length h) + int (length ft) + int (sum_list (List.map length ps)) + int (length ps - 1)"
  by (simp add: line_of_def length_join_commas)

lemma writeMetric_lines:
  assumes "writeMetric m (s, w) = ((s', w'), m', None)"
  obtains gs where "gs \<noteq> []" "[] \<notin> set gs" "concat gs = pairs_of (sz_uintSupport s) (m_fields m')"
    "w' = w @ concat (List.map (line_of (header_of m) (footer_of m)) gs)"
    "\<forall>g \<in> set gs. line_checked (sz_maxLineBytes s) (int (length (header_of m)) + int (length (footer_of m))) g"
proof -
  obtain s2 where s2: "write_fields (m_fields m') ((s2, w), 0, True) = ((s', w'), None)"
    "line_env (header_of m) (footer_of m) (sz_maxLineBytes s) (sz_uintSupport s) s2"
    by (rule writeMetric_fields [OF assms]) blast
  from write_fields_appended [OF s2, of 0] that show ?thesis by (auto simp: appended_def Let_def)
qed

text \<open>
  The shape of the output: a metric that can be serialized becomes one or more lines, each with
  the same name, tags and time, whose fields are together exactly the fields that have a text, once
  each and in order, with at least one on each line. A line of one or two fields respects the maximum
  length; a longer one exceeds it by at most one byte for each field beyond the second, the
  separators that the check does not count.
\<close>

theorem serialize_lines:
  assumes "Serialize m s = (s', m', Inr out)"
  shows "\<exists>gs. gs \<noteq> [] \<and> [] \<notin> set gs \<and> concat gs = pairs_of (sz_uintSupport s) (m_fields m')
    \<and> out = concat (List.map (line_of (header_of m) (footer_of m)) gs)
    \<and> (0 < sz_maxLineBytes s \<longrightarrow> (\<forall>g \<in> set gs. int (length (line_of (header_of m) (footer_of m) g)) \<le> sz_maxLineBytes s + int (length g - 2)))"
proof -
  obtain s1 where w: "writeMetric m (s, []) = ((s1, out), m', None)"
    using assms by (auto simp: Serialize_def split: prod.splits option.splits)
  from w obtain gs where gs: "gs \<noteq> []" "[] \<notin> set gs" "concat gs = pairs_of (sz_uintSupport s) (m_fields m')"
    "out = [] @ concat (List.map (line_of (header_of m) (footer_of m)) gs)"
    "\<forall>g \<in> set gs. line_checked (sz_maxLineBytes s) (int (length (header_of m)) + int (length (footer_of m))) g"
    by (rule writeMetric_lines)
  have "int (length (line_of (header_of m) (footer_of m) g)) \<le> sz_maxLineBytes s + int (length g - 2)"
    if "0 < sz_maxLineBytes s" "g \<in> set gs" for g
  proof -
    have "line_checked (sz_maxLineBytes s) (int (length (header_of m)) + int (length (footer_of m))) g" using gs(5) that(2) by blast
    then show ?thesis using that(1) by (simp add: length_line_of line_checked_def split: if_splits)
  qed
  with gs show ?thesis by auto
qed

definition demo_line :: metric where
  "demo_line = New ''m'' [] [(''a'', GInt64 1), (''b'', GInt64 2), (''c'', GInt64 3)] 0 None"

text \<open>The maximum is exceeded: with a limit of 18 bytes three fields give a line of 19 bytes.\<close>

lemma max_line_exceeded:
  "(case Serialize demo_line (SetMaxLineBytes 18 NewSerializer) of (s, m, r) \<Rightarrow> r) = Inr (''m a=1i,b=2i,c=3i 0'' @ [CHR 0x0A])
   \<and> length (''m a=1i,b=2i,c=3i 0'' @ [CHR 0x0A]) = 19"
  by code_simp

theorem serialize_lines_witness:
  "\<exists>gs. concat gs = [''a=1i'', ''b=2i'', ''c=3i''] \<and> ''m a=1i,b=2i,c=3i 0'' @ [CHR 0x0A] = concat (List.map (line_of ''m '' ('' 0'' @ [CHR 0x0A])) gs)"
proof -
  have c: "case Serialize demo_line (SetMaxLineBytes 18 NewSerializer) of (s', m', r) \<Rightarrow>
      r = Inr (''m a=1i,b=2i,c=3i 0'' @ [CHR 0x0A]) \<and> m_fields m' = m_fields demo_line" by code_simp
  obtain s' m' r where S0: "Serialize demo_line (SetMaxLineBytes 18 NewSerializer) = (s', m', r)" by (metis prod.exhaust)
  with c have S: "Serialize demo_line (SetMaxLineBytes 18 NewSerializer) = (s', m', Inr (''m a=1i,b=2i,c=3i 0'' @ [CHR 0x0A]))"
    "m_fields m' = m_fields demo_line" by simp_all
  have p: "pairs_of False (m_fields demo_line) = [''a=1i'', ''b=2i'', ''c=3i'']" "header_of demo_line = ''m ''" "footer_of demo_line = '' 0'' @ [CHR 0x0A]"
    by code_simp+
  have u: "sz_uintSupport (SetMaxLineBytes 18 NewSerializer) = False" by (simp add: SetMaxLineBytes_def NewSerializer_def)
  from serialize_lines [OF S(1)] show ?thesis unfolding S(2) p u by blast
qed

end
