(* ===== verification/InfluxParser.thy ===== *)
theory InfluxParser
  imports InfluxSerializer
begin

section \<open>The line protocol parser\<close>

text \<open>
  \<open>plugins/parsers/influx\<close>: \<open>escape.go\<close>, \<open>handler.go\<close> and \<open>parser.go\<close>. The scanner \<open>machine.go\<close> is
  generated from the grammar \<open>machine.go.rl\<close> and is a parameter here: a function from the input to
  one entry for each time \<open>ParseLine\<close> returns true, with the calls it makes on the handler and its
  error, if any, with the position. The grammar itself is modelled at the end of the theory as an executable
  recogniser, and the composition with the serializer is proved for a machine that follows it.
\<close>

subsection \<open>Undoing escapes\<close>

text \<open>A \<open>strings.Replacer\<close> whose old strings are a backslash and one of some characters.\<close>

fun replace_pairs :: "(char \<Rightarrow> bool) \<Rightarrow> string \<Rightarrow> string" where
  "replace_pairs P [] = []"
| "replace_pairs P [c] = [c]"
| "replace_pairs P (c # d # s) = (if c = bsl \<and> P d then d # replace_pairs P s else c # replace_pairs P (d # s))"

definition unescaper :: "string \<Rightarrow> string" where
  "unescaper = replace_pairs (\<lambda>c. c = CHR '','' \<or> c = dq \<or> c = CHR '' '' \<or> c = CHR ''='')"

definition nameUnescaper :: "string \<Rightarrow> string" where
  "nameUnescaper = replace_pairs (\<lambda>c. c = CHR '','' \<or> c = CHR '' '')"

definition stringFieldUnescaper :: "string \<Rightarrow> string" where
  "stringFieldUnescaper = replace_pairs (\<lambda>c. c = dq \<or> c = bsl)"

definition unescape :: "string \<Rightarrow> string" where
  "unescape b = (if contains_any b '' ,='' then unescaper b else b)"

definition nameUnescape :: "string \<Rightarrow> string" where
  "nameUnescape b = (if contains_any b '' ,'' then nameUnescaper b else b)"

definition stringFieldUnescape :: "string \<Rightarrow> string" where
  "stringFieldUnescape b = (if contains_any b [bsl, dq] then stringFieldUnescaper b else b)"

subsection \<open>The handler\<close>

record handler =
  h_builder :: builder
  h_precision :: int

definition NewMetricHandler :: "int \<Rightarrow> handler" where
  "NewMetricHandler now = \<lparr>h_builder = NewBuilder now, h_precision = 1\<rparr>"

definition h_SetTimeFunc :: "int \<Rightarrow> handler \<Rightarrow> handler" where
  "h_SetTimeFunc now h = h\<lparr>h_builder := (h_builder h)\<lparr>b_time_func := now\<rparr>\<rparr>"

definition SetTimePrecision :: "int \<Rightarrow> handler \<Rightarrow> handler" where
  "SetTimePrecision p h = h\<lparr>h_builder := (h_builder h)\<lparr>b_precision := p\<rparr>, h_precision := p\<rparr>"

definition h_Metric :: "handler \<Rightarrow> handler \<times> metric" where
  "h_Metric h = (case Builder_Metric (h_builder h) of (b, m) \<Rightarrow> (h\<lparr>h_builder := b\<rparr>, m))"

definition h_Reset :: "handler \<Rightarrow> handler" where
  "h_Reset h = h\<lparr>h_builder := Builder_Reset (h_builder h)\<rparr>"

definition h_build :: "metric_op \<Rightarrow> handler \<Rightarrow> handler" where
  "h_build op h = h\<lparr>h_builder := builder_step op (h_builder h)\<rparr>"

definition SetMeasurement :: "string \<Rightarrow> handler \<Rightarrow> handler" where
  "SetMeasurement name = h_build (MSetName (nameUnescape name))"

definition h_AddTag :: "string \<Rightarrow> string \<Rightarrow> handler \<Rightarrow> handler" where
  "h_AddTag key value = h_build (MAddTag (unescape key) (unescape value))"

definition AddInt :: "string \<Rightarrow> string \<Rightarrow> handler \<Rightarrow> handler" where
  "AddInt key value h = (case parse_int (trim_suffix value ''i'') of
     None \<Rightarrow> h | Some v \<Rightarrow> h_build (MAddField (unescape key) (GInt64 v)) h)"

definition AddUint :: "string \<Rightarrow> string \<Rightarrow> handler \<Rightarrow> handler" where
  "AddUint key value h = (case parse_uint (trim_suffix value ''u'') of
     None \<Rightarrow> h | Some v \<Rightarrow> h_build (MAddField (unescape key) (GUint64 v)) h)"

definition AddFloat :: "string \<Rightarrow> string \<Rightarrow> handler \<Rightarrow> handler" where
  "AddFloat key value h = (case parse_float value of
     None \<Rightarrow> h | Some v \<Rightarrow> h_build (MAddField (unescape key) (GFloat64 v)) h)"

definition AddString :: "string \<Rightarrow> string \<Rightarrow> handler \<Rightarrow> handler" where
  "AddString key value = h_build (MAddField (unescape key) (GString (stringFieldUnescape value)))"

definition AddBool :: "string \<Rightarrow> string \<Rightarrow> handler \<Rightarrow> handler" where
  "AddBool key value h = (case parse_bool value of
     None \<Rightarrow> h | Some v \<Rightarrow> h_build (MAddField (unescape key) (GBool v)) h)"

text \<open>A timestamp counts units of the precision; the product wraps around.\<close>

definition SetTimestamp :: "string \<Rightarrow> handler \<Rightarrow> handler" where
  "SetTimestamp t h = (case parse_int t of
     None \<Rightarrow> h | Some v \<Rightarrow> h_build (MSetTime (sint (v * word_of_int (h_precision h)))) h)"

text \<open>The interface \<open>Handler\<close> that the machine calls.\<close>

datatype handler_call =
    CMeasurement string | CTag string string | CInt string string | CUint string string
  | CFloat string string | CString string string | CBool string string | CTimestamp string

fun handle :: "handler_call \<Rightarrow> handler \<Rightarrow> handler" where
  "handle (CMeasurement n) = SetMeasurement n"
| "handle (CTag k v) = h_AddTag k v"
| "handle (CInt k v) = AddInt k v"
| "handle (CUint k v) = AddUint k v"
| "handle (CFloat k v) = AddFloat k v"
| "handle (CString k v) = AddString k v"
| "handle (CBool k v) = AddBool k v"
| "handle (CTimestamp t) = SetTimestamp t"

subsection \<open>The parser\<close>

type_synonym machine_round = "handler_call list \<times> (string \<times> int) option"
type_synonym machine = "string \<Rightarrow> machine_round list"

datatype influx_error = ParseError int string string | ErrNoMetric

record influx_parser =
  ip_DefaultTags :: strmap
  ip_machine :: machine
  ip_handler :: handler

definition NewParser :: "machine \<Rightarrow> handler \<Rightarrow> influx_parser" where
  "NewParser mach h = \<lparr>ip_DefaultTags = [], ip_machine = mach, ip_handler = h\<rparr>"

text \<open>A series parser is the same with the machine of the entry point for series.\<close>

definition NewSeriesParser :: "machine \<Rightarrow> handler \<Rightarrow> influx_parser" where
  "NewSeriesParser mach h = \<lparr>ip_DefaultTags = [], ip_machine = mach, ip_handler = h\<rparr>"

fun parse_rounds :: "string \<Rightarrow> machine_round list \<Rightarrow> handler \<Rightarrow> metric list \<Rightarrow> handler \<times> (influx_error + metric list)" where
  "parse_rounds input [] h ms = (h, Inr ms)"
| "parse_rounds input ((calls, err) # rs) h ms =
     (let h1 = fold handle calls h
      in case err of
           Some (msg, pos) \<Rightarrow> (h_Reset h1, Inl (ParseError pos msg input))
         | None \<Rightarrow> (case h_Metric h1 of (h2, m) \<Rightarrow> parse_rounds input rs (h_Reset h2) (ms @ [m])))"

definition apply_default :: "string \<times> string \<Rightarrow> metric \<Rightarrow> metric" where
  "apply_default kv m = (if HasTag m (fst kv) then m else AddTag (fst kv) (snd kv) m)"

definition applyDefaultTags :: "strmap \<Rightarrow> metric list \<Rightarrow> metric list" where
  "applyDefaultTags tags ms = (if length tags = 0 then ms else List.map (fold apply_default tags) ms)"

definition influx_Parse :: "string \<Rightarrow> influx_parser \<Rightarrow> influx_parser \<times> (influx_error + metric list)" where
  "influx_Parse input p =
     (case parse_rounds input (ip_machine p input) (ip_handler p) [] of
        (h, Inl e) \<Rightarrow> (p\<lparr>ip_handler := h\<rparr>, Inl e)
      | (h, Inr ms) \<Rightarrow> (p\<lparr>ip_handler := h\<rparr>, Inr (applyDefaultTags (ip_DefaultTags p) ms)))"

definition influx_ParseLine :: "string \<Rightarrow> influx_parser \<Rightarrow> influx_parser \<times> (influx_error + metric)" where
  "influx_ParseLine line p =
     (case influx_Parse (line @ [CHR 0x0A]) p of
        (p1, Inl e) \<Rightarrow> (p1, Inl e)
      | (p1, Inr []) \<Rightarrow> (p1, Inl ErrNoMetric)
      | (p1, Inr (m # ms)) \<Rightarrow> (p1, Inr m))"

definition influx_SetDefaultTags :: "strmap \<Rightarrow> influx_parser \<Rightarrow> influx_parser" where
  "influx_SetDefaultTags tags p = p\<lparr>ip_DefaultTags := tags\<rparr>"

text \<open>The part of the input that an error message quotes.\<close>

definition error_buffer :: "string \<Rightarrow> string" where
  "error_buffer buf = (if length buf > 1024 then take 1024 buf @ ''...'' else buf)"

subsection \<open>The grammar\<close>

text \<open>
  The rules of \<open>machine.go.rl\<close>, in their order there, as functions that read a prefix of the input.
  A line that matches no rule gives \<open>None\<close>: what the machine then reports is not described here.
  Also left out, as if they matched no rule, are vertical tabs between or in names, which the
  grammar counts both as white space and as a character of names, and lines that begin with a backslash,
  where the machine skips the backslash when it goes on from \<open>align\<close> to \<open>main\<close>.
\<close>

definition grammar_ws :: "char \<Rightarrow> bool" where
  "grammar_ws c \<longleftrightarrow> c = CHR 0x09 \<or> c = CHR 0x0C \<or> c = CHR '' ''"

definition grammar_newline :: "char \<Rightarrow> bool" where
  "grammar_newline c \<longleftrightarrow> c = CHR 0x0A \<or> c = CHR 0x0D"

definition grammar_space :: "char \<Rightarrow> bool" where
  "grammar_space c \<longleftrightarrow> grammar_ws c \<or> grammar_newline c"

definition control :: "char \<Rightarrow> bool" where
  "control c \<longleftrightarrow> c = CHR 0x09 \<or> c = CHR 0x0A \<or> c = CHR 0x0C \<or> c = CHR 0x0D"

definition key_stop :: "char \<Rightarrow> bool" where
  "key_stop c \<longleftrightarrow> control c \<or> c = CHR 0x0B \<or> c = CHR '' '' \<or> c = CHR '','' \<or> c = CHR ''=''"

definition name_stop :: "char \<Rightarrow> bool" where
  "name_stop c \<longleftrightarrow> control c \<or> c = CHR 0x0B \<or> c = CHR '' '' \<or> c = CHR '',''"

definition value_stop :: "char \<Rightarrow> bool" where
  "value_stop c \<longleftrightarrow> control c \<or> c = CHR 0x0B \<or> c = CHR '' '' \<or> c = CHR '',''"

definition unsigned_token :: "string \<Rightarrow> bool" where
  "unsigned_token s \<longleftrightarrow> s \<noteq> [] \<and> list_all is_digit s \<and> (length s > 1 \<longrightarrow> hd s \<noteq> CHR ''0'')"

definition unsign :: "string \<Rightarrow> string" where
  "unsign s = (if s \<noteq> [] \<and> hd s = CHR ''-'' then tl s else s)"

definition integer_token :: "string \<Rightarrow> bool" where
  "integer_token s = unsigned_token (unsign s)"

definition number_token :: "string \<Rightarrow> bool" where
  "number_token s =
     (let t = unsign s; ip = takeWhile is_digit t; r = dropWhile is_digit t
      in (ip \<noteq> [] \<and> (r = [] \<or> hd r = CHR ''.'' \<and> list_all is_digit (tl r)))
         \<or> (ip = [] \<and> r \<noteq> [] \<and> hd r = CHR ''.'' \<and> tl r \<noteq> [] \<and> list_all is_digit (tl r)))"

definition scientific_token :: "string \<Rightarrow> bool" where
  "scientific_token s =
     (let n = takeWhile (\<lambda>c. c \<noteq> CHR ''e'' \<and> c \<noteq> CHR ''E'') s; r = drop (length n) s;
          e = (if tl r \<noteq> [] \<and> hd (tl r) \<in> set [dq, CHR ''-'', CHR ''+''] then tl (tl r) else tl r)
      in number_token n \<and> r \<noteq> [] \<and> e \<noteq> [] \<and> list_all is_digit e)"

definition bool_token :: "string \<Rightarrow> bool" where
  "bool_token s \<longleftrightarrow> s \<in> set [''false'', ''FALSE'', ''False'', ''F'', ''f'', ''true'', ''TRUE'', ''True'', ''T'', ''t'']"

definition value_call :: "string \<Rightarrow> string \<Rightarrow> handler_call option" where
  "value_call key s =
     (if s \<noteq> [] \<and> last s = CHR ''i'' \<and> integer_token (butlast s) then Some (CInt key (butlast s @ ''i''))
      else if s \<noteq> [] \<and> last s = CHR ''u'' \<and> unsigned_token (butlast s) then Some (CUint key (butlast s @ ''u''))
      else if number_token s \<or> scientific_token s then Some (CFloat key s)
      else if bool_token s then Some (CBool key s) else None)"

fun read_token :: "(char \<Rightarrow> bool) \<Rightarrow> string \<Rightarrow> string \<times> string" where
  "read_token stop [] = ([], [])"
| "read_token stop [c] = (if c = bsl \<or> stop c then ([], [c]) else ([c], []))"
| "read_token stop (c # d # s) =
     (if c = bsl then
        if control d then ([], c # d # s) else (case read_token stop s of (t, r) \<Rightarrow> (c # d # t, r))
      else if stop c then ([], c # d # s)
      else (case read_token stop (d # s) of (t, r) \<Rightarrow> (c # t, r)))"

fun read_string :: "string \<Rightarrow> (string \<times> string) option" where
  "read_string [] = None"
| "read_string [c] = (if c = dq then Some ([], []) else None)"
| "read_string (c # d # s) =
     (if c = dq then Some ([], d # s)
      else if c = bsl then
        if d = bsl \<or> d = dq then (case read_string s of None \<Rightarrow> None | Some (t, r) \<Rightarrow> Some (c # d # t, r)) else None
      else if control c \<and> c \<noteq> CHR 0x09 then None
      else (case read_string (d # s) of None \<Rightarrow> None | Some (t, r) \<Rightarrow> Some (c # t, r)))"

lemma length_read_token: "length (snd (read_token stop s)) = length s - length (fst (read_token stop s))
    \<and> length (fst (read_token stop s)) \<le> length s"
  by (induction stop s rule: read_token.induct) (auto split: prod.splits)

lemma length_read_string: "read_string s = Some (t, r) \<Longrightarrow> length r < length s"
  by (induction s arbitrary: t r rule: read_string.induct) (fastforce split: if_splits option.splits prod.splits)+

definition read_value :: "string \<Rightarrow> string \<Rightarrow> (handler_call \<times> string) option" where
  "read_value key s =
     (if s \<noteq> [] \<and> hd s = dq then
        (case read_string (tl s) of None \<Rightarrow> None | Some (t, r) \<Rightarrow> Some (CString key t, r))
      else (case value_call key (takeWhile (\<lambda>c. \<not> value_stop c) s) of
              None \<Rightarrow> None | Some call \<Rightarrow> Some (call, dropWhile (\<lambda>c. \<not> value_stop c) s)))"

definition read_field :: "string \<Rightarrow> (handler_call \<times> string) option" where
  "read_field s =
     (case read_token key_stop s of (key, r) \<Rightarrow>
        if key = [] \<or> r = [] \<or> hd r \<noteq> CHR ''='' then None else read_value key (tl r))"

lemma length_read_value:
  assumes "read_value key s = Some (call, r)"
  shows "length r \<le> length s"
proof (cases "s \<noteq> [] \<and> hd s = dq")
  case True
  then obtain t where "read_string (tl s) = Some (t, r)"
    using assms by (auto simp: read_value_def split: option.splits)
  then have "length r < length (tl s)" by (rule length_read_string)
  then show ?thesis by simp
next
  case False
  then have "r = dropWhile (\<lambda>c. \<not> value_stop c) s"
    using assms by (auto simp: read_value_def split: if_splits option.splits)
  then show ?thesis by (simp add: length_dropWhile_le)
qed

lemma length_read_field:
  assumes "read_field s = Some (call, r)"
  shows "length r < length s"
proof -
  obtain key r0 where t: "read_token key_stop s = (key, r0)" by (metis prod.exhaust)
  with assms have v: "read_value key (tl r0) = Some (call, r)" "r0 \<noteq> []"
    by (auto simp: read_field_def split: if_splits)
  have "length r0 \<le> length s" using length_read_token [of key_stop s] by (simp add: t)
  with length_read_value [OF v(1)] v(2) show ?thesis by (cases r0) auto
qed

function read_fields :: "string \<Rightarrow> (handler_call list \<times> string) option" where
  "read_fields s =
     (case read_field s of
        None \<Rightarrow> None
      | Some (call, r) \<Rightarrow>
          if r \<noteq> [] \<and> hd r = CHR '','' then
            (case read_fields (tl r) of None \<Rightarrow> None | Some (calls, r1) \<Rightarrow> Some (call # calls, r1))
          else Some ([call], r))"
  by pat_completeness auto
termination
  by (relation "measure length") (auto dest!: length_read_field)

declare read_fields.simps [simp del]

definition read_tag :: "string \<Rightarrow> (handler_call \<times> string) option" where
  "read_tag s =
     (case read_token key_stop s of (k, r) \<Rightarrow>
        if k = [] \<or> r = [] \<or> hd r \<noteq> CHR ''='' then None
        else case read_token key_stop (tl r) of (v, r1) \<Rightarrow> if v = [] then None else Some (CTag k v, r1))"

lemma length_read_tag:
  assumes "read_tag s = Some (call, r)"
  shows "length r < length s"
proof -
  obtain k r0 v r1 where t: "read_token key_stop s = (k, r0)" "read_token key_stop (tl r0) = (v, r1)"
    by (metis prod.exhaust)
  with assms have "r = r1" "r0 \<noteq> []" by (auto simp: read_tag_def split: if_splits)
  then show ?thesis
    using length_read_token [of key_stop s] length_read_token [of key_stop "tl r0"] unfolding t by (cases r0) auto
qed

function read_tags :: "string \<Rightarrow> (handler_call list \<times> string) option" where
  "read_tags s =
     (if s = [] \<or> hd s \<noteq> CHR '','' then Some ([], s)
      else case read_tag (tl s) of
        None \<Rightarrow> None
      | Some (call, r) \<Rightarrow> (case read_tags r of None \<Rightarrow> None | Some (calls, r1) \<Rightarrow> Some (call # calls, r1)))"
  by pat_completeness auto
termination
  by (relation "measure length") (auto dest!: length_read_tag)

declare read_tags.simps [simp del]

definition read_eol :: "string \<Rightarrow> string option" where
  "read_eol s =
     (let r = dropWhile grammar_ws s
      in if r = [] then Some [] else if grammar_newline (hd r) then Some (tl r) else None)"

definition read_timestamp :: "string \<Rightarrow> (handler_call list \<times> string) option" where
  "read_timestamp s =
     (let r = dropWhile grammar_ws s; u = unsign r; ds = takeWhile is_digit u; sg = take (length r - length u) r
      in if r = s \<or> r = [] \<or> \<not> (hd r = CHR ''-'' \<or> is_digit (hd r))
         then (case read_eol s of None \<Rightarrow> None | Some r1 \<Rightarrow> Some ([], r1))
         else if ds = [] \<or> length ds > 19 then None
         else case read_eol (dropWhile is_digit u) of
           None \<Rightarrow> None | Some r1 \<Rightarrow> Some ([CTimestamp (sg @ ds)], r1))"

definition read_line :: "string \<Rightarrow> (handler_call list \<times> string) option" where
  "read_line s =
     (case read_token name_stop s of (name, r) \<Rightarrow>
        if name = [] \<or> hd name = CHR ''#'' \<or> hd name = bsl then None
        else case read_tags r of
          None \<Rightarrow> None
        | Some (tagcalls, r1) \<Rightarrow>
            if r1 = [] \<or> \<not> grammar_ws (hd r1) then None
            else case read_fields (dropWhile grammar_ws r1) of
              None \<Rightarrow> None
            | Some (fieldcalls, r2) \<Rightarrow>
                (case read_timestamp r2 of
                   None \<Rightarrow> None
                 | Some (timecalls, r3) \<Rightarrow> Some (CMeasurement name # tagcalls @ fieldcalls @ timecalls, r3)))"

lemma length_read_tags: "read_tags s = Some (calls, r) \<Longrightarrow> length r \<le> length s"
proof (induction s arbitrary: calls r rule: read_tags.induct)
  case (1 s)
  show ?case
  proof (cases "s = [] \<or> hd s \<noteq> CHR '',''")
    case False
    with "1.prems" obtain call r0 calls0 where f: "read_tag (tl s) = Some (call, r0)" "read_tags r0 = Some (calls0, r)"
      by (subst (asm) read_tags.simps) (auto split: option.splits)
    from "1.IH" [OF False f(1) refl f(2)] length_read_tag [OF f(1)] show ?thesis by simp
  qed (use "1.prems" in \<open>subst (asm) read_tags.simps, simp\<close>)
qed

lemma length_read_fields: "read_fields s = Some (calls, r) \<Longrightarrow> length r \<le> length s"
proof (induction s arbitrary: calls r rule: read_fields.induct)
  case (1 s)
  from "1.prems" obtain call r0 where f: "read_field s = Some (call, r0)"
    by (subst (asm) read_fields.simps) (auto split: option.splits)
  show ?case
  proof (cases "r0 \<noteq> [] \<and> hd r0 = CHR '',''")
    case True
    with "1.prems" f obtain calls0 where g: "read_fields (tl r0) = Some (calls0, r)"
      by (subst (asm) read_fields.simps) (auto split: option.splits)
    from "1.IH" [OF f refl True g] length_read_field [OF f] show ?thesis by simp
  next
    case False
    with "1.prems" f have "r = r0" by (subst (asm) read_fields.simps) auto
    then show ?thesis using length_read_field [OF f] by simp
  qed
qed

lemma length_read_eol: "read_eol s = Some r \<Longrightarrow> length r \<le> length s"
  using length_dropWhile_le [of grammar_ws s] by (auto simp: read_eol_def Let_def split: if_splits)

lemma length_unsign: "length (unsign s) \<le> length s"
  by (simp add: unsign_def)

lemma length_read_timestamp:
  assumes "read_timestamp s = Some (calls, r)"
  shows "length r \<le> length s"
proof -
  let ?u = "unsign (dropWhile grammar_ws s)"
  have u: "length (dropWhile is_digit ?u) \<le> length s"
    using length_dropWhile_le [of is_digit ?u] length_unsign [of "dropWhile grammar_ws s"] length_dropWhile_le [of grammar_ws s]
    by linarith
  have "read_eol s = Some r \<or> read_eol (dropWhile is_digit ?u) = Some r"
    using assms by (auto simp: read_timestamp_def Let_def split: if_splits option.splits)
  then show ?thesis using length_read_eol u by fastforce
qed

lemma length_read_line:
  assumes "read_line s = Some (calls, r)"
  shows "length r < length s"
proof -
  obtain name r0 where t: "read_token name_stop s = (name, r0)" by (metis prod.exhaust)
  with assms obtain tc r1 fc r2 mc where l: "name \<noteq> []" "read_tags r0 = Some (tc, r1)"
    "read_fields (dropWhile grammar_ws r1) = Some (fc, r2)" "read_timestamp r2 = Some (mc, r)"
    by (auto simp: read_line_def split: if_splits option.splits)
  have "length r0 < length s" using length_read_token [of name_stop s] l(1) by (cases name) (auto simp: t)
  with length_read_tags [OF l(2)] length_read_fields [OF l(3)] length_read_timestamp [OF l(4)]
    length_dropWhile_le [of grammar_ws r1] show ?thesis by linarith
qed

text \<open>The entry \<open>align\<close>: white space and comments before a line.\<close>

function grammar_align :: "string \<Rightarrow> string" where
  "grammar_align s =
     (let r = dropWhile grammar_space s
      in if r \<noteq> [] \<and> hd r = CHR ''#'' then grammar_align (drop 1 (dropWhile (\<lambda>c. \<not> grammar_newline c) r)) else r)"
  by pat_completeness auto
termination
proof (relation "measure length")
  fix s r :: string assume r: "r = dropWhile grammar_space s" "r \<noteq> [] \<and> hd r = CHR ''#''"
  from r(2) have "length (dropWhile (\<lambda>c. \<not> grammar_newline c) r) < length r"
    using length_dropWhile_le [of "\<lambda>c. \<not> grammar_newline c" "tl r"]
    by (cases r) (simp_all add: grammar_newline_def less_Suc_eq_le)
  moreover have "length r \<le> length s" by (simp add: r(1) length_dropWhile_le)
  ultimately show "(drop 1 (dropWhile (\<lambda>c. \<not> grammar_newline c) r), s) \<in> measure length" by simp
qed simp

declare grammar_align.simps [simp del]

lemma length_grammar_align: "length (grammar_align s) \<le> length s"
proof (induction s rule: grammar_align.induct)
  case (1 s)
  let ?r = "dropWhile grammar_space s"
  have "length (drop 1 (dropWhile (\<lambda>c. \<not> grammar_newline c) ?r)) \<le> length s"
    using length_dropWhile_le [of "\<lambda>c. \<not> grammar_newline c" ?r] length_dropWhile_le [of grammar_space s] by simp
  with 1 length_dropWhile_le [of grammar_space s] show ?case
    by (subst grammar_align.simps) (auto simp: Let_def intro: order_trans)
qed

text \<open>
  The rounds of the machine: one for each line, and one without calls for white space or comments
  after the last line.
\<close>

function grammar_rounds :: "string \<Rightarrow> machine_round list option" where
  "grammar_rounds s =
     (if s = [] then Some []
      else let r = grammar_align s
      in if r = [] then Some [([], None)]
         else case read_line r of
           None \<Rightarrow> None
         | Some (calls, rest) \<Rightarrow>
             (case grammar_rounds rest of None \<Rightarrow> None | Some rs \<Rightarrow> Some ((calls, None) # rs)))"
  by pat_completeness auto
termination
proof (relation "measure length")
  fix s r calls rest x assume "r = grammar_align s" "read_line r = Some x" "(calls, rest) = x"
  then have "length rest < length (grammar_align s)" by (auto dest: length_read_line)
  then show "(rest, s) \<in> measure length" using length_grammar_align [of s] by simp
qed simp

declare grammar_rounds.simps [simp del]

definition follows_grammar :: "machine \<Rightarrow> bool" where
  "follows_grammar mach \<longleftrightarrow> (\<forall>s rs. grammar_rounds s = Some rs \<longrightarrow> mach s = rs)"

subsection \<open>Reading back what was escaped\<close>

definition plain_char :: "char \<Rightarrow> bool" where
  "plain_char c \<longleftrightarrow> c \<noteq> bsl \<and> \<not> control c \<and> c \<noteq> CHR 0x0B"

abbreviation plain :: "string \<Rightarrow> bool" where "plain s \<equiv> list_all plain_char s"

lemma replace_bytes_simps [simp]:
  "replace_bytes esc [] = []" "replace_bytes esc (c # s) = esc c @ replace_bytes esc s"
  by (simp_all add: replace_bytes_def)

lemma replace_bytes_same: "list_all (\<lambda>c. esc c = [c]) s \<Longrightarrow> replace_bytes esc s = s"
  by (induction s) auto

lemma escape_bytes: "escape s = replace_bytes escaper s"
proof (cases "contains_any s (white @ '' ,='')")
  case False
  then have "list_all (\<lambda>c. escaper c = [c]) s"
    by (auto simp: contains_any_def white_def list_all_iff list_ex_iff escaper_def white_escape_def)
  with False show ?thesis by (simp add: escape_def replace_bytes_same)
qed (simp add: escape_def)

lemma nameEscape_bytes: "nameEscape s = replace_bytes nameEscaper s"
proof (cases "contains_any s (white @ '' ,'')")
  case False
  then have "list_all (\<lambda>c. nameEscaper c = [c]) s"
    by (auto simp: contains_any_def white_def list_all_iff list_ex_iff nameEscaper_def white_escape_def)
  with False show ?thesis by (simp add: nameEscape_def replace_bytes_same)
qed (simp add: nameEscape_def)

lemma stringFieldEscape_bytes: "stringFieldEscape s = replace_bytes stringFieldEscaper s"
proof (cases "contains_any s (white @ [bsl, dq])")
  case False
  then have "list_all (\<lambda>c. stringFieldEscaper c = [c]) s"
    by (auto simp: contains_any_def white_def list_all_iff list_ex_iff stringFieldEscaper_def white_escape_def)
  with False show ?thesis by (simp add: stringFieldEscape_def replace_bytes_same)
qed (simp add: stringFieldEscape_def)

text \<open>A character that an escaper leaves alone or puts a backslash before.\<close>

definition kept :: "(char \<Rightarrow> string) \<Rightarrow> (char \<Rightarrow> bool) \<Rightarrow> char \<Rightarrow> bool" where
  "kept esc P c \<longleftrightarrow> esc c = [c] \<and> c \<noteq> bsl \<or> esc c = [bsl, c] \<and> P c"

lemma replace_pairs_plain [simp]: "c \<noteq> bsl \<Longrightarrow> replace_pairs P (c # s) = c # replace_pairs P s"
  by (cases s) simp_all

lemma replace_pairs_back: "list_all (kept esc P) s \<Longrightarrow> replace_pairs P (replace_bytes esc s) = s"
  by (induction s) (auto simp: kept_def)

lemma escaper_kept: "plain_char c \<Longrightarrow> kept escaper (\<lambda>c. c = CHR '','' \<or> c = dq \<or> c = CHR '' '' \<or> c = CHR ''='') c"
  by (simp add: kept_def escaper_def white_escape_def plain_char_def control_def)

lemma nameEscaper_kept: "plain_char c \<Longrightarrow> kept nameEscaper (\<lambda>c. c = CHR '','' \<or> c = CHR '' '') c"
  by (simp add: kept_def nameEscaper_def white_escape_def plain_char_def control_def)

lemma stringFieldEscaper_kept: "\<not> control c \<Longrightarrow> kept stringFieldEscaper (\<lambda>c. c = dq \<or> c = bsl) c"
  by (simp add: kept_def stringFieldEscaper_def white_escape_def control_def)

text \<open>The shortcuts for texts without special characters change nothing.\<close>

lemma replace_pairs_id: "list_all (\<lambda>c. c \<noteq> bsl) s \<Longrightarrow> replace_pairs P s = s"
  by (induction s) simp_all

lemma replace_pairs_none: "list_all (\<lambda>c. \<not> P c) s \<Longrightarrow> replace_pairs P s = s"
  by (induction P s rule: replace_pairs.induct) auto

lemma unescape_escape: "plain s \<Longrightarrow> unescape (escape s) = s"
proof -
  assume p: "plain s"
  then have "list_all (kept escaper (\<lambda>c. c = CHR '','' \<or> c = dq \<or> c = CHR '' '' \<or> c = CHR ''='')) s"
    by (auto simp: list_all_iff escaper_kept)
  then have b: "unescaper (replace_bytes escaper s) = s" unfolding unescaper_def by (rule replace_pairs_back)
  show ?thesis
  proof (cases "contains_any (replace_bytes escaper s) '' ,=''")
    case False
    have "list_all (\<lambda>c. escaper c = [c]) s"
      unfolding list_all_iff
    proof
      fix c assume c: "c \<in> set s"
      show "escaper c = [c]"
      proof (rule ccontr)
        assume "escaper c \<noteq> [c]"
        with p c have "c \<in> set '' ,=''" "c \<in> set (escaper c)"
          by (auto simp: list_all_iff escaper_def white_escape_def plain_char_def control_def split: if_splits)
        with False c show False by (auto simp: contains_any_def list_ex_iff replace_bytes_def)
      qed
    qed
    with False show ?thesis by (simp add: escape_bytes unescape_def replace_bytes_same)
  qed (simp add: escape_bytes unescape_def b)
qed

lemma nameUnescape_nameEscape: "plain s \<Longrightarrow> nameUnescape (nameEscape s) = s"
proof -
  assume p: "plain s"
  then have "list_all (kept nameEscaper (\<lambda>c. c = CHR '','' \<or> c = CHR '' '')) s"
    by (auto simp: list_all_iff nameEscaper_kept)
  then have b: "nameUnescaper (replace_bytes nameEscaper s) = s" unfolding nameUnescaper_def by (rule replace_pairs_back)
  show ?thesis
  proof (cases "contains_any (replace_bytes nameEscaper s) '' ,''")
    case False
    then have "list_all (\<lambda>c. \<not> (c = CHR '','' \<or> c = CHR '' '')) (replace_bytes nameEscaper s)"
      by (auto simp: contains_any_def list_all_iff list_ex_iff)
    from replace_pairs_none [OF this] b False show ?thesis
      by (simp add: nameEscape_bytes nameUnescape_def nameUnescaper_def)
  qed (simp add: nameEscape_bytes nameUnescape_def b)
qed

lemma stringFieldUnescape_escape: "list_all (\<lambda>c. \<not> control c) s \<Longrightarrow> stringFieldUnescape (stringFieldEscape s) = s"
proof -
  assume p: "list_all (\<lambda>c. \<not> control c) s"
  then have "list_all (kept stringFieldEscaper (\<lambda>c. c = dq \<or> c = bsl)) s"
    by (auto simp: list_all_iff stringFieldEscaper_kept)
  then have b: "stringFieldUnescaper (replace_bytes stringFieldEscaper s) = s"
    unfolding stringFieldUnescaper_def by (rule replace_pairs_back)
  show ?thesis
  proof (cases "contains_any (replace_bytes stringFieldEscaper s) [bsl, dq]")
    case False
    then have "list_all (\<lambda>c. c \<noteq> bsl) (replace_bytes stringFieldEscaper s)"
      by (auto simp: contains_any_def list_all_iff list_ex_iff)
    from replace_pairs_id [OF this] b False show ?thesis
      by (simp add: stringFieldEscape_bytes stringFieldUnescape_def stringFieldUnescaper_def)
  qed (simp add: stringFieldEscape_bytes stringFieldUnescape_def b)
qed

lemma read_token_char:
  "c \<noteq> bsl \<Longrightarrow> \<not> stop c \<Longrightarrow> read_token stop (c # s) = (c # fst (read_token stop s), snd (read_token stop s))"
  by (cases s) (simp_all split: prod.splits)

lemma read_token_pair:
  "\<not> control c \<Longrightarrow> read_token stop (bsl # c # s) = (bsl # c # fst (read_token stop s), snd (read_token stop s))"
  by (simp split: prod.splits)

lemma read_token_stops: "c \<noteq> bsl \<Longrightarrow> stop c \<Longrightarrow> read_token stop (c # s) = ([], c # s)"
  by (cases s) simp_all

lemma read_token_escaped:
  assumes "list_all (\<lambda>c. esc c = [c] \<and> c \<noteq> bsl \<and> \<not> stop c \<or> esc c = [bsl, c] \<and> \<not> control c) s"
    "d \<noteq> bsl" "stop d"
  shows "read_token stop (replace_bytes esc s @ d # rest) = (replace_bytes esc s, d # rest)"
  using assms(1)
proof (induction s)
  case (Cons c s)
  from Cons.IH Cons.prems have ih: "read_token stop (replace_bytes esc s @ d # rest) = (replace_bytes esc s, d # rest)" by simp
  from Cons.prems consider "esc c = [c]" "c \<noteq> bsl" "\<not> stop c" | "esc c = [bsl, c]" "\<not> control c" by auto
  then show ?case
  proof cases
    case 1
    then show ?thesis using read_token_char [of c stop] ih by simp
  next
    case 2
    then show ?thesis using read_token_pair [of c stop] ih by simp
  qed
qed (simp add: read_token_stops assms(2,3))

lemma read_key_escaped:
  "plain s \<Longrightarrow> key_stop d \<Longrightarrow> d \<noteq> bsl \<Longrightarrow> read_token key_stop (escape s @ d # rest) = (escape s, d # rest)"
  unfolding escape_bytes
  by (rule read_token_escaped)
    (auto simp: list_all_iff escaper_def white_escape_def plain_char_def control_def key_stop_def)

lemma read_name_escaped:
  "plain s \<Longrightarrow> name_stop d \<Longrightarrow> d \<noteq> bsl \<Longrightarrow> read_token name_stop (nameEscape s @ d # rest) = (nameEscape s, d # rest)"
  unfolding nameEscape_bytes
  by (rule read_token_escaped)
    (auto simp: list_all_iff nameEscaper_def white_escape_def plain_char_def control_def name_stop_def)

lemma read_string_char:
  "c \<noteq> bsl \<Longrightarrow> c \<noteq> dq \<Longrightarrow> \<not> control c \<Longrightarrow> read_string (c # s) =
     (case read_string s of None \<Rightarrow> None | Some (t, r) \<Rightarrow> Some (c # t, r))"
  by (cases s) simp_all

lemma read_string_escaped:
  "list_all (\<lambda>c. \<not> control c) s \<Longrightarrow> read_string (stringFieldEscape s @ dq # rest) = Some (stringFieldEscape s, rest)"
  unfolding stringFieldEscape_bytes
proof (induction s)
  case Nil
  show ?case by (cases rest) simp_all
next
  case (Cons c s)
  then have ih: "read_string (replace_bytes stringFieldEscaper s @ dq # rest) = Some (replace_bytes stringFieldEscaper s, rest)"
    and c: "\<not> control c" by simp_all
  show ?case
  proof (cases "c = dq \<or> c = bsl")
    case True
    then have "stringFieldEscaper c = [bsl, c]" by (auto simp: stringFieldEscaper_def white_escape_def)
    with True ih show ?thesis by auto
  next
    case False
    with c have "stringFieldEscaper c = [c]" by (simp add: stringFieldEscaper_def white_escape_def control_def)
    with False c ih show ?thesis by (simp add: read_string_char)
  qed
qed

subsection \<open>Reading back a value\<close>

lemma unsigned_token_digits: "0 \<le> n \<Longrightarrow> unsigned_token (digits_of n)"
proof -
  assume n: "0 \<le> n"
  have "hd (digits_of n) \<noteq> CHR ''0''" if "length (digits_of n) > 1"
  proof -
    have "n \<noteq> 0" using that by (auto simp: digits_of.simps [of 0])
    with n show ?thesis using digits_of_no_zero by simp
  qed
  with digits_of_digits [OF n] show ?thesis by (simp add: unsigned_token_def)
qed

lemma unsign_digits: "list_all is_digit s \<Longrightarrow> unsign s = s"
  by (cases s) (auto simp: unsign_def dest: digit_not_minus)

lemma integer_token_itoa: "integer_token (itoa n)"
proof (cases "n < 0")
  case True
  then show ?thesis using unsigned_token_digits [of "- n"] by (simp add: integer_token_def itoa_def unsign_def)
next
  case False
  then have "unsign (digits_of n) = digits_of n" using digits_of_digits [of n] unsign_digits by simp
  with False show ?thesis using unsigned_token_digits [of n] by (simp add: integer_token_def itoa_def)
qed

lemma value_stop_not_digit: "is_digit c \<Longrightarrow> \<not> value_stop c"
  by (auto simp: is_digit_def value_stop_def control_def)

lemma itoa_no_stop: "list_all (\<lambda>c. \<not> value_stop c) (itoa n)"
  using digits_of_digits [of n] digits_of_digits [of "- n"] value_stop_not_digit
  by (auto simp: itoa_def list_all_iff value_stop_def control_def)

lemma take_value:
  assumes "list_all (\<lambda>c. \<not> value_stop c) s" "value_stop d"
  shows "takeWhile (\<lambda>c. \<not> value_stop c) (s @ d # rest) = s" "dropWhile (\<lambda>c. \<not> value_stop c) (s @ d # rest) = d # rest"
  using assms by (induction s) auto

lemma read_value_token:
  assumes "value_call key s = Some call" "list_all (\<lambda>c. \<not> value_stop c) s" "value_stop d" "s \<noteq> []" "hd s \<noteq> dq"
  shows "read_value key (s @ d # rest) = Some (call, d # rest)"
  using assms(1,4,5) take_value [OF assms(2,3)] by (simp add: read_value_def)

lemma decimal_number: "decimal s \<Longrightarrow> unsign t = s \<Longrightarrow> number_token t"
proof -
  assume "decimal s" and u: "unsign t = s"
  then obtain ip fp where s: "s = ip @ (if fp = [] then [] else CHR ''.'' # fp)" "ip \<noteq> []" "list_all is_digit (ip @ fp)"
    unfolding decimal_def by blast
  have t: "takeWhile is_digit s = ip" and d: "dropWhile is_digit s = (if fp = [] then [] else CHR ''.'' # fp)"
    using s(3) dot_not_digit by (auto simp: s(1) list_all_iff takeWhile_append2)
  show ?thesis unfolding number_token_def Let_def u t d using s(2,3) by (cases "fp = []") simp_all
qed

lemma format_float_token:
  assumes "\<not> is_nan x" "\<not> is_inf x"
  shows "number_token (format_float x)" "list_all (\<lambda>c. \<not> value_stop c) (format_float x)"
    "format_float x \<noteq> []" "hd (format_float x) \<noteq> dq" "last (format_float x) \<noteq> CHR ''i''" "last (format_float x) \<noteq> CHR ''u''"
proof -
  obtain sg s where f: "format_float x = sg @ s" "sg = [] \<or> sg = ''-''" "decimal s" by (rule format_float_text [OF assms])
  note s = decimal_chars [OF f(3)]
  have "hd s \<noteq> CHR ''-''" using s digit_not_minus by blast
  then have "unsign (sg @ s) = s" using f(2) by (auto simp: unsign_def)
  with f(1,3) show "number_token (format_float x)" using decimal_number by simp
  have "\<forall>c \<in> set (sg @ s). is_digit c \<or> c = CHR ''.'' \<or> c = CHR ''-''" using f(2) s by auto
  then have c: "\<forall>c \<in> set (format_float x). is_digit c \<or> c = CHR ''.'' \<or> c = CHR ''-''" by (simp add: f(1))
  then show "list_all (\<lambda>c. \<not> value_stop c) (format_float x)"
    by (auto simp: list_all_iff value_stop_def control_def is_digit_def)
  show ne: "format_float x \<noteq> []" using s by (simp add: f(1))
  have ok: "is_digit c \<or> c = CHR ''.'' \<or> c = CHR ''-'' \<Longrightarrow> c \<noteq> dq \<and> c \<noteq> CHR ''i'' \<and> c \<noteq> CHR ''u''" for c
    by (auto simp: is_digit_def)
  show "hd (format_float x) \<noteq> dq" using c ne ok hd_in_set by blast
  show "last (format_float x) \<noteq> CHR ''i''" "last (format_float x) \<noteq> CHR ''u''" using c ne ok last_in_set by blast+
qed

text \<open>What of a value arrives: an unsigned value becomes a signed one without the support for it.\<close>

fun wire_value :: "bool \<Rightarrow> gval \<Rightarrow> gval" where
  "wire_value u (GUint64 v) =
     (if u then GUint64 v else GInt64 (word_of_int (sint (if v \<le> line_MaxInt64 then v else line_MaxInt64))))"
| "wire_value u v = v"

text \<open>Values that survive: text without control characters, floats whose shortest text reads back.\<close>

fun wire_safe :: "gval \<Rightarrow> bool" where
  "wire_safe (GString s) = list_all (\<lambda>c. \<not> control c) s"
| "wire_safe (GFloat64 x) = (is_nan x \<or> is_inf x \<or> parse_float (format_float x) = Some x)"
| "wire_safe v = True"

lemma sint_word_of_int_sint [simp]: "(word_of_int (sint (v :: 'a :: len word)) :: 'a word) = v"
  by simp

lemma add_calls:
  "parse_int (itoa (sint v)) = Some v" "parse_uint (itoa (uint w)) = Some w" for v :: i64 and w :: u64
proof -
  have "- (2 ^ 63) \<le> sint v" "sint v < 2 ^ 63" using sint_greater_eq [of v] sint_less [of v] by simp_all
  from parse_int_itoa [OF this] show "parse_int (itoa (sint v)) = Some v" by simp
  have "0 \<le> uint w" "uint w < 2 ^ 64" using uint_lt2p [of w] by simp_all
  from parse_uint_itoa [OF this] show "parse_uint (itoa (uint w)) = Some w" by simp
qed

lemma read_int_value:
  assumes "value_stop d"
  shows "read_value key (appendIntField v @ d # rest) = Some (CInt key (itoa (sint v) @ ''i''), d # rest)"
proof -
  have "value_call key (itoa (sint v) @ ''i'') = Some (CInt key (itoa (sint v) @ ''i''))"
    by (simp add: value_call_def integer_token_itoa)
  moreover have "list_all (\<lambda>c. \<not> value_stop c) (itoa (sint v) @ ''i'')"
    using itoa_no_stop [of "sint v"] by (simp add: value_stop_def control_def)
  moreover have "hd (itoa (sint v) @ ''i'') \<noteq> dq"
    using digits_of_digits [of "sint v"] by (cases "digits_of (sint v)") (auto simp: itoa_def is_digit_def)
  ultimately show ?thesis using assms read_value_token [of key "itoa (sint v) @ ''i''" _ d rest] by (simp add: appendIntField_def)
qed

lemma read_uint_value:
  assumes "value_stop d"
  shows "read_value key (appendUintField v @ d # rest) = Some (CUint key (itoa (uint v) @ ''u''), d # rest)"
proof -
  have i: "itoa (uint v) = digits_of (uint v)" by (simp add: itoa_def)
  have "value_call key (itoa (uint v) @ ''u'') = Some (CUint key (itoa (uint v) @ ''u''))"
    by (simp add: value_call_def i unsigned_token_digits)
  moreover have "list_all (\<lambda>c. \<not> value_stop c) (itoa (uint v) @ ''u'')"
    using itoa_no_stop [of "uint v"] by (simp add: value_stop_def control_def)
  moreover have "hd (itoa (uint v) @ ''u'') \<noteq> dq"
    using digits_of_digits [of "uint v"] by (cases "digits_of (uint v)") (auto simp: i is_digit_def)
  ultimately show ?thesis using assms read_value_token [of key "itoa (uint v) @ ''u''" _ d rest] by (simp add: appendUintField_def)
qed

lemma read_float_value:
  assumes "value_stop d" "\<not> is_nan x" "\<not> is_inf x"
  shows "read_value key (format_float x @ d # rest) = Some (CFloat key (format_float x), d # rest)"
proof -
  note t = format_float_token [OF assms(2,3)]
  have "value_call key (format_float x) = Some (CFloat key (format_float x))" using t by (simp add: value_call_def)
  from read_value_token [OF this t(2) assms(1) t(3,4)] show ?thesis .
qed

lemma read_bool_value:
  assumes "value_stop d"
  shows "read_value key (format_bool b @ d # rest) = Some (CBool key (format_bool b), d # rest)"
proof -
  have t: "\<not> number_token ''true'' \<and> \<not> scientific_token ''true'' \<and> bool_token ''true''"
    "\<not> number_token ''false'' \<and> \<not> scientific_token ''false'' \<and> bool_token ''false''"
    by code_simp+
  have "value_call key (format_bool b) = Some (CBool key (format_bool b))"
    using t by (cases b) (simp_all add: value_call_def format_bool_def)
  moreover have "list_all (\<lambda>c. \<not> value_stop c) (format_bool b)" "format_bool b \<noteq> []" "hd (format_bool b) \<noteq> dq"
    by (cases b; simp add: format_bool_def value_stop_def control_def)+
  ultimately show ?thesis using assms by (intro read_value_token)
qed

lemma read_string_value:
  assumes "list_all (\<lambda>c. \<not> control c) s"
  shows "read_value key (appendStringField s @ rest) = Some (CString key (stringFieldEscape s), rest)"
  using read_string_escaped [OF assms, of rest] by (simp add: read_value_def appendStringField_def)

text \<open>A field that is written, read and handed to the builder.\<close>

definition set_field :: "field \<Rightarrow> handler \<Rightarrow> handler" where
  "set_field f = h_build (MAddField (field_key f) (field_value f))"

definition field_reads :: "string \<Rightarrow> field \<Rightarrow> bool" where
  "field_reads p f \<longleftrightarrow> (\<forall>d rest. value_stop d \<longrightarrow>
     (\<exists>call. read_field (p @ d # rest) = Some (call, d # rest) \<and> handle call = set_field f))"

lemma read_value_call:
  assumes "appendFieldValue (NewSerializer\<lparr>sz_uintSupport := u\<rparr>) v = Inr t" "wire_safe v" "plain k" "value_stop d"
  shows "\<exists>call. read_value (escape k) (t @ d # rest) = Some (call, d # rest)
    \<and> handle call = h_build (MAddField k (wire_value u v))"
proof (cases v)
  case (GUint64 w)
  show ?thesis
  proof (cases u)
    case True
    then have "t = appendUintField w" using assms(1) GUint64 by simp
    with True GUint64 assms(3) show ?thesis
      using read_uint_value [OF assms(4), of "escape k" w rest] by (auto simp: AddUint_def add_calls unescape_escape)
  next
    case False
    define i :: i64 where "i = (if w \<le> line_MaxInt64 then w else line_MaxInt64)"
    have "t = appendIntField i" using False assms(1) GUint64 by (simp add: i_def split: if_splits)
    with False GUint64 assms(3) show ?thesis
      using read_int_value [OF assms(4), of "escape k" i rest]
      by (auto simp: AddInt_def add_calls unescape_escape i_def [symmetric])
  qed
next
  case (GInt64 i)
  then have "t = appendIntField i" using assms(1) by simp
  with GInt64 assms(3) show ?thesis
    using read_int_value [OF assms(4), of "escape k" i rest] by (auto simp: AddInt_def add_calls unescape_escape)
next
  case (GFloat64 x)
  then have "t = format_float x" "\<not> is_nan x" "\<not> is_inf x" using assms(1) by (simp_all add: appendFloatField_def split: if_splits)
  with GFloat64 assms(2,3) show ?thesis
    using read_float_value [OF assms(4), of x "escape k" rest] by (auto simp: AddFloat_def unescape_escape)
next
  case (GString s)
  then have "t = appendStringField s" using assms(1) by simp
  with GString assms(2,3) show ?thesis
    using read_string_value [of s "escape k" "d # rest"] by (auto simp: AddString_def unescape_escape stringFieldUnescape_escape)
next
  case (GBool b)
  then have "t = format_bool b" using assms(1) by (simp add: appendBoolField_def)
  with GBool assms(3) show ?thesis
    using read_bool_value [OF assms(4), of "escape k" b rest]
    by (auto simp: AddBool_def parse_bool_format_bool unescape_escape)
qed (use assms(1) in simp_all)

lemma pair_of_reads:
  assumes "pair_of u f = Some p" "plain (field_key f)" "wire_safe (field_value f)"
  shows "field_reads p \<lparr>field_key = field_key f, field_value = wire_value u (field_value f)\<rparr>"
  unfolding field_reads_def
proof (intro allI impI)
  fix d rest assume d: "value_stop d"
  from assms(1) obtain t where t: "escape (field_key f) \<noteq> []"
    "appendFieldValue (NewSerializer\<lparr>sz_uintSupport := u\<rparr>) (field_value f) = Inr t" "p = escape (field_key f) @ CHR ''='' # t"
    by (auto simp: pair_of_def split: if_splits sum.splits)
  obtain call where c: "read_value (escape (field_key f)) (t @ d # rest) = Some (call, d # rest)"
    "handle call = h_build (MAddField (field_key f) (wire_value u (field_value f)))"
    using read_value_call [OF t(2) assms(3,2) d] by blast
  have "read_token key_stop (escape (field_key f) @ CHR ''='' # t @ d # rest) = (escape (field_key f), CHR ''='' # t @ d # rest)"
    by (rule read_key_escaped [OF assms(2)]) (simp_all add: key_stop_def)
  with t(1,3) c show "\<exists>call. read_field (p @ d # rest) = Some (call, d # rest)
      \<and> handle call = set_field \<lparr>field_key = field_key f, field_value = wire_value u (field_value f)\<rparr>"
    by (auto simp: read_field_def set_field_def)
qed

lemma read_fields_join:
  assumes "list_all2 field_reads ps fs" "ps \<noteq> []" "value_stop d" "d \<noteq> CHR '',''"
  shows "\<exists>calls. read_fields (join '','' ps @ d # rest) = Some (calls, d # rest) \<and> fold handle calls = fold set_field fs"
  using assms
proof (induction ps fs rule: list_all2_induct)
  case (Cons p ps f fs)
  show ?case
  proof (cases ps)
    case Nil
    from Cons.hyps(1) Cons.prems(2) obtain call where "read_field (p @ d # rest) = Some (call, d # rest)" "handle call = set_field f"
      unfolding field_reads_def by blast
    then show ?thesis using Nil Cons.hyps(2) Cons.prems(3)
      by (subst read_fields.simps) (auto simp: fun_eq_iff)
  next
    case ps: (Cons q qs)
    have "value_stop CHR '',''" by (simp add: value_stop_def)
    with Cons.hyps(1) obtain call where c: "read_field (p @ CHR '','' # join '','' ps @ d # rest) = Some (call, CHR '','' # join '','' ps @ d # rest)"
      "handle call = set_field f" unfolding field_reads_def by blast
    from Cons.IH ps Cons.prems obtain calls where
      "read_fields (join '','' ps @ d # rest) = Some (calls, d # rest)" "fold handle calls = fold set_field fs" by auto
    with c ps show ?thesis by (subst read_fields.simps) (auto simp: fun_eq_iff)
  qed
qed simp

text \<open>A tag that is written, read and handed to the builder.\<close>

definition set_tag :: "tag \<Rightarrow> handler \<Rightarrow> handler" where
  "set_tag t = h_build (MAddTag (tag_key t) (tag_value t))"

definition tag_kept :: "tag \<Rightarrow> bool" where
  "tag_kept t \<longleftrightarrow> tag_key t \<noteq> [] \<and> tag_value t \<noteq> []"

lemma escape_empty [simp]: "escape s = [] \<longleftrightarrow> s = []"
  by (cases s) (auto simp: escape_bytes escaper_def white_escape_def)

lemma nameEscape_empty [simp]: "nameEscape s = [] \<longleftrightarrow> s = []"
  by (cases s) (auto simp: nameEscape_bytes nameEscaper_def white_escape_def)

lemma read_tag_text:
  assumes "tag_kept t" "plain (tag_key t)" "plain (tag_value t)" "key_stop d" "d \<noteq> bsl"
  shows "\<exists>call. read_tag (tl (tag_text t) @ d # rest) = Some (call, d # rest) \<and> handle call = set_tag t"
proof -
  have k: "read_token key_stop (escape (tag_key t) @ CHR ''='' # escape (tag_value t) @ d # rest)
      = (escape (tag_key t), CHR ''='' # escape (tag_value t) @ d # rest)"
    by (rule read_key_escaped [OF assms(2)]) (simp_all add: key_stop_def)
  have v: "read_token key_stop (escape (tag_value t) @ d # rest) = (escape (tag_value t), d # rest)"
    by (rule read_key_escaped [OF assms(3-5)])
  have "tl (tag_text t) @ d # rest = escape (tag_key t) @ CHR ''='' # escape (tag_value t) @ d # rest"
    using assms(1) by (simp add: tag_text_def Let_def tag_kept_def)
  with k v assms(1-3) show ?thesis
    by (auto simp: read_tag_def tag_kept_def set_tag_def h_AddTag_def fun_eq_iff unescape_escape)
qed

lemma tag_text_kept: "tag_text t = (if tag_kept t then CHR '','' # tl (tag_text t) else [])"
  by (simp add: tag_text_def tag_kept_def Let_def)

lemma tags_text_head: "hd (concat (List.map tag_text ts) @ CHR '' '' # rest) \<in> {CHR '','', CHR '' ''}"
proof (induction ts)
  case (Cons t ts)
  show ?case
  proof (cases "tag_kept t")
    case True
    then obtain q where "tag_text t = CHR '','' # q" using tag_text_kept [of t] by metis
    then show ?thesis by simp
  next
    case False
    then have "tag_text t = []" using tag_text_kept [of t] by simp
    with Cons show ?thesis by simp
  qed
qed simp

lemma read_tags_text:
  assumes "\<forall>t \<in> set ts. plain (tag_key t) \<and> plain (tag_value t)"
  shows "\<exists>calls. read_tags (concat (List.map tag_text ts) @ CHR '' '' # rest) = Some (calls, CHR '' '' # rest)
    \<and> fold handle calls = fold set_tag (List.filter tag_kept ts)"
  using assms
proof (induction ts)
  case Nil
  show ?case by (subst read_tags.simps) simp
next
  case (Cons t ts)
  then obtain calls where ih: "read_tags (concat (List.map tag_text ts) @ CHR '' '' # rest) = Some (calls, CHR '' '' # rest)"
    "fold handle calls = fold set_tag (List.filter tag_kept ts)" by auto
  show ?case
  proof (cases "tag_kept t")
    case False
    then have "tag_text t = []" using tag_text_kept [of t] by simp
    with ih False show ?thesis by auto
  next
    case True
    define tail where "tail = concat (List.map tag_text ts) @ CHR '' '' # rest"
    have hd: "hd tail = CHR '','' \<or> hd tail = CHR '' ''" "tail \<noteq> []"
      unfolding tail_def using tags_text_head [of ts rest] by simp_all
    then obtain d r where dr: "tail = d # r" "key_stop d" "d \<noteq> bsl"
      by (cases tail) (auto simp: key_stop_def)
    from read_tag_text [OF True, of d r] Cons.prems dr obtain call where
      c: "read_tag (tl (tag_text t) @ tail) = Some (call, tail)" "handle call = set_tag t" by auto
    have eq: "concat (List.map tag_text (t # ts)) @ CHR '' '' # rest = CHR '','' # tl (tag_text t) @ tail"
      using tag_text_kept [of t] True by (metis append_Cons append_assoc concat.simps(2) list.simps(9) tail_def)
    have "read_tags (CHR '','' # tl (tag_text t) @ tail) = Some (call # calls, CHR '' '' # rest)"
      by (subst read_tags.simps) (simp add: c(1) ih(1) [folded tail_def])
    moreover have "fold handle (call # calls) = fold set_tag (List.filter tag_kept (t # ts))"
      using c(2) ih(2) True by (simp add: fun_eq_iff)
    ultimately show ?thesis unfolding eq by blast
  qed
qed

text \<open>The end of a line.\<close>

lemma read_timestamp_footer:
  assumes "- (2 ^ 63) \<le> t" "t < 2 ^ 63"
  shows "read_timestamp (CHR '' '' # itoa t @ CHR 0x0A # rest) = Some ([CTimestamp (itoa t)], rest)"
proof -
  define n where "n = (if t < 0 then - t else t)"
  have n: "0 \<le> n" "n < 10 ^ 19" using assms by (auto simp: n_def)
  note ds = digits_of_digits [OF n(1)]
  have len: "length (digits_of n) \<le> 19" using length_digits_of [OF n] by simp
  define sg where "sg = (if t < 0 then ''-'' else [])"
  have it: "itoa t = sg @ digits_of n" by (simp add: itoa_def n_def sg_def)
  have hd: "hd (itoa t) = CHR ''-'' \<or> is_digit (hd (itoa t))" "itoa t \<noteq> []"
    using ds by (auto simp: it sg_def list_all_iff)
  have ws: "\<not> grammar_ws (hd (itoa t))" using hd by (auto simp: grammar_ws_def is_digit_def)
  then have r: "dropWhile grammar_ws (CHR '' '' # itoa t @ CHR 0x0A # rest) = itoa t @ CHR 0x0A # rest"
    using hd(2) by (cases "itoa t") (simp_all add: grammar_ws_def)
  have u: "unsign (itoa t @ CHR 0x0A # rest) = digits_of n @ CHR 0x0A # rest"
    using ds by (cases "digits_of n") (auto simp: it sg_def unsign_def is_digit_def)
  have nl: "\<not> is_digit CHR 0x0A" by (simp add: is_digit_def)
  have tw: "takeWhile is_digit (digits_of n @ CHR 0x0A # rest) = digits_of n"
    "dropWhile is_digit (digits_of n @ CHR 0x0A # rest) = CHR 0x0A # rest"
    using ds nl by (auto simp: list_all_iff takeWhile_append2)
  have tk: "take (length (itoa t @ CHR 0x0A # rest) - length (digits_of n @ CHR 0x0A # rest)) (itoa t @ CHR 0x0A # rest) = sg"
    by (simp add: it)
  have e: "read_eol (CHR 0x0A # rest) = Some rest"
    by (simp add: read_eol_def grammar_ws_def grammar_newline_def)
  have ne: "itoa t @ CHR 0x0A # rest \<noteq> CHR '' '' # itoa t @ CHR 0x0A # rest" "itoa t @ CHR 0x0A # rest \<noteq> []"
    by (metis append_Cons append_Nil append_same_eq list.sel(1) n_not_Suc_n length_Cons, simp)
  have hd2: "hd (itoa t @ CHR 0x0A # rest) = CHR ''-'' \<or> is_digit (hd (itoa t @ CHR 0x0A # rest))"
    using hd by simp
  show ?thesis
    unfolding read_timestamp_def Let_def r u tw tk e
    using ne hd2 ds len by (simp add: it)
qed

subsection \<open>Reading back a metric\<close>

definition name_safe :: "string \<Rightarrow> bool" where
  "name_safe n \<longleftrightarrow> n \<noteq> [] \<and> plain n \<and> hd n \<noteq> CHR ''#'' \<and> hd n \<noteq> CHR '','' \<and> hd n \<noteq> CHR '' ''"

definition line_safe :: "metric \<Rightarrow> bool" where
  "line_safe m \<longleftrightarrow> metric_ok m \<and> name_safe (m_name m)
     \<and> list_all (\<lambda>t. plain (tag_key t) \<and> plain (tag_value t)) (m_tags m)
     \<and> list_all (\<lambda>f. plain (field_key f) \<and> wire_safe (field_value f)) (m_fields m)
     \<and> - (2 ^ 63) \<le> m_tm m \<and> m_tm m < 2 ^ 63"

definition wire_field :: "bool \<Rightarrow> field \<Rightarrow> field" where
  "wire_field u f = \<lparr>field_key = field_key f, field_value = wire_value u (field_value f)\<rparr>"

definition wire_fields :: "bool \<Rightarrow> field list \<Rightarrow> field list" where
  "wire_fields u fs = List.map (wire_field u) (List.filter (\<lambda>f. pair_of u f \<noteq> None) fs)"

text \<open>What a line with some of the fields reads as.\<close>

definition line_metric :: "metric \<Rightarrow> field list \<Rightarrow> metric" where
  "line_metric m fs = \<lparr>m_name = m_name m, m_tags = List.filter tag_kept (m_tags m), m_fields = fs,
     m_tm = m_tm m, m_tp = Untyped, m_aggregate = False\<rparr>"

definition with_metric :: "(metric \<Rightarrow> metric) \<Rightarrow> handler \<Rightarrow> handler" where
  "with_metric f h = h\<lparr>h_builder := (h_builder h)\<lparr>b_metric := f (b_metric (h_builder h))\<rparr>\<rparr>"

lemma h_build_with: "h_build op = with_metric (metric_step op)"
  by (simp add: h_build_def builder_step_def with_metric_def fun_eq_iff)

lemma with_metric_comp: "with_metric f (with_metric g h) = with_metric (f \<circ> g) h"
  by (simp add: with_metric_def)

lemma fold_set_tag: "fold set_tag ts = with_metric (fold (\<lambda>t. AddTag (tag_key t) (tag_value t)) ts)"
proof (rule ext)
  fix h show "fold set_tag ts h = with_metric (fold (\<lambda>t. AddTag (tag_key t) (tag_value t)) ts) h"
    by (induction ts arbitrary: h) (simp_all add: set_tag_def h_build_with with_metric_def)
qed

lemma fold_set_field: "fold set_field fs = with_metric (fold (\<lambda>f. AddField (field_key f) (field_value f)) fs)"
proof (rule ext)
  fix h show "fold set_field fs h = with_metric (fold (\<lambda>f. AddField (field_key f) (field_value f)) fs) h"
    by (induction fs arbitrary: h) (simp_all add: set_field_def h_build_with with_metric_def)
qed

text \<open>Adding sorted tags and fields with distinct keys one by one gives the same lists.\<close>

lemma add_tag_last: "\<forall>x \<in> set ts. tag_key x < k \<Longrightarrow> add_tag k v ts = ts @ [\<lparr>tag_key = k, tag_value = v\<rparr>]"
  by (induction ts) simp_all

lemma fold_AddTag:
  "tags_ok (m_tags m @ ts) \<Longrightarrow> fold (\<lambda>t. AddTag (tag_key t) (tag_value t)) ts m = m\<lparr>m_tags := m_tags m @ ts\<rparr>"
proof (induction ts arbitrary: m)
  case (Cons t ts)
  then have "\<forall>x \<in> set (m_tags m). tag_key x < tag_key t" by (auto simp: tags_ok_def sorted_wrt_append)
  then have "AddTag (tag_key t) (tag_value t) m = m\<lparr>m_tags := m_tags m @ [t]\<rparr>"
    by (simp add: AddTag_def add_tag_last)
  with Cons show ?case by simp
qed simp

lemma put_field_last: "k \<notin> field_key ` set fs \<Longrightarrow> put_field k v fs = fs @ [\<lparr>field_key = k, field_value = convertField v\<rparr>]"
  by (induction fs) auto

lemma fold_AddField:
  "distinct (List.map field_key (m_fields m @ fs)) \<Longrightarrow> list_all (\<lambda>f. field_value_ok (field_value f)) fs
    \<Longrightarrow> fold (\<lambda>f. AddField (field_key f) (field_value f)) fs m = m\<lparr>m_fields := m_fields m @ fs\<rparr>"
proof (induction fs arbitrary: m)
  case (Cons f fs)
  then have "AddField (field_key f) (field_value f) m = m\<lparr>m_fields := m_fields m @ [f]\<rparr>"
    by (simp add: AddField_def put_field_last)
  with Cons show ?case by simp
qed simp

text \<open>A line reads as a metric: whatever follows it, the builder ends up with the metric.\<close>

definition fresh :: "handler \<Rightarrow> bool" where
  "fresh h \<longleftrightarrow> h_Reset h = h \<and> h_precision h = 1"

definition line_reads :: "string \<Rightarrow> metric \<Rightarrow> bool" where
  "line_reads l m \<longleftrightarrow> l \<noteq> [] \<and> (\<forall>rest. grammar_align (l @ rest) = l @ rest
     \<and> (\<exists>calls. read_line (l @ rest) = Some (calls, rest)
          \<and> (\<forall>h. fresh h \<longrightarrow> (case h_Metric (fold handle calls h) of (h', m') \<Rightarrow> h_Reset h' = h \<and> m' = m))))"

lemma line_reads_rounds:
  assumes "list_all2 line_reads ls ms"
  shows "\<exists>rs. grammar_rounds (concat ls) = Some rs \<and>
    (\<forall>input h acc. fresh h \<longrightarrow> parse_rounds input rs h acc = (h, Inr (acc @ ms)))"
  using assms
proof (induction ls ms rule: list_all2_induct)
  case Nil
  show ?case by (subst grammar_rounds.simps) simp
next
  case (Cons l ls m ms)
  from Cons.IH obtain rs where rs: "grammar_rounds (concat ls) = Some rs"
    "\<And>input h acc. fresh h \<Longrightarrow> parse_rounds input rs h acc = (h, Inr (acc @ ms))" by blast
  from Cons.hyps(1) obtain calls where l: "l \<noteq> []" "grammar_align (l @ concat ls) = l @ concat ls"
    "read_line (l @ concat ls) = Some (calls, concat ls)"
    "\<And>h. fresh h \<Longrightarrow> case h_Metric (fold handle calls h) of (h', m') \<Rightarrow> h_Reset h' = h \<and> m' = m"
    unfolding line_reads_def by blast
  have "grammar_rounds (concat (l # ls)) = Some ((calls, None) # rs)"
    using l(1-3) rs(1) by (subst grammar_rounds.simps) simp
  moreover have "parse_rounds input ((calls, None) # rs) h acc = (h, Inr (acc @ m # ms))" if "fresh h" for input h acc
    using l(4) [OF that] rs(2) [OF that] by (simp add: Let_def split: prod.splits)
  ultimately show ?case by blast
qed

lemma appendFieldValue_wire: "appendFieldValue s v = Inr t \<Longrightarrow> field_value_ok (wire_value u v)"
  by (cases v) (simp_all split: if_splits)

lemma wire_fields_ok: "fields_ok fs \<Longrightarrow> distinct (List.map field_key (wire_fields u fs))
    \<and> list_all (\<lambda>f. field_value_ok (field_value f)) (wire_fields u fs)"
proof -
  assume ok: "fields_ok fs"
  have keys: "List.map field_key (wire_fields u fs) = List.map field_key (List.filter (\<lambda>f. pair_of u f \<noteq> None) fs)"
    by (simp add: wire_fields_def wire_field_def)
  moreover have "distinct (List.map field_key (List.filter (\<lambda>f. pair_of u f \<noteq> None) fs))"
    using ok by (simp add: fields_ok_def distinct_map_filter)
  moreover have "field_value_ok (field_value (wire_field u f))" if "pair_of u f \<noteq> None" for f
    using that appendFieldValue_wire by (fastforce simp: wire_field_def pair_of_def split: if_splits sum.splits)
  ultimately have "list_all (\<lambda>f. field_value_ok (field_value f)) (wire_fields u fs)"
      "distinct (List.map field_key (wire_fields u fs))"
    unfolding keys by (auto simp: wire_fields_def list_all_iff)
  then show ?thesis by blast
qed

lemma name_first: "name_safe n \<Longrightarrow> nameEscape n = hd n # replace_bytes nameEscaper (tl n)
    \<and> hd n \<noteq> bsl \<and> hd n \<noteq> CHR ''#'' \<and> \<not> grammar_space (hd n)"
  by (cases n) (auto simp: name_safe_def nameEscape_bytes nameEscaper_def white_escape_def plain_char_def
      control_def grammar_space_def grammar_ws_def grammar_newline_def)

lemma metric_step_fun: "metric_step (MSetName n) = SetName n" "metric_step (MSetTime t) = SetTime t"
  by (simp_all add: fun_eq_iff)

lemma line_of_reads:
  assumes safe: "line_safe m" and rd: "list_all2 field_reads ps fs" and ne: "ps \<noteq> []"
    and fields: "distinct (List.map field_key fs)" "list_all (\<lambda>f. field_value_ok (field_value f)) fs"
    and hd: "\<not> grammar_ws (hd (hd ps))" "hd ps \<noteq> []"
  shows "line_reads (line_of (header_of m) (footer_of m) ps) (line_metric m fs)"
  unfolding line_reads_def
proof (intro conjI allI)
  note n = name_first [of "m_name m"]
  have ns: "name_safe (m_name m)" "plain (m_name m)" "\<forall>t \<in> set (m_tags m). plain (tag_key t) \<and> plain (tag_value t)"
    "- (2 ^ 63) \<le> m_tm m" "m_tm m < 2 ^ 63" and ok: "metric_ok m"
    using safe by (auto simp: line_safe_def name_safe_def list_all_iff)
  have tm: "sint (UnixNano (m_tm m)) = m_tm m"
    using ns(4,5) by (simp add: UnixNano_def sint_word_of_int)
  let ?l = "line_of (header_of m) (footer_of m) ps"
  show "?l \<noteq> []" by (simp add: line_of_def header_of_def)
  fix rest
  define tail where "tail = CHR '' '' # itoa (m_tm m) @ CHR 0x0A # rest"
  define body where "body = join '','' ps @ tail"
  have l: "?l @ rest = nameEscape (m_name m) @ concat (List.map tag_text (m_tags m)) @ CHR '' '' # body"
    by (simp add: line_of_def header_of_def footer_of_def body_def tail_def tm)
  show "grammar_align (?l @ rest) = ?l @ rest"
    unfolding l using n [OF ns(1)] by (subst grammar_align.simps) (simp add: Let_def)
  have name: "read_token name_stop (?l @ rest) = (nameEscape (m_name m), concat (List.map tag_text (m_tags m)) @ CHR '' '' # body)"
  proof -
    obtain d r where dr: "concat (List.map tag_text (m_tags m)) @ CHR '' '' # body = d # r"
      by (cases "concat (List.map tag_text (m_tags m)) @ CHR '' '' # body") auto
    have "d \<in> {CHR '','', CHR '' ''}" using tags_text_head [of "m_tags m" body] by (simp add: dr)
    then show ?thesis unfolding l dr by (intro read_name_escaped ns(2)) (auto simp: name_stop_def)
  qed
  from read_tags_text [OF ns(3), of body] obtain tc where tc:
    "read_tags (concat (List.map tag_text (m_tags m)) @ CHR '' '' # body) = Some (tc, CHR '' '' # body)"
    "fold handle tc = fold set_tag (List.filter tag_kept (m_tags m))" by blast
  have "hd body = hd (hd ps)" "body \<noteq> []" using ne hd(2) by (cases ps; cases "tl ps"; simp add: body_def)+
  then have ws: "dropWhile grammar_ws (CHR '' '' # body) = body" using hd(1) by (cases body) (simp_all add: grammar_ws_def)
  have "value_stop CHR '' ''" by (simp add: value_stop_def)
  from read_fields_join [OF rd ne this, of "itoa (m_tm m) @ CHR 0x0A # rest"] obtain fc where fc:
    "read_fields body = Some (fc, tail)" "fold handle fc = fold set_field fs" by (auto simp: body_def tail_def)
  have ts: "read_timestamp tail = Some ([CTimestamp (itoa (m_tm m))], rest)"
    unfolding tail_def by (rule read_timestamp_footer [OF ns(4,5)])
  define calls where "calls = CMeasurement (nameEscape (m_name m)) # tc @ fc @ [CTimestamp (itoa (m_tm m))]"
  have line: "read_line (?l @ rest) = Some (calls, rest)"
    unfolding read_line_def name using n [OF ns(1)] tc(1) ws fc(1) ts by (simp add: grammar_ws_def calls_def)
  have tags: "tags_ok (List.filter tag_kept (m_tags m))"
    using ok by (simp add: metric_ok_def tags_ok_def sorted_wrt_map sorted_wrt_filter)
  have pt: "parse_int (itoa (m_tm m)) = Some (word_of_int (m_tm m))" by (rule parse_int_itoa [OF ns(4,5)])
  have zt: "m_tm m \<noteq> zero_time" using ns(4) by (auto simp: zero_time_def)
  have "case h_Metric (fold handle calls h) of (h', m') \<Rightarrow> h_Reset h' = h \<and> m' = line_metric m fs" if h: "fresh h" for h
  proof -
    define f where "f = SetTime (m_tm m) \<circ> fold (\<lambda>f. AddField (field_key f) (field_value f)) fs
      \<circ> fold (\<lambda>t. AddTag (tag_key t) (tag_value t)) (List.filter tag_kept (m_tags m)) \<circ> SetName (m_name m)"
    have "h_precision (with_metric g h) = 1" for g using h by (simp add: fresh_def with_metric_def)
    then have "fold handle calls h = with_metric f h"
      using tm by (simp add: calls_def tc(2) fc(2) fold_set_tag fold_set_field SetMeasurement_def SetTimestamp_def pt h_build_with
          with_metric_comp metric_step_fun nameUnescape_nameEscape ns(2) f_def comp_assoc UnixNano_def)
    moreover have "b_metric (h_builder h) = \<lparr>m_name = [], m_tags = [], m_fields = [], m_tm = zero_time, m_tp = Untyped, m_aggregate = False\<rparr>"
      using h by (simp add: fresh_def h_Reset_def Builder_Reset_def) (metis builder.select_convs(3) builder.surjective builder.update_convs(3) handler.select_convs(1) handler.surjective handler.update_convs(1))
    ultimately show ?thesis using tags fields zt h
      by (simp add: h_Metric_def Builder_Metric_def with_metric_def f_def fold_AddTag fold_AddField SetName_def SetTime_def
          line_metric_def fresh_def h_Reset_def Builder_Reset_def)
  qed
  with line show "\<exists>calls. read_line (?l @ rest) = Some (calls, rest)
      \<and> (\<forall>h. fresh h \<longrightarrow> (case h_Metric (fold handle calls h) of (h', m') \<Rightarrow> h_Reset h' = h \<and> m' = line_metric m fs))" by blast
qed

lemma escape_not_space: "s \<noteq> [] \<Longrightarrow> plain s \<Longrightarrow> \<not> grammar_ws (hd (escape s))"
  by (cases s) (auto simp: escape_bytes escaper_def white_escape_def plain_char_def control_def grammar_ws_def)

lemma pair_of_first:
  assumes "pair_of u f = Some p" "plain (field_key f)"
  shows "p \<noteq> [] \<and> \<not> grammar_ws (hd p)"
proof -
  from assms(1) obtain t where "p = escape (field_key f) @ CHR ''='' # t" "field_key f \<noteq> []"
    by (auto simp: pair_of_def split: if_splits sum.splits)
  with escape_not_space [of "field_key f"] assms(2) show ?thesis by (simp add: hd_append)
qed

text \<open>The pairs of a group are those of a part of the fields.\<close>

lemma pairs_of_wire:
  assumes "list_all (\<lambda>f. plain (field_key f) \<and> wire_safe (field_value f)) fs"
  shows "list_all2 (\<lambda>p f. field_reads p f \<and> p \<noteq> [] \<and> \<not> grammar_ws (hd p)) (pairs_of u fs) (wire_fields u fs)"
  using assms
proof (induction fs)
  case (Cons f fs)
  show ?case
  proof (cases "pair_of u f")
    case None
    with Cons show ?thesis by (simp add: pairs_of_def wire_fields_def)
  next
    case (Some p)
    with Cons pair_of_reads [OF Some] pair_of_first [OF Some] show ?thesis
      by (simp add: pairs_of_def wire_fields_def wire_field_def)
  qed
qed (simp add: pairs_of_def wire_fields_def)

lemma group_split:
  assumes "list_all2 P (concat gs) fs"
  shows "\<exists>fss. concat fss = fs \<and> list_all2 (list_all2 P) gs fss"
  using assms
proof (induction gs arbitrary: fs)
  case (Cons g gs)
  then obtain f1 f2 where "fs = f1 @ f2" "list_all2 P g f1" "list_all2 P (concat gs) f2"
    by (auto simp: list_all2_append1)
  with Cons.IH [of f2] show ?case by (metis concat.simps(2) list.rel_intros(2))
qed simp

lemma groups_read:
  assumes safe: "line_safe m" and gs: "[] \<notin> set gs"
    and rd: "list_all2 (list_all2 (\<lambda>p f. field_reads p f \<and> p \<noteq> [] \<and> \<not> grammar_ws (hd p))) gs fss"
    and fields: "distinct (List.map field_key (concat fss))" "list_all (\<lambda>f. field_value_ok (field_value f)) (concat fss)"
  shows "list_all2 line_reads (List.map (line_of (header_of m) (footer_of m)) gs) (List.map (line_metric m) fss)"
  using rd gs fields
proof (induction gs fss rule: list_all2_induct)
  case (Cons g gs fs fss)
  then obtain p g' where g: "g = p # g'" by (cases g) auto
  with Cons.hyps(1) have "p \<noteq> []" "\<not> grammar_ws (hd p)" by (auto simp: list_all2_Cons1)
  moreover have "list_all2 field_reads g fs" using Cons.hyps(1) by (rule list_all2_mono) simp
  ultimately have "line_reads (line_of (header_of m) (footer_of m) g) (line_metric m fs)"
    using Cons.prems g by (intro line_of_reads [OF safe]) auto
  with Cons show ?case by simp
qed simp

text \<open>What the serializer makes of a metric it was given.\<close>

definition sent :: "bool \<Rightarrow> metric \<Rightarrow> metric" where
  "sent sorts m = (if sorts then m\<lparr>m_fields := sort_key field_key (m_fields m)\<rparr> else m)"

lemma set_sent: "set (m_fields (sent b m)) = set (m_fields m)"
  by (simp add: sent_def)

lemma line_safe_sent: "line_safe m \<Longrightarrow> line_safe (sent b m)"
proof -
  assume m: "line_safe m"
  have "distinct (List.map field_key (sort_key field_key (m_fields m)))" if "distinct (List.map field_key (m_fields m))"
    using that by (simp add: distinct_map)
  with m show ?thesis
    by (auto simp: line_safe_def sent_def metric_ok_def fields_ok_def list_all_iff)
qed

definition reads_as :: "bool \<Rightarrow> metric \<Rightarrow> metric list \<Rightarrow> bool" where
  "reads_as u m ms \<longleftrightarrow> ms \<noteq> [] \<and> list_all (\<lambda>x. x = line_metric m (m_fields x)) ms
     \<and> concat (List.map m_fields ms) = wire_fields u (m_fields m)"

lemma writeMetric_reads:
  assumes "writeMetric m (s, w) = ((s', w'), m', None)" "line_safe m"
  obtains ls ms where "w' = w @ concat ls" "list_all2 line_reads ls ms"
    "reads_as (sz_uintSupport s) (sent (sz_sortFields s) m) ms"
proof -
  define u where "u = sz_uintSupport s"
  have m': "m' = sent (sz_sortFields s) m" by (rule writeMetric_fields [OF assms(1)]) (simp add: sent_def)
  then have safe: "line_safe m'" using line_safe_sent [OF assms(2)] by simp
  have same: "header_of m = header_of m'" "footer_of m = footer_of m'"
    by (simp_all add: m' sent_def header_of_def footer_of_def)
  obtain gs where gs: "gs \<noteq> []" "[] \<notin> set gs" "concat gs = pairs_of u (m_fields m')"
    "w' = w @ concat (List.map (line_of (header_of m) (footer_of m)) gs)"
    unfolding u_def by (rule writeMetric_lines [OF assms(1)]) blast
  have "list_all (\<lambda>f. plain (field_key f) \<and> wire_safe (field_value f)) (m_fields m')" using safe by (simp add: line_safe_def)
  from pairs_of_wire [OF this, of u] have "list_all2 (\<lambda>p f. field_reads p f \<and> p \<noteq> [] \<and> \<not> grammar_ws (hd p)) (concat gs) (wire_fields u (m_fields m'))"
    unfolding gs(3) .
  from group_split [OF this] obtain fss where fss: "concat fss = wire_fields u (m_fields m')"
    "list_all2 (list_all2 (\<lambda>p f. field_reads p f \<and> p \<noteq> [] \<and> \<not> grammar_ws (hd p))) gs fss" by blast
  have "fields_ok (m_fields m')" using safe by (simp add: line_safe_def metric_ok_def)
  from wire_fields_ok [OF this, of u] fss(1) have
    "list_all2 line_reads (List.map (line_of (header_of m') (footer_of m')) gs) (List.map (line_metric m') fss)"
    by (intro groups_read [OF safe gs(2) fss(2)]) simp_all
  moreover have "reads_as u m' (List.map (line_metric m') fss)"
    using gs(1) fss by (auto simp: reads_as_def line_metric_def list_all_iff comp_def dest: list_all2_lengthD)
  ultimately show ?thesis using that gs(4) same by (simp add: u_def m')
qed

subsection \<open>A batch and its settings\<close>

definition settings :: "serializer \<Rightarrow> int \<times> bool \<times> bool" where
  "settings s = (sz_maxLineBytes s, sz_sortFields s, sz_uintSupport s)"

lemma settings_update [simp]:
  "settings (s\<lparr>sz_pair := p\<rparr>) = settings s" "settings (s\<lparr>sz_header := p\<rparr>) = settings s"
  "settings (s\<lparr>sz_footer := p\<rparr>) = settings s" "settings (s\<lparr>sz_bytesWritten := n\<rparr>) = settings s"
  by (simp_all add: settings_def)

lemma settings_write [simp]: "settings (fst (sz_write b sw)) = settings (fst sw)"
  by (cases sw) (simp add: sz_write_def)

lemma settings_pair: "buildFieldPair f s = (s', e) \<Longrightarrow> settings s' = settings s"
  by (auto simp: buildFieldPair_def Let_def split: if_splits sum.splits)

lemma settings_put_pair [simp]: "settings (fst (fst (put_pair (sw, n, first)))) = settings (fst sw)"
  by (simp add: put_pair_def Let_def)

lemma settings_write_field: "write_field f ((s, w), n, first) = (st, e) \<Longrightarrow> settings (fst (fst st)) = settings s"
proof -
  assume w: "write_field f ((s, w), n, first) = (st, e)"
  obtain s1 err where b: "buildFieldPair f s = (s1, err)" by (metis prod.exhaust)
  have "settings s1 = settings s" by (rule settings_pair [OF b])
  with w show ?thesis unfolding write_field_def prod.case b Let_def by (auto split: if_splits)
qed

lemma settings_write_fields: "write_fields fs ((s, w), n, first) = ((s', w'), e) \<Longrightarrow> settings s' = settings s"
proof (induction fs arbitrary: s w n first)
  case Nil
  then have "s' = s \<or> s' = fst (sz_write (sz_footer s) (s, w))" by (auto split: if_splits)
  then show ?case by auto
next
  case (Cons f fs)
  obtain s1 w1 n1 first1 e1 where w: "write_field f ((s, w), n, first) = (((s1, w1), n1, first1), e1)" by (metis prod.exhaust)
  have "settings s1 = settings s" using settings_write_field [OF w] by simp
  with Cons.IH [of s1 w1 n1 first1] Cons.prems w show ?case by (auto split: option.splits)
qed

lemma settings_writeMetric:
  assumes "writeMetric m (s, w) = ((s', w'), m', e)"
  shows "settings s' = settings s"
proof -
  obtain s1 e1 where b: "buildHeader m s = (s1, e1)" by (metis prod.exhaust)
  have s1: "settings s1 = settings s" using b by (auto simp: buildHeader_def Let_def split: if_splits)
  show ?thesis
  proof (cases e1)
    case (Some x)
    with b assms s1 show ?thesis by (auto simp: writeMetric_def)
  next
    case None
    with b assms have "\<exists>fs. write_fields fs ((buildFooter m s1, w), 0, True) = ((s', w'), e)"
      by (auto simp: writeMetric_def Let_def split: prod.splits)
    then have "settings s' = settings (buildFooter m s1)" using settings_write_fields by blast
    then show ?thesis using s1 by (simp add: buildFooter_def)
  qed
qed

lemma write_batch_reads:
  assumes "write_batch ms (s, w) = (s', ms', Inr out)" "list_all line_safe ms"
  obtains ls gss where "out = w @ concat ls" "list_all2 line_reads ls (concat gss)"
    "list_all2 (\<lambda>m g. reads_as (sz_uintSupport s) (sent (sz_sortFields s) m) g) ms gss"
  using assms
proof (induction ms arbitrary: s w ms' thesis)
  case Nil
  then show ?case using Nil.prems(1) [of "[]" "[]"] by simp
next
  case (Cons m ms)
  obtain s1 w1 m1 e where w: "writeMetric m (s, w) = ((s1, w1), m1, e)" by (metis prod.exhaust)
  with Cons.prems(2) have e: "e = None" by (cases e) (simp_all add: sz_Write_def)
  obtain s2 ms2 r where b: "write_batch ms (s1, w1) = (s2, ms2, r)" by (metis prod.exhaust)
  with Cons.prems(2) w e have "write_batch ms (s1, w1) = (s', ms2, Inr out)" by (simp add: sz_Write_def)
  moreover have "list_all line_safe ms" using Cons.prems(3) by simp
  ultimately obtain ls gss where ih: "out = w1 @ concat ls" "list_all2 line_reads ls (concat gss)"
    "list_all2 (\<lambda>m g. reads_as (sz_uintSupport s1) (sent (sz_sortFields s1) m) g) ms gss"
    using Cons.IH by blast
  have eq: "sz_uintSupport s1 = sz_uintSupport s" "sz_sortFields s1 = sz_sortFields s"
    using settings_writeMetric [OF w] by (simp_all add: settings_def)
  have "line_safe m" using Cons.prems(3) by simp
  from writeMetric_reads [OF w [unfolded e] this] obtain ls0 g where
    g: "w1 = w @ concat ls0" "list_all2 line_reads ls0 g" "reads_as (sz_uintSupport s) (sent (sz_sortFields s) m) g" by blast
  show ?case
  proof (rule Cons.prems(1))
    show "out = w @ concat (ls0 @ ls)" by (simp add: ih(1) g(1))
    show "list_all2 line_reads (ls0 @ ls) (concat (g # gss))" using g(2) ih(2) by (simp add: list_all2_appendI)
    show "list_all2 (\<lambda>m g. reads_as (sz_uintSupport s) (sent (sz_sortFields s) m) g) (m # ms) (g # gss)"
      using g(3) ih(3) by (simp add: eq)
  qed
qed

text \<open>
  C24. Serializing a batch and parsing the text gives the metrics back, for a machine that follows the
  grammar: every metric becomes one or more metrics with its name, time and non-empty tags, one for
  each line, which together have the fields that have a text, in order. It needs names and keys
  without backslashes and control characters, strings without control characters, and times and
  floats that their texts determine.
\<close>

theorem influx_round_trip:
  assumes mach: "follows_grammar mach" and safe: "list_all line_safe ms"
    and out: "SerializeBatch ms s = (s', ms', Inr out)"
  shows "\<exists>gss. influx_Parse out (NewParser mach (NewMetricHandler now)) = (NewParser mach (NewMetricHandler now), Inr (concat gss))
    \<and> list_all2 (\<lambda>m g. reads_as (sz_uintSupport s) (sent (sz_sortFields s) m) g) ms gss"
proof -
  obtain ls gss where g: "out = [] @ concat ls" "list_all2 line_reads ls (concat gss)"
    "list_all2 (\<lambda>m g. reads_as (sz_uintSupport s) (sent (sz_sortFields s) m) g) ms gss"
    using out unfolding SerializeBatch_def by (rule write_batch_reads) (rule safe)
  obtain rs where rs: "grammar_rounds out = Some rs"
    "\<And>input h acc. fresh h \<Longrightarrow> parse_rounds input rs h acc = (h, Inr (acc @ concat gss))"
    using line_reads_rounds [OF g(2)] g(1) by auto
  have "fresh (NewMetricHandler now)"
    by (simp add: fresh_def NewMetricHandler_def NewBuilder_def h_Reset_def Builder_Reset_def)
  moreover have "mach out = rs" using mach rs(1) by (auto simp: follows_grammar_def)
  ultimately have "influx_Parse out (NewParser mach (NewMetricHandler now)) = (NewParser mach (NewMetricHandler now), Inr (concat gss))"
    by (simp add: influx_Parse_def NewParser_def rs(2) applyDefaultTags_def)
  with g(3) show ?thesis by blast
qed

definition grammar_machine :: machine where
  "grammar_machine s = (case grammar_rounds s of Some rs \<Rightarrow> rs | None \<Rightarrow> [])"

lemma grammar_machine_follows: "follows_grammar grammar_machine"
  by (simp add: follows_grammar_def grammar_machine_def)

definition demo_point :: metric where
  "demo_point = New ''a b'' [(''k,'', ''v='')] [(''x'', GString [dq, bsl]), (''y'', GInt64 (- 5)), (''z'', GFloat64 (f64_of_int 2))] 10 None"

definition demo_text :: string where
  "demo_text = ''a'' @ [bsl] @ '' b,k'' @ [bsl] @ '',=v'' @ [bsl] @ ''= x='' @ [dq, bsl, dq, bsl, bsl, dq] @ '',y=-5i,z=2 10'' @ [CHR 0x0A]"

theorem influx_round_trip_witness:
  "\<exists>gss. influx_Parse (demo_text @ demo_text) (NewParser grammar_machine (NewMetricHandler 0)) =
      (NewParser grammar_machine (NewMetricHandler 0), Inr (concat gss))
    \<and> list_all2 (reads_as False) [demo_point, demo_point] gss"
proof -
  have "case SerializeBatch [demo_point, demo_point] NewSerializer of (s', ms', r) \<Rightarrow> r = Inr (demo_text @ demo_text)" by code_simp
  then obtain s' ms' where s: "SerializeBatch [demo_point, demo_point] NewSerializer = (s', ms', Inr (demo_text @ demo_text))"
    by (auto split: prod.splits)
  have safe: "list_all line_safe [demo_point, demo_point]" by code_simp
  have c: "sz_uintSupport NewSerializer = False" "sz_sortFields NewSerializer = False" "\<And>m. sent False m = m"
    by (simp_all add: NewSerializer_def sent_def)
  show ?thesis using influx_round_trip [OF grammar_machine_follows safe s, of 0] unfolding c by simp
qed

text \<open>
  Control characters do not survive: in a string the parser rejects the escapes that the serializer
  writes, and in a tag it keeps them as they are.
\<close>

lemma newline_in_string_unreadable:
  "case SerializeBatch [New ''m'' [] [(''s'', GString [CHR 0x0A])] 0 None] NewSerializer of
     (s', ms', Inr out) \<Rightarrow> grammar_rounds out = None | _ \<Rightarrow> False"
  by code_simp

lemma newline_in_tag_changed: "unescape (escape [CHR 0x0A]) = [bsl, CHR ''n'']"
  by code_simp

end
