(* ===== verification/Dropwizard.thy ===== *)
theory Dropwizard
  imports JsonParser Templating InfluxParser
begin

section \<open>The Dropwizard parser\<close>

text \<open>
  \<open>plugins/parsers/dropwizard/parser.go\<close>: a registry of counters, meters, gauges, histograms and timers as metrics, over the
  decoder of JSON texts, the templating engine and the line protocol parser for series. The path queries of \<open>gjson\<close>, the
  clock and the parsing of times by layout are parameters.
\<close>

subsection \<open>State\<close>

record gjson_result =
  gj_Index :: int
  gj_Raw :: string
  gj_String :: string

type_synonym gjson_get = "string \<Rightarrow> string \<Rightarrow> gjson_result"

record dropwizard =
  dw_MetricRegistryPath :: string
  dw_TimePath :: string
  dw_TimeFormat :: string
  dw_TagsPath :: string
  dw_TagPathsMap :: strmap
  dw_DefaultTags :: strmap
  dw_separator :: string
  dw_templateEngine :: "engine option"
  dw_seriesParser :: influx_parser

definition dw_NewParser :: "machine \<Rightarrow> int \<Rightarrow> dropwizard" where
  "dw_NewParser mach now =
     \<lparr>dw_MetricRegistryPath = [], dw_TimePath = [], dw_TimeFormat = [], dw_TagsPath = [], dw_TagPathsMap = [], dw_DefaultTags = [],
      dw_separator = [], dw_templateEngine = None, dw_seriesParser = NewSeriesParser mach (NewMetricHandler now)\<rparr>"

definition SetTemplates :: "string \<Rightarrow> string list \<Rightarrow> dropwizard \<Rightarrow> dropwizard result" where
  "SetTemplates separator templates p =
     (if templates = [] then Inr (p\<lparr>dw_templateEngine := None\<rparr>)
      else res_bind (NewDefaultTemplateWithPattern ''measurement*'') (\<lambda>d.
        res_bind (NewEngine separator d templates) (\<lambda>e. Inr (p\<lparr>dw_separator := separator, dw_templateEngine := Some e\<rparr>))))"

definition dw_SetDefaultTags :: "strmap \<Rightarrow> dropwizard \<Rightarrow> dropwizard" where
  "dw_SetDefaultTags tags p = p\<lparr>dw_DefaultTags := tags\<rparr>"

subsection \<open>Time, registry and tags of a document\<close>

definition found_bytes :: "string \<Rightarrow> gjson_result \<Rightarrow> string" where
  "found_bytes buf r = (if gj_Index r > 0 then take (length (gj_Raw r)) (drop (nat (gj_Index r)) buf) else gj_Raw r)"

definition rfc3339 :: string where "rfc3339 = ''2006-01-02T15:04:05Z07:00''"

definition dw_parseTime :: "gjson_get \<Rightarrow> (string \<Rightarrow> string \<Rightarrow> int option) \<Rightarrow> int \<Rightarrow> dropwizard \<Rightarrow> string \<Rightarrow> int result" where
  "dw_parseTime get tparse now p buf =
     (if dw_TimePath p = [] then Inr now
      else let s = gj_String (get buf (dw_TimePath p));
               layout = (if dw_TimeFormat p = [] then rfc3339 else dw_TimeFormat p)
           in if s = [] then Inl (Err ''time not found in JSON path'')
              else case tparse layout s of None \<Rightarrow> Inl (Err ''time cannot be parsed'') | Some t \<Rightarrow> Inr t)"

definition unmarshal_object :: "string \<Rightarrow> (string \<times> f64 json) list result" where
  "unmarshal_object b =
     (case Option.bind (unmarshal b) as_object of
        Some (JObject kvs) \<Rightarrow> Inr kvs
      | _ \<Rightarrow> Inl (Err ''unable to parse dropwizard metric registry from JSON document''))"

definition unmarshalMetrics :: "gjson_get \<Rightarrow> dropwizard \<Rightarrow> string \<Rightarrow> (string \<times> f64 json) list result" where
  "unmarshalMetrics get p buf =
     (if dw_MetricRegistryPath p = [] then unmarshal_object buf
      else let b = found_bytes buf (get buf (dw_MetricRegistryPath p))
           in if b = [] then Inl (Err ''metric registry not found in JSON path'') else unmarshal_object b)"

text \<open>Decoding into \<open>map[string]string\<close>: strings, and null for the empty string.\<close>

fun string_entries :: "(string \<times> f64 json) list \<Rightarrow> strmap option" where
  "string_entries [] = Some []"
| "string_entries ((k, v) # kvs) =
     (case v of JString s \<Rightarrow> map_option ((#) (k, s)) (string_entries kvs)
      | JNull \<Rightarrow> map_option ((#) (k, [])) (string_entries kvs)
      | _ \<Rightarrow> None)"

definition unmarshal_strings :: "string \<Rightarrow> strmap option" where
  "unmarshal_strings b =
     (case Option.bind (unmarshal b) as_object of Some (JObject kvs) \<Rightarrow> string_entries kvs | _ \<Rightarrow> None)"

definition readTags :: "gjson_get \<Rightarrow> dropwizard \<Rightarrow> string \<Rightarrow> strmap" where
  "readTags get p buf =
     (let paths = fold (\<lambda>(k, path). AList.update k (gj_String (get buf path))) (dw_TagPathsMap p) []
      in if dw_TagsPath p = [] then paths
         else case unmarshal_strings (found_bytes buf (get buf (dw_TagsPath p))) of
                Some (kv # tags) \<Rightarrow> kv # tags
              | _ \<Rightarrow> paths)"

subsection \<open>Metrics of a registry\<close>

text \<open>An error of the templating engine is dropped; it comes with an empty name and no tags.\<close>

definition dw_template :: "dropwizard \<Rightarrow> string \<Rightarrow> string \<times> strmap \<times> string" where
  "dw_template p name =
     (case dw_templateEngine p of
        None \<Rightarrow> (name, [], [])
      | Some e \<Rightarrow> (case Engine_Apply e name of
          Inl err \<Rightarrow> ([], [], [])
        | Inr (n, tags, f) \<Rightarrow> (n, tags, if f = [] then [] else f @ dw_separator p)))"

definition dw_field :: "string \<Rightarrow> string \<times> f64 json \<Rightarrow> metric \<Rightarrow> metric" where
  "dw_field fieldPrefix kv m =
     (case snd kv of
        JNumber x \<Rightarrow> AddField (fieldPrefix @ fst kv) (GFloat64 x) m
      | JString s \<Rightarrow> AddField (fieldPrefix @ fst kv) (GString s) m
      | JBool b \<Rightarrow> AddField (fieldPrefix @ fst kv) (GBool b) m
      | _ \<Rightarrow> m)"

definition dw_series :: "influx_parser \<Rightarrow> string \<Rightarrow> int \<Rightarrow> influx_parser \<times> metric" where
  "dw_series sp measurementName tm =
     (case influx_Parse measurementName sp of
        (sp1, Inr [m]) \<Rightarrow> (sp1, SetTime tm m)
      | (sp1, _) \<Rightarrow> (sp1, New measurementName [] [] tm None))"

definition dw_metric :: "string \<Rightarrow> int \<Rightarrow> dropwizard \<Rightarrow> string \<times> f64 json \<Rightarrow> dropwizard \<times> metric" where
  "dw_metric metricType tm p entry =
     (case dw_template p (fst entry) of (measurementName, tags, fieldPrefix) \<Rightarrow>
        case dw_series (dw_seriesParser p) measurementName tm of (sp, m0) \<Rightarrow>
          let m1 = fold (\<lambda>(k, v). AddTag k v) tags (AddTag ''metric_type'' metricType m0);
              m2 = (case snd entry of JObject kvs \<Rightarrow> fold (dw_field fieldPrefix) kvs m1 | _ \<Rightarrow> m1)
          in (p\<lparr>dw_seriesParser := sp\<rparr>, m2))"

fun dw_metrics :: "string \<Rightarrow> int \<Rightarrow> (string \<times> f64 json) list \<Rightarrow> dropwizard \<times> metric list \<Rightarrow> dropwizard \<times> metric list" where
  "dw_metrics metricType tm [] pm = pm"
| "dw_metrics metricType tm (e # es) pm =
     (case dw_metric metricType tm (fst pm) e of (p1, m) \<Rightarrow> dw_metrics metricType tm es (p1, snd pm @ [m]))"

definition readDWMetrics :: "string \<Rightarrow> f64 json option \<Rightarrow> int \<Rightarrow> dropwizard \<times> metric list \<Rightarrow> dropwizard \<times> metric list" where
  "readDWMetrics metricType dwms tm pm =
     (case dwms of Some (JObject es) \<Rightarrow> dw_metrics metricType tm es pm | _ \<Rightarrow> pm)"

definition metric_kinds :: "(string \<times> string) list" where
  "metric_kinds = [(''counter'', ''counters''), (''meter'', ''meters''), (''gauge'', ''gauges''),
     (''histogram'', ''histograms''), (''timer'', ''timers'')]"

definition fill_tags :: "strmap \<Rightarrow> metric \<Rightarrow> metric" where
  "fill_tags tags m = fold apply_default tags m"

definition dw_Parse ::
  "gjson_get \<Rightarrow> (string \<Rightarrow> string \<Rightarrow> int option) \<Rightarrow> int \<Rightarrow> string \<Rightarrow> dropwizard \<Rightarrow> dropwizard \<times> metric list result" where
  "dw_Parse get tparse now buf p =
     (case dw_parseTime get tparse now p buf of
        Inl e \<Rightarrow> (p, Inl e)
      | Inr tm \<Rightarrow>
          (case unmarshalMetrics get p buf of
             Inl e \<Rightarrow> (p, Inl e)
           | Inr dwr \<Rightarrow>
               (case fold (\<lambda>(t, key). readDWMetrics t (map_of dwr key) tm) metric_kinds (p, []) of
                  (p1, ms) \<Rightarrow> (p1, Inr (List.map (fill_tags (dw_DefaultTags p) \<circ> fill_tags (readTags get p buf)) ms)))))"

definition dw_ParseLine :: "string \<Rightarrow> dropwizard \<Rightarrow> metric result" where
  "dw_ParseLine line p = Inl (Err ''ParseLine not supported'')"

subsection \<open>Entries and tags\<close>

text \<open>Every entry of the registry gives one metric.\<close>

definition entries_of :: "f64 json option \<Rightarrow> (string \<times> f64 json) list" where
  "entries_of dwms = (case dwms of Some (JObject es) \<Rightarrow> es | _ \<Rightarrow> [])"

lemma length_dw_metrics: "length (snd (dw_metrics t tm es pm)) = length (snd pm) + length es"
  by (induction es arbitrary: pm) (simp_all split: prod.split)

lemma readDWMetrics_entries: "readDWMetrics t dwms tm pm = dw_metrics t tm (entries_of dwms) pm"
  by (simp add: readDWMetrics_def entries_of_def split: option.split json.split)

lemma length_read_kinds:
  "length (snd (fold (\<lambda>(t, key). readDWMetrics t (map_of dwr key) tm) kinds pm))
    = length (snd pm) + sum_list (List.map (\<lambda>(t, key). length (entries_of (map_of dwr key))) kinds)"
  by (induction kinds arbitrary: pm) (auto simp: readDWMetrics_entries length_dw_metrics)

lemma dropwizard_one_each:
  assumes "dw_Parse get tparse now buf p = (p', Inr ms)"
  obtains dwr where "unmarshalMetrics get p buf = Inr dwr"
    "length ms = sum_list (List.map (\<lambda>(t, key). length (entries_of (map_of dwr key))) metric_kinds)"
proof -
  from assms obtain tm where tm: "dw_parseTime get tparse now p buf = Inr tm" by (auto simp: dw_Parse_def split: sum.splits)
  with assms obtain dwr where dwr: "unmarshalMetrics get p buf = Inr dwr" by (auto simp: dw_Parse_def split: sum.splits)
  have "ms = List.map (fill_tags (dw_DefaultTags p) \<circ> fill_tags (readTags get p buf))
      (snd (fold (\<lambda>(t, key). readDWMetrics t (map_of dwr key) tm) metric_kinds (p, [])))"
    using assms by (simp add: dw_Parse_def tm dwr split: prod.splits)
  with length_read_kinds [of dwr tm metric_kinds "(p, [])"] dwr show ?thesis by (intro that [of dwr]) simp_all
qed

text \<open>The tags of the document fill in what the series and the template leave open, and the default tags what is left then.\<close>

lemma fill_tags_metric:
  assumes "metric_ok m" "gomap_ok tags"
  shows "metric_ok (fill_tags tags m)"
    "GetTag (fill_tags tags m) k = (case GetTag m k of Some v \<Rightarrow> Some v | None \<Rightarrow> map_of tags k)"
proof -
  have has: "HasTag m k \<longleftrightarrow> GetTag m k \<noteq> None" if "metric_ok m" for m k
    using that has_tag_iff [of "m_tags m" k] by (auto simp: HasTag_def GetTag_def metric_ok_def)
  have "metric_ok m \<Longrightarrow> metric_ok (fold apply_default tags m)
      \<and> GetTag (fold apply_default tags m) k = (case GetTag m k of Some v \<Rightarrow> Some v | None \<Rightarrow> map_of tags k)" for m
  proof (induction tags arbitrary: m)
    case (Cons kv tags)
    have ok: "metric_ok (apply_default kv m)" using Cons.prems by (simp add: apply_default_def)
    have "GetTag (apply_default kv m) k
        = (case GetTag m k of Some v \<Rightarrow> Some v | None \<Rightarrow> if k = fst kv then Some (snd kv) else None)"
      using has [OF Cons.prems] Cons.prems by (auto simp: apply_default_def GetTag_AddTag split: option.splits)
    with Cons.IH [OF ok] show ?case by (cases kv) (auto split: option.split)
  qed (simp split: option.split)
  with assms show "metric_ok (fill_tags tags m)"
    "GetTag (fill_tags tags m) k = (case GetTag m k of Some v \<Rightarrow> Some v | None \<Rightarrow> map_of tags k)"
    by (simp_all add: fill_tags_def)
qed

subsection \<open>Series, templates and types\<close>

text \<open>A scanner that accepts no series, so that every measurement is named as the registry names it.\<close>

definition no_series :: machine where
  "no_series input = [([], Some (''parse error'', 0))]"

definition dw_registry :: "(string \<times> f64 json) list" where
  "dw_registry =
     [(''counters'', JObject [(''a.b.c'', JObject [(''count'', JNumber (f64_of_int 1)), (''x'', JArray [JNull])])]),
      (''gauges'', JObject [(''g'', JObject [(''value'', JString ''up'')])])]"

definition dw_run :: "string list \<Rightarrow> (string \<times> strmap \<times> (string, gval) gomap) list result" where
  "dw_run templates =
     res_bind (SetTemplates ''_'' templates (dw_NewParser no_series 0)) (\<lambda>p.
       Inr (List.map (\<lambda>m. (m_name m, Tags m, Fields m))
         (snd (fold (\<lambda>(t, key). readDWMetrics t (map_of dw_registry key) 7) metric_kinds (p, [])))))"

lemma dropwizard_demo:
  "dw_run [] = Inr [(''a.b.c'', [(''metric_type'', ''counter'')], [(''count'', GFloat64 (f64_of_int 1))]),
     (''g'', [(''metric_type'', ''gauge'')], [(''value'', GString ''up'')])]"
  "dw_run [''host.measurement.field*''] = Inr [(''b'', [(''host'', ''a''), (''metric_type'', ''counter'')], [(''c_count'', GFloat64 (f64_of_int 1))]),
     ([], [(''host'', ''g''), (''metric_type'', ''gauge'')], [(''value'', GString ''up'')])]"
  by code_simp+

text \<open>A template that cannot be applied is an error that nobody sees: the metrics lose their names.\<close>

lemma dropwizard_template_error_unseen:
  "dw_run [''measurement*.field*''] = Inr [([], [(''metric_type'', ''counter'')], [(''count'', GFloat64 (f64_of_int 1))]),
     ([], [(''metric_type'', ''gauge'')], [(''value'', GString ''up'')])]"
  by code_simp

end
