(* ===== verification/GraphiteParser.thy ===== *)
theory GraphiteParser
  imports Templating Metric
begin

section \<open>The Graphite parser\<close>

text \<open>
  \<open>plugins/parsers/graphite/parser.go\<close> and \<open>config.go\<close>: lines of a dotted name, a value and an
  optional time. The clock \<open>now\<close> and the implementation-defined conversion of an out-of-range float
  (\<open>impl\<close>) are parameters. Times are nanoseconds since 1970; error messages are shortened.
\<close>

record graphite_parser =
  gp_Separator :: string
  gp_Templates :: "string list"
  gp_DefaultTags :: strmap
  gp_engine :: engine

definition SetDefaultTags :: "strmap \<Rightarrow> graphite_parser \<Rightarrow> graphite_parser" where
  "SetDefaultTags tags p = p\<lparr>gp_DefaultTags := tags\<rparr>"

definition NewGraphiteParser :: "string \<Rightarrow> string list \<Rightarrow> strmap \<Rightarrow> graphite_parser result" where
  "NewGraphiteParser separator templates defaultTags =
     (let sep = (if separator = [] then ''.'' else separator)
      in res_bind (NewDefaultTemplateWithPattern ''measurement*'') (\<lambda>d.
         res_bind (NewEngine sep d templates) (\<lambda>e.
           Inr \<lparr>gp_Separator = sep, gp_Templates = templates, gp_DefaultTags = defaultTags, gp_engine = e\<rparr>)))"

definition MinDate :: int where "MinDate = - 2147558400 * 10 ^ 9"
definition MaxDate :: int where "MaxDate = 2147472000 * 10 ^ 9"

text \<open>\<open>math.Floor\<close>\<close>

definition f_floor :: "f64 \<Rightarrow> f64" where
  "f_floor x =
     (if \<not> is_finite x \<or> f_mag x = 0 then x
      else let t = f_trunc x in f64_of_int (if f_lt x (f64_of_int t) then t - 1 else t))"

definition graphite_time :: "(f64 \<Rightarrow> i64) \<Rightarrow> int \<Rightarrow> f64 \<Rightarrow> int result" where
  "graphite_time impl now unixTime =
     (if \<not> f_eq unixTime (f64_of_int (- 1)) then
        let t = sint (f64_to_i64 impl unixTime) * 10 ^ 9
              + sint (f64_to_i64 impl (f_mul (f_sub unixTime (f_floor unixTime)) (f64_of_int (10 ^ 9))))
        in if t < MinDate \<or> t > MaxDate then Inl (Err ''timestamp out of range'') else Inr t
      else Inr now)"

definition ParseLine :: "(f64 \<Rightarrow> i64) \<Rightarrow> int \<Rightarrow> graphite_parser \<Rightarrow> string \<Rightarrow> metric result" where
  "ParseLine impl now p line =
     (let fields = fields_of line
      in if length fields \<noteq> 2 \<and> length fields \<noteq> 3 then Inl (Err ''required fields'')
         else res_bind (Engine_Apply (gp_engine p) (fields ! 0)) (\<lambda>(m, tags, field).
           let measurement = (if m = [] then fields ! 0 else m)
           in case parse_float (fields ! 1) of
                None \<Rightarrow> Inl (Err ''value'')
              | Some v \<Rightarrow>
                  if is_nan v \<or> is_inf v then Inl (Err ''unsupported value'')
                  else
                    let fieldValues = [(if field \<noteq> [] then field else ''value'', GFloat64 v)]
                    in res_bind
                         (if length fields = 3 then
                            (case parse_float (fields ! 2) of
                               None \<Rightarrow> Inl (Err ''time'')
                             | Some ut \<Rightarrow> graphite_time impl now ut)
                          else Inr now) (\<lambda>timestamp.
                         Inr (New measurement (add_missing (gp_DefaultTags p) tags) fieldValues timestamp None))))"

text \<open>
  \<open>Parse\<close>: the lines of the buffer, without a leading newline and with a final one. Metrics of good
  lines are kept whatever the others are; the errors are collected. The clock is read once per
  line; the model gives all lines of a buffer the same time. A panic ends the parse.
\<close>

definition buffer_lines :: "string \<Rightarrow> string list" where
  "buffer_lines buf =
     (let b1 = trim_prefix buf [CHR 0x0A];
          b2 = (if b1 \<noteq> [] \<and> \<not> has_suffix b1 [CHR 0x0A] then b1 @ [CHR 0x0A] else b1)
      in butlast (split b2 [CHR 0x0A]))"

fun parse_lines :: "(f64 \<Rightarrow> i64) \<Rightarrow> int \<Rightarrow> graphite_parser \<Rightarrow> string list \<Rightarrow> (metric list \<times> string list) result" where
  "parse_lines impl now p [] = Inr ([], [])"
| "parse_lines impl now p (l # ls) =
     (let line = trim_space l
      in if line = [] then parse_lines impl now p ls
         else case ParseLine impl now p line of
           Inr m \<Rightarrow> res_bind (parse_lines impl now p ls) (\<lambda>(ms, errs). Inr (m # ms, errs))
         | Inl (Err e) \<Rightarrow> res_bind (parse_lines impl now p ls) (\<lambda>(ms, errs). Inr (ms, e # errs))
         | Inl (Panic e) \<Rightarrow> Inl (Panic e))"

definition Parse :: "(f64 \<Rightarrow> i64) \<Rightarrow> int \<Rightarrow> graphite_parser \<Rightarrow> string \<Rightarrow> (metric list \<times> string option) result" where
  "Parse impl now p buf =
     res_bind (parse_lines impl now p (buffer_lines buf)) (\<lambda>(ms, errs).
       Inr (ms, if errs = [] then None else Some (concat (List.map (\<lambda>e. e @ [CHR 0x0A]) errs))))"

text \<open>
  When the template fails, the tags are a \<open>nil\<close> map: writing a default tag to it panics, and without
  default tags the error is returned with a \<open>nil\<close> map, which is \<open>Inl (Err e)\<close> here.
\<close>

definition ApplyTemplate :: "graphite_parser \<Rightarrow> string \<Rightarrow> (string \<times> strmap \<times> string) result" where
  "ApplyTemplate p line =
     (let fields = fields_of line
      in if length fields = 0 then Inr ([], [], [])
         else case Engine_Apply (gp_engine p) (fields ! 0) of
           Inl (Err e) \<Rightarrow> if gp_DefaultTags p \<noteq> [] then Inl (Panic ''assignment to entry in nil map'') else Inl (Err e)
         | Inl (Panic e) \<Rightarrow> Inl (Panic e)
         | Inr (n, tags, field) \<Rightarrow> Inr (n, add_missing (gp_DefaultTags p) tags, field))"

subsection \<open>Checking a configuration\<close>

definition validateTemplate :: "string \<Rightarrow> string option" where
  "validateTemplate template =
     (if list_ex (\<lambda>p. p = ''measurement'' \<or> p = ''measurement*'') (split template ''.'') then None
      else Some ''no measurement in template'')"

definition validateFilter :: "string \<Rightarrow> string option" where
  "validateFilter flt =
     (case List.find (\<lambda>p. p = [] \<or> (contains p ''*'' \<and> p \<noteq> ''*'')) (split flt ''.'') of
        None \<Rightarrow> None
      | Some p \<Rightarrow> Some (if p = [] then ''filter contains blank section'' else ''invalid filter wildcard section''))"

definition validateTag :: "string \<Rightarrow> string option" where
  "validateTag keyValue =
     (case split keyValue ''='' of
        [k, v] \<Rightarrow> if k = [] \<or> v = [] then Some ''invalid template tags'' else None
      | _ \<Rightarrow> Some ''invalid template tags'')"

fun first_error :: "('a \<Rightarrow> string option) \<Rightarrow> 'a list \<Rightarrow> string option" where
  "first_error f [] = None"
| "first_error f (x # xs) = (case f x of Some e \<Rightarrow> Some e | None \<Rightarrow> first_error f xs)"

definition validate_one :: "string list \<Rightarrow> string \<Rightarrow> string list + string" where
  "validate_one seen t =
     (let parts = fields_of t; n = length parts
      in if n = 0 then Inr ''missing template''
         else if n = 1 \<and> parts ! 0 = [] then Inr ''missing template''
         else if n > 3 then Inr ''invalid template format''
         else
           let (template, flt, tags1) =
                 (if n \<ge> 2 then
                    (if contains (parts ! 1) ''='' then (parts ! 0, [], parts ! 1) else (parts ! 1, parts ! 0, []))
                  else (t, [], []));
               tags = (if n = 3 then parts ! 2 else tags1)
           in case validateTemplate template of Some e \<Rightarrow> Inr e
              | None \<Rightarrow>
                  if flt \<in> set seen then Inr ''duplicate filter''
                  else case (if flt \<noteq> [] then validateFilter flt else None) of Some e \<Rightarrow> Inr e
                  | None \<Rightarrow> (case (if tags \<noteq> [] then first_error validateTag (split tags '','') else None) of
                        Some e \<Rightarrow> Inr e | None \<Rightarrow> Inl (flt # seen)))"

fun validateTemplates :: "string list \<Rightarrow> string list \<Rightarrow> string option" where
  "validateTemplates seen [] = None"
| "validateTemplates seen (t # ts) =
     (case validate_one seen t of Inr e \<Rightarrow> Some e | Inl seen' \<Rightarrow> validateTemplates seen' ts)"

definition Validate :: "string list \<Rightarrow> string option" where
  "Validate templates = validateTemplates [] templates"

subsection \<open>Plain lines\<close>

definition plain :: "string \<Rightarrow> bool" where
  "plain s \<longleftrightarrow> s \<noteq> [] \<and> list_all (\<lambda>c. byte_of c < 128 \<and> \<not> is_space (byte_of c)) s"

lemma fields_from_plain:
  "list_all (\<lambda>c. byte_of c < 128 \<and> \<not> is_space (byte_of c)) s \<Longrightarrow>
   fields_from acc (runes (s @ t)) = fields_from (acc @ s) (runes t)"
  by (induction s arbitrary: acc) (simp_all add: runes_ascii del: runes.simps(2))

lemma fields_of_plain:
  "plain s \<Longrightarrow> fields_of s = [s]"
  "plain s \<Longrightarrow> fields_of (s @ CHR '' '' # t) = s # fields_of t"
proof -
  assume s: "plain s"
  have sp: "is_space (byte_of (CHR '' ''))" "byte_of (CHR '' '') < 128" by (simp_all add: is_space_def)
  show "fields_of s = [s]"
    using fields_from_plain [of s "[]" "[]"] s by (simp add: fields_of_def plain_def)
  show "fields_of (s @ CHR '' '' # t) = s # fields_of t"
    using fields_from_plain [of s "[]" "CHR '' '' # t"] s sp
    by (simp add: fields_of_def plain_def runes_ascii del: runes.simps(2))
qed

lemma default_engine:
  obtains p where "NewGraphiteParser sep [] tags = Inr p" "gp_DefaultTags p = tags"
    "\<And>line. Engine_Apply (gp_engine p) line = Inr (join (if sep = [] then ''.'' else sep) (split line ''.''), [], [])"
proof -
  have parts: "split ''measurement*'' ''.'' = [''measurement*'']" by (simp add: split_def has_prefix_def)
  define d where "d = \<lparr>t_separator = ''.'', t_parts = [''measurement*''], t_defaultTags = [], t_greedyField = False, t_greedyMeasurement = True\<rparr>"
  have d: "NewDefaultTemplateWithPattern ''measurement*'' = Inr d"
    by (simp add: NewDefaultTemplateWithPattern_def NewTemplate_def parts has_prefix_def d_def)
  define e where "e = \<lparr>en_joiner = (if sep = [] then ''.'' else sep), en_matcher = newMatcher d\<rparr>"
  have e: "NewEngine (if sep = [] then ''.'' else sep) d [] = Inr e"
    by (simp add: NewEngine_def parseTemplateSpecs_def e_def)
  have none: "recursiveSearch xs (Node [] [] [] None) = None" for xs by (cases xs) simp_all
  have ap: "apply_parts [''measurement*''] fs r = r\<lparr>ap_measurement := ap_measurement r @ fs\<rparr>" for fs and r :: applied
    by (cases fs) simp_all
  have app: "Engine_Apply e line = Inr (join (if sep = [] then ''.'' else sep) (split line ''.''), [], [])" for line
    by (simp add: Engine_Apply_def e_def matcher_match_def newMatcher_def node_search_def none Template_Apply_def d_def ap Let_def)
  show ?thesis
    by (rule that [of "\<lparr>gp_Separator = (if sep = [] then ''.'' else sep), gp_Templates = [], gp_DefaultTags = tags, gp_engine = e\<rparr>"])
      (simp_all add: NewGraphiteParser_def d e app Let_def)
qed

text \<open>
  Without templates a line of a plain name and a finite value becomes the metric of that name
  with that value as its only field, the default tags and the current time; a value that is no
  number, NaN or infinite is an error.
\<close>

theorem graphite_plain_line:
  assumes "plain n" "plain v"
  shows "\<exists>p. NewGraphiteParser ''.'' [] tags = Inr p
    \<and> (case parse_float v of
         Some x \<Rightarrow> if is_nan x \<or> is_inf x then \<exists>e. ParseLine impl now p (n @ CHR '' '' # v) = Inl (Err e)
           else ParseLine impl now p (n @ CHR '' '' # v) = Inr (New n (add_missing tags []) [(''value'', GFloat64 x)] now None)
       | None \<Rightarrow> \<exists>e. ParseLine impl now p (n @ CHR '' '' # v) = Inl (Err e))"
proof -
  obtain p where p: "NewGraphiteParser ''.'' [] tags = Inr p" "gp_DefaultTags p = tags"
    "\<And>line. Engine_Apply (gp_engine p) line = Inr (join (if ''.'' = [] then ''.'' else ''.'') (split line ''.''), [], [])"
    by (rule default_engine [of "''.''" tags]) blast
  have f: "fields_of (n @ CHR '' '' # v) = [n, v]" using fields_of_plain assms by simp
  have "join ''.'' (split n ''.'') = n" by (simp add: join_split)
  moreover have "n \<noteq> []" using assms(1) by (simp add: plain_def)
  ultimately have "ParseLine impl now p (n @ CHR '' '' # v) =
      (case parse_float v of None \<Rightarrow> Inl (Err ''value'')
        | Some x \<Rightarrow> if is_nan x \<or> is_inf x then Inl (Err ''unsupported value'')
           else Inr (New n (add_missing tags []) [(''value'', GFloat64 x)] now None))"
    by (simp add: ParseLine_def f p Let_def split: option.split)
  with p(1) show ?thesis by (auto split: option.split)
qed

theorem graphite_plain_line_witness:
  "\<exists>p. NewGraphiteParser ''.'' [] [(''dc'', ''eu'')] = Inr p
    \<and> ParseLine (\<lambda>_. 0) 7 p (''cpu.load'' @ CHR '' '' # ''12'') = Inr (New ''cpu.load'' [(''dc'', ''eu'')] [(''value'', GFloat64 (f64_of_int 12))] 7 None)"
proof -
  have pl: "plain ''cpu.load''" "plain ''12''" by (simp_all add: plain_def is_space_def)
  have v: "parse_float ''12'' = Some (f64_of_int 12)" by code_simp
  have "add_missing [(''dc'', ''eu'')] [] = [(''dc'', ''eu'')]" by (simp add: add_missing_def)
  with graphite_plain_line [OF pl, of "[(''dc'', ''eu'')]" "\<lambda>_. 0" 7] f64_of_int_finite [of 12] show ?thesis
    by (simp add: v)
qed

subsection \<open>Buffers of lines\<close>

text \<open>The results of the lines that are not blank.\<close>

definition line_results :: "(f64 \<Rightarrow> i64) \<Rightarrow> int \<Rightarrow> graphite_parser \<Rightarrow> string list \<Rightarrow> metric result list" where
  "line_results impl now p ls = List.map (ParseLine impl now p) (List.filter (\<lambda>l. l \<noteq> []) (List.map trim_space ls))"

lemma parse_lines_results:
  "parse_lines impl now p ls = Inr (ms, errs) \<Longrightarrow>
     ms = concat (List.map (\<lambda>r. case r of Inr m \<Rightarrow> [m] | Inl _ \<Rightarrow> []) (line_results impl now p ls))
     \<and> length errs = length (List.filter Sum_Type.isl (line_results impl now p ls))"
proof (induction ls arbitrary: ms errs)
  case (Cons l ls)
  show ?case
  proof (cases "trim_space l = []")
    case True
    with Cons show ?thesis by (simp add: line_results_def)
  next
    case False
    show ?thesis
    proof (cases "ParseLine impl now p (trim_space l)")
      case (Inr m)
      with Cons False show ?thesis by (auto simp: line_results_def res_bind_Inr_iff Let_def)
    next
      case (Inl e)
      with Cons False show ?thesis
        by (cases e) (auto simp: line_results_def res_bind_Inr_iff Let_def)
    qed
  qed
qed (simp add: line_results_def)

text \<open>
  Parsing a buffer that does not panic returns the metrics of all its good lines, in order,
  and an error exactly when a line that is not blank is bad: one bad line costs no other.
\<close>

theorem graphite_parse_keeps_good:
  assumes "Parse impl now p buf = Inr (ms, err)"
  shows "ms = concat (List.map (\<lambda>r. case r of Inr m \<Rightarrow> [m] | Inl _ \<Rightarrow> []) (line_results impl now p (buffer_lines buf)))
    \<and> (err = None \<longleftrightarrow> list_all (\<lambda>r. \<exists>m. r = Inr m) (line_results impl now p (buffer_lines buf)))"
proof -
  let ?rs = "line_results impl now p (buffer_lines buf)"
  obtain errs where e: "parse_lines impl now p (buffer_lines buf) = Inr (ms, errs)" "err = None \<longleftrightarrow> errs = []"
    using assms by (auto simp: Parse_def res_bind_Inr_iff split: if_splits)
  have "errs = [] \<longleftrightarrow> List.filter Sum_Type.isl ?rs = []"
    using parse_lines_results [OF e(1)] by (metis length_0_conv)
  also have "\<dots> \<longleftrightarrow> list_all (\<lambda>r. \<exists>m. r = Inr m) ?rs"
  proof -
    have "\<not> Sum_Type.isl r \<longleftrightarrow> (\<exists>m. r = Inr m)" for r :: "metric result" by (cases r) simp_all
    then show ?thesis by (simp add: filter_empty_conv list_all_iff)
  qed
  finally show ?thesis using parse_lines_results [OF e(1)] e(2) by simp
qed

theorem graphite_parse_keeps_good_witness:
  "\<exists>p. NewGraphiteParser ''.'' [] [] = Inr p
    \<and> fst (projr (Parse (\<lambda>_. 0) 7 p (''cpu 12'' @ [CHR 0x0A]))) = [New ''cpu'' [] [(''value'', GFloat64 (f64_of_int 12))] 7 None]"
proof -
  obtain p where p: "NewGraphiteParser ''.'' [] [] = Inr p" "gp_DefaultTags p = []"
    "\<And>line. Engine_Apply (gp_engine p) line = Inr (join (if ''.'' = [] then ''.'' else ''.'') (split line ''.''), [], [])"
    by (rule default_engine [of "''.''" "[]"]) blast
  have v: "parse_float ''12'' = Some (f64_of_int 12)" by code_simp
  have l: "buffer_lines (''cpu 12'' @ [CHR 0x0A]) = [''cpu 12'']" "trim_space ''cpu 12'' = ''cpu 12''"
    "fields_of ''cpu 12'' = [''cpu'', ''12'']"
    by code_simp+
  have j: "join ''.'' (split ''cpu'' ''.'') = ''cpu''" by (simp add: join_split)
  have add: "add_missing [] [] = []" by (simp add: add_missing_def)
  have pl: "ParseLine (\<lambda>_. 0) 7 p ''cpu 12'' = Inr (New ''cpu'' [] [(''value'', GFloat64 (f64_of_int 12))] 7 None)"
    using f64_of_int_finite [of 12] by (simp add: ParseLine_def l p j v add Let_def)
  have r: "line_results (\<lambda>_. 0) 7 p (buffer_lines (''cpu 12'' @ [CHR 0x0A])) = [Inr (New ''cpu'' [] [(''value'', GFloat64 (f64_of_int 12))] 7 None)]"
    by (simp only: line_results_def l(1)) (simp add: l(2) pl)
  have "parse_lines (\<lambda>_. 0) 7 p [''cpu 12''] = Inr ([New ''cpu'' [] [(''value'', GFloat64 (f64_of_int 12))] 7 None], [])"
    by (simp add: l(2) pl)
  then obtain ms err where P: "Parse (\<lambda>_. 0) 7 p (''cpu 12'' @ [CHR 0x0A]) = Inr (ms, err)"
    by (simp only: Parse_def l(1)) simp
  from graphite_parse_keeps_good [OF P] r have "ms = [New ''cpu'' [] [(''value'', GFloat64 (f64_of_int 12))] 7 None]"
    by simp
  with P p(1) show ?thesis by simp
qed

end
