(* ===== verification/GraphiteSerializer.thy ===== *)
theory GraphiteSerializer
  imports GraphiteParser "HOL-Library.Signed_Division"
begin

section \<open>The Graphite serializer\<close>

text \<open>
  \<open>plugins/serializers/graphite/graphite.go\<close>: a line for each numeric field, with a dotted name made
  from a template or from name, field and sorted tags. The class of letters of the character set
  (\<open>\p{L}\<close>) is the parameter \<open>letter\<close> for the runes beyond ASCII.
\<close>

subsection \<open>Sanitizing\<close>

definition hypen_char :: "char \<Rightarrow> char" where
  "hypen_char c = (if c = CHR ''/'' \<or> c = CHR ''@'' \<or> c = CHR ''*'' then CHR ''-'' else c)"

fun drop_chars :: "string \<Rightarrow> string" where
  "drop_chars [] = []"
| "drop_chars [c] = (if c = CHR 0x5C then [] else [c])"
| "drop_chars (c # d # s) =
     (if c = CHR 0x5C then drop_chars (d # s)
      else if c = CHR ''.'' \<and> d = CHR ''.'' then CHR ''.'' # drop_chars s
      else c # drop_chars (d # s))"

definition allowed_rune :: "(int \<Rightarrow> bool) \<Rightarrow> int \<Rightarrow> bool" where
  "allowed_rune letter r \<longleftrightarrow> 97 \<le> r \<and> r \<le> 122 \<or> 65 \<le> r \<and> r \<le> 90 \<or> 48 \<le> r \<and> r \<le> 57
     \<or> r = 45 \<or> r = 58 \<or> r = 46 \<or> r = 95 \<or> r = 61 \<or> 128 \<le> r \<and> letter r"

definition sanitize :: "(int \<Rightarrow> bool) \<Rightarrow> string \<Rightarrow> string" where
  "sanitize letter v =
     concat (List.map (\<lambda>(r, b). if allowed_rune letter r then b else ''_'') (runes (drop_chars (List.map hypen_char v))))"

subsection \<open>Names\<close>

fun formatValue :: "gval \<Rightarrow> string" where
  "formatValue (GString v) = []"
| "formatValue (GBool v) = (if v then ''1'' else ''0'')"
| "formatValue (GUint64 v) = itoa (uint v)"
| "formatValue (GInt64 v) = itoa (sint v)"
| "formatValue (GFloat64 v) = (if is_nan v \<or> is_inf v then [] else format_float v)"
| "formatValue _ = []"

definition buildTags :: "strmap \<Rightarrow> string" where
  "buildTags tags =
     join ''.'' (List.map (\<lambda>k. replace_all (case map_of tags k of Some v \<Rightarrow> v | None \<Rightarrow> []) ''.'' ''_'') (sort (keys_of tags)))"

fun template_part :: "string \<Rightarrow> string \<Rightarrow> string list \<times> strmap \<Rightarrow> string list \<times> strmap" where
  "template_part measurement part (out, tags) =
     (if part = ''measurement'' then (out @ [measurement], tags)
      else if part = ''tags'' then (out @ [''TAGS''], tags)
      else if part = ''field'' then (out @ [''FIELDNAME''], tags)
      else case map_of tags part of
        Some v \<Rightarrow> (out @ [replace_all v ''.'' ''_''], AList.delete part tags)
      | None \<Rightarrow> (out, tags))"

fun insert_tags :: "string \<Rightarrow> string list \<Rightarrow> string list" where
  "insert_tags tags [] = []"
| "insert_tags tags (p # ps) = (if p = ''TAGS'' then tags # ps else p # insert_tags tags ps)"

definition DEFAULT_TEMPLATE :: string where
  "DEFAULT_TEMPLATE = ''host.tags.measurement.field''"

definition SerializeBucketName :: "string \<Rightarrow> strmap \<Rightarrow> string \<Rightarrow> string \<Rightarrow> string" where
  "SerializeBucketName measurement tags template0 prefx =
     (let template = (if template0 = [] then DEFAULT_TEMPLATE else template0);
          (out0, tagsCopy) = fold (template_part measurement) (split template ''.'') ([], tags);
          out = insert_tags (buildTags tagsCopy) out0
      in if length out = 0 then []
         else if prefx = [] then join ''.'' out
         else prefx @ ''.'' @ join ''.'' out)"

definition SerializeBucketNameWithTags :: "(int \<Rightarrow> bool) \<Rightarrow> string \<Rightarrow> strmap \<Rightarrow> string \<Rightarrow> string \<Rightarrow> string" where
  "SerializeBucketNameWithTags letter measurement tags prefx fld =
     (let tagsCopy = sort (List.map (\<lambda>(k, v). sanitize letter ((if k = ''name'' then ''_name'' else k) @ ''='' @ v)) tags);
          out = sanitize letter ((if prefx \<noteq> [] then prefx @ ''.'' else []) @ measurement @ (if fld \<noteq> ''value'' then ''.'' @ fld else []))
      in out @ (if length tagsCopy > 0 then '';'' @ join '';'' tagsCopy else []))"

text \<open>\<open>fieldDeleter\<close>: both texts, wherever they begin first.\<close>

function delete_field :: "string \<Rightarrow> string" where
  "delete_field s =
     (if s = [] then []
      else if has_prefix s ''.FIELDNAME'' then delete_field (drop 10 s)
      else if has_prefix s ''FIELDNAME.'' then delete_field (drop 10 s)
      else hd s # delete_field (tl s))"
  by pat_completeness auto
termination by (relation "measure length") auto

declare delete_field.simps [simp del]

definition InsertField :: "string \<Rightarrow> string \<Rightarrow> string" where
  "InsertField bucket fieldName =
     (if fieldName = ''value'' then delete_field bucket else join fieldName (split2 bucket ''FIELDNAME''))"

subsection \<open>Serializing\<close>

record graphite_serializer =
  gs_Prefix :: string
  gs_Template :: string
  gs_TagSupport :: bool

definition graphite_line :: "string \<Rightarrow> string \<Rightarrow> int \<Rightarrow> string" where
  "graphite_line bucket value timestamp = bucket @ '' '' @ value @ '' '' @ itoa timestamp @ [CHR 0x0A]"

definition graphite_timestamp :: "metric \<Rightarrow> int" where
  "graphite_timestamp m = sint (word_of_int (m_tm m) :: i64) sdiv 1000000000"

definition Graphite_Serialize :: "(int \<Rightarrow> bool) \<Rightarrow> graphite_serializer \<Rightarrow> metric \<Rightarrow> string" where
  "Graphite_Serialize letter s m =
     (let timestamp = graphite_timestamp m
      in if gs_TagSupport s then
           concat (List.map (\<lambda>(fieldName, value).
             if formatValue value = [] then []
             else graphite_line (SerializeBucketNameWithTags letter (m_name m) (Tags m) (gs_Prefix s) fieldName)
                    (formatValue value) timestamp) (Fields m))
         else
           let bucket = SerializeBucketName (m_name m) (Tags m) (gs_Template s) (gs_Prefix s)
           in if bucket = [] then []
              else concat (List.map (\<lambda>(fieldName, value).
                if formatValue value = [] then []
                else graphite_line (sanitize letter (InsertField bucket fieldName)) (formatValue value) timestamp) (Fields m)))"

definition Graphite_SerializeBatch :: "(int \<Rightarrow> bool) \<Rightarrow> graphite_serializer \<Rightarrow> metric list \<Rightarrow> string" where
  "Graphite_SerializeBatch letter s ms = concat (List.map (Graphite_Serialize letter s) ms)"

subsection \<open>The output is one word\<close>

definition sanitized :: "(int \<Rightarrow> bool) \<Rightarrow> int \<times> string \<Rightarrow> int \<times> string" where
  "sanitized letter rb = (if allowed_rune letter (fst rb) then rb else (95, ''_''))"

lemma runes_sanitized:
  assumes "\<not> letter 65533"
  shows "runes (concat (List.map (\<lambda>(r, b). if allowed_rune letter r then b else ''_'') (runes v)) @ t)
    = List.map (sanitized letter) (runes v) @ runes t"
proof (induction v rule: runes.induct)
  case (2 c cs)
  obtain r w where d: "decode_rune (c # cs) = (r, w)" by (metis prod.exhaust)
  define b where "b = c # take (w - 1) cs"
  have rs: "runes (c # cs) = (r, b) # runes (drop (w - 1) cs)" by (simp add: d b_def del: decode_rune.simps)
  define u where "u = concat (List.map (\<lambda>(r, b). if allowed_rune letter r then b else ''_'') (runes (drop (w - 1) cs))) @ t"
  have ih: "runes u = List.map (sanitized letter) (runes (drop (w - 1) cs)) @ runes t"
    unfolding u_def using "2.IH" [OF d [symmetric]] by simp
  show ?case
  proof (cases "allowed_rune letter r")
    case True
    then have r: "r \<noteq> 65533" using assms by (auto simp: allowed_rune_def)
    note dr = decode_rune_again [OF d disjI1 [OF r], of u]
    have "runes (b @ u) = (r, b) # runes u"
      using dr by (simp add: b_def del: decode_rune.simps)
    moreover have "concat (List.map (\<lambda>(r, b). if allowed_rune letter r then b else ''_'') (runes (c # cs))) @ t = b @ u"
      using True by (simp only: rs u_def list.map concat.simps prod.case if_True append_assoc)
    moreover have "sanitized letter (r, b) = (r, b)" using True by (simp add: sanitized_def)
    ultimately show ?thesis using ih by (simp only: rs list.map append_Cons)
  next
    case False
    have "runes (''_'' @ u) = (95, ''_'') # runes u"
      using runes_ascii [of "CHR ''_''" u] by (simp del: runes.simps)
    moreover have "concat (List.map (\<lambda>(r, b). if allowed_rune letter r then b else ''_'') (runes (c # cs))) @ t = ''_'' @ u"
      using False by (simp only: rs u_def list.map concat.simps prod.case if_False append_assoc)
    moreover have "sanitized letter (r, b) = (95, ''_'')" using False by (simp add: sanitized_def)
    ultimately show ?thesis using ih by (simp only: rs list.map append_Cons)
  qed
qed simp

definition word_runes :: "(int \<Rightarrow> bool) \<Rightarrow> string \<Rightarrow> (int \<times> string) list" where
  "word_runes letter v = List.map (sanitized letter) (runes (drop_chars (List.map hypen_char v)))"

lemma runes_sanitize: "\<not> letter 65533 \<Longrightarrow> runes (sanitize letter v @ t) = word_runes letter v @ runes t"
  unfolding sanitize_def word_runes_def by (rule runes_sanitized)


lemma bytes_word_runes: "\<not> letter 65533 \<Longrightarrow> bytes_of_runes (word_runes letter v) = sanitize letter v"
  using arg_cong [OF runes_sanitize [of letter v "[]"], of bytes_of_runes] by simp
















subsection \<open>Numbers and times\<close>







subsection \<open>Serializing and parsing\<close>





















text \<open>Sanitizing is not idempotent: of three dots it leaves two, of those one.\<close>

lemma sanitize_dots: "sanitize (\<lambda>_. False) ''a...b'' = ''a..b''" "sanitize (\<lambda>_. False) ''a..b'' = ''a.b''"
  by code_simp+

text \<open>A metric whose name is the placeholder of the tags gets the tags in its place.\<close>

lemma placeholder_name: "SerializeBucketName ''TAGS'' [(''dc'', ''eu'')] ''measurement.tags'' [] = ''eu.TAGS''"
  by code_simp

end
