(* ===== verification/HistogramAggregator.thy ===== *)
theory HistogramAggregator
  imports Aggregators
begin

section \<open>The histogram aggregator\<close>

text \<open>
  \<open>plugins/aggregators/histogram/histogram.go\<close>. Every configured field of a series has one counter
  per bucket and one for everything above; a push sends cumulative counters, one metric per bucket
  border with the border as tag \<open>le\<close>. The counters are kept across periods (\<open>Reset\<close> does
  nothing). Sorting the borders sorts the slice in place, which all fields of one configuration
  share; since sorting a sorted slice changes nothing, the model sorts a copy.
\<close>

subsection \<open>Configuration\<close>

record hist_config =
  hc_Metric :: string
  hc_Fields :: "string list"
  hc_Buckets :: "f64 list"

type_synonym hist_series = "(string, i64 list) gomap"

record hist_state =
  hs_Configs :: "hist_config list"
  hs_buckets :: "(string, (string, f64 list) gomap) gomap"
  hs_cache :: "i64 list cache"

fun out_of_order :: "f64 list \<Rightarrow> bool" where
  "out_of_order (x # y # ys) = (f_le y x \<or> out_of_order (y # ys))"
| "out_of_order _ = False"

definition sortBuckets :: "f64 list \<Rightarrow> f64 list" where
  "sortBuckets xs = (if out_of_order xs then sort_floats xs else xs)"

definition isBucketExists :: "string \<Rightarrow> hist_config \<Rightarrow> bool" where
  "isBucketExists field cfg = (if length (hc_Fields cfg) = 0 then True else list_ex (\<lambda>fl. fl = field) (hc_Fields cfg))"

definition buckets_lookup :: "hist_state \<Rightarrow> string \<Rightarrow> string \<Rightarrow> f64 list option" where
  "buckets_lookup st metric field = Option.bind (map_of (hs_buckets st) metric) (\<lambda>bf. map_of bf field)"

definition buckets_store :: "string \<Rightarrow> string \<Rightarrow> f64 list \<Rightarrow> hist_state \<Rightarrow> hist_state" where
  "buckets_store metric field bs st = st\<lparr>hs_buckets :=
     AList.update metric (AList.update field bs (case map_of (hs_buckets st) metric of None \<Rightarrow> [] | Some bf \<Rightarrow> bf)) (hs_buckets st)\<rparr>"

text \<open>
  \<open>getBuckets\<close> remembers what it finds; the last matching configuration wins. Nothing found is
  \<open>None\<close> (a nil slice; so is an empty list of borders, which Go reads from the configuration as
  a slice that is not nil).
\<close>

definition getBuckets :: "string \<Rightarrow> string \<Rightarrow> hist_state \<Rightarrow> hist_state \<times> f64 list option" where
  "getBuckets metric field st =
     (case buckets_lookup st metric field of
        Some bs \<Rightarrow> (st, Some bs)
      | None \<Rightarrow>
          (let st' = fold (\<lambda>cfg st. if hc_Metric cfg = metric \<and> isBucketExists field cfg
                 then buckets_store metric field (sortBuckets (hc_Buckets cfg)) st else st) (hs_Configs st) st
           in (st', buckets_lookup st' metric field)))"

subsection \<open>Adding\<close>

text \<open>\<open>sort.SearchFloat64s\<close>: binary search for the first border that is not below the value.\<close>

definition SearchFloat64s :: "f64 list \<Rightarrow> f64 \<Rightarrow> nat" where
  "SearchFloat64s a x = search_between (\<lambda>i. f_le x (a ! i)) 0 (length a)"

fun hist_convert :: "gval \<Rightarrow> f64 option" where
  "hist_convert (GFloat64 v) = Some v"
| "hist_convert (GInt64 v) = Some (f64_of_int (sint v))"
| "hist_convert _ = None"

definition hist_bump :: "f64 list \<Rightarrow> gval \<Rightarrow> i64 list option \<Rightarrow> i64 list" where
  "hist_bump bs value old =
     (let counts = (case old of None \<Rightarrow> replicate (length bs + 1) 0 | Some c \<Rightarrow> c)
      in case hist_convert value of
           Some v \<Rightarrow> (let i = SearchFloat64s bs v in counts[i := counts ! i + 1])
         | None \<Rightarrow> counts)"

fun collect_buckets :: "string \<Rightarrow> string list \<Rightarrow> hist_state \<Rightarrow> hist_state \<times> (string, f64 list) gomap" where
  "collect_buckets n [] st = (st, [])"
| "collect_buckets n (k # ks) st =
     (case getBuckets n k st of (st1, ob) \<Rightarrow>
        (case collect_buckets n ks st1 of (st2, bbf) \<Rightarrow>
           (st2, case ob of None \<Rightarrow> bbf | Some bs \<Rightarrow> AList.update k bs bbf)))"

definition Histogram_Add :: "metric \<Rightarrow> hist_state \<Rightarrow> hist_state" where
  "Histogram_Add m st =
     (case collect_buckets (m_name m) (keys_of (Fields m)) st of (st1, bucketsByField) \<Rightarrow>
        if bucketsByField = [] then st1
        else
          let id = HashID m;
              agr = (case map_of (hs_cache st1) id of None \<Rightarrow> \<lparr>s_name = m_name m, s_tags = Tags m, s_fields = []\<rparr> | Some a \<Rightarrow> a);
              flds = fold (\<lambda>(k, v) flds. case map_of bucketsByField k of
                        Some bs \<Rightarrow> AList.update k (hist_bump bs v (map_of flds k)) flds
                      | None \<Rightarrow> flds) (Fields m) (s_fields agr)
          in st1\<lparr>hs_cache := AList.update id (agr\<lparr>s_fields := flds\<rparr>) (hs_cache st1)\<rparr>)"

definition Histogram_Reset :: "hist_state \<Rightarrow> hist_state" where
  "Histogram_Reset st = st"

definition resetCache :: "hist_state \<Rightarrow> hist_state" where
  "resetCache st = st\<lparr>hs_cache := []\<rparr>"

definition NewHistogramAggregator :: "hist_config list \<Rightarrow> hist_state" where
  "NewHistogramAggregator cfgs = resetCache \<lparr>hs_Configs = cfgs, hs_buckets = [], hs_cache = []\<rparr>"

subsection \<open>Pushing\<close>

record hist_group =
  hg_name :: string
  hg_tags :: strmap
  hg_fields :: "(string, i64) gomap"

definition isTagsIdentical :: "strmap \<Rightarrow> strmap \<Rightarrow> bool" where
  "isTagsIdentical original checked =
     (length original = length checked
      \<and> list_all (\<lambda>(k, v). v = (case map_of checked k of None \<Rightarrow> [] | Some w \<Rightarrow> w)) original)"

fun groupField :: "string \<Rightarrow> string \<Rightarrow> i64 \<Rightarrow> strmap \<Rightarrow> hist_group list \<Rightarrow> hist_group list" where
  "groupField n field cnt tags [] = [\<lparr>hg_name = n, hg_tags = tags, hg_fields = [(field, cnt)]\<rparr>]"
| "groupField n field cnt tags (g # gs) =
     (if n = hg_name g \<and> isTagsIdentical tags (hg_tags g)
      then g\<lparr>hg_fields := AList.update field cnt (hg_fields g)\<rparr> # gs
      else g # groupField n field cnt tags gs)"

text \<open>The cumulative counters of one field with their borders as text, the last one for \<open>+Inf\<close>.\<close>

fun cumulate :: "i64 \<Rightarrow> f64 list \<Rightarrow> i64 list \<Rightarrow> (string \<times> i64) list" where
  "cumulate cnt (b # bs) (c # cs) = (format_float b, cnt + c) # cumulate (cnt + c) bs cs"
| "cumulate cnt [] cs = [(''+Inf'', cnt + last cs)]"
| "cumulate cnt (b # bs) [] = []"

definition groupFieldsByBuckets ::
  "string \<Rightarrow> string \<Rightarrow> strmap \<Rightarrow> f64 list \<Rightarrow> i64 list \<Rightarrow> hist_group list \<Rightarrow> hist_group list" where
  "groupFieldsByBuckets n field tags bs counts gs =
     fold (\<lambda>(le, cnt) gs. groupField n field cnt (AList.update ''le'' le tags) gs) (cumulate 0 bs counts) gs"

definition makeFieldsWithCount :: "(string, i64) gomap \<Rightarrow> (string, gval) gomap" where
  "makeFieldsWithCount flds = fold (\<lambda>(k, c) out. AList.update (k @ ''_bucket'') (GInt64 c) out) flds []"

fun group_fields :: "string \<Rightarrow> strmap \<Rightarrow> (string \<times> i64 list) list \<Rightarrow> hist_state \<times> hist_group list \<Rightarrow> hist_state \<times> hist_group list" where
  "group_fields n tags [] sg = sg"
| "group_fields n tags ((field, counts) # fcs) (st, gs) =
     (case getBuckets n field st of (st1, ob) \<Rightarrow>
        group_fields n tags fcs
          (st1, groupFieldsByBuckets n field tags (case ob of None \<Rightarrow> [] | Some bs \<Rightarrow> bs) counts gs))"

definition Histogram_Push :: "int \<Rightarrow> hist_state \<Rightarrow> hist_state \<times> acc_call list" where
  "Histogram_Push now st =
     (case fold (\<lambda>(_, a) sg. group_fields (s_name a) (s_tags a) (s_fields a) sg) (hs_cache st) (st, []) of (st', gs) \<Rightarrow>
        (st', List.map (\<lambda>g. add_fields_call now (hg_name g) (makeFieldsWithCount (hg_fields g)) (hg_tags g)) gs))"

definition Histogram :: "hist_state aggregator_plugin" where
  "Histogram = \<lparr>ap_Add = Histogram_Add, ap_Push = (\<lambda>now st. snd (Histogram_Push now st)), ap_Reset = Histogram_Reset\<rparr>"

subsection \<open>Sorted borders and the search\<close>





subsection \<open>Cumulative counts\<close>

definition tally :: "nat \<Rightarrow> nat list \<Rightarrow> i64 list" where
  "tally n js = List.map (\<lambda>j. of_nat (count_list js j)) [0..<n]"



lemma length_tally [simp]: "length (tally n js) = n"
  by (simp add: tally_def)








end
