(* ===== verification/MetricAlias.thy ===== *)
theory MetricAlias
  imports Metric
begin

section \<open>Copies of a metric share their tags\<close>

text \<open>
  \<open>metric/metric.go\<close> with its pointers: a metric holds addresses of \<open>Tag\<close> structs in a heap, \<open>Copy\<close>
  copies the addresses, and \<open>AddTag\<close> writes the value of an existing tag through its address.
  Field structs are never written after they are made, so they are values here. The heap is the
  list of the tags allocated so far; an address is an index. The theory \<open>Metric\<close> is the abstract
  view of one metric.
\<close>

record pmetric =
  pm_name :: string
  pm_tags :: "nat list"
  pm_fields :: "field list"
  pm_tm :: int
  pm_tp :: value_type
  pm_aggregate :: bool

type_synonym heap = "tag list"

fun p_add_tag :: "string \<Rightarrow> string \<Rightarrow> heap \<Rightarrow> nat list \<Rightarrow> heap \<times> nat list" where
  "p_add_tag key value h [] = (h @ [\<lparr>tag_key = key, tag_value = value\<rparr>], [length h])"
| "p_add_tag key value h (a # as) =
     (if key > tag_key (h ! a) then (case p_add_tag key value h as of (h', as') \<Rightarrow> (h', a # as'))
      else if key = tag_key (h ! a) then (h[a := (h ! a)\<lparr>tag_value := value\<rparr>], a # as)
      else (h @ [\<lparr>tag_key = key, tag_value = value\<rparr>], length h # a # as))"

definition p_AddTag :: "string \<Rightarrow> string \<Rightarrow> heap \<times> pmetric \<Rightarrow> heap \<times> pmetric" where
  "p_AddTag key value hm =
     (case p_add_tag key value (fst hm) (pm_tags (snd hm)) of (h', as) \<Rightarrow> (h', (snd hm)\<lparr>pm_tags := as\<rparr>))"

fun p_remove_tag :: "string \<Rightarrow> heap \<Rightarrow> nat list \<Rightarrow> nat list" where
  "p_remove_tag key h [] = []"
| "p_remove_tag key h (a # as) = (if tag_key (h ! a) = key then as else a # p_remove_tag key h as)"

definition p_RemoveTag :: "string \<Rightarrow> heap \<Rightarrow> pmetric \<Rightarrow> pmetric" where
  "p_RemoveTag key h m = m\<lparr>pm_tags := p_remove_tag key h (pm_tags m)\<rparr>"

definition Copy :: "pmetric \<Rightarrow> pmetric" where
  "Copy m = \<lparr>pm_name = pm_name m, pm_tags = pm_tags m, pm_fields = pm_fields m, pm_tm = pm_tm m,
     pm_tp = pm_tp m, pm_aggregate = pm_aggregate m\<rparr>"

subsection \<open>The view of a metric\<close>

definition deref :: "heap \<Rightarrow> nat list \<Rightarrow> tag list" where
  "deref h as = List.map (\<lambda>a. h ! a) as"

definition view :: "heap \<Rightarrow> pmetric \<Rightarrow> metric" where
  "view h m = \<lparr>m_name = pm_name m, m_tags = deref h (pm_tags m), m_fields = pm_fields m, m_tm = pm_tm m,
     m_tp = pm_tp m, m_aggregate = pm_aggregate m\<rparr>"

definition addrs_ok :: "heap \<Rightarrow> nat list \<Rightarrow> bool" where
  "addrs_ok h as \<longleftrightarrow> distinct as \<and> (\<forall>a \<in> set as. a < length h)"

lemma deref_simps [simp]:
  "deref h [] = []" "deref h (a # as) = h ! a # deref h as"
  by (simp_all add: deref_def)

lemma deref_append: "\<forall>a \<in> set as. a < length h \<Longrightarrow> deref (h @ ts) as = deref h as"
  by (simp add: deref_def nth_append)

lemma deref_update: "a \<notin> set as \<Longrightarrow> deref (h[a := t]) as = deref h as"
  by (induction as) auto

lemma p_add_tag_heap:
  "p_add_tag k v h as = (h', as') \<Longrightarrow> length h \<le> length h' \<and> (\<forall>a < length h. a \<notin> set as \<longrightarrow> h' ! a = h ! a)"
  by (induction as arbitrary: as') (auto simp: nth_append split: if_splits prod.splits)

text \<open>On one metric the pointers implement the list operations.\<close>

lemma p_add_tag_refines:
  "addrs_ok h as \<Longrightarrow> p_add_tag k v h as = (h', as') \<Longrightarrow>
     deref h' as' = add_tag k v (deref h as) \<and> addrs_ok h' as'"
proof (induction as arbitrary: as')
  case Nil
  then show ?case by (auto simp: addrs_ok_def)
next
  case (Cons a as)
  then have ok: "addrs_ok h as" "a < length h" "a \<notin> set as" by (auto simp: addrs_ok_def)
  show ?case
  proof (cases "k > tag_key (h ! a)")
    case True
    then obtain as1 where r: "p_add_tag k v h as = (h', as1)" "as' = a # as1"
      using Cons.prems(2) by (auto split: prod.splits)
    have "set as1 \<subseteq> insert (length h) (set as)"
      using r(1) by (induction as arbitrary: as1) (auto split: if_splits prod.splits)
    moreover have "h' ! a = h ! a" "length h \<le> length h'" using p_add_tag_heap [OF r(1)] ok by auto
    ultimately show ?thesis using Cons.IH [OF ok(1) r(1)] True r(2) ok by (auto simp: addrs_ok_def)
  next
    case False
    with Cons.prems show ?thesis
      by (auto simp: addrs_ok_def deref_update deref_append nth_append less_Suc_eq split: if_splits)
  qed
qed

text \<open>
  The addresses a metric had before: they still show the old tags when the key was new, and the
  changed tag when the key was there.
\<close>

lemma p_add_tag_old_addrs:
  "addrs_ok h as \<Longrightarrow> tags_ok (deref h as) \<Longrightarrow> p_add_tag k v h as = (h', as') \<Longrightarrow>
     deref h' as = (if has_tag (deref h as) k then add_tag k v (deref h as) else deref h as)"
proof (induction as arbitrary: as')
  case (Cons a as)
  then have ok: "addrs_ok h as" "a < length h" "a \<notin> set as" "tags_ok (deref h as)"
    by (auto simp: addrs_ok_def tags_ok_def)
  have later: "\<not> has_tag (deref h as) k" if "\<not> k > tag_key (h ! a)"
  proof
    assume "has_tag (deref h as) k"
    then have "k \<in> set (List.map tag_key (deref h as))" by (induction "deref h as" arbitrary: as) (auto simp: deref_def)
    with Cons.prems(2) have "tag_key (h ! a) < k" by (auto simp: tags_ok_def)
    with that show False by simp
  qed
  show ?case
  proof (cases "k > tag_key (h ! a)")
    case True
    then obtain as1 where r: "p_add_tag k v h as = (h', as1)" using Cons.prems(3) by (auto split: prod.splits)
    have "h' ! a = h ! a" using p_add_tag_heap [OF r] ok by auto
    with Cons.IH [OF ok(1,4) r] True show ?thesis by auto
  next
    case False
    with Cons.prems later ok show ?thesis
      by (auto simp: addrs_ok_def deref_update deref_append nth_append split: if_splits)
  qed
qed simp

text \<open>
  C10. A copy is not independent of its original: adding a tag to the copy gives the copy that tag,
  and when the original already has a tag of that key, the original gets the new value too. Only
  with a new key does the original stay as it was.
\<close>

theorem Copy_shares_tags:
  assumes "addrs_ok h (pm_tags m)" "metric_ok (view h m)"
  shows "let (h', c) = p_AddTag k v (h, Copy m)
    in view h' c = AddTag k v (view h m)
       \<and> view h' m = (if HasTag (view h m) k then AddTag k v (view h m) else view h m)"
proof -
  obtain h' as' where r: "p_add_tag k v h (pm_tags m) = (h', as')" by force
  have ok: "tags_ok (deref h (pm_tags m))" using assms(2) by (simp add: metric_ok_def view_def)
  show ?thesis
    using p_add_tag_refines [OF assms(1) r] p_add_tag_old_addrs [OF assms(1) ok r] r
    by (simp add: p_AddTag_def Copy_def view_def AddTag_def HasTag_def)
qed

definition demo_heap :: heap where
  "demo_heap = [\<lparr>tag_key = ''host'', tag_value = ''a''\<rparr>]"

definition demo_pmetric :: pmetric where
  "demo_pmetric = \<lparr>pm_name = ''cpu'', pm_tags = [0], pm_fields = [], pm_tm = 0, pm_tp = Untyped, pm_aggregate = False\<rparr>"

theorem Copy_shares_tags_witness:
  "GetTag (view demo_heap demo_pmetric) ''host'' = Some ''a''
   \<and> GetTag (view (fst (p_AddTag ''host'' ''b'' (demo_heap, Copy demo_pmetric))) demo_pmetric) ''host'' = Some ''b''"
proof -
  have "addrs_ok demo_heap (pm_tags demo_pmetric)" "metric_ok (view demo_heap demo_pmetric)"
    by (simp_all add: addrs_ok_def demo_heap_def demo_pmetric_def metric_ok_def view_def tags_ok_def fields_ok_def)
  from Copy_shares_tags [OF this, of "''host''" "''b''"]
  have "view (fst (p_AddTag ''host'' ''b'' (demo_heap, Copy demo_pmetric))) demo_pmetric
      = AddTag ''host'' ''b'' (view demo_heap demo_pmetric)"
    by (auto simp: Let_def HasTag_def view_def demo_heap_def demo_pmetric_def split: prod.splits)
  then show ?thesis
    by (simp add: GetTag_def AddTag_def view_def demo_heap_def demo_pmetric_def)
qed

text \<open>Removing a tag from the copy leaves the heap, and so the original, alone.\<close>

lemma p_RemoveTag_refines:
  "view h (p_RemoveTag k h (Copy m)) = RemoveTag k (view h m)"
proof -
  have "deref h (p_remove_tag k h as) = remove_tag k (deref h as)" for as
    by (induction as) auto
  then show ?thesis by (simp add: p_RemoveTag_def Copy_def view_def RemoveTag_def)
qed

end
