(* ===== verification/NagiosParser.thy ===== *)
theory NagiosParser
  imports GoText
begin

section \<open>The Nagios parser\<close>

text \<open>
  \<open>plugins/parsers/nagios/parser.go\<close>: the performance data of a check. Both of its regular expressions are greedy runs of
  disjoint or optional classes, which match without going back, so they are written as such runs; the clock is a parameter.
\<close>

subsection \<open>The regular expressions\<close>

text \<open>\<open>perfSplitRegExp\<close>: characters other than an equals sign, the sign, and all that is no white space after it.\<close>

definition equals_sign :: char where "equals_sign = CHR ''=''"

definition no_equals :: "char \<Rightarrow> bool" where
  "no_equals c \<longleftrightarrow> c \<noteq> equals_sign"

definition regex_space :: "char \<Rightarrow> bool" where
  "regex_space c \<longleftrightarrow> c \<in> set [CHR 0x09, CHR 0x0A, CHR 0x0C, CHR 0x0D, CHR '' '']"

definition not_space :: "char \<Rightarrow> bool" where
  "not_space c \<longleftrightarrow> \<not> regex_space c"

function perf_split :: "string \<Rightarrow> string list" where
  "perf_split s =
     (let a = takeWhile no_equals s; r = dropWhile no_equals s
      in if r = [] then []
         else let v = takeWhile not_space (tl r)
              in if a = [] \<or> v = [] then perf_split (tl r)
                 else (a @ equals_sign # v) # perf_split (dropWhile not_space (tl r)))"
  by pat_completeness auto
termination
proof (relation "measure length", goal_cases)
  case (2 s a r v)
  then have "length (tl r) < length r" by (cases r) simp_all
  also have "\<dots> \<le> length s" unfolding 2(2) by (rule length_dropWhile_le)
  finally show ?case by simp
next
  case (3 s a r v)
  have "length (dropWhile not_space (tl r)) \<le> length (tl r)" by (rule length_dropWhile_le)
  also have "\<dots> < length r" using 3 by (cases r) simp_all
  also have "\<dots> \<le> length s" unfolding 3(2) by (rule length_dropWhile_le)
  finally show ?case by simp
qed simp

declare perf_split.simps [simp del]

text \<open>The character classes of \<open>nagiosRegExp\<close>.\<close>

definition number_char :: "char \<Rightarrow> bool" where
  "number_char c \<longleftrightarrow> is_digit c \<or> c \<in> set ''.-+eE''"

definition unit_char :: "char \<Rightarrow> bool" where
  "unit_char c \<longleftrightarrow> is_digit c \<or> (65 \<le> byte_of c \<and> byte_of c \<le> 90) \<or> (97 \<le> byte_of c \<and> byte_of c \<le> 122) \<or> c \<in> set ''_/%''"

definition threshold_char :: "char \<Rightarrow> bool" where
  "threshold_char c \<longleftrightarrow> number_char c \<or> c \<in> set '':~@''"

definition drop_semicolon :: "string \<Rightarrow> string" where
  "drop_semicolon s = (if s \<noteq> [] \<and> hd s = CHR '';'' then tl s else s)"

text \<open>The groups that are optional, each after a semicolon that is optional too.\<close>

fun optional_groups :: "(char \<Rightarrow> bool) list \<Rightarrow> string \<Rightarrow> string list" where
  "optional_groups [] s = []"
| "optional_groups (p # ps) s =
     (let t = drop_semicolon s in takeWhile p t # optional_groups ps (dropWhile p t))"

definition nagios_match :: "string \<Rightarrow> string list option" where
  "nagios_match s =
     (let a = takeWhile no_equals s; r = dropWhile no_equals s
      in if a = [] \<or> r = [] then None
         else let v = takeWhile number_char (tl r); r1 = dropWhile number_char (tl r)
              in if v = [] then None
                 else Some (a # v # takeWhile unit_char r1
                   # optional_groups [threshold_char, threshold_char, number_char, number_char] (dropWhile unit_char r1)))"

subsection \<open>Thresholds\<close>

definition MinFloat64 :: f64 where "MinFloat64 = mk_f64 False 1"
definition MaxFloat64 :: f64 where "MaxFloat64 = mk_f64 False (2047 * 2 ^ 52 - 1)"

definition lower_bound :: "string \<Rightarrow> f64 \<times> bool" where
  "lower_bound a =
     (if a = ''~'' then (MinFloat64, True)
      else case parse_float a of Some x \<Rightarrow> (x, True) | None \<Rightarrow> (f_zero, False))"

definition parseThreshold :: "string \<Rightarrow> (f64 \<times> f64) option" where
  "parseThreshold s =
     (case split s '':'' of
        [a] \<Rightarrow> map_option (\<lambda>x. (f_zero, x)) (parse_float a)
      | [a, b] \<Rightarrow>
          (if b = [] then if snd (lower_bound a) then Some (fst (lower_bound a), MaxFloat64) else None
           else map_option (\<lambda>x. (fst (lower_bound a), x)) (parse_float b))
      | _ \<Rightarrow> None)"

definition threshold_fields :: "string \<Rightarrow> string \<Rightarrow> (string, gval) gomap" where
  "threshold_fields name s =
     (if s = [] then []
      else case parseThreshold s of
        None \<Rightarrow> []
      | Some (low, high) \<Rightarrow>
          if contains s ''@'' then [(name @ ''_le'', GFloat64 low), (name @ ''_ge'', GFloat64 high)]
          else [(name @ ''_lt'', GFloat64 low), (name @ ''_gt'', GFloat64 high)])"

definition number_field :: "string \<Rightarrow> string \<Rightarrow> (string, gval) gomap" where
  "number_field name s = (case parse_float s of Some x \<Rightarrow> [(name, GFloat64 x)] | None \<Rightarrow> [])"

subsection \<open>Performance data\<close>

definition perf_tags :: "string \<Rightarrow> string \<Rightarrow> strmap" where
  "perf_tags name unit = (''perfdata'', name) # (if unit = [] then [] else [(''unit'', unit)])"

definition perf_fields :: "string list \<Rightarrow> (string, gval) gomap" where
  "perf_fields perf =
     number_field ''value'' (perf ! 2) @ threshold_fields ''warning'' (perf ! 4) @ threshold_fields ''critical'' (perf ! 5)
     @ (if perf ! 6 = [] then [] else number_field ''min'' (perf ! 6)) @ (if perf ! 7 = [] then [] else number_field ''max'' (perf ! 7))"

text \<open>The element 0 of \<open>perf\<close>, the whole match, is not used.\<close>

definition perf_metric :: "int \<Rightarrow> string list \<Rightarrow> metric result" where
  "perf_metric now perf =
     (if perf ! 2 = ''U'' then Inl (Err ''Value undetermined'')
      else Inr (New ''nagios'' (perf_tags (trim_func (in_cutset [CHR 0x27]) (perf ! 1)) (perf ! 3)) (perf_fields perf) now None))"

fun perf_metrics :: "int \<Rightarrow> string list \<Rightarrow> metric list result" where
  "perf_metrics now [] = Inr []"
| "perf_metrics now (u # us) =
     (case nagios_match (trim_space u) of
        None \<Rightarrow> perf_metrics now us
      | Some groups \<Rightarrow>
          res_bind (perf_metric now (trim_space u # groups)) (\<lambda>m. res_bind (perf_metrics now us) (\<lambda>ms. Inr (m # ms))))"

definition parsePerfData :: "int \<Rightarrow> string \<Rightarrow> metric list result" where
  "parsePerfData now s = perf_metrics now (perf_split s)"

definition nagios_line :: "int \<Rightarrow> string \<Rightarrow> metric list" where
  "nagios_line now line =
     (case split line ''|'' of
        [a, b] \<Rightarrow> (case parsePerfData now b of Inl e \<Rightarrow> [] | Inr ms \<Rightarrow> ms)
      | _ \<Rightarrow> [])"

definition nagios_Parse :: "int \<Rightarrow> string \<Rightarrow> metric list" where
  "nagios_Parse now buf = concat (List.map (nagios_line now) (split (trim_space buf) [CHR 0x0A]))"

definition nagios_ParseLine :: "int \<Rightarrow> string \<Rightarrow> metric result" where
  "nagios_ParseLine now line =
     (case nagios_Parse now line of [] \<Rightarrow> Inl (Panic ''index out of range'') | m # _ \<Rightarrow> Inr m)"

subsection \<open>Values and failures\<close>

definition nagios_fields :: "string \<Rightarrow> (string \<times> gval) list list" where
  "nagios_fields line = List.map (\<lambda>m. List.map (\<lambda>f. (field_key f, field_value f)) (m_fields m)) (nagios_Parse 0 line)"

text \<open>The lower bound of a range with an at sign is lost, and the bound of no lower limit is the least positive number.\<close>

lemma nagios_thresholds:
  "parseThreshold ''10:20'' = Some (f64_of_int 10, f64_of_int 20)"
  "parseThreshold ''@10:20'' = Some (f_zero, f64_of_int 20)"
  "parseThreshold ''@10'' = None" "parseThreshold ''@10:'' = None"
  "parseThreshold ''10:'' = Some (f64_of_int 10, MaxFloat64)"
  "parseThreshold ''~:10'' = Some (MinFloat64, f64_of_int 10)"
  by code_simp+

lemma nagios_no_limit: "f_lt f_zero MinFloat64"
  by code_simp

lemma takeWhile_not_U: "takeWhile number_char s \<noteq> ''U''"
proof
  assume U: "takeWhile number_char s = ''U''"
  have "\<forall>c \<in> set (takeWhile number_char s). number_char c" using set_takeWhileD by fastforce
  then show False by (simp add: U number_char_def is_digit_def)
qed

text \<open>
  The test for an undetermined value never succeeds, because the expression matches no such value: performance
  data always parses, and an undetermined value is left out without a report.
\<close>

lemma nagios_never_undetermined: "\<exists>ms. parsePerfData now s = Inr ms"
proof -
  have "nagios_match u = Some groups \<Longrightarrow> (x # groups) ! 2 \<noteq> ''U''" for u x groups
    using takeWhile_not_U by (auto simp: nagios_match_def Let_def split: if_splits)
  then have "\<exists>ms. perf_metrics now us = Inr ms" for us
    by (induction us) (auto simp: perf_metric_def split: option.split)
  then show ?thesis by (simp add: parsePerfData_def)
qed

lemma nagios_undetermined_skipped: "nagios_fields ''OK | a=U b=1'' = [[(''value'', GFloat64 (f64_of_int 1))]]"
  by code_simp

text \<open>A line without performance data makes \<open>ParseLine\<close> panic, and so does one with two bars.\<close>

lemma nagios_ParseLine_panics:
  "nagios_ParseLine 0 ''OK'' = Inl (Panic ''index out of range'')"
  "nagios_ParseLine 0 ''OK | a=1 | b=2'' = Inl (Panic ''index out of range'')"
  by code_simp+

lemma nagios_demo:
  "nagios_fields ''OK: 0.01, 0.05 | load=0MB;~:4;@2:6;;''
     = [[(''value'', GFloat64 f_zero), (''warning_lt'', GFloat64 MinFloat64), (''warning_gt'', GFloat64 (f64_of_int 4)),
         (''critical_le'', GFloat64 f_zero), (''critical_ge'', GFloat64 (f64_of_int 6))]]"
  by code_simp

end
