(* ===== verification/Processors.thy ===== *)
theory Processors
  imports Metric
begin

section \<open>Processor plugins: enum, override, rename, strings\<close>

text \<open>
  \<open>plugins/processors/enum\<close>, \<open>override\<close>, \<open>rename\<close> and \<open>strings\<close>. Each changes the metrics it is given
  in place and returns the same slice; the model returns the changed metrics. The Unicode case
  tables are the parameters \<open>lower\<close> and \<open>upper\<close>, used beyond ASCII only.
\<close>

subsection \<open>enum\<close>

record mapping =
  mp_Field :: string
  mp_Dest :: string
  mp_Default :: gval
  mp_ValueMappings :: "(string, gval) gomap"

fun adjustBoolValue :: "gval \<Rightarrow> gval" where
  "adjustBoolValue (GBool b) = GString (format_bool b)"
| "adjustBoolValue v = v"

definition mapValue :: "mapping \<Rightarrow> string \<Rightarrow> gval option" where
  "mapValue mp original =
     (case map_of (mp_ValueMappings mp) original of
        Some v \<Rightarrow> Some v
      | None \<Rightarrow> if mp_Default mp \<noteq> GNil then Some (mp_Default mp) else None)"

definition getDestination :: "mapping \<Rightarrow> string" where
  "getDestination mp = (if mp_Dest mp \<noteq> [] then mp_Dest mp else mp_Field mp)"

definition writeField :: "string \<Rightarrow> gval \<Rightarrow> metric \<Rightarrow> metric" where
  "writeField n v m = AddField n v (RemoveField n m)"

definition apply_mapping :: "mapping \<Rightarrow> metric \<Rightarrow> metric" where
  "apply_mapping mp m =
     (case GetField m (mp_Field mp) of
        None \<Rightarrow> m
      | Some v \<Rightarrow> (case adjustBoolValue v of
            GString s \<Rightarrow> (case mapValue mp s of
                Some mv \<Rightarrow> writeField (getDestination mp) mv m
              | None \<Rightarrow> m)
          | _ \<Rightarrow> m))"

definition applyMappings :: "mapping list \<Rightarrow> metric \<Rightarrow> metric" where
  "applyMappings mps m = fold apply_mapping mps m"

definition EnumMapper_Apply :: "mapping list \<Rightarrow> metric list \<Rightarrow> metric list" where
  "EnumMapper_Apply mps ms = List.map (applyMappings mps) ms"

subsection \<open>override\<close>

record override =
  ov_NameOverride :: string
  ov_NamePrefix :: string
  ov_NameSuffix :: string
  ov_Tags :: strmap

definition override_one :: "override \<Rightarrow> metric \<Rightarrow> metric" where
  "override_one p m =
     (let m1 = (if length (ov_NameOverride p) > 0 then SetName (ov_NameOverride p) m else m);
          m2 = (if length (ov_NamePrefix p) > 0 then AddPrefix (ov_NamePrefix p) m1 else m1);
          m3 = (if length (ov_NameSuffix p) > 0 then AddSuffix (ov_NameSuffix p) m2 else m2)
      in fold (\<lambda>(k, v). AddTag k v) (ov_Tags p) m3)"

definition Override_Apply :: "override \<Rightarrow> metric list \<Rightarrow> metric list" where
  "Override_Apply p ms = List.map (override_one p) ms"

subsection \<open>rename\<close>

record replace =
  re_Measurement :: string
  re_Tag :: string
  re_Field :: string
  re_Dest :: string

definition apply_replace :: "replace \<Rightarrow> metric \<Rightarrow> metric" where
  "apply_replace r m =
     (if re_Dest r = [] then m
      else if re_Measurement r \<noteq> [] then (if m_name m = re_Measurement r then SetName (re_Dest r) m else m)
      else if re_Tag r \<noteq> [] then
        (case GetTag m (re_Tag r) of Some v \<Rightarrow> AddTag (re_Dest r) v (RemoveTag (re_Tag r) m) | None \<Rightarrow> m)
      else if re_Field r \<noteq> [] then
        (case GetField m (re_Field r) of Some v \<Rightarrow> AddField (re_Dest r) v (RemoveField (re_Field r) m) | None \<Rightarrow> m)
      else m)"

definition Rename_Apply :: "replace list \<Rightarrow> metric list \<Rightarrow> metric list" where
  "Rename_Apply rs ms = List.map (fold apply_replace rs) ms"

subsection \<open>strings\<close>

text \<open>\<open>utf8.EncodeRune\<close>; surrogates and values beyond the range give the replacement rune.\<close>

definition encode_rune :: "int \<Rightarrow> string" where
  "encode_rune r0 =
     (let r = (if r0 < 0 \<or> r0 > 0x10FFFF \<or> (0xD800 \<le> r0 \<and> r0 \<le> 0xDFFF) then 0xFFFD else r0);
          ch = (\<lambda>i. char_of (nat i))
      in if r < 0x80 then [ch r]
         else if r < 0x800 then [ch (0xC0 + r div 64), ch (0x80 + r mod 64)]
         else if r < 0x10000 then [ch (0xE0 + r div 4096), ch (0x80 + r div 64 mod 64), ch (0x80 + r mod 64)]
         else [ch (0xF0 + r div 262144), ch (0x80 + r div 4096 mod 64), ch (0x80 + r div 64 mod 64), ch (0x80 + r mod 64)])"

text \<open>
  \<open>strings.Map\<close>: runes are copied, invalid bytes too, up to the first one that changes; from there
  on every rune is encoded anew.
\<close>

definition strings_map :: "(int \<Rightarrow> int) \<Rightarrow> string \<Rightarrow> string" where
  "strings_map g s =
     (let same = (\<lambda>(r, bs). g r = r)
      in concat (List.map snd (takeWhile same (runes s)))
         @ concat (List.map (\<lambda>(r, bs). encode_rune (g r)) (dropWhile same (runes s))))"

definition case_rune :: "(char \<Rightarrow> char) \<Rightarrow> (int \<Rightarrow> int) \<Rightarrow> int \<Rightarrow> int" where
  "case_rune ascii other r = (if 0 \<le> r \<and> r < 128 then byte_of (ascii (char_of (nat r))) else other r)"

definition ToLower :: "(int \<Rightarrow> int) \<Rightarrow> string \<Rightarrow> string" where
  "ToLower lower = strings_map (case_rune lower_ascii lower)"

definition ToUpper :: "(int \<Rightarrow> int) \<Rightarrow> string \<Rightarrow> string" where
  "ToUpper upper = strings_map (case_rune upper_ascii upper)"

record strings_converter =
  sc_Field :: string
  sc_Tag :: string
  sc_Measurement :: string
  sc_Dest :: string
  sc_Cutset :: string
  sc_Suffix :: string
  sc_Prefix :: string
  sc_Old :: string
  sc_New :: string

type_synonym convert_func = "string \<Rightarrow> string"

definition strings_convertTag :: "strings_converter \<Rightarrow> convert_func \<Rightarrow> metric \<Rightarrow> metric" where
  "strings_convertTag c f m =
     (let one = (\<lambda>(tag, value). AddTag (if sc_Tag c \<noteq> ''*'' \<and> sc_Dest c \<noteq> [] then sc_Dest c else tag) (f value))
      in if sc_Tag c = ''*'' then fold one (Tags m) m
         else case GetTag m (sc_Tag c) of None \<Rightarrow> m | Some tv \<Rightarrow> one (sc_Tag c, tv) m)"

text \<open>Writing a converted value, if it is a string.\<close>

definition rewrite_field :: "convert_func \<Rightarrow> string \<Rightarrow> gval \<Rightarrow> metric \<Rightarrow> metric" where
  "rewrite_field f k v = (case v of GString s \<Rightarrow> AddField k (GString (f s)) | _ \<Rightarrow> (\<lambda>m. m))"

definition strings_convertField :: "strings_converter \<Rightarrow> convert_func \<Rightarrow> metric \<Rightarrow> metric" where
  "strings_convertField c f m =
     (let one = (\<lambda>(key, value). rewrite_field f (if sc_Tag c \<noteq> ''*'' \<and> sc_Dest c \<noteq> [] then sc_Dest c else key) value)
      in if sc_Field c = ''*'' then fold one (Fields m) m
         else case GetField m (sc_Field c) of None \<Rightarrow> m | Some fv \<Rightarrow> one (sc_Field c, fv) m)"

definition strings_convertMeasurement :: "strings_converter \<Rightarrow> convert_func \<Rightarrow> metric \<Rightarrow> metric" where
  "strings_convertMeasurement c f m =
     (if m_name m \<noteq> sc_Measurement c \<and> sc_Measurement c \<noteq> ''*'' then m else SetName (f (m_name m)) m)"

definition strings_convert :: "strings_converter \<times> convert_func \<Rightarrow> metric \<Rightarrow> metric" where
  "strings_convert cf m =
     (let (c, f) = cf;
          m1 = (if sc_Field c \<noteq> [] then strings_convertField c f m else m);
          m2 = (if sc_Tag c \<noteq> [] then strings_convertTag c f m1 else m1)
      in if sc_Measurement c \<noteq> [] then strings_convertMeasurement c f m2 else m2)"

record strings_config =
  st_Lowercase :: "strings_converter list"
  st_Uppercase :: "strings_converter list"
  st_Trim :: "strings_converter list"
  st_TrimLeft :: "strings_converter list"
  st_TrimRight :: "strings_converter list"
  st_TrimPrefix :: "strings_converter list"
  st_TrimSuffix :: "strings_converter list"
  st_Replace :: "strings_converter list"

text \<open>
  The closures made in a loop capture the loop variable, which all rounds share: when they are
  called, it is the last element of the list. Which closure is made is decided by the element
  itself.
\<close>

definition capture :: "(strings_converter \<Rightarrow> strings_converter \<Rightarrow> convert_func) \<Rightarrow> strings_converter list
    \<Rightarrow> (strings_converter \<times> convert_func) list" where
  "capture closure cs = List.map (\<lambda>c. (c, closure c (last cs))) cs"

definition replace_func :: "strings_converter \<Rightarrow> convert_func" where
  "replace_func v s = (let new = replace_all s (sc_Old v) (sc_New v) in if new = [] then s else new)"

definition initOnce :: "(int \<Rightarrow> int) \<Rightarrow> (int \<Rightarrow> int) \<Rightarrow> strings_config \<Rightarrow> (strings_converter \<times> convert_func) list" where
  "initOnce lower upper s =
     capture (\<lambda>_ _. ToLower lower) (st_Lowercase s)
     @ capture (\<lambda>_ _. ToUpper upper) (st_Uppercase s)
     @ capture (\<lambda>c v. if sc_Cutset c \<noteq> [] then trim_func (in_cutset (sc_Cutset v)) else trim_func is_space) (st_Trim s)
     @ capture (\<lambda>c v. if sc_Cutset c \<noteq> [] then trim_left_func (in_cutset (sc_Cutset v)) else trim_left_func is_space) (st_TrimLeft s)
     @ capture (\<lambda>c v. if sc_Cutset c \<noteq> [] then trim_right_func (in_cutset (sc_Cutset v)) else trim_right_func is_space) (st_TrimRight s)
     @ capture (\<lambda>_ v s. trim_prefix s (sc_Prefix v)) (st_TrimPrefix s)
     @ capture (\<lambda>_ v s. trim_suffix s (sc_Suffix v)) (st_TrimSuffix s)
     @ capture (\<lambda>_ v. replace_func v) (st_Replace s)"

definition Strings_Apply :: "(int \<Rightarrow> int) \<Rightarrow> (int \<Rightarrow> int) \<Rightarrow> strings_config \<Rightarrow> metric list \<Rightarrow> metric list" where
  "Strings_Apply lower upper s ms = List.map (fold strings_convert (initOnce lower upper s)) ms"

subsection \<open>enum: what a mapping changes\<close>

text \<open>What a mapping makes of the value of its field, if it makes anything.\<close>

definition enum_value :: "mapping \<Rightarrow> gval \<Rightarrow> gval option" where
  "enum_value mp v = (case adjustBoolValue v of GString s \<Rightarrow> mapValue mp s | _ \<Rightarrow> None)"

lemma GetField_apply_mapping:
  assumes "metric_ok m"
  shows "GetField (apply_mapping mp m) x =
      (case GetField m (mp_Field mp) of None \<Rightarrow> GetField m x
       | Some v \<Rightarrow> (case enum_value mp v of None \<Rightarrow> GetField m x
           | Some mv \<Rightarrow> if x = getDestination mp then Some (convertField mv) else GetField m x))"
    and "metric_ok (apply_mapping mp m)" and "GetTag (apply_mapping mp m) = GetTag m"
  using assms
  by (auto simp: apply_mapping_def enum_value_def writeField_def GetField_AddField GetField_RemoveField
      split: option.split gval.split)

text \<open>
  An enum mapping reads its field, a string or a boolean, and writes the value of the table, or
  the default for a value that is not in the table, to its destination only. Applying a list of
  mappings whose destinations are no other mapping's field or destination gives each destination
  the value of its own mapping, from the original metric, whatever their order.
\<close>

theorem enum_spec:
  assumes "metric_ok m" "distinct (List.map getDestination mps)"
    "\<forall>mp \<in> set mps. \<forall>mp' \<in> set mps. mp \<noteq> mp' \<longrightarrow> getDestination mp \<noteq> mp_Field mp'"
    "mp \<in> set mps" "GetField m (mp_Field mp) = Some v"
  shows "GetField (applyMappings mps m) (getDestination mp) =
      (case enum_value mp v of Some mv \<Rightarrow> Some (convertField mv) | None \<Rightarrow> GetField m (getDestination mp))
    \<and> (\<forall>x. x \<notin> getDestination ` set mps \<longrightarrow> GetField (applyMappings mps m) x = GetField m x)
    \<and> GetTag (applyMappings mps m) = GetTag m"
proof -
  have other: "metric_ok n \<Longrightarrow> x \<notin> getDestination ` set ps \<Longrightarrow> GetField (fold apply_mapping ps n) x = GetField n x" for ps n x
  proof (induction ps arbitrary: n)
    case (Cons p ps)
    then show ?case by (simp add: GetField_apply_mapping split: option.split)
  qed simp
  have ok: "metric_ok n \<Longrightarrow> metric_ok (fold apply_mapping ps n) \<and> GetTag (fold apply_mapping ps n) = GetTag n" for ps n
    by (induction ps arbitrary: n) (simp_all add: GetField_apply_mapping)
  obtain as bs where mps: "mps = as @ mp # bs" using assms(4) by (meson split_list)
  have notin: "getDestination mp \<notin> getDestination ` set as" "getDestination mp \<notin> getDestination ` set bs" "mp \<notin> set as"
    using assms(2) by (auto simp: mps)
  have src: "mp_Field mp \<notin> getDestination ` set as"
    using assms(3) notin(3) by (auto simp: mps)
  define n where "n = fold apply_mapping as m"
  have n: "metric_ok n" "GetField n (mp_Field mp) = Some v" "GetField n (getDestination mp) = GetField m (getDestination mp)"
    using ok other [OF assms(1)] src notin(1) assms(1,5) by (simp_all add: n_def)
  have "applyMappings mps m = fold apply_mapping bs (apply_mapping mp n)"
    by (simp add: applyMappings_def mps n_def)
  then have "GetField (applyMappings mps m) (getDestination mp) = GetField (apply_mapping mp n) (getDestination mp)"
    using other [of "apply_mapping mp n"] n(1) notin(2) by (simp add: GetField_apply_mapping(2))
  with n have "GetField (applyMappings mps m) (getDestination mp) =
      (case enum_value mp v of Some mv \<Rightarrow> Some (convertField mv) | None \<Rightarrow> GetField m (getDestination mp))"
    by (simp add: GetField_apply_mapping split: option.split)
  with other [OF assms(1)] ok [OF assms(1)] show ?thesis by (simp add: applyMappings_def)
qed

definition status_mapping :: mapping where
  "status_mapping = \<lparr>mp_Field = ''status'', mp_Dest = ''code'', mp_Default = GInt64 0, mp_ValueMappings = [(''green'', GInt64 1)]\<rparr>"

theorem enum_spec_witness:
  "GetField (applyMappings [status_mapping] (New ''host'' [] [(''status'', GString ''green'')] 0 None)) ''code'' = Some (GInt64 1)"
proof -
  let ?m = "New ''host'' [] [(''status'', GString ''green'')] 0 None"
  have m: "metric_ok ?m" by (rule metric_ok_New) simp
  have f: "GetField ?m (mp_Field status_mapping) = Some (GString ''green'')" by code_simp
  have d: "distinct (List.map getDestination [status_mapping])"
    "\<forall>mp \<in> set [status_mapping]. \<forall>mp' \<in> set [status_mapping]. mp \<noteq> mp' \<longrightarrow> getDestination mp \<noteq> mp_Field mp'"
    "status_mapping \<in> set [status_mapping]"
    by simp_all
  have "getDestination status_mapping = ''code''" "enum_value status_mapping (GString ''green'') = Some (GInt64 1)"
    by (simp_all add: getDestination_def enum_value_def mapValue_def status_mapping_def)
  with enum_spec [OF m d f] show ?thesis by simp
qed

subsection \<open>override: what wins\<close>

text \<open>
  The override processor has the last word: its tags replace those of the metric, all others
  stay, the name becomes the configured one, with prefix and suffix, and the fields are untouched.
\<close>

theorem override_spec:
  assumes "metric_ok m" "gomap_ok (ov_Tags p)"
  shows "metric_ok (override_one p m)
    \<and> m_name (override_one p m) = ov_NamePrefix p @ (if ov_NameOverride p \<noteq> [] then ov_NameOverride p else m_name m) @ ov_NameSuffix p
    \<and> GetTag (override_one p m) k = (case map_of (ov_Tags p) k of Some v \<Rightarrow> Some v | None \<Rightarrow> GetTag m k)
    \<and> GetField (override_one p m) = GetField m"
proof -
  define m3 where "m3 = (let m1 = (if length (ov_NameOverride p) > 0 then SetName (ov_NameOverride p) m else m);
          m2 = (if length (ov_NamePrefix p) > 0 then AddPrefix (ov_NamePrefix p) m1 else m1)
      in (if length (ov_NameSuffix p) > 0 then AddSuffix (ov_NameSuffix p) m2 else m2))"
  have eq: "override_one p m = fold (\<lambda>(k, v). AddTag k v) (ov_Tags p) m3"
    by (simp add: override_one_def m3_def Let_def)
  have m3: "metric_ok m3" "GetTag m3 = GetTag m" "GetField m3 = GetField m"
    "m_name m3 = ov_NamePrefix p @ (if ov_NameOverride p \<noteq> [] then ov_NameOverride p else m_name m) @ ov_NameSuffix p"
    using assms(1) by (simp_all add: m3_def)
  have frame: "metric_ok n \<Longrightarrow> metric_ok (fold (\<lambda>(k, v). AddTag k v) kvs n)
      \<and> m_name (fold (\<lambda>(k, v). AddTag k v) kvs n) = m_name n
      \<and> GetField (fold (\<lambda>(k, v). AddTag k v) kvs n) = GetField n
      \<and> m_tags (fold (\<lambda>(k, v). AddTag k v) kvs n) = fold (\<lambda>(k, v). add_tag k v) kvs (m_tags n)" for kvs n
  proof (induction kvs arbitrary: n)
    case (Cons kv kvs)
    obtain k v where kv: "kv = (k, v)" by force
    have "m_tags (AddTag k v n) = add_tag k v (m_tags n)" by (simp add: AddTag_def)
    with Cons.IH [of "AddTag k v n"] Cons.prems show ?case by (simp add: kv)
  qed simp
  have "GetTag (override_one p m) k = (case map_of (ov_Tags p) k of Some v \<Rightarrow> Some v | None \<Rightarrow> get_tag (m_tags m3) k)"
    using tag_store.get_fold_put_map [OF _ assms(2), of "m_tags m3" k] m3(1) frame [OF m3(1), of "ov_Tags p"]
    by (simp add: GetTag_def eq metric_ok_def)
  with frame [OF m3(1), of "ov_Tags p"] m3 show ?thesis
    unfolding eq by (simp add: GetTag_def fun_eq_iff split: option.split)
qed

theorem override_spec_witness:
  "GetTag (override_one \<lparr>ov_NameOverride = [], ov_NamePrefix = ''x_'', ov_NameSuffix = [], ov_Tags = [(''dc'', ''eu'')]\<rparr>
     (New ''cpu'' [(''dc'', ''us'')] [] 0 None)) ''dc'' = Some ''eu''"
proof -
  have m: "metric_ok (New ''cpu'' [(''dc'', ''us'')] [] 0 None)" by (rule metric_ok_New) simp
  have g: "gomap_ok (ov_Tags \<lparr>ov_NameOverride = [], ov_NamePrefix = ''x_'', ov_NameSuffix = [], ov_Tags = [(''dc'', ''eu'')]\<rparr>)" by simp
  show ?thesis using override_spec [OF m g, of "''dc''"] by simp
qed

subsection \<open>rename: there and back\<close>

definition tag_rule :: "string \<Rightarrow> string \<Rightarrow> replace" where
  "tag_rule a b = \<lparr>re_Measurement = [], re_Tag = a, re_Field = [], re_Dest = b\<rparr>"

definition field_rule :: "string \<Rightarrow> string \<Rightarrow> replace" where
  "field_rule a b = \<lparr>re_Measurement = [], re_Tag = [], re_Field = a, re_Dest = b\<rparr>"

lemma apply_tag_rule:
  assumes "a \<noteq> []" "b \<noteq> []"
  shows "m_tags (apply_replace (tag_rule a b) m) = tag_store.move a b (m_tags m)"
    "m_fields (apply_replace (tag_rule a b) m) = m_fields m" "m_name (apply_replace (tag_rule a b) m) = m_name m"
  using assms
  by (cases "get_tag (m_tags m) a";
      simp add: apply_replace_def tag_rule_def tag_store.move_def GetTag_def AddTag_def RemoveTag_def)+

lemma apply_field_rule:
  assumes "a \<noteq> []" "b \<noteq> []"
  shows "m_fields (apply_replace (field_rule a b) m) = field_store.move a b (m_fields m)"
    "m_tags (apply_replace (field_rule a b) m) = m_tags m" "m_name (apply_replace (field_rule a b) m) = m_name m"
  using assms
  by (cases "get_field (m_fields m) a";
      simp add: apply_replace_def field_rule_def field_store.move_def GetField_def AddField_def RemoveField_def)+

text \<open>
  Renaming loses nothing: a tag and a field renamed to free keys and renamed back are as before,
  with every other tag and field; in between they are found under the new keys only.
\<close>

theorem rename_there_and_back:
  assumes "metric_ok m" "GetTag m a = Some v" "GetTag m b = None" "GetField m c = Some w" "GetField m d = None"
    "a \<noteq> []" "b \<noteq> []" "c \<noteq> []" "d \<noteq> []"
  shows "\<exists>m1 m2. Rename_Apply [tag_rule a b, field_rule c d] [m] = [m1] \<and> Rename_Apply [tag_rule b a, field_rule d c] [m1] = [m2]
    \<and> GetTag m1 a = None \<and> GetTag m1 b = Some v \<and> GetField m1 c = None \<and> GetField m1 d = Some w
    \<and> GetTag m2 = GetTag m \<and> GetField m2 = GetField m \<and> m_name m2 = m_name m"
proof -
  define m1 where "m1 = fold apply_replace [tag_rule a b, field_rule c d] m"
  define m2 where "m2 = fold apply_replace [tag_rule b a, field_rule d c] m1"
  have ok: "tags_ok (m_tags m)" "fields_ok (m_fields m)" using assms(1) by (simp_all add: metric_ok_def)
  have ab: "a \<noteq> b" "c \<noteq> d" using assms(2-5) by auto
  have t: "get_tag (m_tags m) a = Some v" "get_tag (m_tags m) b = None" using assms(2,3) by (simp_all add: GetTag_def)
  have f: "get_field (m_fields m) c = Some w" "get_field (m_fields m) d = None" using assms(4,5) by (simp_all add: GetField_def)
  have m1: "m_tags m1 = tag_store.move a b (m_tags m)" "m_fields m1 = field_store.move c d (m_fields m)" "m_name m1 = m_name m"
    using assms(6-9) by (simp_all add: m1_def apply_tag_rule apply_field_rule)
  have m2: "m_tags m2 = tag_store.move b a (m_tags m1)" "m_fields m2 = field_store.move d c (m_fields m1)" "m_name m2 = m_name m1"
    using assms(6-9) by (simp_all add: m2_def apply_tag_rule apply_field_rule)
  have "GetTag m2 = GetTag m" "GetField m2 = GetField m"
    using tag_store.move_back [OF ok(1) t] field_store.move_back [OF ok(2) f]
    by (simp_all add: fun_eq_iff GetTag_def GetField_def m1 m2)
  moreover have "GetTag m1 a = None" "GetTag m1 b = Some v" "GetField m1 c = None" "GetField m1 d = Some w"
    using tag_store.get_move [OF ok(1) t(1)] field_store.get_move [OF ok(2) f(1)] ab
    by (simp_all add: GetTag_def GetField_def m1)
  ultimately show ?thesis
    using m1(3) m2(3) by (simp add: Rename_Apply_def m1_def m2_def)
qed

theorem rename_there_and_back_witness:
  "\<exists>m1. Rename_Apply [tag_rule ''host'' ''node'', field_rule ''x'' ''y''] [New ''cpu'' [(''host'', ''h'')] [(''x'', GInt64 1)] 0 None] = [m1]
     \<and> GetTag m1 ''node'' = Some ''h''"
proof -
  let ?m = "New ''cpu'' [(''host'', ''h'')] [(''x'', GInt64 1)] 0 None"
  have m: "metric_ok ?m" by (rule metric_ok_New) simp
  have v: "GetTag ?m ''host'' = Some ''h''" "GetTag ?m ''node'' = None" "GetField ?m ''x'' = Some (GInt64 1)" "GetField ?m ''y'' = None"
    by code_simp+
  from rename_there_and_back [OF m v] show ?thesis by auto
qed

subsection \<open>strings: all keys, and shared closures\<close>

text \<open>With a star each key is visited on its own.\<close>

interpretation star_tags: key_visitor "\<lambda>k v. AddTag k (f v)" GetTag "\<lambda>k v old. Some (f v)" metric_ok for f
  by unfold_locales (simp_all add: GetTag_AddTag)

definition on_string :: "convert_func \<Rightarrow> gval \<Rightarrow> gval" where
  "on_string f v = (case v of GString s \<Rightarrow> GString (f s) | _ \<Rightarrow> v)"

interpretation star_fields: key_visitor "rewrite_field f" GetField
  "\<lambda>k v old. case v of GString s \<Rightarrow> Some (GString (f s)) | _ \<Rightarrow> old" metric_ok for f
  by unfold_locales (simp_all add: rewrite_field_def GetField_AddField split: gval.split)

text \<open>
  A rule for all tags and all fields rewrites every tag value and every string field, each on
  its own, and leaves numbers, booleans and the name as they are.
\<close>

theorem strings_star_spec:
  assumes "metric_ok m" "sc_Field c = ''*''" "sc_Tag c = ''*''" "sc_Measurement c = []"
  shows "GetTag (strings_convert (c, f) m) k = map_option f (GetTag m k)
    \<and> GetField (strings_convert (c, f) m) k = map_option (on_string f) (GetField m k)
    \<and> m_name (strings_convert (c, f) m) = m_name m"
proof -
  define m1 where "m1 = fold (\<lambda>(k, v). rewrite_field f k v) (Fields m) m"
  have eq: "strings_convert (c, f) m = fold (\<lambda>(k, v). AddTag k (f v)) (Tags m1) m1"
    by (simp add: strings_convert_def strings_convertField_def strings_convertTag_def assms(2-4) m1_def Let_def)
  have m1: "metric_ok m1" unfolding m1_def using assms(1) by (rule star_fields.ok_visits)
  have f1: "GetField m1 k = map_option (on_string f) (GetField m k)"
    unfolding m1_def using star_fields.look_visits [OF assms(1) gomap_ok_Fields, of f m k]
    by (simp add: map_of_Fields [OF assms(1)] on_string_def split: option.splits gval.splits)
  have frame: "GetTag (fold (\<lambda>(k, v). rewrite_field f k v) kvs n) = GetTag n
      \<and> m_name (fold (\<lambda>(k, v). rewrite_field f k v) kvs n) = m_name n" for kvs n
  proof (induction kvs arbitrary: n)
    case (Cons kv kvs)
    then show ?case by (cases kv; cases "snd kv") (simp_all add: rewrite_field_def)
  qed simp
  have tframe: "GetField (fold (\<lambda>(k, v). AddTag k (f v)) kvs n) = GetField n
      \<and> m_name (fold (\<lambda>(k, v). AddTag k (f v)) kvs n) = m_name n" for kvs n
    by (induction kvs arbitrary: n) auto
  have "GetTag (fold (\<lambda>(k, v). AddTag k (f v)) (Tags m1) m1) k = map_option f (GetTag m1 k)"
    using star_tags.look_visits [OF m1 gomap_ok_Tags, of f m1 k]
    by (simp add: map_of_Tags [OF m1] split: option.splits)
  with f1 frame [of "Fields m" m] tframe [of "Tags m1" m1] show ?thesis
    unfolding eq by (simp add: m1_def [symmetric])
qed

theorem strings_star_spec_witness:
  "GetTag (strings_convert (\<lparr>sc_Field = ''*'', sc_Tag = ''*'', sc_Measurement = [], sc_Dest = [], sc_Cutset = [], sc_Suffix = [],
      sc_Prefix = ''x'', sc_Old = [], sc_New = []\<rparr>, \<lambda>s. trim_prefix s ''x'') (New ''cpu'' [(''h'', ''xy'')] [] 0 None)) ''h'' = Some ''y''"
proof -
  let ?c = "\<lparr>sc_Field = ''*'', sc_Tag = ''*'', sc_Measurement = [], sc_Dest = [], sc_Cutset = [], sc_Suffix = [],
      sc_Prefix = ''x'', sc_Old = [], sc_New = []\<rparr>"
  have m: "metric_ok (New ''cpu'' [(''h'', ''xy'')] [] 0 None)" by (rule metric_ok_New) simp
  have t: "GetTag (New ''cpu'' [(''h'', ''xy'')] [] 0 None) ''h'' = Some ''xy''" by code_simp
  have p: "trim_prefix ''xy'' ''x'' = ''y''" by code_simp
  have "sc_Field ?c = ''*''" "sc_Tag ?c = ''*''" "sc_Measurement ?c = []" by simp_all
  from strings_star_spec [OF m this, of "\<lambda>s. trim_prefix s ''x''" "''h''"] t p show ?thesis by simp
qed

text \<open>
  Rules of one kind share their cutset: of several trim rules with a cutset, each trims with
  the cutset of the last one in the configuration.
\<close>

theorem trim_rules_share_cutset:
  assumes "i < length (st_Trim s)" "sc_Cutset (st_Trim s ! i) \<noteq> []"
  shows "let rules = initOnce lower upper s; j = length (st_Lowercase s) + length (st_Uppercase s) + i
    in fst (rules ! j) = st_Trim s ! i \<and> snd (rules ! j) = trim_func (in_cutset (sc_Cutset (last (st_Trim s))))"
  using assms by (simp add: initOnce_def capture_def nth_append)

theorem trim_rules_share_cutset_witness:
  "let r = (\<lambda>k cs. \<lparr>sc_Field = k, sc_Tag = [], sc_Measurement = [], sc_Dest = [], sc_Cutset = cs, sc_Suffix = [], sc_Prefix = [], sc_Old = [], sc_New = []\<rparr>);
       s = \<lparr>st_Lowercase = [], st_Uppercase = [], st_Trim = [r ''a'' ''x'', r ''b'' ''y''], st_TrimLeft = [], st_TrimRight = [],
            st_TrimPrefix = [], st_TrimSuffix = [], st_Replace = []\<rparr>
   in snd (initOnce (\<lambda>r. r) (\<lambda>r. r) s ! 0) = trim_func (in_cutset ''y'')"
  using trim_rules_share_cutset [of 0 "\<lparr>st_Lowercase = [], st_Uppercase = [],
      st_Trim = [\<lparr>sc_Field = ''a'', sc_Tag = [], sc_Measurement = [], sc_Dest = [], sc_Cutset = ''x'', sc_Suffix = [], sc_Prefix = [], sc_Old = [], sc_New = []\<rparr>,
        \<lparr>sc_Field = ''b'', sc_Tag = [], sc_Measurement = [], sc_Dest = [], sc_Cutset = ''y'', sc_Suffix = [], sc_Prefix = [], sc_Old = [], sc_New = []\<rparr>],
      st_TrimLeft = [], st_TrimRight = [], st_TrimPrefix = [], st_TrimSuffix = [], st_Replace = []\<rparr>" "\<lambda>r. r" "\<lambda>r. r"]
  by (simp add: Let_def)

end
