(* ===== verification/PrometheusClient.thy ===== *)
theory PrometheusClient
  imports Metric
begin

section \<open>The Prometheus exporter\<close>

text \<open>
  \<open>plugins/outputs/prometheus_client/prometheus_client.go\<close>: an output that keeps the last sample of
  every series until it expires and reports all of them when it is scraped. A family is reached
  through a pointer in the map of families only, so it is its current value there. The clock is the
  argument \<open>now\<close>; counts of labels are far from overflowing and are integers. Connecting, the HTTP
  server and its authorisation are left out; \<open>conv\<close> is the conversion of floats out of range.
\<close>

subsection \<open>State\<close>

record sample =
  sa_Labels :: strmap
  sa_Value :: f64
  sa_HistogramValue :: "(f64 \<times> u64) list"
  sa_SummaryValue :: "(f64 \<times> f64) list"
  sa_Count :: u64
  sa_Sum :: f64
  sa_Expiration :: int

record family =
  fa_Samples :: "(string, sample) gomap"
  fa_Type :: value_type
  fa_LabelSet :: "(string, int) gomap"

record prometheus =
  pc_ExpirationInterval :: int
  pc_StringAsLabel :: bool
  pc_fam :: "(string, family) gomap"

definition new_prometheus :: prometheus where
  "new_prometheus = \<lparr>pc_ExpirationInterval = 60 * 10 ^ 9, pc_StringAsLabel = True, pc_fam = []\<rparr>"

subsection \<open>Names\<close>

definition name_rune :: "int \<Rightarrow> bool" where
  "name_rune r \<longleftrightarrow> 97 \<le> r \<and> r \<le> 122 \<or> 65 \<le> r \<and> r \<le> 90 \<or> 48 \<le> r \<and> r \<le> 57 \<or> r = 95"

definition pc_sanitize :: "string \<Rightarrow> string" where
  "pc_sanitize v = concat (List.map (\<lambda>(r, b). if name_rune r then b else ''_'') (runes v))"

definition CreateSampleID :: "strmap \<Rightarrow> string" where
  "CreateSampleID tags = join '','' (sort (List.map (\<lambda>(k, v). k @ ''='' @ v) tags))"

subsection \<open>Adding samples\<close>

definition label_count :: "(string, int) gomap \<Rightarrow> string \<Rightarrow> int" where
  "label_count ls k = (case map_of ls k of Some n \<Rightarrow> n | None \<Rightarrow> 0)"

definition add_labels :: "int \<Rightarrow> string list \<Rightarrow> (string, int) gomap \<Rightarrow> (string, int) gomap" where
  "add_labels d = fold (\<lambda>k ls. AList.update k (label_count ls k + d) ls)"

definition addSample :: "sample \<Rightarrow> string \<Rightarrow> family \<Rightarrow> family" where
  "addSample s sampleID f =
     f\<lparr>fa_LabelSet := add_labels 1 (keys_of (sa_Labels s)) (fa_LabelSet f),
       fa_Samples := AList.update sampleID s (fa_Samples f)\<rparr>"

definition new_family :: "value_type \<Rightarrow> family" where
  "new_family tp = \<lparr>fa_Samples = [], fa_Type = tp, fa_LabelSet = []\<rparr>"

definition addMetricFamily :: "metric \<Rightarrow> sample \<Rightarrow> string \<Rightarrow> string \<Rightarrow> prometheus \<Rightarrow> prometheus" where
  "addMetricFamily point s mname sampleID p =
     (let f = (case map_of (pc_fam p) mname of Some f \<Rightarrow> f | None \<Rightarrow> new_family (m_tp point))
      in p\<lparr>pc_fam := AList.update mname (addSample s sampleID f) (pc_fam p)\<rparr>)"

subsection \<open>Writing\<close>

fun pc_value :: "gval \<Rightarrow> f64 option" where
  "pc_value (GInt64 v) = Some (f64_of_int (sint v))"
| "pc_value (GUint64 v) = Some (f64_of_int (uint v))"
| "pc_value (GFloat64 v) = Some v"
| "pc_value _ = None"

text \<open>Assignment in a map with float keys: the two zeros are one key, a NaN equals no key.\<close>

fun fmap_put :: "f64 \<Rightarrow> 'a \<Rightarrow> (f64 \<times> 'a) list \<Rightarrow> (f64 \<times> 'a) list" where
  "fmap_put k v [] = [(k, v)]"
| "fmap_put k v (e # es) = (if f_eq (fst e) k then (k, v) # es else e # fmap_put k v es)"

definition point_labels :: "bool \<Rightarrow> metric \<Rightarrow> strmap" where
  "point_labels string_as_label m =
     (let labels = fold (\<lambda>(k, v). AList.update (pc_sanitize k) v) (Tags m) []
      in if string_as_label
         then fold (\<lambda>(fn, fv) ls. case fv of GString v \<Rightarrow> AList.update (pc_sanitize fn) v ls | _ \<Rightarrow> ls) (Fields m) labels
         else labels)"

text \<open>Sum, count and the values by limit of a summary or histogram; \<open>g\<close> converts a value.\<close>

fun dist_field :: "(f64 \<Rightarrow> u64) \<Rightarrow> (f64 \<Rightarrow> 'a) \<Rightarrow> string \<times> gval \<Rightarrow> f64 \<times> u64 \<times> (f64 \<times> 'a) list \<Rightarrow> f64 \<times> u64 \<times> (f64 \<times> 'a) list" where
  "dist_field conv g (fn, fv) (tot, cnt, vals) =
     (case pc_value fv of None \<Rightarrow> (tot, cnt, vals)
      | Some v \<Rightarrow>
          if fn = ''sum'' then (v, cnt, vals)
          else if fn = ''count'' then (tot, f64_to_u64 conv v, vals)
          else (case parse_float fn of None \<Rightarrow> (tot, cnt, vals) | Some l \<Rightarrow> (tot, cnt, fmap_put l (g v) vals)))"

definition dist_fields :: "(f64 \<Rightarrow> u64) \<Rightarrow> (f64 \<Rightarrow> 'a) \<Rightarrow> metric \<Rightarrow> f64 \<times> u64 \<times> (f64 \<times> 'a) list" where
  "dist_fields conv g m = fold (dist_field conv g) (Fields m) (f_zero, 0, [])"

definition blank_sample :: "prometheus \<Rightarrow> int \<Rightarrow> metric \<Rightarrow> sample" where
  "blank_sample p now m =
     \<lparr>sa_Labels = point_labels (pc_StringAsLabel p) m, sa_Value = f_zero, sa_HistogramValue = [], sa_SummaryValue = [],
      sa_Count = 0, sa_Sum = f_zero, sa_Expiration = now + pc_ExpirationInterval p\<rparr>"

definition summary_sample :: "(f64 \<Rightarrow> u64) \<Rightarrow> prometheus \<Rightarrow> int \<Rightarrow> metric \<Rightarrow> sample" where
  "summary_sample conv p now m =
     (case dist_fields conv (\<lambda>v. v) m of (tot, cnt, vals) \<Rightarrow>
        (blank_sample p now m)\<lparr>sa_SummaryValue := vals, sa_Count := cnt, sa_Sum := tot\<rparr>)"

definition histogram_sample :: "(f64 \<Rightarrow> u64) \<Rightarrow> prometheus \<Rightarrow> int \<Rightarrow> metric \<Rightarrow> sample" where
  "histogram_sample conv p now m =
     (case dist_fields conv (f64_to_u64 conv) m of (tot, cnt, vals) \<Rightarrow>
        (blank_sample p now m)\<lparr>sa_HistogramValue := vals, sa_Count := cnt, sa_Sum := tot\<rparr>)"

definition field_metric_name :: "metric \<Rightarrow> string \<Rightarrow> string" where
  "field_metric_name m fn =
     (let mname = (if m_tp m = Counter \<and> fn = ''counter'' \<or> m_tp m = Gauge \<and> fn = ''gauge''
                   then pc_sanitize (m_name m) else [])
      in if mname = [] then
           if fn = ''value'' then pc_sanitize (m_name m) else pc_sanitize (m_name m @ ''_'' @ fn)
         else mname)"

definition write_value :: "int \<Rightarrow> metric \<Rightarrow> string \<times> gval \<Rightarrow> prometheus \<Rightarrow> prometheus" where
  "write_value now m kv p =
     (case pc_value (snd kv) of None \<Rightarrow> p
      | Some v \<Rightarrow> addMetricFamily m ((blank_sample p now m)\<lparr>sa_Value := v\<rparr>)
                    (field_metric_name m (fst kv)) (CreateSampleID (Tags m)) p)"

definition write_point :: "(f64 \<Rightarrow> u64) \<Rightarrow> int \<Rightarrow> metric \<Rightarrow> prometheus \<Rightarrow> prometheus" where
  "write_point conv now m p =
     (case m_tp m of
        Summary \<Rightarrow> addMetricFamily m (summary_sample conv p now m) (pc_sanitize (m_name m)) (CreateSampleID (Tags m)) p
      | Histogram \<Rightarrow> addMetricFamily m (histogram_sample conv p now m) (pc_sanitize (m_name m)) (CreateSampleID (Tags m)) p
      | _ \<Rightarrow> fold (write_value now m) (Fields m) p)"

definition pc_Write :: "(f64 \<Rightarrow> u64) \<Rightarrow> int \<Rightarrow> metric list \<Rightarrow> prometheus \<Rightarrow> prometheus" where
  "pc_Write conv now = fold (write_point conv now)"

subsection \<open>Expiring and collecting\<close>

definition expired :: "int \<Rightarrow> int \<Rightarrow> sample \<Rightarrow> bool" where
  "expired iv now s \<longleftrightarrow> iv \<noteq> 0 \<and> now > sa_Expiration s"

text \<open>One round of the inner loop; the flag says that the family was deleted.\<close>

definition expire_sample :: "int \<Rightarrow> int \<Rightarrow> string \<times> sample \<Rightarrow> family \<times> bool \<Rightarrow> family \<times> bool" where
  "expire_sample iv now ks fb =
     (if expired iv now (snd ks) then
        let f = (fst fb)\<lparr>fa_LabelSet := add_labels (-1) (keys_of (sa_Labels (snd ks))) (fa_LabelSet (fst fb)),
                         fa_Samples := AList.delete (fst ks) (fa_Samples (fst fb))\<rparr>
        in (f, if fa_Samples f = [] then True else snd fb)
      else fb)"

definition expire_family :: "int \<Rightarrow> int \<Rightarrow> family \<Rightarrow> family option" where
  "expire_family iv now f =
     (case fold (expire_sample iv now) (fa_Samples f) (f, False) of (f', gone) \<Rightarrow> if gone then None else Some f')"

fun expire_families :: "int \<Rightarrow> int \<Rightarrow> (string, family) gomap \<Rightarrow> (string, family) gomap" where
  "expire_families iv now [] = []"
| "expire_families iv now ((n, f) # fs) =
     (case expire_family iv now f of None \<Rightarrow> expire_families iv now fs | Some f' \<Rightarrow> (n, f') # expire_families iv now fs)"

definition Expire :: "int \<Rightarrow> prometheus \<Rightarrow> prometheus" where
  "Expire now p = p\<lparr>pc_fam := expire_families (pc_ExpirationInterval p) now (pc_fam p)\<rparr>"

datatype prom_type = CounterValue | GaugeValue | UntypedValue

fun getPromValueType :: "value_type \<Rightarrow> prom_type" where
  "getPromValueType Counter = CounterValue"
| "getPromValueType Gauge = GaugeValue"
| "getPromValueType _ = UntypedValue"

text \<open>What is sent to the client library, by the constructor called.\<close>

datatype prom_value =
    ConstSummary u64 f64 "(f64 \<times> f64) list"
  | ConstHistogram u64 f64 "(f64 \<times> u64) list"
  | ConstMetric prom_type f64

record prom_metric =
  pm_name :: string
  pm_labelNames :: "string list"
  pm_labels :: "string list"
  pm_value :: prom_value

definition label_names :: "family \<Rightarrow> string list" where
  "label_names f = List.map fst (List.filter (\<lambda>(k, v). v > 0) (fa_LabelSet f))"

definition sample_value :: "family \<Rightarrow> sample \<Rightarrow> prom_value" where
  "sample_value f s =
     (case fa_Type f of
        Summary \<Rightarrow> ConstSummary (sa_Count s) (sa_Sum s) (sa_SummaryValue s)
      | Histogram \<Rightarrow> ConstHistogram (sa_Count s) (sa_Sum s) (sa_HistogramValue s)
      | tp \<Rightarrow> ConstMetric (getPromValueType tp) (sa_Value s))"

definition sample_metric :: "string \<Rightarrow> family \<Rightarrow> sample \<Rightarrow> prom_metric" where
  "sample_metric name f s =
     \<lparr>pm_name = name, pm_labelNames = label_names f,
      pm_labels = List.map (\<lambda>l. case map_of (sa_Labels s) l of Some v \<Rightarrow> v | None \<Rightarrow> []) (label_names f),
      pm_value = sample_value f s\<rparr>"

definition Collect_metrics :: "prometheus \<Rightarrow> prom_metric list" where
  "Collect_metrics p = concat (List.map (\<lambda>(name, f). List.map (\<lambda>(i, s). sample_metric name f s) (fa_Samples f)) (pc_fam p))"

definition pc_Collect :: "int \<Rightarrow> prometheus \<Rightarrow> prometheus \<times> prom_metric list" where
  "pc_Collect now p = (let p' = Expire now p in (p', Collect_metrics p'))"

subsection \<open>The exporter as a map from series to samples\<close>

definition live :: "prometheus \<Rightarrow> string \<times> string \<Rightarrow> sample option" where
  "live p k = (case map_of (pc_fam p) (fst k) of None \<Rightarrow> None | Some f \<Rightarrow> map_of (fa_Samples f) (snd k))"

definition same_config :: "prometheus \<Rightarrow> prometheus \<Rightarrow> bool" where
  "same_config p q \<longleftrightarrow> pc_ExpirationInterval p = pc_ExpirationInterval q \<and> pc_StringAsLabel p = pc_StringAsLabel q"

lemma blank_sample_config: "same_config p q \<Longrightarrow> blank_sample p = blank_sample q"
  by (intro ext) (simp add: same_config_def blank_sample_def)

lemma same_config_add [simp]: "same_config (addMetricFamily m s n i p) q \<longleftrightarrow> same_config p q"
  by (simp add: addMetricFamily_def same_config_def Let_def)

lemma live_add [map_laws]:
  "live (addMetricFamily m s n i p) k = (if k = (n, i) then Some s else live p k)"
  by (cases k) (auto simp: live_def addMetricFamily_def addSample_def new_family_def map_laws Let_def split: option.split)

text \<open>What one point writes: the series with their new samples, in the order written.\<close>

definition point_samples :: "(f64 \<Rightarrow> u64) \<Rightarrow> prometheus \<Rightarrow> int \<Rightarrow> metric \<Rightarrow> ((string \<times> string) \<times> sample) list" where
  "point_samples conv p now m =
     (let i = CreateSampleID (Tags m) in case m_tp m of
        Summary \<Rightarrow> [((pc_sanitize (m_name m), i), summary_sample conv p now m)]
      | Histogram \<Rightarrow> [((pc_sanitize (m_name m), i), histogram_sample conv p now m)]
      | _ \<Rightarrow> List.map_filter (\<lambda>(fn, fv). map_option (\<lambda>v. ((field_metric_name m fn, i), (blank_sample p now m)\<lparr>sa_Value := v\<rparr>)) (pc_value fv)) (Fields m))"

definition overlay :: "('k \<times> 'v) list \<Rightarrow> ('k \<Rightarrow> 'v option) \<Rightarrow> 'k \<Rightarrow> 'v option" where
  "overlay kvs st k = (case map_of (rev kvs) k of Some v \<Rightarrow> Some v | None \<Rightarrow> st k)"

lemma overlay_Nil [simp]: "overlay [] st = st"
  by (simp add: overlay_def fun_eq_iff)

lemma overlay_Cons: "overlay ((k, v) # kvs) st = overlay kvs (\<lambda>x. if x = k then Some v else st x)"
  by (auto simp: overlay_def fun_eq_iff map_add_def split: option.split)

lemma overlay_append: "overlay (xs @ ys) st = overlay ys (overlay xs st)"
  by (auto simp: overlay_def fun_eq_iff map_add_def split: option.split)

lemma live_write_values:
  assumes "same_config p q"
  shows "live (fold (write_value now m) kvs p) =
    overlay (List.map_filter (\<lambda>(fn, fv). map_option (\<lambda>v. ((field_metric_name m fn, CreateSampleID (Tags m)),
      (blank_sample q now m)\<lparr>sa_Value := v\<rparr>)) (pc_value fv)) kvs) (live p)
   \<and> same_config (fold (write_value now m) kvs p) q"
  using assms
proof (induction kvs arbitrary: p)
  case (Cons kv kvs)
  obtain fn fv where kv: "kv = (fn, fv)" by force
  show ?case
  proof (cases "pc_value fv")
    case None
    then show ?thesis using Cons by (simp add: kv write_value_def map_filter_def)
  next
    case (Some v)
    let ?p = "write_value now m kv p"
    have p: "?p = addMetricFamily m ((blank_sample q now m)\<lparr>sa_Value := v\<rparr>) (field_metric_name m fn) (CreateSampleID (Tags m)) p"
      using Some blank_sample_config [OF Cons.prems] by (simp add: kv write_value_def)
    have live: "live ?p = (\<lambda>x. if x = (field_metric_name m fn, CreateSampleID (Tags m))
        then Some ((blank_sample q now m)\<lparr>sa_Value := v\<rparr>) else live p x)"
      by (rule ext) (simp only: p live_add)
    have "same_config ?p q" using Cons.prems by (simp add: p)
    from Cons.IH [OF this] show ?thesis
      using Some by (simp add: kv live [unfolded kv] map_filter_simps overlay_Cons)
  qed
qed (simp add: map_filter_simps)

lemma live_write_point:
  assumes "same_config p q"
  shows "live (write_point conv now m p) = overlay (point_samples conv q now m) (live p)"
    "same_config (write_point conv now m p) q"
proof -
  have s: "summary_sample conv p now m = summary_sample conv q now m" "histogram_sample conv p now m = histogram_sample conv q now m"
    using blank_sample_config [OF assms] by (simp_all add: summary_sample_def histogram_sample_def)
  have add: "live (addMetricFamily m x n i p) = overlay [((n, i), x)] (live p)" for x n i
    by (rule ext) (simp add: overlay_Cons live_add)
  note vals = live_write_values [OF assms]
  show "live (write_point conv now m p) = overlay (point_samples conv q now m) (live p)"
    using vals by (cases "m_tp m") (simp_all add: write_point_def point_samples_def s add)
  show "same_config (write_point conv now m p) q"
    using vals assms by (cases "m_tp m") (simp_all add: write_point_def)
qed

lemma live_Write:
  assumes "same_config p q"
  shows "live (pc_Write conv now ms p) = overlay (concat (List.map (point_samples conv q now) ms)) (live p)
    \<and> same_config (pc_Write conv now ms p) q"
  using assms unfolding pc_Write_def
proof (induction ms arbitrary: p)
  case (Cons m ms)
  have "same_config (write_point conv now m p) q" by (rule live_write_point(2) [OF Cons.prems])
  from Cons.IH [OF this] show ?case by (simp add: overlay_append live_write_point(1) [OF Cons.prems])
qed simp

subsection \<open>Expiry\<close>

interpretation expiry: key_visitor "\<lambda>k s. expire_sample iv now (k, s)" "\<lambda>fb. map_of (fa_Samples (fst fb))"
  "\<lambda>k s v. if expired iv now s then None else v" "\<lambda>_. True" for iv now
  by unfold_locales (auto simp: expire_sample_def map_laws Let_def)

lemma expire_fold: "(\<lambda>(k, s). expire_sample iv now (k, s)) = expire_sample iv now"
  by auto

lemma expire_gone:
  "(snd fb \<longleftrightarrow> fa_Samples (fst fb) = []) \<Longrightarrow>
   snd (fold (expire_sample iv now) xs fb) \<longleftrightarrow> fa_Samples (fst (fold (expire_sample iv now) xs fb)) = []"
proof (induction xs arbitrary: fb)
  case (Cons x xs)
  have "snd (expire_sample iv now x fb) \<longleftrightarrow> fa_Samples (fst (expire_sample iv now x fb)) = []"
    using Cons.prems by (auto simp: expire_sample_def Let_def)
  from Cons.IH [OF this] show ?case by simp
qed simp

lemma map_of_empty_iff: "(\<forall>k. map_of xs k = None) \<longleftrightarrow> xs = []"
  by (cases xs) auto

definition live_in :: "int \<Rightarrow> int \<Rightarrow> sample option \<Rightarrow> sample option" where
  "live_in iv now v = (case v of Some s \<Rightarrow> if expired iv now s then None else Some s | None \<Rightarrow> None)"

lemma expire_family_samples:
  assumes "gomap_ok (fa_Samples f)" "fa_Samples f \<noteq> []"
  shows "live_in iv now (map_of (fa_Samples f) i) =
    (case expire_family iv now f of None \<Rightarrow> None | Some f' \<Rightarrow> map_of (fa_Samples f') i)"
proof -
  let ?r = "fold (expire_sample iv now) (fa_Samples f) (f, False)"
  have m: "map_of (fa_Samples (fst ?r)) i = live_in iv now (map_of (fa_Samples f) i)" for i
    using expiry.look_visits [OF TrueI assms(1), of iv now "(f, False)" i]
    by (simp add: expire_fold live_in_def split: option.splits)
  have g: "snd ?r \<longleftrightarrow> fa_Samples (fst ?r) = []" using assms(2) by (intro expire_gone) simp
  show ?thesis
    using g by (cases ?r) (auto simp: expire_family_def m [symmetric])
qed

lemma map_of_expire_families:
  "gomap_ok fs \<Longrightarrow> map_of (expire_families iv now fs) n = Option.bind (map_of fs n) (expire_family iv now)"
proof (induction fs)
  case (Cons nf fs)
  obtain m f where nf: "nf = (m, f)" by force
  have "map_of fs m = None" using Cons.prems by (simp add: nf map_of_eq_None_iff_keys)
  then show ?case using Cons by (auto simp: nf split: option.split)
qed simp

lemma set_expire_families: "(n, f') \<in> set (expire_families iv now fs) \<longleftrightarrow> (\<exists>f. (n, f) \<in> set fs \<and> expire_family iv now f = Some f')"
  by (induction iv now fs rule: expire_families.induct) (auto split: option.splits)

lemma gomap_ok_expire_families: "gomap_ok fs \<Longrightarrow> gomap_ok (expire_families iv now fs)"
proof (induction iv now fs rule: expire_families.induct)
  case (2 iv now n f fs)
  have "n \<notin> fst ` set (expire_families iv now fs)"
  proof
    assume "n \<in> fst ` set (expire_families iv now fs)"
    then obtain f' where "(n, f') \<in> set (expire_families iv now fs)" by auto
    then show False using 2(3) by (force simp: set_expire_families)
  qed
  with 2 show ?case by (auto split: option.split)
qed simp

text \<open>The invariant: no family is empty and no label that a sample carries is counted out.\<close>

definition carries :: "sample \<Rightarrow> string \<Rightarrow> bool" where
  "carries s k \<longleftrightarrow> k \<in> set (keys_of (sa_Labels s))"

fun carriers :: "(string, sample) gomap \<Rightarrow> string \<Rightarrow> int" where
  "carriers [] k = 0"
| "carriers ((i, s) # ss) k = (if carries s k then 1 else 0) + carriers ss k"

definition counted :: "family \<Rightarrow> bool" where
  "counted f \<longleftrightarrow> gomap_ok (fa_Samples f) \<and> gomap_ok (fa_LabelSet f)
     \<and> (\<forall>(i, s) \<in> set (fa_Samples f). gomap_ok (sa_Labels s))
     \<and> (\<forall>k. carriers (fa_Samples f) k \<le> label_count (fa_LabelSet f) k)"

definition prometheus_ok :: "prometheus \<Rightarrow> bool" where
  "prometheus_ok p \<longleftrightarrow> gomap_ok (pc_fam p) \<and> (\<forall>(n, f) \<in> set (pc_fam p). fa_Samples f \<noteq> [] \<and> counted f)"

lemma add_labels_ok [simp]: "gomap_ok ls \<Longrightarrow> gomap_ok (add_labels d ks ls)"
  unfolding add_labels_def by (induction ks arbitrary: ls) (simp_all add: gomap_ok_update)

lemma label_count_add:
  "distinct ks \<Longrightarrow> label_count (add_labels d ks ls) k = label_count ls k + (if k \<in> set ks then d else 0)"
proof (induction ks arbitrary: ls)
  case (Cons x ks)
  have "label_count (add_labels d ks (AList.update x (label_count ls x + d) ls)) k =
      label_count (AList.update x (label_count ls x + d) ls) k + (if k \<in> set ks then d else 0)"
    using Cons by simp
  then show ?case using Cons.prems by (auto simp: add_labels_def label_count_def map_laws)
qed (simp add: add_labels_def)

lemma carriers_update:
  "carriers (AList.update i s ss) k \<le> carriers ss k + (if carries s k then 1 else 0)"
  by (induction ss k rule: carriers.induct) auto

lemma carriers_delete:
  assumes "map_of ss i = Some s"
  shows "carriers (AList.delete i ss) k \<le> carriers ss k - (if carries s k then 1 else 0)"
  using assms
proof (induction ss k rule: carriers.induct)
  case (2 j s' ss k)
  have le: "carriers (AList.delete i ss) k \<le> carriers ss k" for ss
    by (induction ss k rule: carriers.induct) auto
  show ?case using 2 le [of ss] by (auto split: if_splits)
qed simp

lemma label_count_carries:
  "gomap_ok (sa_Labels s) \<Longrightarrow>
   label_count (add_labels d (keys_of (sa_Labels s)) ls) k = label_count ls k + (if carries s k then d else 0)"
  by (simp only: label_count_add carries_def)

lemma set_AList_update: "x \<in> set (AList.update k v m) \<Longrightarrow> x = (k, v) \<or> x \<in> set m"
  by (induction m) (auto split: if_splits)

lemma counted_addSample:
  assumes "counted f" "gomap_ok (sa_Labels s)"
  shows "counted (addSample s i f) \<and> fa_Samples (addSample s i f) \<noteq> []"
proof -
  have "carriers (AList.update i s (fa_Samples f)) k \<le> label_count (add_labels 1 (keys_of (sa_Labels s)) (fa_LabelSet f)) k" for k
  proof -
    have "carriers (fa_Samples f) k \<le> label_count (fa_LabelSet f) k" using assms(1) by (simp add: counted_def)
    then show ?thesis using carriers_update [of i s "fa_Samples f" k] label_count_carries [OF assms(2), of 1 "fa_LabelSet f" k] by linarith
  qed
  moreover have "\<forall>(i, s) \<in> set (AList.update i s (fa_Samples f)). gomap_ok (sa_Labels s)"
    using assms by (auto simp: counted_def dest!: set_AList_update)
  moreover have "AList.update i s (fa_Samples f) \<noteq> []" by (cases "fa_Samples f") auto
  ultimately show ?thesis using assms(1) by (simp add: addSample_def counted_def gomap_ok_update)
qed

lemma counted_new [simp]: "counted (new_family tp)"
  by (simp add: new_family_def counted_def label_count_def)

lemma prometheus_ok_add:
  assumes "prometheus_ok p" "gomap_ok (sa_Labels s)"
  shows "prometheus_ok (addMetricFamily m s n i p)"
proof -
  define f where "f = (case map_of (pc_fam p) n of Some f \<Rightarrow> f | None \<Rightarrow> new_family (m_tp m))"
  have "counted f"
    using assms(1) by (auto simp: f_def prometheus_ok_def dest: map_of_SomeD split: option.split)
  from counted_addSample [OF this assms(2)] assms(1) show ?thesis
    by (auto simp: addMetricFamily_def prometheus_ok_def gomap_ok_update f_def [symmetric] Let_def dest!: set_AList_update)
qed

lemma gomap_ok_point_labels [simp]: "gomap_ok (point_labels sal m)"
proof -
  have strs: "gomap_ok ls \<Longrightarrow> gomap_ok (fold (\<lambda>(fn, fv) ls. case fv of GString v \<Rightarrow> AList.update (pc_sanitize fn) v ls | _ \<Rightarrow> ls) kvs ls)"
    for kvs :: "(string \<times> gval) list" and ls
    by (induction kvs arbitrary: ls) (auto simp: gomap_ok_update split: gval.split)
  have "gomap_ok ls \<Longrightarrow> gomap_ok (fold (\<lambda>(k, v). AList.update (pc_sanitize k) v) kvs ls)" for kvs ls
    by (induction kvs arbitrary: ls) (auto simp: gomap_ok_update)
  from this [of "[]" "Tags m"] strs show ?thesis by (simp add: point_labels_def Let_def)
qed

lemma sample_labels [simp]:
  "sa_Labels (blank_sample p now m) = point_labels (pc_StringAsLabel p) m"
  "sa_Labels (summary_sample conv p now m) = point_labels (pc_StringAsLabel p) m"
  "sa_Labels (histogram_sample conv p now m) = point_labels (pc_StringAsLabel p) m"
  by (simp_all add: blank_sample_def summary_sample_def histogram_sample_def split: prod.split)

lemma prometheus_ok_write_point: "prometheus_ok p \<Longrightarrow> prometheus_ok (write_point conv now m p)"
proof -
  assume p: "prometheus_ok p"
  have "prometheus_ok (write_value now m kv p)" if "prometheus_ok p" for kv p
    using that by (simp add: write_value_def prometheus_ok_add split: option.split)
  then have "prometheus_ok (fold (write_value now m) kvs p)" for kvs
    using p by (induction kvs arbitrary: p) simp_all
  then show ?thesis using p by (cases "m_tp m") (simp_all add: write_point_def prometheus_ok_add)
qed

lemma prometheus_ok_Write: "prometheus_ok p \<Longrightarrow> prometheus_ok (pc_Write conv now ms p)"
  unfolding pc_Write_def by (induction ms arbitrary: p) (simp_all add: prometheus_ok_write_point)

lemma counted_expire_sample:
  assumes "counted (fst fb)" "map_of (fa_Samples (fst fb)) i = Some s"
  shows "counted (fst (expire_sample iv now (i, s) fb))"
proof (cases "expired iv now s")
  case True
  have s: "gomap_ok (sa_Labels s)" using assms by (auto simp: counted_def dest: map_of_SomeD)
  have "carriers (AList.delete i (fa_Samples (fst fb))) k
      \<le> label_count (add_labels (-1) (keys_of (sa_Labels s)) (fa_LabelSet (fst fb))) k" for k
  proof -
    have "carriers (fa_Samples (fst fb)) k \<le> label_count (fa_LabelSet (fst fb)) k" using assms(1) by (simp add: counted_def)
    then show ?thesis
      using carriers_delete [OF assms(2), of k] label_count_carries [OF s, of "-1" "fa_LabelSet (fst fb)" k] by (auto split: if_splits)
  qed
  moreover have "set (AList.delete i (fa_Samples (fst fb))) \<subseteq> set (fa_Samples (fst fb))"
    by (auto simp: AList.delete_eq)
  ultimately show ?thesis using assms(1) True
    by (auto simp: expire_sample_def counted_def Let_def gomap_ok_delete)
qed (use assms in \<open>simp add: expire_sample_def\<close>)

lemma counted_expire_fold:
  "counted (fst fb) \<Longrightarrow> gomap_ok xs \<Longrightarrow> (\<forall>(i, s) \<in> set xs. map_of (fa_Samples (fst fb)) i = Some s) \<Longrightarrow>
   counted (fst (fold (expire_sample iv now) xs fb))"
proof (induction xs arbitrary: fb)
  case (Cons x xs)
  obtain i s where x: "x = (i, s)" by force
  have "counted (fst (expire_sample iv now x fb))"
    using Cons.prems by (auto simp: x intro: counted_expire_sample)
  moreover have "\<forall>(j, t) \<in> set xs. map_of (fa_Samples (fst (expire_sample iv now x fb))) j = Some t"
    using Cons.prems by (auto simp: x expire_sample_def map_laws Let_def rev_image_eqI)
  ultimately show ?case using Cons.IH Cons.prems(2) by simp
qed simp

lemma expire_family_counted:
  assumes "expire_family iv now f = Some f'" "counted f" "fa_Samples f \<noteq> []"
  shows "counted f' \<and> fa_Samples f' \<noteq> []"
proof -
  let ?r = "fold (expire_sample iv now) (fa_Samples f) (f, False)"
  have "counted (fst ?r)"
    using assms(2) by (intro counted_expire_fold) (auto simp: counted_def)
  moreover have "snd ?r \<longleftrightarrow> fa_Samples (fst ?r) = []" using assms(3) by (intro expire_gone) simp
  ultimately show ?thesis using assms(1) by (cases ?r) (auto simp: expire_family_def split: if_splits)
qed

lemma prometheus_ok_Expire: "prometheus_ok p \<Longrightarrow> prometheus_ok (Expire now p)"
  using expire_family_counted
  by (fastforce simp: prometheus_ok_def Expire_def gomap_ok_expire_families set_expire_families)

lemma live_Expire:
  assumes "prometheus_ok p"
  shows "live (Expire now p) = (\<lambda>k. live_in (pc_ExpirationInterval p) now (live p k))"
proof
  fix k
  show "live (Expire now p) k = live_in (pc_ExpirationInterval p) now (live p k)"
  proof (cases "map_of (pc_fam p) (fst k)")
    case None
    then show ?thesis using assms by (simp add: live_def Expire_def map_of_expire_families prometheus_ok_def live_in_def)
  next
    case (Some f)
    with assms have f: "gomap_ok (fa_Samples f)" "fa_Samples f \<noteq> []" "gomap_ok (pc_fam p)"
      by (auto simp: prometheus_ok_def counted_def dest: map_of_SomeD)
    show ?thesis using Some f(3)
      by (simp add: live_def Expire_def map_of_expire_families expire_family_samples [OF f(1,2)])
  qed
qed

subsection \<open>Histories\<close>

datatype pc_op = PWrite int "metric list" | PCollect int

fun pc_step :: "(f64 \<Rightarrow> u64) \<Rightarrow> pc_op \<Rightarrow> prometheus \<Rightarrow> prometheus" where
  "pc_step conv (PWrite now ms) p = pc_Write conv now ms p"
| "pc_step conv (PCollect now) p = fst (pc_Collect now p)"

definition exporter :: "int \<Rightarrow> bool \<Rightarrow> prometheus" where
  "exporter iv sal = new_prometheus\<lparr>pc_ExpirationInterval := iv, pc_StringAsLabel := sal\<rparr>"

fun series_step :: "(f64 \<Rightarrow> u64) \<Rightarrow> prometheus \<Rightarrow> pc_op \<Rightarrow> (string \<times> string \<Rightarrow> sample option) \<Rightarrow> string \<times> string \<Rightarrow> sample option" where
  "series_step conv q (PWrite now ms) st = overlay (concat (List.map (point_samples conv q now) ms)) st"
| "series_step conv q (PCollect now) st = (\<lambda>k. live_in (pc_ExpirationInterval q) now (st k))"

lemma same_config_Expire [simp]: "same_config (Expire now p) q \<longleftrightarrow> same_config p q"
  by (simp add: Expire_def same_config_def)

lemma prometheus_ok_step: "prometheus_ok p \<Longrightarrow> prometheus_ok (pc_step conv op p)"
  by (cases op) (simp_all add: prometheus_ok_Write prometheus_ok_Expire pc_Collect_def Let_def)


lemma prometheus_ok_exporter [simp]: "prometheus_ok (exporter iv sal)"
  by (simp add: prometheus_ok_def exporter_def new_prometheus_def)

lemma live_step:
  assumes "prometheus_ok p" "same_config p q"
  shows "live (pc_step conv op p) = series_step conv q op (live p) \<and> same_config (pc_step conv op p) q"
proof (cases op)
  case (PWrite now ms)
  then show ?thesis using live_Write [OF assms(2)] by simp
next
  case (PCollect now)
  then show ?thesis using live_Expire [OF assms(1)] assms(2) by (auto simp: pc_Collect_def Let_def same_config_def Expire_def)
qed

lemma live_history:
  "live (fold (pc_step conv) ops (exporter iv sal)) = fold (series_step conv (exporter iv sal)) ops (\<lambda>_. None)
   \<and> same_config (fold (pc_step conv) ops (exporter iv sal)) (exporter iv sal)"
proof -
  let ?q = "exporter iv sal"
  have "prometheus_ok p \<Longrightarrow> same_config p ?q \<Longrightarrow>
    live (fold (pc_step conv) ops p) = fold (series_step conv ?q) ops (live p) \<and> same_config (fold (pc_step conv) ops p) ?q" for p
  proof (induction ops arbitrary: p)
    case (Cons op ops)
    from live_step [OF Cons.prems] have 1: "live (pc_step conv op p) = series_step conv ?q op (live p)" "same_config (pc_step conv op p) ?q"
      by auto
    show ?case using Cons.IH [OF prometheus_ok_step [OF Cons.prems(1)] 1(2)] by (simp add: 1(1))
  qed simp
  moreover have "live ?q = (\<lambda>_. None)" by (rule ext) (simp add: live_def exporter_def new_prometheus_def)
  moreover have "same_config ?q ?q" by (simp add: same_config_def)
  ultimately show ?thesis by (metis prometheus_ok_exporter)
qed

text \<open>
  C28. The exporter is a map from series (the name of a family and the tags) to samples: whatever
  is written and collected, in any order, it holds for each series the sample written last, unless
  a collection found it expired since; that it keeps families with label counts and deletes
  empty ones does not show.
\<close>

theorem prometheus_refines:
  "live (fold (pc_step conv) ops (exporter iv sal)) = fold (series_step conv (exporter iv sal)) ops (\<lambda>_. None)"
  using live_history by blast






definition demo_point :: "string \<Rightarrow> strmap \<Rightarrow> int \<Rightarrow> metric" where
  "demo_point n tags v = New n tags [(''value'', GInt64 (word_of_int v))] 0 (Some Gauge)"


text \<open>
  Writing a series again counts its labels again, but they are counted out once: a label stays in its
  family after the last sample that carried it has expired, and is then reported empty.
\<close>

lemma label_outlives_samples:
  "case pc_Collect 12 (fold (pc_step (\<lambda>_. 0)) [PWrite 0 [demo_point ''mem'' [(''host'', ''a'')] 1], PWrite 1 [demo_point ''mem'' [(''host'', ''a'')] 1],
      PWrite 8 [demo_point ''mem'' [(''dc'', ''b'')] 2]] (exporter 5 True)) of
   (p, out) \<Rightarrow> List.map pm_labelNames out = [[''host'', ''dc'']] \<and> List.map pm_labels out = [['''', ''b'']]"
  by code_simp

text \<open>A family keeps the type of its first point: a summary that comes later is reported as a plain zero.\<close>

lemma family_type_sticks:
  "List.map pm_value (snd (pc_Collect 1 (pc_Write (\<lambda>_. 0) 0
     [demo_point ''rpc'' [] 7, New ''rpc'' [] [(''sum'', GInt64 9), (''count'', GInt64 3)] 0 (Some Summary)] (exporter 5 True)))) =
   [ConstMetric GaugeValue f_zero]"
  by code_simp

lemma sample_id_collides:
  "CreateSampleID [(''a'', ''b,c=d'')] = CreateSampleID [(''a'', ''b''), (''c'', ''d'')]"
  by code_simp

end
