(* ===== verification/RunningStats.thy ===== *)
theory RunningStats
  imports GoFloat Prelude
begin

section \<open>Running statistics of a statsd timing\<close>

text \<open>
  \<open>plugins/inputs/statsd/running_stats.go\<close>: count, sum, bounds, running mean and variance, and a
  sample of the values for percentiles. When the sample is full a value at a random index is
  overwritten: the random source is the parameter \<open>rand\<close>, a function on a state of any type that
  gives an index below its argument. The implementation-defined conversion of an out-of-range float
  is \<open>impl\<close>.
\<close>

type_synonym 'g random = "nat \<Rightarrow> 'g \<Rightarrow> nat \<times> 'g"

definition defaultPercentileLimit :: int where
  "defaultPercentileLimit = 1000"

record running_stats =
  rs_k :: f64
  rs_n :: i64
  rs_ex :: f64
  rs_ex2 :: f64
  rs_perc :: "f64 list"
  rs_PercLimit :: int
  rs_sum :: f64
  rs_lower :: f64
  rs_upper :: f64
  rs_sorted :: bool

definition new_stats :: "int \<Rightarrow> running_stats" where
  "new_stats limit = \<lparr>rs_k = f_zero, rs_n = 0, rs_ex = f_zero, rs_ex2 = f_zero, rs_perc = [], rs_PercLimit = limit,
     rs_sum = f_zero, rs_lower = f_zero, rs_upper = f_zero, rs_sorted = False\<rparr>"

text \<open>The part of \<open>AddValue\<close> for the first value; making a slice of negative capacity panics.\<close>

definition first_value :: "f64 \<Rightarrow> running_stats \<Rightarrow> running_stats result" where
  "first_value v rs =
     (let limit = (if rs_PercLimit rs = 0 then defaultPercentileLimit else rs_PercLimit rs)
      in if limit < 0 then Inl (Panic ''makeslice: cap out of range'')
         else Inr (rs\<lparr>rs_k := v, rs_upper := v, rs_lower := v, rs_PercLimit := limit, rs_perc := []\<rparr>))"

definition AddValue :: "'g random \<Rightarrow> f64 \<Rightarrow> 'g \<times> running_stats \<Rightarrow> ('g \<times> running_stats) result" where
  "AddValue rand v grs =
     (case grs of (g, rs0) \<Rightarrow>
        let rs1 = rs0\<lparr>rs_sorted := False\<rparr>
        in res_bind (if rs_n rs1 = 0 then first_value v rs1 else Inr rs1) (\<lambda>rs2.
          let d = f_sub v (rs_k rs2);
              rs3 = rs2\<lparr>rs_n := rs_n rs2 + 1, rs_ex := f_add (rs_ex rs2) d, rs_ex2 := f_add (rs_ex2 rs2) (f_mul d d),
                        rs_sum := f_add (rs_sum rs2) v\<rparr>;
              rs4 = (if f_lt (rs_upper rs3) v then rs3\<lparr>rs_upper := v\<rparr>
                     else if f_lt v (rs_lower rs3) then rs3\<lparr>rs_lower := v\<rparr> else rs3)
          in if int (length (rs_perc rs4)) < rs_PercLimit rs4 then Inr (g, rs4\<lparr>rs_perc := rs_perc rs4 @ [v]\<rparr>)
             else case rand (length (rs_perc rs4)) g of
               (i, g') \<Rightarrow> Inr (g', rs4\<lparr>rs_perc := (rs_perc rs4)[i := v]\<rparr>)))"

definition Mean :: "running_stats \<Rightarrow> f64" where
  "Mean rs = f_add (rs_k rs) (f_div (rs_ex rs) (f64_of_int (sint (rs_n rs))))"

definition Variance :: "running_stats \<Rightarrow> f64" where
  "Variance rs =
     (let n = f64_of_int (sint (rs_n rs))
      in f_div (f_sub (rs_ex2 rs) (f_div (f_mul (rs_ex rs) (rs_ex rs)) n)) n)"

definition Stddev :: "running_stats \<Rightarrow> f64" where
  "Stddev rs = f_sqrt (Variance rs)"

definition clamp :: "int \<Rightarrow> int \<Rightarrow> int \<Rightarrow> int" where
  "clamp i lo hi = (if i < lo then lo else if i > hi then hi else i)"

text \<open>\<open>Percentile\<close> sorts the sample once and remembers that it did.\<close>

definition Percentile :: "(f64 \<Rightarrow> i64) \<Rightarrow> int \<Rightarrow> running_stats \<Rightarrow> (running_stats \<times> f64) result" where
  "Percentile impl n0 rs =
     (let n = (if n0 > 100 then 100 else n0);
          rs1 = (if rs_sorted rs then rs else rs\<lparr>rs_perc := sort_floats (rs_perc rs), rs_sorted := True\<rparr>);
          len = int (length (rs_perc rs1));
          i = sint (f64_to_i64 impl (f_div (f_mul (f64_of_int len) (f64_of_int n)) (f64_of_int 100)));
          j = clamp i 0 (len - 1)
      in if j < 0 \<or> j \<ge> len then Inl (Panic ''index out of range'')
         else Inr (rs1, rs_perc rs1 ! nat j))"

subsection \<open>What is known after any values\<close>

text \<open>One value after the other.\<close>

fun add_values :: "'g random \<Rightarrow> f64 list \<Rightarrow> 'g \<times> running_stats \<Rightarrow> ('g \<times> running_stats) result" where
  "add_values rand [] grs = Inr grs"
| "add_values rand (v # vs) grs = res_bind (AddValue rand v grs) (add_values rand vs)"

text \<open>
  After the values \<open>vs\<close>: the count, the sum in order, the bounds, and a sample of them that is not
  empty and no larger than the limit.
\<close>

definition stats_after :: "f64 list \<Rightarrow> running_stats \<Rightarrow> bool" where
  "stats_after vs rs \<longleftrightarrow> vs \<noteq> [] \<and> rs_n rs = of_nat (length vs) \<and> rs_sum rs = foldl f_add f_zero vs
     \<and> rs_lower rs \<in> set vs \<and> rs_upper rs \<in> set vs
     \<and> (no_nan vs \<longrightarrow> (\<forall>v \<in> set vs. f_le (rs_lower rs) v \<and> f_le v (rs_upper rs)))
     \<and> rs_perc rs \<noteq> [] \<and> set (rs_perc rs) \<subseteq> set vs \<and> 0 < rs_PercLimit rs \<and> int (length (rs_perc rs)) \<le> rs_PercLimit rs"

lemma stats_after_first:
  assumes "0 \<le> limit" "rs_n rs = 0" "rs_PercLimit rs = limit" "rs_sum rs = f_zero"
  obtains rs' where "AddValue rand v (g, rs) = Inr (g, rs')" "stats_after [v] rs'"
proof -
  define rs' where "rs' = (let l = (if limit = 0 then defaultPercentileLimit else limit); d = f_sub v v in
    rs\<lparr>rs_sorted := False, rs_k := v, rs_upper := v, rs_lower := v, rs_PercLimit := l,
       rs_n := 1, rs_ex := f_add (rs_ex rs) d, rs_ex2 := f_add (rs_ex2 rs) (f_mul d d), rs_sum := f_add f_zero v, rs_perc := [v]\<rparr>)"
  have "AddValue rand v (g, rs) = Inr (g, rs')"
    using assms by (simp add: AddValue_def first_value_def rs'_def Let_def defaultPercentileLimit_def)
  moreover have "stats_after [v] rs'"
    using assms(1) by (auto simp: stats_after_def rs'_def Let_def defaultPercentileLimit_def f_le_refl)
  ultimately show ?thesis by (rule that)
qed

lemma stats_after_next:
  assumes "stats_after vs rs" "length vs < 2 ^ 63"
  obtains g' rs' where "AddValue rand v (g, rs) = Inr (g', rs')" "stats_after (vs @ [v]) rs'"
proof -
  have n: "rs_n rs \<noteq> 0"
  proof
    assume "rs_n rs = 0"
    then have "(of_nat (length vs) :: i64) = 0" using assms(1) by (simp add: stats_after_def)
    then have "length vs mod 2 ^ 64 = 0" by (simp add: word_of_nat_eq_0_iff take_bit_eq_mod)
    with assms(1,2) show False by (simp add: stats_after_def)
  qed
  define d where "d = f_sub v (rs_k rs)"
  define rs3 where "rs3 = rs\<lparr>rs_sorted := False, rs_n := rs_n rs + 1, rs_ex := f_add (rs_ex rs) d,
      rs_ex2 := f_add (rs_ex2 rs) (f_mul d d), rs_sum := f_add (rs_sum rs) v\<rparr>"
  define rs4 where "rs4 = (if f_lt (rs_upper rs3) v then rs3\<lparr>rs_upper := v\<rparr>
      else if f_lt v (rs_lower rs3) then rs3\<lparr>rs_lower := v\<rparr> else rs3)"
  have same: "rs_perc rs4 = rs_perc rs" "rs_PercLimit rs4 = rs_PercLimit rs" "rs_n rs4 = rs_n rs + 1"
    "rs_sum rs4 = f_add (rs_sum rs) v" by (simp_all add: rs4_def rs3_def)
  have bounds: "rs_lower rs4 \<in> set (vs @ [v])" "rs_upper rs4 \<in> set (vs @ [v])"
    "no_nan (vs @ [v]) \<longrightarrow> (\<forall>w \<in> set (vs @ [v]). f_le (rs_lower rs4) w \<and> f_le w (rs_upper rs4))"
  proof -
    show "rs_lower rs4 \<in> set (vs @ [v])" "rs_upper rs4 \<in> set (vs @ [v])"
      using assms(1) by (auto simp: rs4_def rs3_def stats_after_def)
    show "no_nan (vs @ [v]) \<longrightarrow> (\<forall>w \<in> set (vs @ [v]). f_le (rs_lower rs4) w \<and> f_le w (rs_upper rs4))"
    proof
      assume nn: "no_nan (vs @ [v])"
      then have old: "\<forall>w \<in> set vs. f_le (rs_lower rs) w \<and> f_le w (rs_upper rs)" "rs_lower rs \<in> set vs" "rs_upper rs \<in> set vs"
        using assms(1) by (simp_all add: stats_after_def)
      have num: "\<not> is_nan v" "\<not> is_nan (rs_lower rs)" "\<not> is_nan (rs_upper rs)"
        using nn old(2,3) by (auto simp: list_all_iff)
      have vle: "\<not> f_lt (rs_upper rs) v \<Longrightarrow> f_le v (rs_upper rs)" "\<not> f_lt v (rs_lower rs) \<Longrightarrow> f_le (rs_lower rs) v"
        using f_not_lt_le num by blast+
      have lv: "f_lt (rs_upper rs) v \<Longrightarrow> f_le (rs_lower rs) v"
        using old f_le_trans f_lt_imp_le by blast
      show "\<forall>w \<in> set (vs @ [v]). f_le (rs_lower rs4) w \<and> f_le w (rs_upper rs4)"
      proof
        fix w assume w: "w \<in> set (vs @ [v])"
        show "f_le (rs_lower rs4) w \<and> f_le w (rs_upper rs4)"
        proof (cases "w = v")
          case True
          with vle lv num f_le_refl show ?thesis by (simp add: rs4_def rs3_def)
        next
          case False
          with w old have "f_le (rs_lower rs) w" "f_le w (rs_upper rs)" by auto
          moreover from this have "f_lt (rs_upper rs) v \<Longrightarrow> f_le w v" "f_lt v (rs_lower rs) \<Longrightarrow> f_le v w"
            using f_le_trans f_lt_imp_le by blast+
          ultimately show ?thesis by (simp add: rs4_def rs3_def)
        qed
      qed
    qed
  qed
  have old: "rs_perc rs \<noteq> []" "set (rs_perc rs) \<subseteq> set vs" "0 < rs_PercLimit rs" "int (length (rs_perc rs)) \<le> rs_PercLimit rs"
    "rs_n rs = of_nat (length vs)" "rs_sum rs = foldl f_add f_zero vs"
    using assms(1) by (simp_all add: stats_after_def)
  have step: "AddValue rand v (g, rs) =
      (if int (length (rs_perc rs4)) < rs_PercLimit rs4 then Inr (g, rs4\<lparr>rs_perc := rs_perc rs4 @ [v]\<rparr>)
       else case rand (length (rs_perc rs4)) g of (i, g') \<Rightarrow> Inr (g', rs4\<lparr>rs_perc := (rs_perc rs4)[i := v]\<rparr>))"
    using n by (simp add: AddValue_def rs4_def rs3_def d_def Let_def)
  have after: "stats_after (vs @ [v]) (rs4\<lparr>rs_perc := p\<rparr>)"
    if "p \<noteq> []" "set p \<subseteq> set (vs @ [v])" "int (length p) \<le> rs_PercLimit rs" for p
    using that bounds old same by (simp add: stats_after_def)
  show ?thesis
  proof (cases "int (length (rs_perc rs)) < rs_PercLimit rs")
    case True
    with step same have "AddValue rand v (g, rs) = Inr (g, rs4\<lparr>rs_perc := rs_perc rs4 @ [v]\<rparr>)" by simp
    moreover have "stats_after (vs @ [v]) (rs4\<lparr>rs_perc := rs_perc rs4 @ [v]\<rparr>)"
      using old True same(1) by (intro after) auto
    ultimately show ?thesis by (rule that)
  next
    case False
    obtain i g' where i: "rand (length (rs_perc rs)) g = (i, g')" by force
    with step same False have "AddValue rand v (g, rs) = Inr (g', rs4\<lparr>rs_perc := (rs_perc rs4)[i := v]\<rparr>)" by simp
    moreover have "stats_after (vs @ [v]) (rs4\<lparr>rs_perc := (rs_perc rs4)[i := v]\<rparr>)"
      using old same(1) set_update_subset_insert [of "rs_perc rs" i v] by (intro after) auto
    ultimately show ?thesis by (rule that)
  qed
qed

lemma add_values_next:
  "stats_after ws rs \<Longrightarrow> length ws + length vs < 2 ^ 63 \<Longrightarrow>
    \<exists>g' rs'. add_values rand vs (g, rs) = Inr (g', rs') \<and> stats_after (ws @ vs) rs'"
proof (induction vs arbitrary: ws g rs)
  case (Cons v vs)
  then have "length ws < 2 ^ 63" by simp
  from stats_after_next [OF Cons.prems(1) this, where rand = rand and v = v and g = g] obtain g1 rs1 where
    1: "AddValue rand v (g, rs) = Inr (g1, rs1)" "stats_after (ws @ [v]) rs1" by blast
  have "length (ws @ [v]) + length vs < 2 ^ 63" using Cons.prems(2) by simp
  from Cons.IH [OF 1(2) this, of g1] obtain g' rs' where
    "add_values rand vs (g1, rs1) = Inr (g', rs')" "stats_after ((ws @ [v]) @ vs) rs'" by blast
  with 1(1) show ?case by simp
qed simp

lemma add_values_after:
  assumes "vs \<noteq> []" "length vs < 2 ^ 63" "0 \<le> limit"
  obtains g' rs where "add_values rand vs (g, new_stats limit) = Inr (g', rs)" "stats_after vs rs"
proof -
  obtain v ws where vs: "vs = v # ws" using assms(1) by (cases vs) auto
  have init: "rs_n (new_stats limit) = 0" "rs_PercLimit (new_stats limit) = limit" "rs_sum (new_stats limit) = f_zero"
    by (simp_all add: new_stats_def)
  obtain rs1 where 1: "AddValue rand v (g, new_stats limit) = Inr (g, rs1)" "stats_after [v] rs1"
    using stats_after_first [OF assms(3) init, where rand = rand and v = v and g = g] by blast
  have "length [v] + length ws < 2 ^ 63" using assms(2) by (simp add: vs)
  from add_values_next [OF 1(2) this, where g = g and rand = rand] obtain g' rs where
    "add_values rand ws (g, rs1) = Inr (g', rs)" "stats_after ([v] @ ws) rs" by blast
  with 1(1) that show ?thesis by (simp add: vs)
qed

lemma Percentile_after:
  assumes "stats_after vs rs"
  obtains rs' x where "Percentile impl p rs = Inr (rs', x)" "x \<in> set vs"
proof -
  define rs1 where "rs1 = (if rs_sorted rs then rs else rs\<lparr>rs_perc := sort_floats (rs_perc rs), rs_sorted := True\<rparr>)"
  define j where "j = clamp (sint (f64_to_i64 impl (f_div (f_mul (f64_of_int (int (length (rs_perc rs1))))
      (f64_of_int (if p > 100 then 100 else p))) (f64_of_int 100)))) 0 (int (length (rs_perc rs1)) - 1)"
  have perc: "rs_perc rs1 \<noteq> []" "set (rs_perc rs1) \<subseteq> set vs"
  proof -
    show "set (rs_perc rs1) \<subseteq> set vs" using assms by (simp add: stats_after_def rs1_def)
    have "length (rs_perc rs1) = length (rs_perc rs)" by (simp add: rs1_def)
    with assms show "rs_perc rs1 \<noteq> []" by (auto simp: stats_after_def)
  qed
  then have j: "0 \<le> j" "j < int (length (rs_perc rs1))" by (auto simp: j_def clamp_def)
  then have "Percentile impl p rs = Inr (rs1, rs_perc rs1 ! nat j)"
    by (simp add: Percentile_def rs1_def [symmetric] j_def [symmetric] Let_def)
  moreover have "rs_perc rs1 ! nat j \<in> set vs" using perc(2) j by (simp add: subset_iff nat_less_iff)
  ultimately show ?thesis by (rule that)
qed

text \<open>
  After any values the statistics hold their number and their sum in order, the bounds are
  values that enclose all of them, unless one is NaN, and every percentile, of any number, is one
  of the values; nothing panics, however many values there were and whatever the random source
  overwrote.
\<close>

theorem percentile_is_sample:
  assumes "vs \<noteq> []" "length vs < 2 ^ 63" "0 \<le> limit"
  shows "\<exists>g' rs rs' x. add_values rand vs (g, new_stats limit) = Inr (g', rs) \<and> Percentile impl p rs = Inr (rs', x)
    \<and> sint (rs_n rs) = int (length vs) \<and> rs_sum rs = foldl f_add f_zero vs
    \<and> x \<in> set vs \<and> rs_lower rs \<in> set vs \<and> rs_upper rs \<in> set vs
    \<and> (no_nan vs \<longrightarrow> f_le (rs_lower rs) x \<and> f_le x (rs_upper rs))"
proof -
  obtain g' rs where rs: "add_values rand vs (g, new_stats limit) = Inr (g', rs)" "stats_after vs rs"
    by (rule add_values_after [OF assms, where rand = rand and g = g])
  obtain rs' x where p: "Percentile impl p rs = Inr (rs', x)" "x \<in> set vs"
    by (rule Percentile_after [OF rs(2), where impl = impl and p = p])
  have n: "sint (rs_n rs) = int (length vs)"
  proof -
    have "rs_n rs = word_of_int (int (length vs))" using rs(2) by (simp add: stats_after_def)
    moreover have "- (2 ^ 63) \<le> int (length vs)" "int (length vs) < 2 ^ 63" using assms(2) by simp_all
    ultimately show ?thesis by (simp only: sint_word_of_int)
  qed
  have "rs_sum rs = foldl f_add f_zero vs \<and> x \<in> set vs \<and> rs_lower rs \<in> set vs \<and> rs_upper rs \<in> set vs
    \<and> (no_nan vs \<longrightarrow> f_le (rs_lower rs) x \<and> f_le x (rs_upper rs))"
    using rs(2) p(2) by (simp add: stats_after_def)
  with rs(1) p(1) n show ?thesis by blast
qed

theorem percentile_is_sample_witness:
  "\<exists>g' rs rs' x. add_values (\<lambda>l (g::unit). (0, g)) [f64_of_int 3, f64_of_int 1] ((), new_stats 1) = Inr (g', rs)
    \<and> Percentile (\<lambda>_. 0) 90 rs = Inr (rs', x) \<and> x \<in> set [f64_of_int 3, f64_of_int 1]"
proof -
  have "[f64_of_int 3, f64_of_int 1] \<noteq> []" "length [f64_of_int 3, f64_of_int 1] < 2 ^ 63" "(0::int) \<le> 1" by simp_all
  from percentile_is_sample [OF this, where rand = "\<lambda>l (g::unit). (0, g)" and g = "()" and impl = "\<lambda>_. 0" and p = 90]
  show ?thesis by blast
qed

end
