(* ===== verification/Selfstat.thy ===== *)
theory Selfstat
  imports Metric
begin

section \<open>Internal statistics\<close>

text \<open>
  \<open>selfstat/selfstat.go\<close>, \<open>stat.go\<close> and \<open>timingStat.go\<close>: the registry of the agent's own counters.
  The registry maps the key of a measurement with its tags to its fields; a statistic is shared by
  everyone who registers it, so the registry holds the statistics themselves and a handle is the
  pair of its key and field name. Each statistic is updated under a lock or atomically.
\<close>

subsection \<open>Statistics\<close>

record stat =
  st_v :: i64
  st_measurement :: string
  st_field :: string
  st_tags :: strmap

record timing_stat = stat +
  ts_prev :: i64
  ts_count :: i64

datatype a_stat = Plain stat | Timing timing_stat

definition Incr_plain :: "i64 \<Rightarrow> stat \<Rightarrow> stat" where
  "Incr_plain v s = s\<lparr>st_v := st_v s + v\<rparr>"

definition Incr_timing :: "i64 \<Rightarrow> timing_stat \<Rightarrow> timing_stat" where
  "Incr_timing v s = s\<lparr>st_v := st_v s + v, ts_count := ts_count s + 1\<rparr>"

text \<open>Go's integer division truncates towards zero.\<close>

definition go_div :: "i64 \<Rightarrow> i64 \<Rightarrow> i64" where
  "go_div a b = word_of_int (sgn (sint a) * sgn (sint b) * (\<bar>sint a\<bar> div \<bar>sint b\<bar>))"

definition Get_timing :: "timing_stat \<Rightarrow> timing_stat \<times> i64" where
  "Get_timing s =
     (if 0 <s ts_count s
      then (let avg = go_div (st_v s) (ts_count s) in (s\<lparr>ts_prev := avg, st_v := 0, ts_count := 0\<rparr>, avg))
      else (s, ts_prev s))"

fun Incr :: "i64 \<Rightarrow> a_stat \<Rightarrow> a_stat" where
  "Incr v (Plain s) = Plain (Incr_plain v s)"
| "Incr v (Timing s) = Timing (Incr_timing v s)"

fun Set :: "i64 \<Rightarrow> a_stat \<Rightarrow> a_stat" where
  "Set v (Plain s) = Plain (s\<lparr>st_v := v\<rparr>)"
| "Set v (Timing s) = Timing (Incr_timing v s)"

fun Get :: "a_stat \<Rightarrow> a_stat \<times> i64" where
  "Get (Plain s) = (Plain s, st_v s)"
| "Get (Timing s) = (case Get_timing s of (s', v) \<Rightarrow> (Timing s', v))"

fun stat_Name :: "a_stat \<Rightarrow> string" where
  "stat_Name (Plain s) = st_measurement s" | "stat_Name (Timing s) = st_measurement s"

fun stat_FieldName :: "a_stat \<Rightarrow> string" where
  "stat_FieldName (Plain s) = st_field s" | "stat_FieldName (Timing s) = st_field s"

fun stat_Tags :: "a_stat \<Rightarrow> strmap" where
  "stat_Tags (Plain s) = st_tags s" | "stat_Tags (Timing s) = st_tags s"

subsection \<open>The key of a measurement\<close>

text \<open>The bytes that are hashed: the name and the sorted concatenations of tag key and value.\<close>

definition key_bytes :: "string \<Rightarrow> strmap \<Rightarrow> string" where
  "key_bytes measurement tags = measurement @ concat (sort (List.map (\<lambda>(k, v). k @ v) tags))"

definition stat_key :: "string \<Rightarrow> strmap \<Rightarrow> u64" where
  "stat_key measurement tags = fnv1a (key_bytes measurement tags)"

definition Key :: "a_stat \<Rightarrow> u64" where
  "Key s = stat_key (stat_Name s) (stat_Tags s)"

subsection \<open>The registry\<close>

type_synonym registry = "(u64, (string, a_stat) gomap) gomap"
type_synonym handle = "u64 \<times> string"

definition reg_get :: "registry \<Rightarrow> handle \<Rightarrow> a_stat option" where
  "reg_get r h = Option.bind (map_of r (fst h)) (\<lambda>stats. map_of stats (snd h))"

definition reg_put :: "handle \<Rightarrow> a_stat \<Rightarrow> registry \<Rightarrow> registry" where
  "reg_put h s r = AList.update (fst h)
     (AList.update (snd h) s (case map_of r (fst h) of None \<Rightarrow> [] | Some stats \<Rightarrow> stats)) r"

definition register :: "a_stat \<Rightarrow> registry \<Rightarrow> registry \<times> handle" where
  "register s r =
     (let h = (Key s, stat_FieldName s)
      in case map_of r (Key s) of
           Some stats \<Rightarrow> (case map_of stats (stat_FieldName s) of
               Some _ \<Rightarrow> (r, h)
             | None \<Rightarrow> (reg_put h s r, h))
         | None \<Rightarrow> (AList.update (Key s) [(stat_FieldName s, s)] r, h))"

definition Register :: "string \<Rightarrow> string \<Rightarrow> strmap \<Rightarrow> registry \<Rightarrow> registry \<times> handle" where
  "Register measurement field tags =
     register (Plain \<lparr>st_v = 0, st_measurement = ''internal_'' @ measurement, st_field = field, st_tags = tags\<rparr>)"

definition RegisterTiming :: "string \<Rightarrow> string \<Rightarrow> strmap \<Rightarrow> registry \<Rightarrow> registry \<times> handle" where
  "RegisterTiming measurement field tags =
     register (Timing \<lparr>st_v = 0, st_measurement = ''internal_'' @ measurement, st_field = field, st_tags = tags,
       ts_prev = 0, ts_count = 0\<rparr>)"

text \<open>An update through a handle.\<close>

definition reg_upd :: "(a_stat \<Rightarrow> a_stat) \<Rightarrow> handle \<Rightarrow> registry \<Rightarrow> registry" where
  "reg_upd f h r = (case reg_get r h of None \<Rightarrow> r | Some s \<Rightarrow> reg_put h (f s) r)"

text \<open>
  \<open>Metrics\<close>: one metric per key with the name and tags of the first field visited; reading a
  timing resets it.
\<close>

definition read_fields :: "(string, a_stat) gomap \<Rightarrow> (string, a_stat) gomap \<times> (string, gval) gomap" where
  "read_fields stats = (List.map (\<lambda>(f, s). (f, fst (Get s))) stats, List.map (\<lambda>(f, s). (f, GInt64 (snd (Get s)))) stats)"

definition Metrics :: "int \<Rightarrow> registry \<Rightarrow> registry \<times> metric list" where
  "Metrics now r =
     (List.map (\<lambda>(k, stats). (k, fst (read_fields stats))) r,
      concat (List.map (\<lambda>(k, stats). case stats of [] \<Rightarrow> []
        | (f, s) # _ \<Rightarrow> [New (stat_Name s) (stat_Tags s) (snd (read_fields stats)) now None]) r))"

subsection \<open>Handles are independent\<close>

lemma reg_get_put: "reg_get (reg_put h s r) h' = (if h' = h then Some s else reg_get r h')"
  by (cases h; cases h') (auto simp: reg_get_def reg_put_def map_laws split: option.splits)

lemma register_eq:
  "register s r = (let h = (Key s, stat_FieldName s) in (if reg_get r h = None then reg_put h s r else r, h))"
proof (cases "map_of r (Key s)")
  case None
  then show ?thesis by (simp add: register_def reg_get_def reg_put_def)
next
  case (Some stats)
  then show ?thesis by (simp add: register_def reg_get_def Let_def split: option.splits)
qed

lemma reg_get_upd: "reg_get (reg_upd f h r) h' = (if h' = h then map_option f (reg_get r h) else reg_get r h')"
  by (auto simp: reg_upd_def reg_get_put split: option.splits)

text \<open>
  Registering the same field of the same measurement again gives the same statistic, with the
  count it has.
\<close>

lemma Register_again:
  assumes "Register m f tags r = (r1, h)"
  shows "Register m f tags (reg_upd g h r1) = (reg_upd g h r1, h)"
    and "h' \<noteq> h \<Longrightarrow> reg_get (reg_upd g h r1) h' = reg_get r h'"
  using assms by (auto simp: Register_def register_eq Let_def reg_get_upd reg_get_put split: if_splits)

text \<open>
  Two measurements whose tags differ can share one statistic: the key joins each tag's key and
  value without a separator, so a tag \<open>xy=z\<close> and a tag \<open>x=yz\<close> give the same handle, and what one
  counts, the other reads.
\<close>

theorem Register_collides:
  shows "let (r1, h1) = Register m f [(x @ y, z)] []; (r2, h2) = Register m f [(x, y @ z)] r1
    in h1 = h2 \<and> map_option (snd \<circ> Get) (reg_get (reg_upd (Incr v) h1 r2) h2) = Some v"
proof -
  have "reg_get [] h = None" for h by (simp add: reg_get_def)
  then show ?thesis
    by (simp add: Register_def register_eq Let_def Key_def stat_key_def key_bytes_def reg_get_upd reg_get_put Incr_plain_def)
qed

subsection \<open>Timings\<close>

lemma Incr_timings:
  "foldl (\<lambda>s v. Incr_timing v s) s vs = s\<lparr>st_v := st_v s + sum_list vs, ts_count := ts_count s + of_nat (length vs)\<rparr>"
  by (induction vs arbitrary: s) (simp_all add: Incr_timing_def add.assoc add.commute)

lemma sint_sum_list:
  assumes "\<bar>sum_list (List.map sint vs)\<bar> < 2 ^ 63"
  shows "sint (sum_list (vs :: i64 list)) = sum_list (List.map sint vs)"
proof -
  have "(of_int (sum_list (List.map sint vs)) :: i64) = sum_list vs"
    by (induction vs) simp_all
  with sint_word_of_int [of "sum_list (List.map sint vs)"] assms show ?thesis by (simp flip: of_int_eq_iff)
qed

text \<open>
  A timing reports, for the timings since it was last read, their average rounded towards
  zero, and while there are none it repeats the last average, as long as the sum stays within 64
  bits.
\<close>

theorem timing_average:
  assumes "vs \<noteq> []" "length vs < 2 ^ 63" "\<bar>sum_list (List.map sint vs)\<bar> < 2 ^ 63" "st_v s = 0" "ts_count s = 0"
  shows "let s1 = foldl (\<lambda>s v. Incr_timing v s) s vs; (s2, avg) = Get_timing s1; total = sum_list (List.map sint vs)
    in sint avg = sgn total * (\<bar>total\<bar> div int (length vs)) \<and> Get_timing s2 = (s2, avg)"
proof -
  let ?n = "of_nat (length vs) :: i64" and ?total = "sum_list (List.map sint vs)"
  have n: "sint ?n = int (length vs)"
    using sint_word_of_int [of "int (length vs)"] assms(2) by simp
  have pos: "0 <s ?n" using assms(1) n by (simp add: word_sless_alt)
  have tot: "sint (sum_list vs) = ?total" by (rule sint_sum_list [OF assms(3)])
  have "\<bar>?total\<bar> div int (length vs) \<le> \<bar>?total\<bar>"
    using zdiv_mono2 [of "\<bar>?total\<bar>" 1 "int (length vs)"] assms(1) by (cases vs) simp_all
  moreover have "0 \<le> \<bar>?total\<bar> div int (length vs)"
    by (simp add: pos_imp_zdiv_nonneg_iff assms(1))
  ultimately have "\<bar>sgn ?total * (\<bar>?total\<bar> div int (length vs))\<bar> < 2 ^ 63"
    using assms(3) by (simp add: abs_mult abs_sgn_eq)
  then have "sint (go_div (sum_list vs) ?n) = sgn ?total * (\<bar>?total\<bar> div int (length vs))"
    unfolding go_div_def tot n using assms(1) by (subst sint_word_of_int) auto
  then show ?thesis
    using pos by (simp add: Incr_timings assms(4,5) Get_timing_def Let_def)
qed

theorem timing_average_witness:
  "let s = \<lparr>st_v = 0, st_measurement = ''internal_write'', st_field = ''write_time_ns'', st_tags = [], ts_prev = 0, ts_count = 0\<rparr>;
       s1 = foldl (\<lambda>s v. Incr_timing v s) s [3, - 10]
   in sint (snd (Get_timing s1)) = - 3"
proof -
  let ?s = "\<lparr>st_v = 0, st_measurement = ''internal_write'', st_field = ''write_time_ns'', st_tags = [], ts_prev = 0, ts_count = 0\<rparr>"
  have "sint (- 10 :: i64) = - 10" by simp
  then show ?thesis
    using timing_average [of "[3, - 10]" ?s] by (auto simp: Let_def sgn_if split: prod.splits)
qed

end
