(* ===== verification/SnmpConvert.thy ===== *)
theory SnmpConvert
  imports GoText
begin

section \<open>Conversions of SNMP values\<close>

text \<open>
  \<open>fieldConvert\<close> of \<open>plugins/inputs/snmp/snmp.go\<close>. The error texts leave out the type of the value. \<open>conv\<close> is the
  conversion of floats out of range.
\<close>

text \<open>\<open>Sscanf(conv, "float(%d)", &d)\<close>, with blanks and tabs as the spaces before the number.\<close>

definition float_digits :: "string \<Rightarrow> int option" where
  "float_digits c =
     (if \<not> has_prefix c ''float('' then None
      else let r = dropWhile (\<lambda>c. c = CHR '' '' \<or> c = CHR 0x09) (drop 6 c);
               s = (if signed r then tl r else r);
               ds = takeWhile is_digit s;
               v = (if r \<noteq> [] \<and> hd r = CHR ''-'' then - digits_value 0 ds else digits_value 0 ds)
           in if ds = [] \<or> \<not> has_prefix (dropWhile is_digit s) '')'' \<or> v < - (2 ^ 63) \<or> 2 ^ 63 \<le> v then None
              else Some v)"

fun to_float :: "int \<Rightarrow> gval \<Rightarrow> gval" where
  "to_float d (GFloat32 w) = GFloat64 (f_div (f64_of_f32 w) (Pow10 d))"
| "to_float d (GFloat64 v) = GFloat64 (f_div v (Pow10 d))"
| "to_float d (GInt v) = GFloat64 (f_div (f64_of_int (sint v)) (Pow10 d))"
| "to_float d (GInt8 v) = GFloat64 (f_div (f64_of_int (sint v)) (Pow10 d))"
| "to_float d (GInt16 v) = GFloat64 (f_div (f64_of_int (sint v)) (Pow10 d))"
| "to_float d (GInt32 v) = GFloat64 (f_div (f64_of_int (sint v)) (Pow10 d))"
| "to_float d (GInt64 v) = GFloat64 (f_div (f64_of_int (sint v)) (Pow10 d))"
| "to_float d (GUint v) = GFloat64 (f_div (f64_of_int (uint v)) (Pow10 d))"
| "to_float d (GUint8 v) = GFloat64 (f_div (f64_of_int (uint v)) (Pow10 d))"
| "to_float d (GUint16 v) = GFloat64 (f_div (f64_of_int (uint v)) (Pow10 d))"
| "to_float d (GUint32 v) = GFloat64 (f_div (f64_of_int (uint v)) (Pow10 d))"
| "to_float d (GUint64 v) = GFloat64 (f_div (f64_of_int (uint v)) (Pow10 d))"
| "to_float d (GBytes b) = GFloat64 (f_div (float_value b) (Pow10 d))"
| "to_float d (GString s) = GFloat64 (f_div (float_value s) (Pow10 d))"
| "to_float d v = v"

fun to_int :: "(f64 \<Rightarrow> i64) \<Rightarrow> gval \<Rightarrow> gval" where
  "to_int conv (GFloat32 w) = GInt64 (f64_to_i64 conv (f64_of_f32 w))"
| "to_int conv (GFloat64 v) = GInt64 (f64_to_i64 conv v)"
| "to_int conv (GInt v) = GInt64 v"
| "to_int conv (GInt8 v) = GInt64 (scast v)"
| "to_int conv (GInt16 v) = GInt64 (scast v)"
| "to_int conv (GInt32 v) = GInt64 (scast v)"
| "to_int conv (GInt64 v) = GInt64 v"
| "to_int conv (GUint v) = GInt64 v"
| "to_int conv (GUint8 v) = GInt64 (ucast v)"
| "to_int conv (GUint16 v) = GInt64 (ucast v)"
| "to_int conv (GUint32 v) = GInt64 (ucast v)"
| "to_int conv (GUint64 v) = GInt64 v"
| "to_int conv (GBytes b) = GInt (atoi_value b)"
| "to_int conv (GString s) = GInt (atoi_value s)"
| "to_int conv v = v"

definition bytes_of :: "gval \<Rightarrow> string option" where
  "bytes_of v = (case v of GString s \<Rightarrow> Some s | GBytes b \<Rightarrow> Some b | _ \<Rightarrow> None)"

definition fieldConvert :: "(f64 \<Rightarrow> i64) \<Rightarrow> string \<Rightarrow> gval \<Rightarrow> gval result" where
  "fieldConvert conv c v =
     (if c = [] then Inr (case v of GBytes b \<Rightarrow> GString b | _ \<Rightarrow> v)
      else case float_digits c of
        Some d \<Rightarrow> Inr (to_float d v)
      | None \<Rightarrow>
          if c = ''float'' then Inr (to_float 0 v)
          else if c = ''int'' then Inr (to_int conv v)
          else if c = ''hwaddr'' then
            (case bytes_of v of Some b \<Rightarrow> Inr (GString (hwaddr_text b))
             | None \<Rightarrow> Inl (Err ''invalid type for hwaddr conversion''))
          else if c = ''ipaddr'' then
            (case bytes_of v of
               None \<Rightarrow> Inl (Err ''invalid type for ipaddr conversion'')
             | Some b \<Rightarrow> if length b = 4 \<or> length b = 16 then Inr (GString (ip_text b))
                         else Inl (Err ''invalid length for ipaddr conversion''))
          else Inl (Err (''invalid conversion type '' @ c)))"

lemma snmp_convert_demo:
  "fieldConvert (\<lambda>_. 0) ''float(2)'' (GInt 1234) = Inr (GFloat64 (the (parse_float ''12.34'')))"
  "fieldConvert (\<lambda>_. 0) ''int'' (GBytes ''99999999999999999999'') = Inr (GInt 9223372036854775807)"
  "fieldConvert (\<lambda>_. 0) ''hwaddr'' (GBytes [CHR 0x00, CHR 0x1F, CHR 0xA0]) = Inr (GString ''00:1f:a0'')"
  "fieldConvert (\<lambda>_. 0) ''ipaddr'' (GBytes [CHR 0xC0, CHR 0x00, CHR 0x02, CHR 0x01]) = Inr (GString ''192.0.2.1'')"
  "fieldConvert (\<lambda>_. 0) ''ipaddr'' (GString (replicate 15 (CHR 0x00) @ [CHR 0x01])) = Inr (GString ''::1'')"
  "fieldConvert (\<lambda>_. 0) ''mac'' (GInt 1) = Inl (Err ''invalid conversion type mac'')"
  by code_simp+

end
