(* ===== verification/Snmp.thy ===== *)
theory Snmp
  imports SnmpConvert
begin

section \<open>The SNMP input\<close>

text \<open>
  \<open>plugins/inputs/snmp/snmp.go\<close>: object identifiers are translated by the tools of net-snmp, tables are
  read by walking their columns and joining the values by index. Parameters: \<open>exec\<close> runs a command line, the
  record \<open>snmp_api\<close> is a connection of the client library whose calls change a state of any type, \<open>dial\<close>
  opens a connection, \<open>conv\<close> converts floats out of range, \<open>other\<close> prints values that are no numbers or strings. The
  agents are polled by goroutines that share nothing but the accumulator; here they come in order.
  A nested error is told from others because \<open>Build\<close> does so.
\<close>

subsection \<open>Configuration\<close>

record snmp_field =
  sf_Name :: string
  sf_Oid :: string
  sf_OidIndexSuffix :: string
  sf_OidIndexLength :: int
  sf_IsTag :: bool
  sf_Conversion :: string
  sf_initialized :: bool

record snmp_table =
  st_Name :: string
  st_InheritTags :: "string list"
  st_IndexAsTag :: bool
  st_Fields :: "snmp_field list"
  st_Oid :: string
  st_initialized :: bool

datatype snmp_error = Nested string | Plain string

text \<open>Why a command failed: it was not found, or it said so.\<close>

datatype exec_error = NotFound | Failed string

type_synonym runner = "string list \<Rightarrow> exec_error + string"

text \<open>MIB, numeric identifier, name and conversion; the last two are the caches of the process.\<close>

type_synonym translation = "string \<times> string \<times> string \<times> string"

record snmp_caches =
  translate_cache :: "(string, snmp_error + translation) gomap"
  table_cache :: "(string, snmp_error + (translation \<times> snmp_field list)) gomap"

subsection \<open>Translating identifiers\<close>

definition letters :: string where
  "letters = '':abcdefghijklmnopqrstuvwxyzABCDEFGHIJKLMNOPQRSTUVWXYZ''"

definition convention :: "string \<Rightarrow> string \<Rightarrow> string" where
  "convention tc old =
     (if tc \<in> set [''MacAddress'', ''PhysAddress''] then ''hwaddr''
      else if tc \<in> set [''InetAddressIPv4'', ''InetAddressIPv6'', ''InetAddress'', ''IPSIpAddress''] then ''ipaddr''
      else old)"

text \<open>The number of one object; \<open>None\<close>: its parenthesis is not closed and the slice expression panics.\<close>

definition obj_number :: "string \<Rightarrow> string option" where
  "obj_number obj =
     (case str_index obj ''('' of
        None \<Rightarrow> Some obj
      | Some i \<Rightarrow> let o1 = drop (i + 1) obj in map_option (\<lambda>j. take j o1) (str_index o1 '')''))"

fun oid_numbers :: "string list \<Rightarrow> string option" where
  "oid_numbers [] = Some []"
| "oid_numbers (obj # objs) =
     (if obj = [] then oid_numbers objs
      else case obj_number obj of None \<Rightarrow> None | Some n \<Rightarrow> map_option (\<lambda>r. CHR ''.'' # n @ r) (oid_numbers objs))"

fun translate_lines :: "string list \<Rightarrow> string \<Rightarrow> (string \<times> string) option" where
  "translate_lines [] c = Some ([], c)"
| "translate_lines (l # ls) c =
     (if has_prefix l ''  -- TEXTUAL CONVENTION '' then
        translate_lines ls (convention (trim_prefix l ''  -- TEXTUAL CONVENTION '') c)
      else if has_prefix l ''::= { '' then
        map_option (\<lambda>n. (n, c)) (oid_numbers (split (trim_suffix (trim_prefix l ''::= { '') '' }'') '' ''))
      else translate_lines ls c)"

definition read_translation :: "string \<Rightarrow> string \<Rightarrow> translation result" where
  "read_translation oid out =
     (let ls = scan_lines out; first = (if ls = [] then [] else hd ls)
      in case str_index first ''::'' of
        None \<Rightarrow>
          if contains out ''[TRUNCATED]'' then Inr ([], oid, oid, [])
          else (case translate_lines (tl ls) [] of None \<Rightarrow> Inl (Panic ''slice bounds out of range'')
                | Some (n, c) \<Rightarrow> Inr ([], n, oid, c))
      | Some i \<Rightarrow>
          (case translate_lines (tl ls) [] of None \<Rightarrow> Inl (Panic ''slice bounds out of range'')
           | Some (n, c) \<Rightarrow> Inr (take i first, n, drop (i + 2) first, c)))"

definition exec_text :: "exec_error \<Rightarrow> string" where
  "exec_text e = (case e of NotFound \<Rightarrow> ''executable file not found'' | Failed s \<Rightarrow> s)"

definition snmpTranslateCall :: "runner \<Rightarrow> string \<Rightarrow> (snmp_error + translation) result" where
  "snmpTranslateCall exec oid =
     (let named = contains_any oid letters in
      case exec (if named then [''snmptranslate'', ''-Td'', ''-Ob'', oid]
                 else [''snmptranslate'', ''-Td'', ''-Ob'', ''-m'', ''all'', oid]) of
        Inl e \<Rightarrow> if \<not> named \<and> e = NotFound then Inr (Inr ([], oid, oid, []))
                 else Inr (Inl (if e = NotFound then Plain (exec_text e) else Nested (exec_text e)))
      | Inr out \<Rightarrow> res_bind (read_translation oid out) (\<lambda>t. Inr (Inr t)))"

definition snmpTranslate :: "runner \<Rightarrow> string \<Rightarrow> snmp_caches \<Rightarrow> ((snmp_error + translation) \<times> snmp_caches) result" where
  "snmpTranslate exec oid cs =
     (case map_of (translate_cache cs) oid of
        Some stc \<Rightarrow> Inr (stc, cs)
      | None \<Rightarrow> res_bind (snmpTranslateCall exec oid)
          (\<lambda>stc. Inr (stc, cs\<lparr>translate_cache := AList.update oid stc (translate_cache cs)\<rparr>)))"

subsection \<open>Finding the columns of a table\<close>

text \<open>The index columns that a line of the description names.\<close>

definition index_columns :: "string \<Rightarrow> string list" where
  "index_columns line =
     (if \<not> has_prefix line ''  INDEX'' then []
      else case str_index line ''{ '' of None \<Rightarrow> []
        | Some i \<Rightarrow> let l = drop (i + 2) line in
            case str_index l '' }'' of None \<Rightarrow> [] | Some j \<Rightarrow> split (take j l) '', '')"

definition table_columns :: "string \<Rightarrow> string list \<Rightarrow> string \<Rightarrow> snmp_field list" where
  "table_columns mibPrefix tagOids cols =
     List.map (\<lambda>col. \<lparr>sf_Name = col, sf_Oid = mibPrefix @ col, sf_OidIndexSuffix = [], sf_OidIndexLength = 0,
                 sf_IsTag = mibPrefix @ col \<in> set tagOids, sf_Conversion = [], sf_initialized = False\<rparr>)
       (List.filter (\<lambda>col. col \<noteq> []) (split cols '' ''))"

definition snmpTableCall ::
  "runner \<Rightarrow> string \<Rightarrow> snmp_caches \<Rightarrow> ((snmp_error + (translation \<times> snmp_field list)) \<times> snmp_caches) result" where
  "snmpTableCall exec oid cs =
     res_bind (snmpTranslate exec oid cs) (\<lambda>(r, cs1).
       case r of
         Inl e \<Rightarrow> Inr (Inl (Nested ''translating''), cs1)
       | Inr (mibName, oidNum, oidText, c) \<Rightarrow>
           let mibPrefix = mibName @ ''::'';
               tagOids = (case exec [''snmptranslate'', ''-Td'', mibPrefix @ oidText @ ''.1''] of
                   Inl e \<Rightarrow> []
                 | Inr out \<Rightarrow> concat (List.map (\<lambda>l. List.map (\<lambda>col. mibPrefix @ col) (index_columns l)) (scan_lines out)))
           in (case exec [''snmptable'', ''-Ch'', ''-Cl'', ''-c'', ''public'', ''127.0.0.1'', mibPrefix @ oidText] of
                 Inl e \<Rightarrow> Inr (Inl (Nested ''getting table columns''), cs1)
               | Inr out \<Rightarrow>
                   let ls = scan_lines out; cols = (if ls = [] then [] else hd ls)
                   in if cols = [] then Inr (Inl (Plain ''could not find any columns in table''), cs1)
                      else Inr (Inr ((mibName, oidNum, oidText, []), table_columns mibPrefix tagOids cols), cs1)))"

definition snmpTable ::
  "runner \<Rightarrow> string \<Rightarrow> snmp_caches \<Rightarrow> ((snmp_error + (translation \<times> snmp_field list)) \<times> snmp_caches) result" where
  "snmpTable exec oid cs =
     (case map_of (table_cache cs) oid of
        Some stc \<Rightarrow> Inr (stc, cs)
      | None \<Rightarrow> res_bind (snmpTableCall exec oid cs)
          (\<lambda>(stc, cs1). Inr (stc, cs1\<lparr>table_cache := AList.update oid stc (table_cache cs1)\<rparr>)))"

subsection \<open>Initialisation\<close>

text \<open>What was done before an error stays done, so the object comes back beside the error.\<close>

definition Field_init ::
  "runner \<Rightarrow> snmp_field \<Rightarrow> snmp_caches \<Rightarrow> (snmp_field \<times> snmp_error option \<times> snmp_caches) result" where
  "Field_init exec f cs =
     (if sf_initialized f then Inr (f, None, cs)
      else res_bind (snmpTranslate exec (sf_Oid f) cs) (\<lambda>(r, cs1).
        case r of
          Inl e \<Rightarrow> Inr (f, Some (Nested ''translating''), cs1)
        | Inr (mib, oidNum, oidText, c) \<Rightarrow>
            Inr (f\<lparr>sf_Oid := oidNum,
                  sf_Name := (if sf_Name f = [] then oidText else sf_Name f),
                  sf_Conversion := (if sf_Conversion f = [] then c else sf_Conversion f),
                  sf_initialized := True\<rparr>, None, cs1)))"

fun fields_init ::
  "runner \<Rightarrow> snmp_field list \<Rightarrow> snmp_caches \<Rightarrow> (snmp_field list \<times> snmp_error option \<times> snmp_caches) result" where
  "fields_init exec [] cs = Inr ([], None, cs)"
| "fields_init exec (f # fs) cs =
     res_bind (Field_init exec f cs) (\<lambda>(f', err, cs1).
       case err of
         Some e \<Rightarrow> Inr (f' # fs, Some (Nested (''initializing field '' @ sf_Name f')), cs1)
       | None \<Rightarrow> res_bind (fields_init exec fs cs1) (\<lambda>(fs', err, cs2). Inr (f' # fs', err, cs2)))"

definition initBuild :: "runner \<Rightarrow> snmp_table \<Rightarrow> snmp_caches \<Rightarrow> (snmp_table \<times> snmp_error option \<times> snmp_caches) result" where
  "initBuild exec t cs =
     (if st_Oid t = [] then Inr (t, None, cs)
      else res_bind (snmpTable exec (st_Oid t) cs) (\<lambda>(r, cs1).
        case r of
          Inl e \<Rightarrow> Inr (t, Some e, cs1)
        | Inr ((mib, oidNum, oidText, c), flds) \<Rightarrow>
            let known = List.map sf_Oid (st_Fields t) in
            Inr (t\<lparr>st_Name := (if st_Name t = [] then oidText else st_Name t),
                  st_Fields := st_Fields t @ List.filter (\<lambda>f. sf_Oid f \<notin> set known) flds\<rparr>, None, cs1)))"

definition Table_init :: "runner \<Rightarrow> snmp_table \<Rightarrow> snmp_caches \<Rightarrow> (snmp_table \<times> snmp_error option \<times> snmp_caches) result" where
  "Table_init exec t cs =
     (if st_initialized t then Inr (t, None, cs)
      else res_bind (initBuild exec t cs) (\<lambda>(t1, err, cs1).
        if err \<noteq> None then Inr (t1, err, cs1)
        else res_bind (fields_init exec (st_Fields t1) cs1) (\<lambda>(fs, err, cs2).
          let t2 = t1\<lparr>st_Fields := fs\<rparr> in
          if err \<noteq> None then Inr (t2, err, cs2) else Inr (t2\<lparr>st_initialized := True\<rparr>, None, cs2))))"


subsection \<open>Connections\<close>

type_synonym pdu = "string \<times> gval"

text \<open>
  A walk gives the values that the agent would hand to the callback, one after the other, and the error it ends
  with when the callback lets it; a get gives nothing, or the first value and whether it says that
  there is no such object.
\<close>

record 'w snmp_api =
  api_Host :: string
  api_Walk :: "string \<Rightarrow> 'w \<Rightarrow> (pdu list \<times> string option) \<times> 'w"
  api_Get :: "string \<Rightarrow> 'w \<Rightarrow> (string + (pdu \<times> bool) option) \<times> 'w"
  api_Connect :: "'w \<Rightarrow> string option \<times> 'w"

text \<open>The callback on the values in order, until it returns an error.\<close>

fun run_walk :: "(pdu \<Rightarrow> 'a \<Rightarrow> 'a \<times> snmp_error option) \<Rightarrow> pdu list \<Rightarrow> 'a \<Rightarrow> 'a \<times> snmp_error option" where
  "run_walk fn [] a = (a, None)"
| "run_walk fn (p # ps) a = (case fn p a of (a', None) \<Rightarrow> run_walk fn ps a' | (a', Some e) \<Rightarrow> (a', Some e))"

definition walk_once ::
  "'w snmp_api \<Rightarrow> string \<Rightarrow> (pdu \<Rightarrow> 'a \<Rightarrow> 'a \<times> snmp_error option) \<Rightarrow> 'a \<Rightarrow> 'w \<Rightarrow> 'a \<times> snmp_error option \<times> 'w" where
  "walk_once api oid fn a w =
     (case api_Walk api oid w of ((ps, terr), w') \<Rightarrow>
        case run_walk fn ps a of (a', err) \<Rightarrow>
          (a', (case err of Some e \<Rightarrow> Some e | None \<Rightarrow> map_option Plain terr), w'))"

text \<open>The wrapper tries \<open>n\<close> times; \<open>err0\<close> is the error of the attempt before.\<close>

fun gsw_Walk ::
  "nat \<Rightarrow> snmp_error option \<Rightarrow> 'w snmp_api \<Rightarrow> string \<Rightarrow> (pdu \<Rightarrow> 'a \<Rightarrow> 'a \<times> snmp_error option) \<Rightarrow> 'a \<Rightarrow> 'w
     \<Rightarrow> 'a \<times> snmp_error option \<times> 'w" where
  "gsw_Walk 0 err0 api oid fn a w = (a, err0, w)"
| "gsw_Walk (Suc n) err0 api oid fn a w =
     (case walk_once api oid fn a w of
        (a1, None, w1) \<Rightarrow> (a1, None, w1)
      | (a1, Some e, w1) \<Rightarrow>
          (case api_Connect api w1 of
             (Some ce, w2) \<Rightarrow> (a1, Some (Nested ''reconnecting''), w2)
           | (None, w2) \<Rightarrow> gsw_Walk n (Some e) api oid fn a1 w2))"

fun gsw_Get :: "nat \<Rightarrow> string \<Rightarrow> 'w snmp_api \<Rightarrow> string \<Rightarrow> 'w \<Rightarrow> (snmp_error + (pdu \<times> bool) option) \<times> 'w" where
  "gsw_Get 0 err0 api oid w = (Inl (Plain err0), w)"
| "gsw_Get (Suc n) err0 api oid w =
     (case api_Get api oid w of
        (Inr r, w1) \<Rightarrow> (Inr r, w1)
      | (Inl e, w1) \<Rightarrow>
          (case api_Connect api w1 of
             (Some ce, w2) \<Rightarrow> (Inl (Nested ''reconnecting''), w2)
           | (None, w2) \<Rightarrow> gsw_Get n e api oid w2))"

subsection \<open>Building a table\<close>

record rtable_row =
  rr_Tags :: strmap
  rr_Fields :: "(string, gval) gomap"

type_synonym rows = "(string, rtable_row) gomap"

text \<open>The first components of an index, each with its leading dot; \<open>i\<close> is one more than how many are left.\<close>

fun cut_index :: "int \<Rightarrow> string \<Rightarrow> string" where
  "cut_index i [] = []"
| "cut_index i (c # cs) =
     (let i1 = (if c = CHR ''.'' then i - 1 else i)
      in if i1 < 1 then cut_index i1 cs else c # cut_index i1 cs)"

text \<open>The index of a name under \<open>oid\<close>: outside of it, skipped, or there.\<close>

datatype index_of_name = Outside | Skipped | Index string

definition index_of :: "snmp_field \<Rightarrow> string \<Rightarrow> string \<Rightarrow> index_of_name" where
  "index_of f oid name =
     (if length name \<le> length oid \<or> take (length oid + 1) name \<noteq> oid @ ''.'' then Outside
      else let idx = drop (length oid) name in
        if sf_OidIndexSuffix f \<noteq> [] \<and> \<not> has_suffix idx (sf_OidIndexSuffix f) then Skipped
        else let idx1 = (if sf_OidIndexSuffix f \<noteq> [] then take (length idx - length (sf_OidIndexSuffix f)) idx else idx)
             in Index (if sf_OidIndexLength f \<noteq> 0 then cut_index (sf_OidIndexLength f + 1) idx1 else idx1))"

definition walk_value ::
  "(f64 \<Rightarrow> i64) \<Rightarrow> snmp_field \<Rightarrow> string \<Rightarrow> pdu \<Rightarrow> (string, gval) gomap \<Rightarrow> (string, gval) gomap \<times> snmp_error option" where
  "walk_value conv f oid ent ifv =
     (case index_of f oid (fst ent) of
        Outside \<Rightarrow> (ifv, Some (Nested []))
      | Skipped \<Rightarrow> (ifv, None)
      | Index idx \<Rightarrow>
          (case fieldConvert conv (sf_Conversion f) (snd ent) of
             Inl e \<Rightarrow> (ifv, Some (Nested (''converting for field '' @ sf_Name f)))
           | Inr fv \<Rightarrow> (AList.update idx fv ifv, None)))"

definition full_oid :: "string \<Rightarrow> string" where
  "full_oid oid = (if hd oid = CHR ''.'' then oid else CHR ''.'' # oid)"

text \<open>The values of a field by index.\<close>

definition field_values ::
  "(f64 \<Rightarrow> i64) \<Rightarrow> 'w snmp_api \<Rightarrow> bool \<Rightarrow> snmp_field \<Rightarrow> 'w \<Rightarrow> (snmp_error + (string, gval) gomap) \<times> 'w" where
  "field_values conv api walk f w =
     (let oid = full_oid (sf_Oid f) in
      if \<not> walk then
        (case gsw_Get 2 [] api oid w of
           (Inl e, w1) \<Rightarrow> (Inl (Nested (''performing get on field '' @ sf_Name f)), w1)
         | (Inr (Some (ent, False)), w1) \<Rightarrow>
             (case fieldConvert conv (sf_Conversion f) (snd ent) of
                Inl e \<Rightarrow> (Inl (Nested (''converting for field '' @ sf_Name f)), w1)
              | Inr fv \<Rightarrow> (Inr [([], fv)], w1))
         | (Inr _, w1) \<Rightarrow> (Inr [], w1))
      else
        (case gsw_Walk 2 None api oid (walk_value conv f oid) [] w of
           (ifv, Some (Plain e), w1) \<Rightarrow> (Inl (Nested (''performing bulk walk for field '' @ sf_Name f)), w1)
         | (ifv, _, w1) \<Rightarrow> (Inr ifv, w1)))"

text \<open>One value put into its row.\<close>

definition set_index :: "snmp_table \<Rightarrow> string \<Rightarrow> rtable_row \<Rightarrow> rtable_row" where
  "set_index t idx r =
     (if st_IndexAsTag t \<and> idx \<noteq> []
      then r\<lparr>rr_Tags := AList.update ''index'' (if hd idx = CHR ''.'' then tl idx else idx) (rr_Tags r)\<rparr> else r)"

definition set_value :: "(gval \<Rightarrow> string) \<Rightarrow> snmp_field \<Rightarrow> gval \<Rightarrow> rtable_row \<Rightarrow> rtable_row" where
  "set_value other f v r =
     (if v = GString [] then r
      else if sf_IsTag f then r\<lparr>rr_Tags := AList.update (sf_Name f) (fmt_v other v) (rr_Tags r)\<rparr>
      else r\<lparr>rr_Fields := AList.update (sf_Name f) v (rr_Fields r)\<rparr>)"

definition empty_row :: rtable_row where
  "empty_row = \<lparr>rr_Tags = [], rr_Fields = []\<rparr>"

definition put_value :: "(gval \<Rightarrow> string) \<Rightarrow> snmp_table \<Rightarrow> snmp_field \<Rightarrow> string \<times> gval \<Rightarrow> rows \<Rightarrow> rows" where
  "put_value other t f iv rs =
     AList.update (fst iv)
       (set_value other f (snd iv) (set_index t (fst iv) (case map_of rs (fst iv) of Some r \<Rightarrow> r | None \<Rightarrow> empty_row))) rs"

fun build_fields ::
  "(f64 \<Rightarrow> i64) \<Rightarrow> (gval \<Rightarrow> string) \<Rightarrow> 'w snmp_api \<Rightarrow> bool \<Rightarrow> snmp_table \<Rightarrow> snmp_field list \<Rightarrow> rows \<Rightarrow> 'w
     \<Rightarrow> (snmp_error + rows) \<times> 'w" where
  "build_fields conv other api walk t [] rs w = (Inr rs, w)"
| "build_fields conv other api walk t (f # fs) rs w =
     (if sf_Oid f = [] then (Inl (Plain (''cannot have empty OID on field '' @ sf_Name f)), w)
      else case field_values conv api walk f w of
        (Inl e, w1) \<Rightarrow> (Inl e, w1)
      | (Inr ifv, w1) \<Rightarrow> build_fields conv other api walk t fs (fold (put_value other t f) ifv rs) w1)"

record rtable =
  rt_Name :: string
  rt_Time :: int
  rt_Rows :: "rtable_row list"

definition Build ::
  "(f64 \<Rightarrow> i64) \<Rightarrow> (gval \<Rightarrow> string) \<Rightarrow> int \<Rightarrow> 'w snmp_api \<Rightarrow> bool \<Rightarrow> snmp_table \<Rightarrow> 'w \<Rightarrow> (snmp_error + rtable) \<times> 'w" where
  "Build conv other now api walk t w =
     (case build_fields conv other api walk t (st_Fields t) [] w of
        (Inl e, w1) \<Rightarrow> (Inl e, w1)
      | (Inr rs, w1) \<Rightarrow> (Inr \<lparr>rt_Name = st_Name t, rt_Time = now, rt_Rows = List.map snd rs\<rparr>, w1))"

subsection \<open>Gathering\<close>

text \<open>The calls on the accumulator.\<close>

datatype acc_call = CallFields string "(string, gval) gomap" strmap int | CallError string

definition inherit :: "string list \<Rightarrow> strmap \<Rightarrow> strmap \<Rightarrow> strmap" where
  "inherit ks topTags tags = fold (\<lambda>k tags. case map_of topTags k of Some v \<Rightarrow> AList.update k v tags | None \<Rightarrow> tags) ks tags"

definition with_host :: "string \<Rightarrow> strmap \<Rightarrow> strmap" where
  "with_host host tags = (case map_of tags ''agent_host'' of None \<Rightarrow> AList.update ''agent_host'' host tags | Some _ \<Rightarrow> tags)"

fun gather_rows ::
  "bool \<Rightarrow> string list \<Rightarrow> string \<Rightarrow> string \<Rightarrow> int \<Rightarrow> rtable_row list \<Rightarrow> strmap \<Rightarrow> acc_call list \<times> strmap" where
  "gather_rows walk inh host name now [] topTags = ([], topTags)"
| "gather_rows walk inh host name now (r # rs) topTags =
     (let top1 = (if walk then topTags else fold (\<lambda>(k, v). AList.update k v) (rr_Tags r) topTags);
          tags = (if walk then inherit inh top1 (rr_Tags r) else rr_Tags r);
          (calls, top2) = gather_rows walk inh host name now rs top1
      in (CallFields name (rr_Fields r) (with_host host tags) now # calls, top2))"

definition gatherTable ::
  "(f64 \<Rightarrow> i64) \<Rightarrow> (gval \<Rightarrow> string) \<Rightarrow> int \<Rightarrow> 'w snmp_api \<Rightarrow> bool \<Rightarrow> snmp_table \<Rightarrow> strmap \<Rightarrow> 'w
     \<Rightarrow> (snmp_error option \<times> acc_call list \<times> strmap) \<times> 'w" where
  "gatherTable conv other now api walk t topTags w =
     (case Build conv other now api walk t w of
        (Inl e, w1) \<Rightarrow> ((Some e, [], topTags), w1)
      | (Inr rt, w1) \<Rightarrow>
          (case gather_rows walk (st_InheritTags t) (api_Host api) (rt_Name rt) (rt_Time rt) (rt_Rows rt) topTags of
             (calls, top1) \<Rightarrow> ((None, calls, top1), w1)))"

fun gather_tables ::
  "(f64 \<Rightarrow> i64) \<Rightarrow> (gval \<Rightarrow> string) \<Rightarrow> int \<Rightarrow> 'w snmp_api \<Rightarrow> string \<Rightarrow> snmp_table list \<Rightarrow> strmap \<Rightarrow> 'w \<Rightarrow> acc_call list \<times> 'w" where
  "gather_tables conv other now api agent [] topTags w = ([], w)"
| "gather_tables conv other now api agent (t # ts) topTags w =
     (case gatherTable conv other now api True t topTags w of ((err, calls, top1), w1) \<Rightarrow>
        case gather_tables conv other now api agent ts top1 w1 of (more_calls, w2) \<Rightarrow>
          (calls @ (if err \<noteq> None then [CallError (''agent '' @ agent @ '': gathering table '' @ st_Name t)] else []) @ more_calls, w2))"

text \<open>The part of \<open>Gather\<close> for one agent that is connected: the top-level fields as a table of one row, then the tables.\<close>

definition gather_agent ::
  "(f64 \<Rightarrow> i64) \<Rightarrow> (gval \<Rightarrow> string) \<Rightarrow> int \<Rightarrow> 'w snmp_api \<Rightarrow> string \<Rightarrow> string \<Rightarrow> snmp_field list \<Rightarrow> snmp_table list \<Rightarrow> 'w
     \<Rightarrow> acc_call list \<times> 'w" where
  "gather_agent conv other now api agent name flds tables w =
     (let t = \<lparr>st_Name = name, st_InheritTags = [], st_IndexAsTag = False, st_Fields = flds, st_Oid = [], st_initialized = False\<rparr>
      in case gatherTable conv other now api False t [] w of ((err, calls, topTags), w1) \<Rightarrow>
        case gather_tables conv other now api agent tables topTags w1 of (more_calls, w2) \<Rightarrow>
          (calls @ (if err \<noteq> None then [CallError (''agent '' @ agent)] else []) @ more_calls, w2))"


subsection \<open>Opening connections\<close>

datatype host_error = MissingPort | AddressError string

definition last_index :: "char \<Rightarrow> string \<Rightarrow> nat option" where
  "last_index c s = map_option (\<lambda>i. length s - Suc i) (str_index (rev s) [c])"

text \<open>\<open>net.SplitHostPort\<close>\<close>

definition SplitHostPort :: "string \<Rightarrow> host_error + (string \<times> string)" where
  "SplitHostPort hp =
     (case last_index (CHR '':'') hp of
        None \<Rightarrow> Inl MissingPort
      | Some i \<Rightarrow>
          let port = drop (Suc i) hp;
              finish = (\<lambda>host j k.
                 if CHR ''['' \<in> set (drop j hp) then Inl (AddressError ''unexpected [ in address'')
                 else if CHR '']'' \<in> set (drop k hp) then Inl (AddressError ''unexpected ] in address'')
                 else Inr (host, port))
          in if hd hp = CHR ''['' then
               (case str_index hp '']'' of
                  None \<Rightarrow> Inl (AddressError ''missing ] in address'')
                | Some e \<Rightarrow>
                    if Suc e = length hp then Inl MissingPort
                    else if Suc e = i then finish (take (e - 1) (drop 1 hp)) 1 (Suc e)
                    else if hp ! Suc e = CHR '':'' then Inl (AddressError ''too many colons in address'')
                    else Inl MissingPort)
             else if CHR '':'' \<in> set (take i hp) then Inl (AddressError ''too many colons in address'')
             else finish (take i hp) 0 0)"

datatype snmp_version = Version1 | Version2c | Version3
datatype auth_protocol = NoAuth | MD5 | SHA
datatype priv_protocol = NoPriv | DES | AES
datatype msg_flags = NoAuthNoPriv | AuthNoPriv | AuthPriv

record security =
  usm_UserName :: string
  usm_AuthProtocol :: auth_protocol
  usm_AuthPassphrase :: string
  usm_PrivProtocol :: priv_protocol
  usm_PrivPassphrase :: string
  usm_EngineID :: string
  usm_EngineBoots :: "32 word"
  usm_EngineTime :: "32 word"

record gosnmp =
  gs_Target :: string
  gs_Port :: int
  gs_Timeout :: int
  gs_Retries :: int
  gs_Version :: "snmp_version option"
  gs_Community :: string
  gs_MaxRepetitions :: "8 word"
  gs_ContextName :: string
  gs_MsgFlags :: msg_flags
  gs_Security :: "security option"

record snmp =
  s_Agents :: "string list"
  s_Timeout :: int
  s_Retries :: int
  s_Version :: "8 word"
  s_Community :: string
  s_MaxRepetitions :: "8 word"
  s_ContextName :: string
  s_SecLevel :: string
  s_SecName :: string
  s_AuthProtocol :: string
  s_AuthPassword :: string
  s_PrivProtocol :: string
  s_PrivPassword :: string
  s_EngineID :: string
  s_EngineBoots :: "32 word"
  s_EngineTime :: "32 word"
  s_Tables :: "snmp_table list"
  s_Name :: string
  s_Fields :: "snmp_field list"
  s_connectionCache :: "gosnmp option list"
  s_initialized :: bool

definition blank_gosnmp :: gosnmp where
  "blank_gosnmp = \<lparr>gs_Target = [], gs_Port = 0, gs_Timeout = 0, gs_Retries = 0, gs_Version = None, gs_Community = [],
     gs_MaxRepetitions = 0, gs_ContextName = [], gs_MsgFlags = NoAuthNoPriv, gs_Security = None\<rparr>"

text \<open>The steps of \<open>getConnection\<close> on the new connection; each gives it back also when it fails.\<close>

type_synonym conn_step = "gosnmp \<Rightarrow> gosnmp \<times> string option"

definition conn_then :: "conn_step \<Rightarrow> conn_step \<Rightarrow> conn_step" where
  "conn_then a b gs = (case a gs of (gs1, Some e) \<Rightarrow> (gs1, Some e) | (gs1, None) \<Rightarrow> b gs1)"

definition set_address :: "string \<Rightarrow> conn_step" where
  "set_address agent gs =
     (case (case SplitHostPort agent of Inl MissingPort \<Rightarrow> Inr (agent, ''161'') | r \<Rightarrow> r) of
        Inl e \<Rightarrow> (gs, Some ''parsing host'')
      | Inr (host, port) \<Rightarrow>
          let gs1 = gs\<lparr>gs_Target := host\<rparr> in
          case parse_uint port of
            None \<Rightarrow> (gs1, Some ''parsing port'')
          | Some p \<Rightarrow> if uint p < 2 ^ 16 then (gs1\<lparr>gs_Port := uint p\<rparr>, None) else (gs1, Some ''parsing port''))"

definition set_version :: "snmp \<Rightarrow> conn_step" where
  "set_version s gs =
     (let gs1 = gs\<lparr>gs_Timeout := s_Timeout s, gs_Retries := s_Retries s\<rparr> in
      if s_Version s = 3 then (gs1\<lparr>gs_Version := Some Version3\<rparr>, None)
      else if s_Version s = 2 \<or> s_Version s = 0 then (gs1\<lparr>gs_Version := Some Version2c\<rparr>, None)
      else if s_Version s = 1 then (gs1\<lparr>gs_Version := Some Version1\<rparr>, None)
      else (gs1, Some ''invalid version''))"

definition set_community :: "snmp \<Rightarrow> conn_step" where
  "set_community s gs =
     ((if s_Version s < 3 then gs\<lparr>gs_Community := (if s_Community s = [] then ''public'' else s_Community s)\<rparr> else gs)
        \<lparr>gs_MaxRepetitions := s_MaxRepetitions s\<rparr>, None)"

definition msg_flags_of :: "string \<Rightarrow> msg_flags option" where
  "msg_flags_of l =
     (let l = List.map lower_ascii l in
      if l \<in> set [''noauthnopriv'', ''''] then Some NoAuthNoPriv else if l = ''authnopriv'' then Some AuthNoPriv
      else if l = ''authpriv'' then Some AuthPriv else None)"

definition auth_of :: "string \<Rightarrow> auth_protocol option" where
  "auth_of p =
     (let p = List.map lower_ascii p in
      if p = ''md5'' then Some MD5 else if p = ''sha'' then Some SHA else if p = [] then Some NoAuth else None)"

definition priv_of :: "string \<Rightarrow> priv_protocol option" where
  "priv_of p =
     (let p = List.map lower_ascii p in
      if p = ''des'' then Some DES else if p = ''aes'' then Some AES else if p = [] then Some NoPriv else None)"

definition blank_security :: security where
  "blank_security = \<lparr>usm_UserName = [], usm_AuthProtocol = NoAuth, usm_AuthPassphrase = [], usm_PrivProtocol = NoPriv,
     usm_PrivPassphrase = [], usm_EngineID = [], usm_EngineBoots = 0, usm_EngineTime = 0\<rparr>"

definition with_security :: "security \<Rightarrow> gosnmp \<Rightarrow> gosnmp" where
  "with_security sp gs = gs\<lparr>gs_Security := Some sp\<rparr>"

definition set_security :: "snmp \<Rightarrow> conn_step" where
  "set_security s gs =
     (if s_Version s \<noteq> 3 then (gs, None)
      else let gs1 = with_security blank_security (gs\<lparr>gs_ContextName := s_ContextName s\<rparr>) in
        case msg_flags_of (s_SecLevel s) of
          None \<Rightarrow> (gs1, Some ''invalid secLevel'')
        | Some fl \<Rightarrow>
            let gs2 = gs1\<lparr>gs_MsgFlags := fl\<rparr>; sp1 = blank_security\<lparr>usm_UserName := s_SecName s\<rparr> in
            case auth_of (s_AuthProtocol s) of
              None \<Rightarrow> (with_security sp1 gs2, Some ''invalid authProtocol'')
            | Some a \<Rightarrow>
                let sp2 = sp1\<lparr>usm_AuthProtocol := a, usm_AuthPassphrase := s_AuthPassword s\<rparr> in
                case priv_of (s_PrivProtocol s) of
                  None \<Rightarrow> (with_security sp2 gs2, Some ''invalid privProtocol'')
                | Some p \<Rightarrow> (with_security (sp2\<lparr>usm_PrivProtocol := p, usm_PrivPassphrase := s_PrivPassword s,
                     usm_EngineID := s_EngineID s, usm_EngineBoots := s_EngineBoots s, usm_EngineTime := s_EngineTime s\<rparr>) gs2, None))"

definition dial_step :: "(gosnmp \<Rightarrow> string option) \<Rightarrow> conn_step" where
  "dial_step dial gs = (gs, map_option (\<lambda>e. ''setting up connection'') (dial gs))"

definition configure :: "(gosnmp \<Rightarrow> string option) \<Rightarrow> snmp \<Rightarrow> string \<Rightarrow> gosnmp \<times> string option" where
  "configure dial s agent =
     conn_then (set_address agent) (conn_then (set_version s) (conn_then (set_community s)
       (conn_then (set_security s) (dial_step dial)))) blank_gosnmp"

text \<open>The connection is put in the cache before it is configured.\<close>

definition getConnection :: "(gosnmp \<Rightarrow> string option) \<Rightarrow> nat \<Rightarrow> snmp \<Rightarrow> (string + gosnmp) \<times> snmp" where
  "getConnection dial i s =
     (case s_connectionCache s ! i of
        Some gs \<Rightarrow> (Inr gs, s)
      | None \<Rightarrow> (case configure dial s (s_Agents s ! i) of (gs, err) \<Rightarrow>
          (case err of Some e \<Rightarrow> Inl e | None \<Rightarrow> Inr gs,
           s\<lparr>s_connectionCache := (s_connectionCache s)[i := Some gs]\<rparr>)))"

subsection \<open>The plugin\<close>

fun tables_init ::
  "runner \<Rightarrow> snmp_table list \<Rightarrow> snmp_caches \<Rightarrow> (snmp_table list \<times> snmp_error option \<times> snmp_caches) result" where
  "tables_init exec [] cs = Inr ([], None, cs)"
| "tables_init exec (t # ts) cs =
     res_bind (Table_init exec t cs) (\<lambda>(t', err, cs1).
       case err of
         Some e \<Rightarrow> Inr (t' # ts, Some (Nested (''initializing table '' @ st_Name t')), cs1)
       | None \<Rightarrow> res_bind (tables_init exec ts cs1) (\<lambda>(ts', err, cs2). Inr (t' # ts', err, cs2)))"

definition Snmp_init :: "runner \<Rightarrow> snmp \<Rightarrow> snmp_caches \<Rightarrow> (snmp \<times> snmp_error option \<times> snmp_caches) result" where
  "Snmp_init exec s cs =
     (if s_initialized s then Inr (s, None, cs)
      else let s1 = s\<lparr>s_connectionCache := replicate (length (s_Agents s)) None\<rparr> in
        res_bind (tables_init exec (s_Tables s1) cs) (\<lambda>(ts, err, cs1).
          let s2 = s1\<lparr>s_Tables := ts\<rparr> in
          if err \<noteq> None then Inr (s2, err, cs1)
          else res_bind (fields_init exec (s_Fields s2) cs1) (\<lambda>(fs, err, cs2).
            let s3 = s2\<lparr>s_Fields := fs\<rparr> in
            if err \<noteq> None then Inr (s3, err, cs2) else Inr (s3\<lparr>s_initialized := True\<rparr>, None, cs2))))"

text \<open>\<open>api_of\<close> is the connection of the client library behind a configured one.\<close>

fun gather_agents ::
  "(f64 \<Rightarrow> i64) \<Rightarrow> (gval \<Rightarrow> string) \<Rightarrow> int \<Rightarrow> (gosnmp \<Rightarrow> string option) \<Rightarrow> (gosnmp \<Rightarrow> 'w snmp_api)
     \<Rightarrow> nat \<Rightarrow> string list \<Rightarrow> snmp \<Rightarrow> 'w \<Rightarrow> acc_call list \<times> snmp \<times> 'w" where
  "gather_agents conv other now dial api_of i [] s w = ([], s, w)"
| "gather_agents conv other now dial api_of i (agent # agents) s w =
     (case getConnection dial i s of
        (Inl e, s1) \<Rightarrow>
          (case gather_agents conv other now dial api_of (Suc i) agents s1 w of (calls, s2, w2) \<Rightarrow>
             (CallError (''agent '' @ agent) # calls, s2, w2))
      | (Inr gs, s1) \<Rightarrow>
          (case gather_agent conv other now (api_of gs) agent (s_Name s1) (s_Fields s1) (s_Tables s1) w of (calls, w1) \<Rightarrow>
             case gather_agents conv other now dial api_of (Suc i) agents s1 w1 of (more_calls, s2, w2) \<Rightarrow>
               (calls @ more_calls, s2, w2)))"

definition Snmp_Gather ::
  "runner \<Rightarrow> (f64 \<Rightarrow> i64) \<Rightarrow> (gval \<Rightarrow> string) \<Rightarrow> int \<Rightarrow> (gosnmp \<Rightarrow> string option) \<Rightarrow> (gosnmp \<Rightarrow> 'w snmp_api)
     \<Rightarrow> snmp \<Rightarrow> snmp_caches \<Rightarrow> 'w \<Rightarrow> (snmp_error option \<times> acc_call list \<times> snmp \<times> snmp_caches \<times> 'w) result" where
  "Snmp_Gather exec conv other now dial api_of s cs w =
     res_bind (Snmp_init exec s cs) (\<lambda>(s1, err, cs1).
       if err \<noteq> None then Inr (err, [], s1, cs1, w)
       else case gather_agents conv other now dial api_of 0 (s_Agents s1) s1 w of (calls, s2, w2) \<Rightarrow>
         Inr (None, calls, s2, cs1, w2))"

end
