(* ===== verification/SnmpTables.thy ===== *)
theory SnmpTables
  imports Snmp
begin

section \<open>Tables are joins by index\<close>

text \<open>
  What \<open>Build\<close> makes of the walks of an agent, whatever the order in which the maps of the code are
  visited; what becomes of values that cannot be converted; translated identifiers; and the cache of connections.
\<close>

subsection \<open>One walk\<close>

text \<open>The values that the callback takes: those before the first that ends the walk.\<close>

definition takes :: "(f64 \<Rightarrow> i64) \<Rightarrow> snmp_field \<Rightarrow> string \<Rightarrow> pdu \<Rightarrow> bool" where
  "takes conv f oid p =
     (case index_of f oid (fst p) of Outside \<Rightarrow> False | Skipped \<Rightarrow> True
      | Index idx \<Rightarrow> (case fieldConvert conv (sf_Conversion f) (snd p) of Inl e \<Rightarrow> False | Inr v \<Rightarrow> True))"

definition decoded :: "(f64 \<Rightarrow> i64) \<Rightarrow> snmp_field \<Rightarrow> string \<Rightarrow> pdu \<Rightarrow> (string \<times> gval) option" where
  "decoded conv f oid p =
     (case index_of f oid (fst p) of Outside \<Rightarrow> None | Skipped \<Rightarrow> None
      | Index idx \<Rightarrow> (case fieldConvert conv (sf_Conversion f) (snd p) of Inl e \<Rightarrow> None | Inr v \<Rightarrow> Some (idx, v)))"

text \<open>The value of a field in the row of an index: the last one that the walk gave for it.\<close>

definition cell :: "(f64 \<Rightarrow> i64) \<Rightarrow> (string \<Rightarrow> pdu list) \<Rightarrow> snmp_field \<Rightarrow> string \<Rightarrow> gval option" where
  "cell conv agent f =
     (let oid = full_oid (sf_Oid f) in
      map_of (rev (List.map_filter (decoded conv f oid) (takeWhile (takes conv f oid) (agent oid)))))"

definition absorb :: "(f64 \<Rightarrow> i64) \<Rightarrow> snmp_field \<Rightarrow> string \<Rightarrow> pdu list \<Rightarrow> (string, gval) gomap \<Rightarrow> (string, gval) gomap" where
  "absorb conv f oid ps = fold (\<lambda>(idx, v). AList.update idx v) (List.map_filter (decoded conv f oid) ps)"

lemma run_walk_value:
  "run_walk (walk_value conv f oid) ps ifv =
     (absorb conv f oid (takeWhile (takes conv f oid) ps) ifv,
      if takeWhile (takes conv f oid) ps = ps then None
      else snd (walk_value conv f oid (hd (dropWhile (takes conv f oid) ps)) []))"
proof (induction ps arbitrary: ifv)
  case (Cons p ps)
  show ?case
    using Cons
    by (cases "index_of f oid (fst p)"; cases "fieldConvert conv (sf_Conversion f) (snd p)")
      (simp_all add: takes_def absorb_def decoded_def walk_value_def map_filter_simps)
qed (simp add: absorb_def map_filter_simps)

lemma walk_value_nested: "snd (walk_value conv f oid p ifv) \<noteq> Some (Plain e)"
  by (auto simp: walk_value_def split: index_of_name.split sum.split)

lemma map_of_absorb:
  "map_of (absorb conv f oid ps ifv) idx =
     (case map_of (rev (List.map_filter (decoded conv f oid) ps)) idx of Some v \<Rightarrow> Some v | None \<Rightarrow> map_of ifv idx)"
  using map_of_fold_update [of fst snd "List.map_filter (decoded conv f oid) ps" ifv]
  by (simp add: absorb_def case_prod_beta' split: option.split)

lemma gomap_ok_absorb: "gomap_ok ifv \<Longrightarrow> gomap_ok (absorb conv f oid ps ifv)"
  using gomap_ok_fold_update [of ifv fst snd "List.map_filter (decoded conv f oid) ps"]
  by (simp add: absorb_def case_prod_beta')

text \<open>An agent that always gives the same answers, over a connection that holds.\<close>

definition steady :: "string \<Rightarrow> (string \<Rightarrow> pdu list) \<Rightarrow> 'w snmp_api" where
  "steady host agent = \<lparr>api_Host = host, api_Walk = (\<lambda>oid w. ((agent oid, None), w)),
     api_Get = (\<lambda>oid w. (Inr None, w)), api_Connect = (\<lambda>w. (None, w))\<rparr>"

lemma field_values_steady:
  "\<exists>ifv. field_values conv (steady host agent) True f w = (Inr ifv, w) \<and> gomap_ok ifv \<and> map_of ifv = cell conv agent f"
proof -
  let ?oid = "full_oid (sf_Oid f)"
  let ?ps = "takeWhile (takes conv f ?oid) (agent ?oid)"
  let ?err = "if ?ps = agent ?oid then None
    else snd (walk_value conv f ?oid (hd (dropWhile (takes conv f ?oid) (agent ?oid))) [])"
  have once: "walk_once (steady host agent) ?oid (walk_value conv f ?oid) ifv w = (absorb conv f ?oid ?ps ifv, ?err, w)" for ifv
    by (simp add: walk_once_def steady_def run_walk_value split: option.split)
  have twice: "map_of (absorb conv f ?oid ?ps (absorb conv f ?oid ?ps [])) = cell conv agent f"
    "map_of (absorb conv f ?oid ?ps []) = cell conv agent f"
    by (auto simp: fun_eq_iff map_of_absorb cell_def Let_def split: option.split)
  have connect: "api_Connect (steady host agent) w = (None, w)" by (simp add: steady_def)
  have plain: "?err \<noteq> Some (Plain e)" for e using walk_value_nested by simp
  show ?thesis
  proof (cases ?err)
    case None
    then have "gsw_Walk 2 None (steady host agent) ?oid (walk_value conv f ?oid) [] w = (absorb conv f ?oid ?ps [], None, w)"
      by (simp only: numeral_2_eq_2 gsw_Walk.simps once) simp
    with twice(2) show ?thesis by (simp add: field_values_def Let_def gomap_ok_absorb)
  next
    case (Some e)
    then have "gsw_Walk 2 None (steady host agent) ?oid (walk_value conv f ?oid) [] w
        = (absorb conv f ?oid ?ps (absorb conv f ?oid ?ps []), Some e, w)"
      by (simp only: numeral_2_eq_2 gsw_Walk.simps once) (simp add: connect once)
    moreover obtain x where "e = Nested x" using plain Some by (cases e) auto
    ultimately show ?thesis using twice(1) by (simp add: field_values_def Let_def gomap_ok_absorb)
  qed
qed

subsection \<open>The join\<close>

definition visit_row :: "(gval \<Rightarrow> string) \<Rightarrow> snmp_table \<Rightarrow> snmp_field \<Rightarrow> string \<Rightarrow> gval \<Rightarrow> rtable_row option \<Rightarrow> rtable_row option" where
  "visit_row other t f idx v r = Some (set_value other f v (set_index t idx (case r of Some r \<Rightarrow> r | None \<Rightarrow> empty_row)))"

interpretation rows_of: key_visitor "\<lambda>idx v. put_value other t f (idx, v)" "map_of" "visit_row other t f" "\<lambda>_. True" for other t f
  by unfold_locales (simp_all add: put_value_def visit_row_def map_laws)

lemma gomap_ok_put_values: "gomap_ok rs \<Longrightarrow> gomap_ok (fold (put_value other t f) ifv rs)"
  by (induction ifv arbitrary: rs) (simp_all add: put_value_def gomap_ok_update)

lemma map_of_put_values:
  assumes "gomap_ok ifv"
  shows "map_of (fold (put_value other t f) ifv rs) idx =
    (case map_of ifv idx of None \<Rightarrow> map_of rs idx | Some v \<Rightarrow> visit_row other t f idx v (map_of rs idx))"
proof -
  have "(\<lambda>(k, v). put_value other t f (k, v)) = put_value other t f" by auto
  with rows_of.look_visits [OF TrueI assms, of other t f rs idx] show ?thesis by simp
qed

text \<open>A row computed by itself, from the cells of its index.\<close>

definition row_step :: "(f64 \<Rightarrow> i64) \<Rightarrow> (gval \<Rightarrow> string) \<Rightarrow> (string \<Rightarrow> pdu list) \<Rightarrow> snmp_table \<Rightarrow> string \<Rightarrow> snmp_field \<Rightarrow> rtable_row option \<Rightarrow> rtable_row option" where
  "row_step conv other agent t idx f r = (case cell conv agent f idx of None \<Rightarrow> r | Some v \<Rightarrow> visit_row other t f idx v r)"

lemma build_fields_steady:
  assumes "\<And>f. f \<in> set fs \<Longrightarrow> sf_Oid f \<noteq> []" "gomap_ok rs"
  shows "\<exists>rs'. build_fields conv other (steady host agent) True t fs rs w = (Inr rs', w) \<and> gomap_ok rs'
    \<and> (\<forall>idx. map_of rs' idx = fold (row_step conv other agent t idx) fs (map_of rs idx))"
  using assms
proof (induction fs arbitrary: rs)
  case (Cons f fs)
  obtain ifv where ifv: "field_values conv (steady host agent) True f w = (Inr ifv, w)" "gomap_ok ifv" "map_of ifv = cell conv agent f"
    using field_values_steady [of conv host agent f w] by blast
  have ok: "gomap_ok (fold (put_value other t f) ifv rs)" using Cons.prems(2) by (rule gomap_ok_put_values)
  have "sf_Oid f' \<noteq> []" if "f' \<in> set fs" for f' using Cons.prems(1) that by simp
  from Cons.IH [OF this ok] obtain rs' where
    "build_fields conv other (steady host agent) True t fs (fold (put_value other t f) ifv rs) w = (Inr rs', w)" "gomap_ok rs'"
    "\<forall>idx. map_of rs' idx = fold (row_step conv other agent t idx) fs (map_of (fold (put_value other t f) ifv rs) idx)" by blast
  moreover have "map_of (fold (put_value other t f) ifv rs) idx = row_step conv other agent t idx f (map_of rs idx)" for idx
    by (simp add: map_of_put_values [OF ifv(2)] ifv(3) row_step_def)
  ultimately show ?case using ifv(1) Cons.prems(1) by simp
qed simp

text \<open>The values that the fields of one name, tags or not, have for an index, in the order of the fields.\<close>

definition named_values :: "(f64 \<Rightarrow> i64) \<Rightarrow> (string \<Rightarrow> pdu list) \<Rightarrow> snmp_field list \<Rightarrow> string \<Rightarrow> bool \<Rightarrow> string \<Rightarrow> gval list" where
  "named_values conv agent fs idx is_tag n =
     List.filter (\<lambda>v. v \<noteq> GString []) (List.map_filter (\<lambda>f. cell conv agent f idx)
       (List.filter (\<lambda>f. sf_IsTag f = is_tag \<and> sf_Name f = n) fs))"

definition last_of :: "'a list \<Rightarrow> 'a option" where
  "last_of xs = (if xs = [] then None else Some (last xs))"

lemma last_of_append [simp]: "last_of (xs @ ys) = (case last_of ys of None \<Rightarrow> last_of xs | Some y \<Rightarrow> Some y)"
  by (simp add: last_of_def)

text \<open>What a row says so far about a field and about a tag other than the index.\<close>

definition row_says :: "(f64 \<Rightarrow> i64) \<Rightarrow> (gval \<Rightarrow> string) \<Rightarrow> (string \<Rightarrow> pdu list) \<Rightarrow> string \<Rightarrow> snmp_field list \<Rightarrow> rtable_row option \<Rightarrow> bool" where
  "row_says conv other agent idx fs r \<longleftrightarrow>
     (r = None \<longleftrightarrow> (\<forall>f \<in> set fs. cell conv agent f idx = None))
     \<and> (\<forall>n. Option.bind r (\<lambda>r. map_of (rr_Fields r) n) = last_of (named_values conv agent fs idx False n))
     \<and> (\<forall>n. n \<noteq> ''index'' \<longrightarrow>
          Option.bind r (\<lambda>r. map_of (rr_Tags r) n) = map_option (fmt_v other) (last_of (named_values conv agent fs idx True n)))"

lemma named_values_snoc:
  "named_values conv agent (fs @ [f]) idx b n = named_values conv agent fs idx b n @
     (case cell conv agent f idx of Some v \<Rightarrow> if v \<noteq> GString [] \<and> sf_IsTag f = b \<and> sf_Name f = n then [v] else [] | None \<Rightarrow> [])"
  by (auto simp: named_values_def map_filter_def split: option.split)

lemma row_says_step:
  assumes "row_says conv other agent idx fs r"
  shows "row_says conv other agent idx (fs @ [f]) (row_step conv other agent t idx f r)"
proof (cases "cell conv agent f idx")
  case None
  with assms show ?thesis by (auto simp: row_says_def row_step_def named_values_snoc)
next
  case (Some v)
  define r0 where "r0 = (case r of Some r \<Rightarrow> r | None \<Rightarrow> empty_row)"
  have r0: "map_of (rr_Fields r0) n = Option.bind r (\<lambda>r. map_of (rr_Fields r) n)"
    "map_of (rr_Tags r0) n = Option.bind r (\<lambda>r. map_of (rr_Tags r) n)" for n
    by (cases r; simp add: r0_def empty_row_def)+
  let ?r = "set_value other f v (set_index t idx r0)"
  have step: "row_step conv other agent t idx f r = Some ?r" by (simp add: row_step_def Some visit_row_def r0_def)
  have "map_of (rr_Fields ?r) n = (if v \<noteq> GString [] \<and> \<not> sf_IsTag f \<and> sf_Name f = n then Some v else map_of (rr_Fields r0) n)" for n
    by (auto simp: set_value_def set_index_def map_laws)
  moreover have "map_of (rr_Tags ?r) n = (if v \<noteq> GString [] \<and> sf_IsTag f \<and> sf_Name f = n then Some (fmt_v other v) else map_of (rr_Tags r0) n)"
    if "n \<noteq> ''index''" for n
    using that by (auto simp: set_value_def set_index_def map_laws)
  ultimately show ?thesis
    using assms unfolding row_says_def step
    by (auto simp: Some named_values_snoc r0 last_of_def [of "[v]"] last_of_def [of "[]"])
qed

lemma row_says_all: "row_says conv other agent idx fs (fold (row_step conv other agent t idx) fs None)"
proof (induction fs rule: rev_induct)
  case Nil
  show ?case by (simp add: row_says_def named_values_def map_filter_simps last_of_def)
next
  case (snoc f fs)
  from row_says_step [OF snoc] show ?case by simp
qed

text \<open>
  C37. A table is the join of its columns by index. Whatever an agent answers to the walks, if no field
  lacks an identifier the table is built; it has one row for each index under which some column has a
  value, and in the row of an index every field and every tag other than the index has the last value, in the order
  of the configuration, that the columns of its name have there and that is not the empty string.
\<close>

theorem snmp_Build_joins:
  assumes "\<And>f. f \<in> set (st_Fields t) \<Longrightarrow> sf_Oid f \<noteq> []"
  shows "\<exists>rs. Build conv other now (steady host agent) True t w
      = (Inr \<lparr>rt_Name = st_Name t, rt_Time = now, rt_Rows = List.map snd rs\<rparr>, w) \<and> gomap_ok rs
    \<and> (\<forall>idx. (map_of rs idx = None \<longleftrightarrow> (\<forall>f \<in> set (st_Fields t). cell conv agent f idx = None))
        \<and> (\<forall>n. Option.bind (map_of rs idx) (\<lambda>r. map_of (rr_Fields r) n) = last_of (named_values conv agent (st_Fields t) idx False n))
        \<and> (\<forall>n. n \<noteq> ''index'' \<longrightarrow> Option.bind (map_of rs idx) (\<lambda>r. map_of (rr_Tags r) n)
             = map_option (fmt_v other) (last_of (named_values conv agent (st_Fields t) idx True n))))"
proof -
  obtain rs where rs: "build_fields conv other (steady host agent) True t (st_Fields t) [] w = (Inr rs, w)" "gomap_ok rs"
    "\<forall>idx. map_of rs idx = fold (row_step conv other agent t idx) (st_Fields t) None"
    using build_fields_steady [of "st_Fields t" "[]" conv other host agent t w] assms by auto
  show ?thesis
    using rs(1,2) row_says_all [of conv other agent _ "st_Fields t" t, unfolded row_says_def, folded rs(3) [rule_format]]
    by (intro exI [of _ rs]) (simp add: Build_def)
qed


text \<open>Two interfaces of a switch, with a tag column and a value column whose index carries a suffix.\<close>

definition demo_column :: "string \<Rightarrow> string \<Rightarrow> string \<Rightarrow> bool \<Rightarrow> snmp_field" where
  "demo_column n oid c tg = \<lparr>sf_Name = n, sf_Oid = oid, sf_OidIndexSuffix = [], sf_OidIndexLength = 0, sf_IsTag = tg,
     sf_Conversion = c, sf_initialized = True\<rparr>"

definition demo_table :: snmp_table where
  "demo_table = \<lparr>st_Name = ''if'', st_InheritTags = [], st_IndexAsTag = True,
     st_Fields = [demo_column ''name'' ''.1.1'' '''' True, demo_column ''bytes'' ''1.2'' ''int'' False],
     st_Oid = [], st_initialized = True\<rparr>"

definition demo_agent :: "string \<Rightarrow> pdu list" where
  "demo_agent oid =
     (if oid = ''.1.1'' then [(''.1.1.1'', GBytes ''eth0''), (''.1.1.2'', GBytes ''eth1'')]
      else if oid = ''.1.2'' then [(''.1.2.1'', GUint 7), (''.1.2.3'', GBytes ''9''), (''.2.0'', GInt 1)]
      else [])"

theorem snmp_Build_joins_witness:
  "\<exists>rs. Build (\<lambda>_. 0) (\<lambda>_. []) 5 (steady ''sw'' demo_agent) True demo_table ()
      = (Inr \<lparr>rt_Name = st_Name demo_table, rt_Time = 5, rt_Rows = List.map snd rs\<rparr>, ()) \<and> gomap_ok rs
    \<and> (\<forall>idx. (map_of rs idx = None \<longleftrightarrow> (\<forall>f \<in> set (st_Fields demo_table). cell (\<lambda>_. 0) demo_agent f idx = None))
        \<and> (\<forall>n. Option.bind (map_of rs idx) (\<lambda>r. map_of (rr_Fields r) n) = last_of (named_values (\<lambda>_. 0) demo_agent (st_Fields demo_table) idx False n))
        \<and> (\<forall>n. n \<noteq> ''index'' \<longrightarrow> Option.bind (map_of rs idx) (\<lambda>r. map_of (rr_Tags r) n)
             = map_option (fmt_v (\<lambda>_. [])) (last_of (named_values (\<lambda>_. 0) demo_agent (st_Fields demo_table) idx True n))))"
  by (rule snmp_Build_joins) (auto simp: demo_table_def demo_column_def)

lemma snmp_demo_rows:
  "fst (Build (\<lambda>_. 0) (\<lambda>_. []) 5 (steady ''sw'' demo_agent) True demo_table ()) = Inr \<lparr>rt_Name = ''if'', rt_Time = 5, rt_Rows =
     [\<lparr>rr_Tags = [(''index'', ''1''), (''name'', ''eth0'')], rr_Fields = [(''bytes'', GInt64 7)]\<rparr>,
      \<lparr>rr_Tags = [(''index'', ''2''), (''name'', ''eth1'')], rr_Fields = []\<rparr>,
      \<lparr>rr_Tags = [(''index'', ''3'')], rr_Fields = [(''bytes'', GInt 9)]\<rparr>]\<rparr>"
  by code_simp

subsection \<open>Errors that nobody sees\<close>

text \<open>
  C38. An error in the conversion of a value is never reported by the walk of a table: it is a nested error
  like the one that ends a walk, so the table is built as if the agent had stopped before the value, and
  everything that the column has after it is missing from the rows.
\<close>

theorem snmp_conversion_error_unseen:
  assumes "agent (full_oid (sf_Oid f)) = good @ bad # later"
    "index_of f (full_oid (sf_Oid f)) (fst bad) = Index idx" "fieldConvert conv (sf_Conversion f) (snd bad) = Inl e"
  shows "\<exists>ifv. field_values conv (steady host agent) True f w = (Inr ifv, w)
    \<and> map_of ifv = cell conv (agent(full_oid (sf_Oid f) := good)) f"
proof -
  let ?oid = "full_oid (sf_Oid f)"
  obtain ifv where ifv: "field_values conv (steady host agent) True f w = (Inr ifv, w)" "map_of ifv = cell conv agent f"
    using field_values_steady [of conv host agent f w] by blast
  have "\<not> takes conv f ?oid bad" using assms(2,3) by (simp add: takes_def)
  then have "takeWhile (takes conv f ?oid) (good @ bad # later) = takeWhile (takes conv f ?oid) good"
    by (induction good) auto
  then have "cell conv agent f = cell conv (agent(?oid := good)) f" by (simp add: cell_def Let_def assms(1))
  with ifv show ?thesis by auto
qed

theorem snmp_conversion_error_unseen_witness:
  "\<exists>ifv. field_values (\<lambda>_. 0) (steady ''sw'' (\<lambda>_. [(''.1.1.1'', GBytes ''abcd''), (''.1.1.2'', GInt 5), (''.1.1.3'', GBytes ''efgh'')]))
        True (demo_column ''a'' ''.1.1'' ''ipaddr'' False) () = (Inr ifv, ())
    \<and> map_of ifv = cell (\<lambda>_. 0) ((\<lambda>_. [(''.1.1.1'', GBytes ''abcd''), (''.1.1.2'', GInt 5), (''.1.1.3'', GBytes ''efgh'')])
         (full_oid (sf_Oid (demo_column ''a'' ''.1.1'' ''ipaddr'' False)) := [(''.1.1.1'', GBytes ''abcd'')]))
         (demo_column ''a'' ''.1.1'' ''ipaddr'' False)"
proof (rule snmp_conversion_error_unseen)
  show "[(''.1.1.1'', GBytes ''abcd''), (''.1.1.2'', GInt 5), (''.1.1.3'', GBytes ''efgh'')]
      = [(''.1.1.1'', GBytes ''abcd'')] @ (''.1.1.2'', GInt 5) # [(''.1.1.3'', GBytes ''efgh'')]" by simp
  show "index_of (demo_column ''a'' ''.1.1'' ''ipaddr'' False) (full_oid (sf_Oid (demo_column ''a'' ''.1.1'' ''ipaddr'' False))) (fst (''.1.1.2'', GInt 5))
      = Index ''.2''" by code_simp
  show "fieldConvert (\<lambda>_. 0) (sf_Conversion (demo_column ''a'' ''.1.1'' ''ipaddr'' False)) (snd (''.1.1.2'', GInt 5))
      = Inl (Err ''invalid type for ipaddr conversion'')" by code_simp
qed

text \<open>
  A connection that could not be opened is used all the same: \<open>getConnection\<close> stores the connection before it
  is configured, so after a failure every later call for the agent returns it without an error, whatever dialling would say.
\<close>

theorem snmp_failed_connection_reused:
  assumes "getConnection dial i s = (Inl e, s')" "i < length (s_connectionCache s)"
  shows "\<exists>gs. getConnection dial' i s' = (Inr gs, s') \<and> configure dial s (s_Agents s ! i) = (gs, Some e)"
proof -
  from assms(1) obtain gs where gs: "s_connectionCache s ! i = None" "configure dial s (s_Agents s ! i) = (gs, Some e)"
    "s' = s\<lparr>s_connectionCache := (s_connectionCache s)[i := Some gs]\<rparr>"
    by (auto simp: getConnection_def split: option.splits prod.splits)
  with assms(2) show ?thesis by (simp add: getConnection_def)
qed

definition demo_snmp :: snmp where
  "demo_snmp = \<lparr>s_Agents = [''10.0.0.1:99999''], s_Timeout = 5 * 10 ^ 9, s_Retries = 3, s_Version = 2, s_Community = [],
     s_MaxRepetitions = 10, s_ContextName = [], s_SecLevel = [], s_SecName = [], s_AuthProtocol = [], s_AuthPassword = [],
     s_PrivProtocol = [], s_PrivPassword = [], s_EngineID = [], s_EngineBoots = 0, s_EngineTime = 0, s_Tables = [],
     s_Name = ''snmp'', s_Fields = [], s_connectionCache = [None], s_initialized = True\<rparr>"

theorem snmp_failed_connection_reused_witness:
  "\<exists>gs. getConnection (\<lambda>_. Some ''refused'') 0 (snd (getConnection (\<lambda>_. None) 0 demo_snmp))
      = (Inr gs, snd (getConnection (\<lambda>_. None) 0 demo_snmp))
    \<and> configure (\<lambda>_. None) demo_snmp (s_Agents demo_snmp ! 0) = (gs, Some ''parsing port'')"
proof (rule snmp_failed_connection_reused)
  have "fst (getConnection (\<lambda>_. None) 0 demo_snmp) = Inl ''parsing port''" by code_simp
  then show "getConnection (\<lambda>_. None) 0 demo_snmp = (Inl ''parsing port'', snd (getConnection (\<lambda>_. None) 0 demo_snmp))"
    by (metis prod.collapse)
  show "0 < length (s_connectionCache demo_snmp)" by (simp add: demo_snmp_def)
qed

subsection \<open>Identifiers\<close>

text \<open>How the tool prints an identifier: some objects with a name and a number, others with a number only.\<close>

definition obj_text :: "string option \<times> nat \<Rightarrow> string" where
  "obj_text o1 = (case fst o1 of None \<Rightarrow> itoa (int (snd o1)) | Some n \<Rightarrow> n @ ''('' @ itoa (int (snd o1)) @ '')'')"

definition obj_plain :: "string option \<times> nat \<Rightarrow> bool" where
  "obj_plain o1 \<longleftrightarrow> (case fst o1 of None \<Rightarrow> True | Some n \<Rightarrow> list_all (\<lambda>c. c \<noteq> CHR ''('' \<and> c \<noteq> CHR '' '') n)"

lemma itoa_digits: "itoa (int n) \<noteq> [] \<and> list_all is_digit (itoa (int n))"
  using digits_of_digits [of "int n"] by (simp add: itoa_def)

lemma str_index_none: "c \<notin> set s \<Longrightarrow> str_index s [c] = None"
  by (induction s) (auto simp: has_prefix_def)

lemma itoa_no: "\<not> is_digit c \<Longrightarrow> c \<notin> set (itoa (int n))"
  using itoa_digits [of n] by (auto simp: list_all_iff)

lemma obj_number_text: "obj_plain o1 \<Longrightarrow> obj_number (obj_text o1) = Some (itoa (int (snd o1)))"
proof (cases "fst o1")
  case None
  have "\<not> is_digit CHR ''(''" by (simp add: is_digit_def)
  with None show ?thesis by (simp add: obj_text_def obj_number_def str_index_none itoa_no)
next
  case (Some n)
  assume "obj_plain o1"
  then have n: "CHR ''('' \<notin> set n" using Some by (auto simp: obj_plain_def list_all_iff)
  have "CHR '')'' \<notin> set (itoa (int (snd o1)))" by (rule itoa_no) (simp add: is_digit_def)
  with Some str_index_first [OF n, of "itoa (int (snd o1)) @ '')''"]
    str_index_first [of "CHR '')''" "itoa (int (snd o1))" "[]"]
  show ?thesis by (simp add: obj_text_def obj_number_def Let_def)
qed

lemma obj_text_nonempty: "obj_text o1 \<noteq> []"
  using itoa_digits by (simp add: obj_text_def split: option.split)

lemma oid_numbers_texts:
  "list_all obj_plain os \<Longrightarrow> oid_numbers (List.map obj_text os) = Some (concat (List.map (\<lambda>o1. CHR ''.'' # itoa (int (snd o1))) os))"
  by (induction os) (simp_all add: obj_text_nonempty obj_number_text)

lemma split_from_join:
  assumes "list_all (\<lambda>x. CHR '' '' \<notin> set x) xs" "CHR '' '' \<notin> set y"
  shows "split_from '' '' acc (y @ concat (List.map ((#) CHR '' '') xs)) = (rev acc @ y) # xs"
  using assms
proof (induction xs arbitrary: y acc)
  case Nil
  then show ?case by (induction y arbitrary: acc) (auto simp: has_prefix_def)
next
  case (Cons x xs)
  have tail: "split_from '' '' [] (x @ concat (List.map ((#) CHR '' '') xs)) = x # xs" using Cons by simp
  show ?case
    using Cons.prems(2) by (induction y arbitrary: acc) (auto simp: has_prefix_def tail)
qed

lemma join_concat: "join '' '' (x # xs) = x @ concat (List.map ((#) CHR '' '') xs)"
  by (induction xs arbitrary: x) simp_all

lemma split_join_spaces:
  "xs \<noteq> [] \<Longrightarrow> list_all (\<lambda>x. CHR '' '' \<notin> set x) xs \<Longrightarrow> split (join '' '' xs) '' '' = xs"
  by (cases xs) (simp_all add: split_def join_concat split_from_join)

lemma obj_text_no_space: "obj_plain o1 \<Longrightarrow> CHR '' '' \<notin> set (obj_text o1)"
  using itoa_no [of "CHR '' ''" "snd o1"]
  by (auto simp: obj_text_def obj_plain_def list_all_iff is_digit_def split: option.splits)

text \<open>
  A printed identifier is read back: from the line of the tool that gives an object's place in the tree,
  each object with a name and its number in parentheses or a number alone, the translation reads the dotted numbers.
\<close>

theorem snmp_identifier_read:
  assumes "os \<noteq> []" "list_all obj_plain os"
  shows "translate_lines [''::= { '' @ join '' '' (List.map obj_text os) @ '' }''] c
    = Some (concat (List.map (\<lambda>o1. CHR ''.'' # itoa (int (snd o1))) os), c)"
proof -
  have "split (join '' '' (List.map obj_text os)) '' '' = List.map obj_text os"
    using assms obj_text_no_space by (intro split_join_spaces) (auto simp: list_all_iff)
  moreover have "has_prefix (''::= { '' @ x) ''::= { ''" "\<not> has_prefix (''::= { '' @ x) ''  -- TEXTUAL CONVENTION ''" for x
    by (simp_all add: has_prefix_def)
  ultimately show ?thesis
    using oid_numbers_texts [OF assms(2)] trim_prefix_append [of "''::= { ''"] trim_suffix_append [of _ "'' }''"]
    by (simp only: translate_lines.simps if_True if_False option.map(2) append_assoc [symmetric] prod.case) simp
qed

theorem snmp_identifier_read_witness:
  "translate_lines [''::= { '' @ join '' '' (List.map obj_text [(Some ''iso'', 1), (None, 3), (Some ''dod'', 6)]) @ '' }''] []
    = Some (concat (List.map (\<lambda>o1. CHR ''.'' # itoa (int (snd o1))) [(Some ''iso'', 1), (None, 3), (Some ''dod'', 6)]), [])"
  by (rule snmp_identifier_read) (simp_all add: obj_plain_def)

text \<open>A parenthesis that is not closed makes the translation panic, and a failure is remembered for good.\<close>

lemma snmp_open_parenthesis_panics:
  "snmpTranslateCall (\<lambda>_. Inr (''X::y'' @ [CHR 0x0A] @ ''::= { iso(1 }'')) ''y'' = Inl (Panic ''slice bounds out of range'')"
  by code_simp

lemma snmp_failure_sticks:
  assumes "map_of (translate_cache cs) oid = None" "snmpTranslate exec oid cs = Inr (Inl e, cs')"
  shows "snmpTranslate exec' oid cs' = Inr (Inl e, cs')"
  using assms by (auto simp: snmpTranslate_def res_bind_Inr_iff map_laws)

end
