(* ===== verification/SplunkSerializer.thy ===== *)
theory SplunkSerializer
  imports JsonSerializer
begin

section \<open>The Splunk metric serializer\<close>

text \<open>
  \<open>plugins/serializers/splunkmetric/splunkmetric.go\<close>: one JSON document for each field that is no string, over the
  encoder of theory \<open>Json\<close>. The tags are the same for every field, so what the code keeps from the last field is set again.
\<close>

record splunk_serializer =
  ss_HecRouting :: bool

definition Splunk_NewSerializer :: "bool \<Rightarrow> splunk_serializer" where
  "Splunk_NewSerializer routing = \<lparr>ss_HecRouting = routing\<rparr>"

record hec_series =
  hec_Time :: f64
  hec_Event :: string
  hec_Host :: string
  hec_Index :: string
  hec_Source :: string
  hec_Fields :: "(string, gval) gomap"

definition verifyValue :: "gval \<Rightarrow> bool" where
  "verifyValue v = (case v of GString _ \<Rightarrow> False | _ \<Rightarrow> True)"

definition routed :: "string \<Rightarrow> bool" where
  "routed n \<longleftrightarrow> n \<in> set [''host'', ''index'', ''source'']"

definition splunk_time :: "metric \<Rightarrow> f64" where
  "splunk_time m = f_div (f64_of_int (sint (word_of_int (m_tm m) :: i64))) (f64_of_int (10 ^ 9))"

definition splunk_name :: "metric \<Rightarrow> field \<Rightarrow> gval" where
  "splunk_name m f = GString (m_name m @ ''.'' @ field_key f)"

definition splunk_fields :: "metric \<Rightarrow> field \<Rightarrow> (string, gval) gomap" where
  "splunk_fields m f =
     AList.update ''_value'' (field_value f) (AList.update ''metric_name'' (splunk_name m f)
       (fold (\<lambda>(n, t) obj. if routed n then obj else AList.update n (GString t) obj) (Tags m)
         [(''metric_name'', splunk_name m f), (''_value'', field_value f)]))"

definition tag_or_empty :: "metric \<Rightarrow> string \<Rightarrow> string" where
  "tag_or_empty m n = (case map_of (Tags m) n of Some t \<Rightarrow> t | None \<Rightarrow> [])"

definition splunk_series :: "metric \<Rightarrow> field \<Rightarrow> hec_series" where
  "splunk_series m f =
     \<lparr>hec_Time = splunk_time m, hec_Event = ''metric'', hec_Host = tag_or_empty m ''host'', hec_Index = tag_or_empty m ''index'',
      hec_Source = tag_or_empty m ''source'', hec_Fields = splunk_fields m f\<rparr>"

text \<open>A struct is written in the order of its members; those that are omitted when empty are left out.\<close>

definition json_optional :: "string \<Rightarrow> string \<Rightarrow> (string \<times> string json) list" where
  "json_optional k s = (if s = [] then [] else [(k, JString s)])"

definition hec_json :: "hec_series \<Rightarrow> string json option" where
  "hec_json d =
     (case json_float (hec_Time d) of None \<Rightarrow> None
      | Some t \<Rightarrow> map_option (\<lambda>fs. JObject ([(''time'', JNumber t), (''event'', JString (hec_Event d))]
          @ json_optional ''host'' (hec_Host d) @ json_optional ''index'' (hec_Index d) @ json_optional ''source'' (hec_Source d)
          @ [(''fields'', json_map fs)])) (json_fields (hec_Fields d)))"

definition splunk_document :: "splunk_serializer \<Rightarrow> metric \<Rightarrow> field \<Rightarrow> string json option" where
  "splunk_document s m f =
     (let d = splunk_series m f
      in if ss_HecRouting s then hec_json d
         else map_option json_map (json_fields (AList.update ''time'' (GFloat64 (hec_Time d)) (hec_Fields d))))"

fun splunk_documents :: "splunk_serializer \<Rightarrow> metric \<Rightarrow> field list \<Rightarrow> string option" where
  "splunk_documents s m [] = Some []"
| "splunk_documents s m (f # fs) =
     (if \<not> verifyValue (field_value f) then splunk_documents s m fs
      else case splunk_document s m f of
        None \<Rightarrow> None
      | Some d \<Rightarrow> map_option (\<lambda>t. marshal d @ t) (splunk_documents s m fs))"

definition splunk_createObject :: "splunk_serializer \<Rightarrow> metric \<Rightarrow> string option" where
  "splunk_createObject s m = splunk_documents s m (m_fields m)"

definition Splunk_Serialize :: "splunk_serializer \<Rightarrow> metric \<Rightarrow> string result" where
  "Splunk_Serialize s m =
     (case splunk_createObject s m of None \<Rightarrow> Inl (Err ''Dropping invalid metric'') | Some t \<Rightarrow> Inr t)"

fun Splunk_SerializeBatch :: "splunk_serializer \<Rightarrow> metric list \<Rightarrow> string result" where
  "Splunk_SerializeBatch s [] = Inr []"
| "Splunk_SerializeBatch s (m # ms) =
     (case splunk_createObject s m of
        None \<Rightarrow> Inl (Err ''Dropping invalid metric'')
      | Some t \<Rightarrow> res_bind (Splunk_SerializeBatch s ms) (\<lambda>ts. Inr (t @ ts)))"

subsection \<open>What a document says\<close>

lemma map_of_splunk_tags:
  "map_of (fold (\<lambda>(n, t) obj. if routed n then obj else AList.update n (GString t) obj) tags obj) k
     = (if routed k then map_of obj k
        else case map_of (rev tags) k of Some t \<Rightarrow> Some (GString t) | None \<Rightarrow> map_of obj k)"
  by (induction tags arbitrary: obj) (auto simp: map_laws map_add_def split: option.splits)

text \<open>The fields of a document: the name, the value, and every tag but those that are routed or have the name of one of the two.\<close>

lemma splunk_fields_say:
  assumes "metric_ok m"
  shows "map_of (splunk_fields m f) k =
    (if k = ''_value'' then Some (field_value f) else if k = ''metric_name'' then Some (splunk_name m f)
     else if routed k then None else map_option GString (GetTag m k))"
proof -
  have "map_of (rev (Tags m)) k = GetTag m k"
    using gomap_ok_Tags [of m] map_of_rev_distinct [of "Tags m"] map_of_Tags [OF assms] by simp
  moreover have "\<not> routed ''_value''" "\<not> routed ''metric_name''" by (simp_all add: routed_def)
  ultimately show ?thesis
    by (auto simp: splunk_fields_def map_laws map_of_splunk_tags split: option.split)
qed

text \<open>
  A batch is the documents of its metrics one after the other, and one value that JSON cannot express loses the whole batch.
\<close>

lemma splunk_batch:
  "Splunk_SerializeBatch s ms = (if \<forall>m \<in> set ms. splunk_createObject s m \<noteq> None
     then Inr (concat (List.map (the \<circ> splunk_createObject s) ms)) else Inl (Err ''Dropping invalid metric''))"
  by (induction ms) (auto simp: comp_def split: option.splits)

definition splunk_metric :: "(string \<times> gval) list \<Rightarrow> metric" where
  "splunk_metric fs = New ''cpu'' [(''host'', ''a''), (''dc'', ''b'')] fs (1500 * 10 ^ 6) None"

lemma splunk_demo:
  "Splunk_Serialize (Splunk_NewSerializer True) (splunk_metric [(''s'', GString ''x''), (''n'', GInt64 7)])
     = Inr (''{'' @ join '','' [json_quote ''time'' @ '':1.5'', json_quote ''event'' @ '':'' @ json_quote ''metric'',
         json_quote ''host'' @ '':'' @ json_quote ''a'', json_quote ''fields'' @ '':{'' @ join '',''
           [json_quote ''_value'' @ '':7'', json_quote ''dc'' @ '':'' @ json_quote ''b'',
            json_quote ''metric_name'' @ '':'' @ json_quote ''cpu.n''] @ ''}''] @ ''}'')"
  by code_simp

text \<open>Without routing the tags for the routing are lost.\<close>

lemma splunk_unrouted_loses_host:
  "Splunk_Serialize (Splunk_NewSerializer False) (splunk_metric [(''n'', GInt64 7)])
     = Inr (''{'' @ join '','' [json_quote ''_value'' @ '':7'', json_quote ''dc'' @ '':'' @ json_quote ''b'',
            json_quote ''metric_name'' @ '':'' @ json_quote ''cpu.n'', json_quote ''time'' @ '':1.5''] @ ''}'')"
  by code_simp

lemma splunk_infinity_loses_batch:
  "Splunk_SerializeBatch (Splunk_NewSerializer True) [splunk_metric [(''n'', GInt64 7)], splunk_metric [(''n'', GFloat64 (f_inf False))]]
     = Inl (Err ''Dropping invalid metric'')"
  by code_simp

end
