(* ===== verification/Statsd.thy ===== *)
theory Statsd
  imports GraphiteParser RunningStats MakeMetric
begin

section \<open>The statsd input\<close>

text \<open>
  \<open>plugins/inputs/statsd/statsd.go\<close>: lines of the statsd protocol are parsed and aggregated in four
  caches, which \<open>Gather\<close> reports and clears; packets wait in a bounded queue, and a TCP server limits
  its connections by tokens. Parameters: the random source of \<open>RunningStats\<close>, the
  implementation-defined float conversions (\<open>impl\<close>) and, for \<open>Gather\<close>, the accumulator, which may
  write to the maps it is given. The sockets, timeouts and log messages are left out.
\<close>

subsection \<open>State\<close>

record statsd_metric =
  sm_name :: string
  sm_field :: string
  sm_hash :: string
  sm_intvalue :: i64
  sm_floatvalue :: f64
  sm_strvalue :: string
  sm_mtype :: string
  sm_additive :: bool
  sm_samplerate :: f64
  sm_tags :: strmap

text \<open>
  The cached Graphite parser is kept with its separator; one whose templates were refused is kept
  too, without an engine: it is an \<open>Inl\<close>.

  The four cache types differ in what a field holds: values for gauges and counters, running
  statistics for timings, a set of strings (as the list of its members) for sets.
\<close>

record 'v cached =
  ch_name :: string
  ch_fields :: "(string, 'v) gomap"
  ch_tags :: strmap

type_synonym 'v cache_map = "(string, 'v cached) gomap"

record 'g statsd =
  sd_Percentiles :: "int list"
  sd_PercentileLimit :: int
  sd_DeleteGauges :: bool
  sd_DeleteCounters :: bool
  sd_DeleteSets :: bool
  sd_DeleteTimings :: bool
  sd_ConvertNames :: bool
  sd_MetricSeparator :: string
  sd_ParseDataDogTags :: bool
  sd_Templates :: "string list"
  sd_graphiteParser :: "(string \<times> graphite_parser result) option"
  sd_gauges :: "gval cache_map"
  sd_counters :: "gval cache_map"
  sd_sets :: "string list cache_map"
  sd_timings :: "running_stats cache_map"
  sd_rand :: 'g

definition statsd_Start :: "'g statsd \<Rightarrow> 'g statsd" where
  "statsd_Start s = s\<lparr>sd_gauges := [], sd_counters := [], sd_sets := [], sd_timings := [],
     sd_MetricSeparator := (if sd_MetricSeparator s = [] then ''_'' else sd_MetricSeparator s)\<rparr>"

subsection \<open>Aggregation\<close>

text \<open>The cached entry of a metric, made from the metric when there is none.\<close>

definition entry_of :: "statsd_metric \<Rightarrow> 'v cache_map \<Rightarrow> 'v cached" where
  "entry_of m c = (case map_of c (sm_hash m) of
     Some e \<Rightarrow> e
   | None \<Rightarrow> \<lparr>ch_name = sm_name m, ch_fields = [], ch_tags = sm_tags m\<rparr>)"

definition put_entry :: "statsd_metric \<Rightarrow> 'v \<Rightarrow> 'v cache_map \<Rightarrow> 'v cache_map" where
  "put_entry m v c =
     (let e = entry_of m c in AList.update (sm_hash m) (e\<lparr>ch_fields := AList.update (sm_field m) v (ch_fields e)\<rparr>) c)"

text \<open>\<open>AddValue\<close> some number of times.\<close>

fun repeat_value :: "'g random \<Rightarrow> nat \<Rightarrow> f64 \<Rightarrow> 'g \<times> running_stats \<Rightarrow> ('g \<times> running_stats) result" where
  "repeat_value rand 0 v grs = Inr grs"
| "repeat_value rand (Suc n) v grs = res_bind (AddValue rand v grs) (repeat_value rand n v)"

definition sample_times :: "(f64 \<Rightarrow> i64) \<Rightarrow> f64 \<Rightarrow> nat" where
  "sample_times impl rate = nat (sint (f64_to_i64 impl (f_div (f64_of_int 1) rate)))"

definition aggregate_timing :: "(f64 \<Rightarrow> i64) \<Rightarrow> 'g random \<Rightarrow> statsd_metric \<Rightarrow> 'g statsd \<Rightarrow> 'g statsd result" where
  "aggregate_timing impl rand m s =
     (let e = entry_of m (sd_timings s);
          field = (case map_of (ch_fields e) (sm_field m) of Some rs \<Rightarrow> rs | None \<Rightarrow> new_stats (sd_PercentileLimit s));
          times = (if f_lt f_zero (sm_samplerate m) then sample_times impl (sm_samplerate m) else 1)
      in res_bind (repeat_value rand times (sm_floatvalue m) (sd_rand s, field)) (\<lambda>(g, rs).
        Inr (s\<lparr>sd_timings := put_entry m rs (sd_timings s), sd_rand := g\<rparr>)))"

definition aggregate_counter :: "statsd_metric \<Rightarrow> 'g statsd \<Rightarrow> 'g statsd result" where
  "aggregate_counter m s =
     (let old = (case map_of (ch_fields (entry_of m (sd_counters s))) (sm_field m) of Some v \<Rightarrow> v | None \<Rightarrow> GInt64 0)
      in case old of
        GInt64 i \<Rightarrow> Inr (s\<lparr>sd_counters := put_entry m (GInt64 (i + sm_intvalue m)) (sd_counters s)\<rparr>)
      | _ \<Rightarrow> Inl (Panic ''interface conversion''))"

definition aggregate_gauge :: "statsd_metric \<Rightarrow> 'g statsd \<Rightarrow> 'g statsd result" where
  "aggregate_gauge m s =
     (let old = (case map_of (ch_fields (entry_of m (sd_gauges s))) (sm_field m) of Some v \<Rightarrow> v | None \<Rightarrow> GFloat64 f_zero)
      in if sm_additive m then
           (case old of
              GFloat64 x \<Rightarrow> Inr (s\<lparr>sd_gauges := put_entry m (GFloat64 (f_add x (sm_floatvalue m))) (sd_gauges s)\<rparr>)
            | _ \<Rightarrow> Inl (Panic ''interface conversion''))
         else Inr (s\<lparr>sd_gauges := put_entry m (GFloat64 (sm_floatvalue m)) (sd_gauges s)\<rparr>))"

definition aggregate_set :: "statsd_metric \<Rightarrow> 'g statsd \<Rightarrow> 'g statsd result" where
  "aggregate_set m s =
     (let old = (case map_of (ch_fields (entry_of m (sd_sets s))) (sm_field m) of Some v \<Rightarrow> v | None \<Rightarrow> [])
      in Inr (s\<lparr>sd_sets := put_entry m (List.insert (sm_strvalue m) old) (sd_sets s)\<rparr>))"

definition aggregate :: "(f64 \<Rightarrow> i64) \<Rightarrow> 'g random \<Rightarrow> statsd_metric \<Rightarrow> 'g statsd \<Rightarrow> 'g statsd result" where
  "aggregate impl rand m s =
     (if sm_mtype m = ''ms'' \<or> sm_mtype m = ''h'' then aggregate_timing impl rand m s
      else if sm_mtype m = ''c'' then aggregate_counter m s
      else if sm_mtype m = ''g'' then aggregate_gauge m s
      else if sm_mtype m = ''s'' then aggregate_set m s
      else Inr s)"

subsection \<open>Parsing\<close>

definition parseKeyValue :: "string \<Rightarrow> string \<times> string" where
  "parseKeyValue keyvalue =
     (case split keyvalue ''='' of
        [k, v] \<Rightarrow> (k, v)
      | [v] \<Rightarrow> ([], v)
      | _ \<Rightarrow> ([], []))"

definition bucket_tags :: "string list \<Rightarrow> strmap" where
  "bucket_tags parts =
     fold (\<lambda>btag tags. case parseKeyValue btag of (k, v) \<Rightarrow> if k \<noteq> [] then AList.update k v tags else tags) parts []"

text \<open>
  \<open>parseName\<close>: the name, the field and the tags of a bucket; \<open>None\<close> is a \<open>nil\<close> tag map. The parser is
  made when there is none, or it has another separator. If that fails the bucket is taken as it is;
  the next time the cached parser is used without a check, and its engine is a \<open>nil\<close> pointer.
\<close>

definition new_parser :: "'g statsd \<Rightarrow> string \<times> graphite_parser result" where
  "new_parser s = (if sd_MetricSeparator s = [] then ''.'' else sd_MetricSeparator s,
     NewGraphiteParser (sd_MetricSeparator s) (sd_Templates s) [])"

definition parser_is_current :: "'g statsd \<Rightarrow> bool" where
  "parser_is_current s = (case sd_graphiteParser s of None \<Rightarrow> False | Some (sep, r) \<Rightarrow> sep = sd_MetricSeparator s)"

definition apply_parser :: "graphite_parser result \<Rightarrow> strmap \<Rightarrow> string \<Rightarrow> (string \<times> strmap \<times> string) result" where
  "apply_parser r tags name =
     (case r of
        Inr p \<Rightarrow> ApplyTemplate (p\<lparr>gp_DefaultTags := tags\<rparr>) name
      | Inl _ \<Rightarrow> if length (fields_of name) = 0 then Inr ([], [], []) else Inl (Panic ''nil pointer dereference''))"

definition finish_name :: "'g statsd \<Rightarrow> string \<Rightarrow> string" where
  "finish_name s name = (if sd_ConvertNames s then replace_all (replace_all name ''.'' ''_'') ''-'' ''__'' else name)"

definition parseName :: "string \<Rightarrow> 'g statsd \<Rightarrow> ('g statsd \<times> string \<times> string \<times> strmap option) result" where
  "parseName bucket s =
     (let parts = split bucket '','';
          tags = bucket_tags (tl parts);
          name = hd parts;
          (sep, r) = (if parser_is_current s then the (sd_graphiteParser s) else new_parser s);
          s1 = s\<lparr>sd_graphiteParser := Some (sep, map_sum id (\<lambda>p. p\<lparr>gp_DefaultTags := tags\<rparr>) r)\<rparr>;
          finish = (\<lambda>name field tags. Inr (s1, finish_name s name, if field = [] then ''value'' else field, tags))
      in case (if parser_is_current s then None else case r of Inl e \<Rightarrow> Some e | Inr _ \<Rightarrow> None) of
        Some (Panic e) \<Rightarrow> Inl (Panic e)
      | Some (Err e) \<Rightarrow> finish name [] (Some tags)
      | None \<Rightarrow> (case apply_parser r tags name of
            Inl (Panic e) \<Rightarrow> Inl (Panic e)
          | Inl (Err e) \<Rightarrow> finish [] [] None
          | Inr (name', tags', field) \<Rightarrow> finish name' field (Some tags')))"

text \<open>Tags in the datadog format: the other segments, joined again, and the tags.\<close>

definition dog_tag :: "string \<Rightarrow> strmap \<Rightarrow> strmap" where
  "dog_tag tag tags =
     (case split2 tag '':'' of
        [k] \<Rightarrow> if k \<noteq> [] then AList.update k [] tags else tags
      | k # v # _ \<Rightarrow> if k \<noteq> [] then AList.update k v tags else tags
      | [] \<Rightarrow> tags)"

definition is_dog :: "string \<Rightarrow> bool" where
  "is_dog segment = (length segment > 0 \<and> hd segment = CHR ''#'')"

definition dog_line :: "string \<Rightarrow> string \<times> strmap" where
  "dog_line line =
     (let segments = split line ''|''
      in (join ''|'' (List.filter (\<lambda>sg. \<not> is_dog sg) segments),
          fold dog_tag (concat (List.map (\<lambda>sg. split (tl sg) '','') (List.filter is_dog segments))) []))"

definition sample_rate :: "string list \<Rightarrow> f64" where
  "sample_rate pipesplit =
     (if length pipesplit > 2 \<and> contains (pipesplit ! 2) ''@'' \<and> length (pipesplit ! 2) > 1
      then (case parse_float (tl (pipesplit ! 2)) of Some r \<Rightarrow> r | None \<Rightarrow> f_zero) else f_zero)"

definition counter_value :: "(f64 \<Rightarrow> i64) \<Rightarrow> f64 \<Rightarrow> string \<Rightarrow> i64 option" where
  "counter_value impl rate v =
     map_option (\<lambda>i. if \<not> f_eq rate f_zero then f64_to_i64 impl (f_div (f64_of_int (sint i)) rate) else i)
       (case parse_int v of Some i \<Rightarrow> Some i | None \<Rightarrow> map_option (f64_to_i64 impl) (parse_float v))"

definition metric_type_tag :: "string \<Rightarrow> string" where
  "metric_type_tag t =
     (if t = ''c'' then ''counter'' else if t = ''g'' then ''gauge'' else if t = ''s'' then ''set''
      else if t = ''ms'' then ''timing'' else ''histogram'')"

text \<open>The unique key: the sorted tags, each \<open>key=value\<close>, and the name, joined without a separator.\<close>

definition statsd_hash :: "strmap \<Rightarrow> string \<Rightarrow> string" where
  "statsd_hash tags name = join [] (sort (List.map (\<lambda>(k, v). k @ ''='' @ v) tags) @ [name])"

definition parse_bit :: "(f64 \<Rightarrow> i64) \<Rightarrow> strmap \<Rightarrow> string \<Rightarrow> string \<Rightarrow> 'g statsd \<Rightarrow> ('g statsd \<times> statsd_metric) result" where
  "parse_bit impl lineTags bucket item s =
     (let pipesplit = split item ''|'' in
      if length pipesplit < 2 then Inl (Err ''Error Parsing statsd line'')
      else
        let value = pipesplit ! 0; mtype = pipesplit ! 1; rate = sample_rate pipesplit;
            additive = (has_prefix value ''-'' \<or> has_prefix value ''+'')
        in if mtype \<notin> set [''g'', ''c'', ''s'', ''ms'', ''h''] then Inl (Err ''Error Parsing statsd line'')
           else if additive \<and> mtype \<noteq> ''g'' \<and> mtype \<noteq> ''c'' then Inl (Err ''Error Parsing statsd line'')
           else if mtype \<in> set [''g'', ''ms'', ''h''] \<and> parse_float value = None then Inl (Err ''Error Parsing statsd line'')
           else if mtype = ''c'' \<and> counter_value impl rate value = None then Inl (Err ''Error Parsing statsd line'')
           else res_bind (parseName bucket s) (\<lambda>(s1, name, field, otags).
             case otags of
               None \<Rightarrow> Inl (Panic ''assignment to entry in nil map'')
             | Some tags0 \<Rightarrow>
                 let tags = add_all lineTags (AList.update ''metric_type'' (metric_type_tag mtype) tags0)
                 in Inr (s1, \<lparr>sm_name = name, sm_field = field, sm_hash = statsd_hash tags name,
                      sm_intvalue = (if mtype = ''c'' then the (counter_value impl rate value) else 0),
                      sm_floatvalue = (if mtype \<in> set [''g'', ''ms'', ''h''] then the (parse_float value) else f_zero),
                      sm_strvalue = (if mtype = ''s'' then value else []),
                      sm_mtype = mtype, sm_additive = additive, sm_samplerate = rate, sm_tags = tags\<rparr>)))"

text \<open>
  The bits of a line, one after the other; a bad bit ends the line with an error, the bits before
  it stay aggregated. The result is the state and whether the line was good.
\<close>

fun parse_bits :: "(f64 \<Rightarrow> i64) \<Rightarrow> 'g random \<Rightarrow> strmap \<Rightarrow> string \<Rightarrow> string list \<Rightarrow> 'g statsd \<Rightarrow> ('g statsd \<times> bool) result" where
  "parse_bits impl rand lineTags bucket [] s = Inr (s, True)"
| "parse_bits impl rand lineTags bucket (item # rest) s =
     (case parse_bit impl lineTags bucket item s of
        Inl (Panic e) \<Rightarrow> Inl (Panic e)
      | Inl (Err e) \<Rightarrow> Inr (s, False)
      | Inr (s1, m) \<Rightarrow> res_bind (aggregate impl rand m s1) (parse_bits impl rand lineTags bucket rest))"

definition parseStatsdLine :: "(f64 \<Rightarrow> i64) \<Rightarrow> 'g random \<Rightarrow> string \<Rightarrow> 'g statsd \<Rightarrow> ('g statsd \<times> bool) result" where
  "parseStatsdLine impl rand line0 s =
     (let (line, lineTags) = (if sd_ParseDataDogTags s then dog_line line0 else (line0, []));
          parts = split line '':''
      in if length parts < 2 then Inr (s, False)
         else parse_bits impl rand lineTags (hd parts) (tl parts) s)"

text \<open>One packet: its lines that are not blank; errors of lines are ignored.\<close>

fun parse_packet_lines :: "(f64 \<Rightarrow> i64) \<Rightarrow> 'g random \<Rightarrow> string list \<Rightarrow> 'g statsd \<Rightarrow> 'g statsd result" where
  "parse_packet_lines impl rand [] s = Inr s"
| "parse_packet_lines impl rand (l # ls) s =
     (let line = trim_space l
      in if line \<noteq> [] then res_bind (parseStatsdLine impl rand line s) (\<lambda>(s1, ok). parse_packet_lines impl rand ls s1)
         else parse_packet_lines impl rand ls s)"

definition parse_packet :: "(f64 \<Rightarrow> i64) \<Rightarrow> 'g random \<Rightarrow> string \<Rightarrow> 'g statsd \<Rightarrow> 'g statsd result" where
  "parse_packet impl rand buf s = parse_packet_lines impl rand (split buf [CHR 0x0A]) s"

subsection \<open>Gathering\<close>










subsection \<open>The queue of packets and the connections\<close>

text \<open>
  A packet is queued if the channel accepts it (it has room, or a receiver waits: \<open>ready\<close>) and is
  dropped otherwise. The UDP listener guards the remainder by the allowed number of messages, the
  TCP handler does not.
\<close>

record packet_queue =
  pq_in :: "string list"
  pq_allowed :: int
  pq_drops :: int

definition udp_packet :: "bool \<Rightarrow> string \<Rightarrow> packet_queue \<Rightarrow> packet_queue result" where
  "udp_packet ready b q =
     (if ready then Inr (q\<lparr>pq_in := pq_in q @ [b]\<rparr>) else Inr (q\<lparr>pq_drops := pq_drops q + 1\<rparr>))"

definition tcp_line :: "bool \<Rightarrow> string \<Rightarrow> packet_queue \<Rightarrow> packet_queue result" where
  "tcp_line ready b q =
     (if length b = 0 then Inr q
      else if ready then Inr (q\<lparr>pq_in := pq_in q @ [b @ [CHR 0x0A]]\<rparr>)
      else let q1 = q\<lparr>pq_drops := pq_drops q + 1\<rparr>
           in if pq_drops q1 \<noteq> 1 \<and> pq_allowed q1 = 0 then Inl (Panic ''integer divide by zero'') else Inr q1)"

text \<open>
  The TCP listener: \<open>accept\<close> holds a token for each connection still allowed. A new connection
  takes a token and is remembered under a random id, or is refused; a handler that ends gives its
  token back and is forgotten.
\<close>

record 'c tcp_listener =
  tl_accept :: nat
  tl_handlers :: "(string \<times> 'c) list"
  tl_conns :: "(string, 'c) gomap"
  tl_refused :: "'c list"
  tl_current :: i64
  tl_total :: i64

definition listener_Start :: "nat \<Rightarrow> 'c tcp_listener" where
  "listener_Start maxc = \<lparr>tl_accept = maxc, tl_handlers = [], tl_conns = [], tl_refused = [], tl_current = 0, tl_total = 0\<rparr>"

datatype 'c conn_event = Connected string 'c | Ended string 'c

fun conn_step :: "'c conn_event \<Rightarrow> 'c tcp_listener \<Rightarrow> 'c tcp_listener option" where
  "conn_step (Connected cid c) l =
     (if 0 < tl_accept l then
        Some (l\<lparr>tl_accept := tl_accept l - 1, tl_conns := AList.update cid c (tl_conns l),
                tl_handlers := (cid, c) # tl_handlers l, tl_current := tl_current l + 1, tl_total := tl_total l + 1\<rparr>)
      else Some (l\<lparr>tl_refused := tl_refused l @ [c]\<rparr>))"
| "conn_step (Ended cid c) l =
     (if (cid, c) \<in> set (tl_handlers l) then
        Some (l\<lparr>tl_accept := tl_accept l + 1, tl_conns := AList.delete cid (tl_conns l),
                tl_handlers := remove1 (cid, c) (tl_handlers l), tl_current := tl_current l - 1\<rparr>)
      else None)"

fun conn_run :: "'c conn_event list \<Rightarrow> 'c tcp_listener \<Rightarrow> 'c tcp_listener option" where
  "conn_run [] l = Some l"
| "conn_run (e # es) l = Option.bind (conn_step e l) (conn_run es)"

subsection \<open>Interface: cells that each event updates on its own\<close>

text \<open>
  Every event belongs to a cell, unless it is not selected, and changes that cell only, from its old
  content. After any run a cell holds what its own events made of it, in their order.
\<close>

fun run_all :: "('m \<Rightarrow> 's \<Rightarrow> 's result) \<Rightarrow> 'm list \<Rightarrow> 's \<Rightarrow> 's result" where
  "run_all step [] s = Inr s"
| "run_all step (m # ms) s = res_bind (step m s) (run_all step ms)"

locale cell_aggregator =
  fixes step :: "'m \<Rightarrow> 's \<Rightarrow> 's result"
    and look :: "'s \<Rightarrow> 'k \<Rightarrow> 'v option"
    and sel :: "'m \<Rightarrow> bool"
    and cell :: "'m \<Rightarrow> 'k"
    and upd :: "'m \<Rightarrow> 'v option \<Rightarrow> 'v"
  assumes look_step: "step m s = Inr s' \<Longrightarrow>
    look s' x = (if sel m \<and> cell m = x then Some (upd m (look s x)) else look s x)"
begin

lemma look_run:
  "run_all step ms s = Inr s' \<Longrightarrow>
   look s' x = fold (\<lambda>m v. Some (upd m v)) (List.filter (\<lambda>m. sel m \<and> cell m = x) ms) (look s x)"
proof (induction ms arbitrary: s)
  case (Cons m ms)
  then obtain s1 where s1: "step m s = Inr s1" "run_all step ms s1 = Inr s'" by (auto simp: res_bind_Inr_iff)
  from Cons.IH [OF s1(2)] look_step [OF s1(1), of x] show ?case by simp
qed simp

end

subsection \<open>The caches as cells\<close>

definition cached_value :: "'v cache_map \<Rightarrow> string \<times> string \<Rightarrow> 'v option" where
  "cached_value c hf = Option.bind (map_of c (fst hf)) (\<lambda>e. map_of (ch_fields e) (snd hf))"

abbreviation metric_cell :: "statsd_metric \<Rightarrow> string \<times> string" where
  "metric_cell m \<equiv> (sm_hash m, sm_field m)"

lemma cached_put_entry:
  "cached_value (put_entry m v c) x = (if x = metric_cell m then Some v else cached_value c x)"
  by (cases x; cases "map_of c (sm_hash m)")
    (auto simp: cached_value_def put_entry_def entry_of_def Let_def map_laws)

lemma cached_entry_of: "map_of (ch_fields (entry_of m c)) (sm_field m) = cached_value c (metric_cell m)"
  by (simp add: entry_of_def cached_value_def split: option.split)

lemma aggregate_cases:
  assumes "aggregate impl rand m s = Inr s'"
  obtains (timing) "sm_mtype m = ''ms'' \<or> sm_mtype m = ''h''" "aggregate_timing impl rand m s = Inr s'"
  | (counter) "sm_mtype m = ''c''" "aggregate_counter m s = Inr s'"
  | (gauge) "sm_mtype m = ''g''" "aggregate_gauge m s = Inr s'"
  | (set) "sm_mtype m = ''s''" "aggregate_set m s = Inr s'"
  | (other) "sm_mtype m \<notin> {''ms'', ''h'', ''c'', ''g'', ''s''}" "s' = s"
  using assms by (simp add: aggregate_def split: if_splits)

definition counter_upd :: "statsd_metric \<Rightarrow> gval option \<Rightarrow> gval" where
  "counter_upd m old = GInt64 ((case old of Some (GInt64 i) \<Rightarrow> i | _ \<Rightarrow> 0) + sm_intvalue m)"

definition gauge_upd :: "statsd_metric \<Rightarrow> gval option \<Rightarrow> gval" where
  "gauge_upd m old = GFloat64 (if sm_additive m then f_add (case old of Some (GFloat64 x) \<Rightarrow> x | _ \<Rightarrow> f_zero) (sm_floatvalue m)
     else sm_floatvalue m)"

definition set_upd :: "statsd_metric \<Rightarrow> string list option \<Rightarrow> string list" where
  "set_upd m old = List.insert (sm_strvalue m) (case old of Some xs \<Rightarrow> xs | None \<Rightarrow> [])"

lemma aggregate_timing_frame:
  "aggregate_timing impl rand m s = Inr s' \<Longrightarrow>
   sd_counters s' = sd_counters s \<and> sd_gauges s' = sd_gauges s \<and> sd_sets s' = sd_sets s"
  by (auto simp: aggregate_timing_def Let_def res_bind_Inr_iff)

lemma aggregate_counter_Inr:
  "aggregate_counter m s = Inr s' \<Longrightarrow>
   s' = s\<lparr>sd_counters := put_entry m (counter_upd m (cached_value (sd_counters s) (metric_cell m))) (sd_counters s)\<rparr>"
  by (auto simp: aggregate_counter_def cached_entry_of counter_upd_def Let_def split: option.splits gval.splits)

lemma aggregate_gauge_Inr:
  "aggregate_gauge m s = Inr s' \<Longrightarrow>
   s' = s\<lparr>sd_gauges := put_entry m (gauge_upd m (cached_value (sd_gauges s) (metric_cell m))) (sd_gauges s)\<rparr>"
  by (auto simp: aggregate_gauge_def cached_entry_of gauge_upd_def Let_def split: option.splits gval.splits if_splits)

lemma aggregate_set_Inr:
  "aggregate_set m s = Inr s' \<Longrightarrow>
   s' = s\<lparr>sd_sets := put_entry m (set_upd m (cached_value (sd_sets s) (metric_cell m))) (sd_sets s)\<rparr>"
  by (simp add: aggregate_set_def cached_entry_of set_upd_def Let_def option.case_eq_if)

interpretation counter_cells: cell_aggregator "aggregate impl rand" "\<lambda>s. cached_value (sd_counters s)"
  "\<lambda>m. sm_mtype m = ''c''" metric_cell counter_upd for impl rand
proof
  fix m s s' x assume "aggregate impl rand m s = Inr s'"
  then show "cached_value (sd_counters s') x = (if sm_mtype m = ''c'' \<and> metric_cell m = x
      then Some (counter_upd m (cached_value (sd_counters s) x)) else cached_value (sd_counters s) x)"
    by (cases rule: aggregate_cases)
      (auto dest!: aggregate_timing_frame aggregate_counter_Inr aggregate_gauge_Inr aggregate_set_Inr simp: cached_put_entry)
qed

interpretation gauge_cells: cell_aggregator "aggregate impl rand" "\<lambda>s. cached_value (sd_gauges s)"
  "\<lambda>m. sm_mtype m = ''g''" metric_cell gauge_upd for impl rand
proof
  fix m s s' x assume "aggregate impl rand m s = Inr s'"
  then show "cached_value (sd_gauges s') x = (if sm_mtype m = ''g'' \<and> metric_cell m = x
      then Some (gauge_upd m (cached_value (sd_gauges s) x)) else cached_value (sd_gauges s) x)"
    by (cases rule: aggregate_cases)
      (auto dest!: aggregate_timing_frame aggregate_counter_Inr aggregate_gauge_Inr aggregate_set_Inr simp: cached_put_entry)
qed

interpretation set_cells: cell_aggregator "aggregate impl rand" "\<lambda>s. cached_value (sd_sets s)"
  "\<lambda>m. sm_mtype m = ''s''" metric_cell set_upd for impl rand
proof
  fix m s s' x assume "aggregate impl rand m s = Inr s'"
  then show "cached_value (sd_sets s') x = (if sm_mtype m = ''s'' \<and> metric_cell m = x
      then Some (set_upd m (cached_value (sd_sets s) x)) else cached_value (sd_sets s) x)"
    by (cases rule: aggregate_cases)
      (auto dest!: aggregate_timing_frame aggregate_counter_Inr aggregate_gauge_Inr aggregate_set_Inr simp: cached_put_entry)
qed

subsection \<open>Aggregation never panics\<close>

text \<open>The types of the cached values, and limits that are not negative.\<close>

definition caches_ok :: "'g statsd \<Rightarrow> bool" where
  "caches_ok s \<longleftrightarrow> 0 \<le> sd_PercentileLimit s
     \<and> (\<forall>x v. cached_value (sd_counters s) x = Some v \<longrightarrow> (\<exists>i. v = GInt64 i))
     \<and> (\<forall>x v. cached_value (sd_gauges s) x = Some v \<longrightarrow> (\<exists>f. v = GFloat64 f))
     \<and> (\<forall>x rs. cached_value (sd_timings s) x = Some rs \<longrightarrow> 0 \<le> rs_PercLimit rs)"

lemma caches_okD:
  assumes "caches_ok s"
  shows "cached_value (sd_counters s) x = Some v \<Longrightarrow> \<exists>i. v = GInt64 i"
    "cached_value (sd_gauges s) x = Some v \<Longrightarrow> \<exists>f. v = GFloat64 f"
    "cached_value (sd_timings s) x = Some rs \<Longrightarrow> 0 \<le> rs_PercLimit rs"
  using assms unfolding caches_ok_def by blast+

lemma AddValue_limit:
  assumes "0 \<le> rs_PercLimit rs"
  obtains g' rs' where "AddValue rand v (g, rs) = Inr (g', rs')" "0 \<le> rs_PercLimit rs'"
proof -
  define r where "r = rs\<lparr>rs_sorted := False\<rparr>"
  have "\<exists>rs2. (if rs_n r = 0 then first_value v r else Inr r) = Inr rs2 \<and> 0 \<le> rs_PercLimit rs2"
    using assms by (simp add: r_def first_value_def Let_def defaultPercentileLimit_def)
  then obtain rs2 where 2: "(if rs_n r = 0 then first_value v r else Inr r) = Inr rs2" "0 \<le> rs_PercLimit rs2" by blast
  define d where "d = f_sub v (rs_k rs2)"
  define rs3 where "rs3 = rs2\<lparr>rs_n := rs_n rs2 + 1, rs_ex := f_add (rs_ex rs2) d, rs_ex2 := f_add (rs_ex2 rs2) (f_mul d d),
      rs_sum := f_add (rs_sum rs2) v\<rparr>"
  define rs4 where "rs4 = (if f_lt (rs_upper rs3) v then rs3\<lparr>rs_upper := v\<rparr>
      else if f_lt v (rs_lower rs3) then rs3\<lparr>rs_lower := v\<rparr> else rs3)"
  have step: "AddValue rand v (g, rs) =
      (if int (length (rs_perc rs4)) < rs_PercLimit rs4 then Inr (g, rs4\<lparr>rs_perc := rs_perc rs4 @ [v]\<rparr>)
       else case rand (length (rs_perc rs4)) g of (i, g') \<Rightarrow> Inr (g', rs4\<lparr>rs_perc := (rs_perc rs4)[i := v]\<rparr>))"
    unfolding AddValue_def Let_def prod.case r_def [symmetric] 2(1) res_bind.simps rs4_def rs3_def d_def by (rule refl)
  have limit: "0 \<le> rs_PercLimit rs4" using 2(2) by (simp add: rs4_def rs3_def)
  obtain i g' where i: "rand (length (rs_perc rs4)) g = (i, g')" by force
  show ?thesis
    using step limit i that [of g "rs4\<lparr>rs_perc := rs_perc rs4 @ [v]\<rparr>"] that [of g' "rs4\<lparr>rs_perc := (rs_perc rs4)[i := v]\<rparr>"]
    by (simp split: if_splits)
qed

lemma repeat_value_limit:
  "0 \<le> rs_PercLimit rs \<Longrightarrow> \<exists>g' rs'. repeat_value rand n v (g, rs) = Inr (g', rs') \<and> 0 \<le> rs_PercLimit rs'"
proof (induction n arbitrary: g rs)
  case (Suc n)
  from AddValue_limit [OF Suc.prems, where rand = rand and v = v and g = g] obtain g1 rs1 where
    1: "AddValue rand v (g, rs) = Inr (g1, rs1)" "0 \<le> rs_PercLimit rs1" by blast
  from Suc.IH [OF 1(2), of g1] 1(1) show ?case by simp
qed simp

lemma aggregate_timing_ok:
  assumes "caches_ok s"
  shows "\<exists>s'. aggregate_timing impl rand m s = Inr s' \<and> caches_ok s'"
proof -
  let ?times = "if f_lt f_zero (sm_samplerate m) then sample_times impl (sm_samplerate m) else 1"
  let ?field = "case map_of (ch_fields (entry_of m (sd_timings s))) (sm_field m) of Some rs \<Rightarrow> rs | None \<Rightarrow> new_stats (sd_PercentileLimit s)"
  have "0 \<le> rs_PercLimit ?field"
    using assms by (auto simp: caches_ok_def cached_entry_of new_stats_def split: option.split)
  from repeat_value_limit [OF this, of rand ?times "sm_floatvalue m" "sd_rand s"] obtain g rs where
    r: "repeat_value rand ?times (sm_floatvalue m) (sd_rand s, ?field) = Inr (g, rs)" "0 \<le> rs_PercLimit rs" by blast
  have "aggregate_timing impl rand m s = Inr (s\<lparr>sd_timings := put_entry m rs (sd_timings s), sd_rand := g\<rparr>)"
    unfolding aggregate_timing_def Let_def r(1) by simp
  moreover have "caches_ok (s\<lparr>sd_timings := put_entry m rs (sd_timings s), sd_rand := g\<rparr>)"
    using assms r(2) by (simp add: caches_ok_def cached_put_entry)
  ultimately show ?thesis by blast
qed

lemma aggregate_ok:
  assumes "caches_ok s"
  shows "\<exists>s'. aggregate impl rand m s = Inr s' \<and> caches_ok s'"
proof -
  have c: "\<exists>s'. aggregate_counter m s = Inr s' \<and> caches_ok s'"
  proof -
    obtain i where i: "(case cached_value (sd_counters s) (metric_cell m) of Some v \<Rightarrow> v | None \<Rightarrow> GInt64 0) = GInt64 i"
      using caches_okD(1) [OF assms] by (cases "cached_value (sd_counters s) (metric_cell m)") fastforce+
    then have "aggregate_counter m s = Inr (s\<lparr>sd_counters := put_entry m (GInt64 (i + sm_intvalue m)) (sd_counters s)\<rparr>)"
      unfolding aggregate_counter_def cached_entry_of Let_def i by simp
    with assms show ?thesis by (simp add: caches_ok_def cached_put_entry)
  qed
  have g: "\<exists>s'. aggregate_gauge m s = Inr s' \<and> caches_ok s'"
  proof -
    obtain f where f: "(case cached_value (sd_gauges s) (metric_cell m) of Some v \<Rightarrow> v | None \<Rightarrow> GFloat64 f_zero) = GFloat64 f"
      using caches_okD(2) [OF assms] by (cases "cached_value (sd_gauges s) (metric_cell m)") fastforce+
    then have "aggregate_gauge m s = Inr (s\<lparr>sd_gauges := put_entry m
        (GFloat64 (if sm_additive m then f_add f (sm_floatvalue m) else sm_floatvalue m)) (sd_gauges s)\<rparr>)"
      unfolding aggregate_gauge_def cached_entry_of Let_def f by simp
    with assms show ?thesis by (simp add: caches_ok_def cached_put_entry)
  qed
  have st: "\<exists>s'. aggregate_set m s = Inr s' \<and> caches_ok s'"
    using assms by (simp add: caches_ok_def aggregate_set_def)
  show ?thesis
    using c g st aggregate_timing_ok [OF assms, of impl rand m] assms by (simp add: aggregate_def)
qed

lemma run_aggregate_ok: "caches_ok s \<Longrightarrow> \<exists>s'. run_all (aggregate impl rand) ms s = Inr s' \<and> caches_ok s'"
proof (induction ms arbitrary: s)
  case (Cons m ms)
  from aggregate_ok [OF Cons.prems, of impl rand m] obtain s1 where "aggregate impl rand m s = Inr s1" "caches_ok s1" by blast
  with Cons.IH [of s1] show ?case by simp
qed simp

lemma caches_ok_Start: "0 \<le> sd_PercentileLimit s \<Longrightarrow> caches_ok (statsd_Start s)"
  by (simp add: caches_ok_def statsd_Start_def cached_value_def)

lemma counter_first: "counter_upd m None = GInt64 (sm_intvalue m)"
  by (simp add: counter_upd_def)

lemma counter_fold:
  "fold (\<lambda>m v. Some (counter_upd m v)) ms (Some (GInt64 i)) = Some (GInt64 (i + sum_list (List.map sm_intvalue ms)))"
  by (induction ms arbitrary: i) (simp_all add: counter_upd_def add.assoc)

text \<open>
  C19. Counters add up: from a start with any configuration with a non-negative percentile limit no
  sequence of parsed metrics panics, and then a counter that was counted holds, modulo two to the
  64, the sum of the values counted under its hash and field, whatever else was received in between.
\<close>

theorem statsd_counters_add_up:
  assumes "0 \<le> sd_PercentileLimit s"
  shows "\<exists>s'. run_all (aggregate impl rand) ms (statsd_Start s) = Inr s'
    \<and> (let own = List.filter (\<lambda>m. sm_mtype m = ''c'' \<and> sm_hash m = h \<and> sm_field m = f) ms
       in cached_value (sd_counters s') (h, f) = (if own = [] then None else Some (GInt64 (sum_list (List.map sm_intvalue own)))))"
proof -
  obtain s' where s': "run_all (aggregate impl rand) ms (statsd_Start s) = Inr s'"
    using run_aggregate_ok [OF caches_ok_Start [OF assms], of impl rand ms] by blast
  have "cached_value (sd_counters s') (h, f) =
      fold (\<lambda>m v. Some (counter_upd m v)) (List.filter (\<lambda>m. sm_mtype m = ''c'' \<and> metric_cell m = (h, f)) ms) None"
    using counter_cells.look_run [OF s', of "(h, f)"] by (simp add: statsd_Start_def cached_value_def)
  moreover have "fold (\<lambda>m v. Some (counter_upd m v)) own None =
      (if own = [] then None else Some (GInt64 (sum_list (List.map sm_intvalue own))))" for own
    by (cases own) (simp_all add: counter_first counter_fold)
  ultimately show ?thesis using s' by (simp add: conj_assoc)
qed

definition demo_metric :: "string \<Rightarrow> i64 \<Rightarrow> f64 \<Rightarrow> string \<Rightarrow> statsd_metric" where
  "demo_metric tp i x v = \<lparr>sm_name = ''n'', sm_field = ''value'', sm_hash = ''n'', sm_intvalue = i, sm_floatvalue = x,
     sm_strvalue = v, sm_mtype = tp, sm_additive = False, sm_samplerate = f_zero, sm_tags = []\<rparr>"

definition demo_statsd :: "int list \<Rightarrow> unit statsd" where
  "demo_statsd ps = \<lparr>sd_Percentiles = ps, sd_PercentileLimit = 10, sd_DeleteGauges = True, sd_DeleteCounters = True,
     sd_DeleteSets = True, sd_DeleteTimings = True, sd_ConvertNames = False, sd_MetricSeparator = ''_'', sd_ParseDataDogTags = True,
     sd_Templates = [], sd_graphiteParser = None, sd_gauges = [], sd_counters = [], sd_sets = [], sd_timings = [], sd_rand = ()\<rparr>"

theorem statsd_counters_add_up_witness:
  "\<exists>s'. run_all (aggregate (\<lambda>_. 0) (\<lambda>l g. (0, g))) [demo_metric ''c'' 2 f_zero [], demo_metric ''c'' 3 f_zero []] (statsd_Start (demo_statsd [])) = Inr s'
    \<and> cached_value (sd_counters s') (''n'', ''value'') = Some (GInt64 5)"
proof -
  have "0 \<le> sd_PercentileLimit (demo_statsd [])" by (simp add: demo_statsd_def)
  from statsd_counters_add_up [OF this, of "\<lambda>_. 0" "\<lambda>l g. (0, g)" "[demo_metric ''c'' 2 f_zero [], demo_metric ''c'' 3 f_zero []]" "''n''" "''value''"]
  show ?thesis by (simp add: demo_metric_def)
qed

lemma set_fold:
  "distinct xs \<Longrightarrow> \<exists>ys. fold (\<lambda>m v. Some (set_upd m v)) ms (Some xs) = Some ys \<and> distinct ys \<and> set ys = set xs \<union> sm_strvalue ` set ms"
proof (induction ms arbitrary: xs)
  case (Cons m ms)
  from Cons.IH [of "List.insert (sm_strvalue m) xs"] Cons.prems show ?case by (simp add: set_upd_def)
qed simp

text \<open>
  C20. Sets count distinct values and gauges keep the last one: after any metrics the members of a
  set are the values received for it, each once, and a gauge that was set to a value holds that
  value with the additive ones received since added in order.
\<close>

theorem statsd_sets_and_gauges:
  assumes "run_all (aggregate impl rand) ms (statsd_Start s) = Inr s'"
  shows "(let own = List.filter (\<lambda>m. sm_mtype m = ''s'' \<and> sm_hash m = h \<and> sm_field m = f) ms
      in case cached_value (sd_sets s') (h, f) of
           None \<Rightarrow> own = []
         | Some xs \<Rightarrow> own \<noteq> [] \<and> distinct xs \<and> set xs = sm_strvalue ` set own)
    \<and> (\<forall>as m bs. List.filter (\<lambda>m. sm_mtype m = ''g'' \<and> sm_hash m = h \<and> sm_field m = f) ms = as @ m # bs
          \<and> \<not> sm_additive m \<and> list_all sm_additive bs \<longrightarrow>
        cached_value (sd_gauges s') (h, f) = Some (GFloat64 (foldl f_add (sm_floatvalue m) (List.map sm_floatvalue bs))))"
proof
  have "cached_value (sd_sets s') (h, f) =
      fold (\<lambda>m v. Some (set_upd m v)) (List.filter (\<lambda>m. sm_mtype m = ''s'' \<and> metric_cell m = (h, f)) ms) None"
    using set_cells.look_run [OF assms, of "(h, f)"] by (simp add: statsd_Start_def cached_value_def)
  moreover have "case fold (\<lambda>m v. Some (set_upd m v)) own None of None \<Rightarrow> own = []
      | Some xs \<Rightarrow> own \<noteq> [] \<and> distinct xs \<and> set xs = sm_strvalue ` set own" for own
  proof (cases own)
    case (Cons m own')
    have "set_upd m None = [sm_strvalue m]" by (simp add: set_upd_def)
    with set_fold [of "[sm_strvalue m]" own'] Cons show ?thesis by auto
  qed simp
  ultimately show "let own = List.filter (\<lambda>m. sm_mtype m = ''s'' \<and> sm_hash m = h \<and> sm_field m = f) ms
      in case cached_value (sd_sets s') (h, f) of
           None \<Rightarrow> own = []
         | Some xs \<Rightarrow> own \<noteq> [] \<and> distinct xs \<and> set xs = sm_strvalue ` set own"
    by (simp add: Let_def)
  have g: "cached_value (sd_gauges s') (h, f) =
      fold (\<lambda>m v. Some (gauge_upd m v)) (List.filter (\<lambda>m. sm_mtype m = ''g'' \<and> sm_hash m = h \<and> sm_field m = f) ms) None"
    using gauge_cells.look_run [OF assms, of "(h, f)"] by (simp add: statsd_Start_def cached_value_def)
  have adds: "list_all sm_additive bs \<Longrightarrow> fold (\<lambda>m v. Some (gauge_upd m v)) bs (Some (GFloat64 x)) =
      Some (GFloat64 (foldl f_add x (List.map sm_floatvalue bs)))" for bs x
    by (induction bs arbitrary: x) (simp_all add: gauge_upd_def)
  show "\<forall>as m bs. List.filter (\<lambda>m. sm_mtype m = ''g'' \<and> sm_hash m = h \<and> sm_field m = f) ms = as @ m # bs
          \<and> \<not> sm_additive m \<and> list_all sm_additive bs \<longrightarrow>
        cached_value (sd_gauges s') (h, f) = Some (GFloat64 (foldl f_add (sm_floatvalue m) (List.map sm_floatvalue bs)))"
  proof (intro allI impI)
    fix as m bs
    assume a: "List.filter (\<lambda>m. sm_mtype m = ''g'' \<and> sm_hash m = h \<and> sm_field m = f) ms = as @ m # bs
        \<and> \<not> sm_additive m \<and> list_all sm_additive bs"
    have "gauge_upd m v = GFloat64 (sm_floatvalue m)" for v using a by (simp add: gauge_upd_def)
    with a adds [of bs "sm_floatvalue m"] show "cached_value (sd_gauges s') (h, f) =
        Some (GFloat64 (foldl f_add (sm_floatvalue m) (List.map sm_floatvalue bs)))"
      unfolding g by simp
  qed
qed

theorem statsd_sets_and_gauges_witness:
  "\<exists>s'. run_all (aggregate (\<lambda>_. 0) (\<lambda>l g. (0, g))) [demo_metric ''s'' 0 f_zero ''a'', demo_metric ''s'' 0 f_zero ''a''] (statsd_Start (demo_statsd [])) = Inr s'
    \<and> (\<exists>xs. cached_value (sd_sets s') (''n'', ''value'') = Some xs \<and> distinct xs \<and> set xs = {''a''})"
proof -
  have "0 \<le> sd_PercentileLimit (demo_statsd [])" by (simp add: demo_statsd_def)
  from run_aggregate_ok [OF caches_ok_Start [OF this], of "\<lambda>_. 0" "\<lambda>l g. (0, g)" "[demo_metric ''s'' 0 f_zero ''a'', demo_metric ''s'' 0 f_zero ''a'']"]
  obtain s' where s': "run_all (aggregate (\<lambda>_. 0) (\<lambda>l g. (0, g))) [demo_metric ''s'' 0 f_zero ''a'', demo_metric ''s'' 0 f_zero ''a'']
      (statsd_Start (demo_statsd [])) = Inr s'" by blast
  from statsd_sets_and_gauges [OF s', of "''n''" "''value''"] show ?thesis
    using s' by (cases "cached_value (sd_sets s') (''n'', ''value'')") (simp_all add: demo_metric_def)
qed

subsection \<open>What \<open>Gather\<close> reports\<close>











subsection \<open>Crashes and collisions\<close>

lemma repeat_value_panics: "repeat_value rand n v grs = Inl e \<Longrightarrow> \<exists>p. e = Panic p"
  by (induction n arbitrary: grs)
    (auto simp: res_bind_Inl_iff AddValue_def first_value_def Let_def split: if_splits prod.splits)








text \<open>
  A template without a measurement goes unnoticed once and crashes the agent at the second line:
  the parser whose creation failed is cached, and used from then on without its engine.
\<close>

theorem statsd_bad_template_crashes:
  assumes "sd_graphiteParser s = None" "sd_MetricSeparator s \<noteq> []"
    "NewGraphiteParser (sd_MetricSeparator s) (sd_Templates s) [] = Inl (Err e)" "fields_of (hd (split b2 '','')) \<noteq> []"
  shows "\<exists>s1. parseName b1 s = Inr (s1, finish_name s (hd (split b1 '','')), ''value'', Some (bucket_tags (tl (split b1 '',''))))
    \<and> parseName b2 s1 = Inl (Panic ''nil pointer dereference'')"
proof -
  define s1 where "s1 = s\<lparr>sd_graphiteParser := Some (sd_MetricSeparator s, Inl (Err e))\<rparr>"
  have "\<not> parser_is_current s" "new_parser s = (sd_MetricSeparator s, Inl (Err e))"
    using assms(1-3) by (simp_all add: parser_is_current_def new_parser_def)
  then have 1: "parseName b1 s = Inr (s1, finish_name s (hd (split b1 '','')), ''value'', Some (bucket_tags (tl (split b1 '',''))))"
    by (simp add: parseName_def s1_def Let_def)
  have "parser_is_current s1" by (simp add: parser_is_current_def s1_def)
  then have "parseName b2 s1 = Inl (Panic ''nil pointer dereference'')"
    using assms(4) by (simp add: parseName_def apply_parser_def s1_def Let_def)
  with 1 show ?thesis by blast
qed

theorem statsd_bad_template_crashes_witness:
  "\<exists>s1. parseName ''cpu'' ((demo_statsd [])\<lparr>sd_Templates := [''host'']\<rparr>) = Inr (s1, ''cpu'', ''value'', Some [])
    \<and> parseName ''cpu'' s1 = Inl (Panic ''nil pointer dereference'')"
proof -
  have f: "fields_of (hd (split ''cpu'' '','')) \<noteq> []" "split ''cpu'' '','' = [''cpu'']" by code_simp+
  have n: "NewGraphiteParser ''_'' [''host''] [] = Inl (Err ''no measurement specified for template'')" by code_simp
  show ?thesis
    using statsd_bad_template_crashes [of "(demo_statsd [])\<lparr>sd_Templates := [''host'']\<rparr>" _ "''cpu''" "''cpu''"] f n
    by (simp add: demo_statsd_def finish_name_def bucket_tags_def)
qed

text \<open>
  The cache key does not identify a series: tags with an equals sign in a value run together, so
  a metric with the tag \<open>x=1y=2\<close> has the key of the one with the tags \<open>x=1\<close> and \<open>y=2\<close>, for any values.
\<close>

theorem statsd_hash_collides:
  "statsd_hash [(''x'', v @ ''y='' @ w)] n = statsd_hash [(''x'', v), (''y'', w)] n"
proof -
  have "''x='' @ v \<le> ''y='' @ w" by (simp add: Cons_le_Cons)
  then have "sort [''x='' @ v, ''y='' @ w] = [''x='' @ v, ''y='' @ w]" by simp
  then show ?thesis by (simp add: statsd_hash_def)
qed

subsection \<open>The connection limit\<close>

text \<open>
  C23. The tokens bound the connections: after any sequence of connections and ends the handlers that
  run and the tokens left are together the configured maximum, the statistic of current connections
  is the number of handlers, and every connection was either counted or refused.
\<close>

theorem statsd_connections_bounded:
  assumes "conn_run es (listener_Start maxc) = Some l"
  shows "length (tl_handlers l) + tl_accept l = maxc \<and> tl_current l = of_nat (length (tl_handlers l))
    \<and> tl_total l + of_nat (length (tl_refused l)) = of_nat (length (List.filter (\<lambda>e. case e of Connected _ _ \<Rightarrow> True | _ \<Rightarrow> False) es))"
proof -
  define conns where "conns = (\<lambda>es :: 'a conn_event list. length (List.filter (\<lambda>e. case e of Connected _ _ \<Rightarrow> True | _ \<Rightarrow> False) es))"
  have "conn_run es l0 = Some l \<Longrightarrow> length (tl_handlers l0) + tl_accept l0 = maxc \<Longrightarrow> tl_current l0 = of_nat (length (tl_handlers l0)) \<Longrightarrow>
      length (tl_handlers l) + tl_accept l = maxc \<and> tl_current l = of_nat (length (tl_handlers l))
      \<and> tl_total l + of_nat (length (tl_refused l)) = tl_total l0 + of_nat (length (tl_refused l0)) + of_nat (conns es)" for l0
  proof (induction es arbitrary: l0)
    case (Cons e es)
    then obtain l1 where l1: "conn_step e l0 = Some l1" "conn_run es l1 = Some l" by (auto simp: bind_eq_Some_conv)
    have "length (tl_handlers l1) + tl_accept l1 = maxc \<and> tl_current l1 = of_nat (length (tl_handlers l1))
        \<and> tl_total l1 + of_nat (length (tl_refused l1)) = tl_total l0 + of_nat (length (tl_refused l0)) + of_nat (conns [e])"
    proof (cases e)
      case (Connected cid c)
      with l1(1) Cons.prems(2,3) show ?thesis by (auto simp: conns_def split: if_splits)
    next
      case (Ended cid c)
      then have m: "(cid, c) \<in> set (tl_handlers l0)" using l1(1) by (auto split: if_splits)
      then have "0 < length (tl_handlers l0)" by (cases "tl_handlers l0") auto
      then have "(of_nat (length (tl_handlers l0) - 1) :: i64) = of_nat (length (tl_handlers l0)) - 1"
        by (cases "tl_handlers l0") simp_all
      with Ended m l1(1) Cons.prems(2,3) \<open>0 < length (tl_handlers l0)\<close> show ?thesis
        by (auto simp: conns_def length_remove1)
    qed
    with Cons.IH [OF l1(2)] show ?case by (auto simp: conns_def)
  qed (simp add: conns_def)
  from this [OF assms] show ?thesis by (simp add: listener_Start_def conns_def)
qed

theorem statsd_connections_bounded_witness:
  "\<exists>l. conn_run [Connected ''a'' (1::nat), Connected ''b'' 2, Ended ''a'' 1] (listener_Start 1) = Some l \<and> tl_accept l = 1 \<and> tl_refused l = [2]"
proof -
  obtain l where l: "conn_run [Connected ''a'' (1::nat), Connected ''b'' 2, Ended ''a'' 1] (listener_Start 1) = Some l"
    "tl_handlers l = []" "tl_refused l = [2]" by (simp add: listener_Start_def)
  from statsd_connections_bounded [OF l(1)] l show ?thesis by auto
qed

end
