(* ===== verification/TextProcessors.thy ===== *)
theory TextProcessors
  imports Processors InfluxSerializer ValueParsers
begin

section \<open>The processors regex, parser and printer\<close>

text \<open>
  \<open>plugins/processors/regex/regex.go\<close> over a library of regular expressions, \<open>plugins/processors/parser/parser.go\<close> over
  any parser with its state, and \<open>plugins/processors/printer/printer.go\<close> over the line protocol serializer.
\<close>

subsection \<open>regex\<close>

record go_regexp =
  re_MatchString :: "string \<Rightarrow> bool"
  re_ReplaceAll :: "string \<Rightarrow> string \<Rightarrow> string"

type_synonym regexp_cache = "(string, go_regexp) gomap"

record regex_converter =
  rc_Key :: string
  rc_Pattern :: string
  rc_Replacement :: string
  rc_ResultKey :: string

record regex_processor =
  rx_Tags :: "regex_converter list"
  rx_Fields :: "regex_converter list"
  rx_regexCache :: regexp_cache

definition NewRegex :: "regex_converter list \<Rightarrow> regex_converter list \<Rightarrow> regex_processor" where
  "NewRegex tags fs = \<lparr>rx_Tags = tags, rx_Fields = fs, rx_regexCache = []\<rparr>"

text \<open>\<open>lib\<close> compiles a pattern; \<open>MustCompile\<close> panics where it fails.\<close>

definition regex_lookup :: "(string \<Rightarrow> go_regexp option) \<Rightarrow> string \<Rightarrow> regexp_cache \<Rightarrow> (go_regexp \<times> regexp_cache) result" where
  "regex_lookup lib p cache =
     (case map_of cache p of Some r \<Rightarrow> Inr (r, cache)
      | None \<Rightarrow> (case lib p of None \<Rightarrow> Inl (Panic ''regexp: Compile'') | Some r \<Rightarrow> Inr (r, AList.update p r cache)))"

definition regex_value :: "go_regexp \<Rightarrow> regex_converter \<Rightarrow> string \<Rightarrow> string" where
  "regex_value r c src =
     (if rc_ResultKey c = [] \<or> re_MatchString r src then re_ReplaceAll r src (rc_Replacement c) else [])"

definition regex_key :: "regex_converter \<Rightarrow> string" where
  "regex_key c = (if rc_ResultKey c \<noteq> [] then rc_ResultKey c else rc_Key c)"

definition regex_convert ::
  "(string \<Rightarrow> go_regexp option) \<Rightarrow> regex_converter \<Rightarrow> string \<Rightarrow> regexp_cache \<Rightarrow> (string \<times> string \<times> regexp_cache) result" where
  "regex_convert lib c src cache =
     res_bind (regex_lookup lib (rc_Pattern c) cache) (\<lambda>(r, cache1). Inr (regex_key c, regex_value r c src, cache1))"

fun regex_tags ::
  "(string \<Rightarrow> go_regexp option) \<Rightarrow> regex_converter list \<Rightarrow> metric \<Rightarrow> regexp_cache \<Rightarrow> (metric \<times> regexp_cache) result" where
  "regex_tags lib [] m cache = Inr (m, cache)"
| "regex_tags lib (c # cs) m cache =
     (case GetTag m (rc_Key c) of
        None \<Rightarrow> regex_tags lib cs m cache
      | Some v \<Rightarrow> res_bind (regex_convert lib c v cache)
          (\<lambda>(key, nv, cache1). regex_tags lib cs (if nv \<noteq> [] then AddTag key nv m else m) cache1))"

fun regex_fields ::
  "(string \<Rightarrow> go_regexp option) \<Rightarrow> regex_converter list \<Rightarrow> metric \<Rightarrow> regexp_cache \<Rightarrow> (metric \<times> regexp_cache) result" where
  "regex_fields lib [] m cache = Inr (m, cache)"
| "regex_fields lib (c # cs) m cache =
     (case GetField m (rc_Key c) of
        Some (GString v) \<Rightarrow> res_bind (regex_convert lib c v cache)
          (\<lambda>(key, nv, cache1). regex_fields lib cs (if nv \<noteq> [] then AddField key (GString nv) m else m) cache1)
      | _ \<Rightarrow> regex_fields lib cs m cache)"

fun regex_metrics ::
  "(string \<Rightarrow> go_regexp option) \<Rightarrow> regex_processor \<Rightarrow> metric list \<Rightarrow> regexp_cache \<Rightarrow> (metric list \<times> regexp_cache) result" where
  "regex_metrics lib p [] cache = Inr ([], cache)"
| "regex_metrics lib p (m # ms) cache =
     res_bind (regex_tags lib (rx_Tags p) m cache) (\<lambda>(m1, cache1).
       res_bind (regex_fields lib (rx_Fields p) m1 cache1) (\<lambda>(m2, cache2).
         res_bind (regex_metrics lib p ms cache2) (\<lambda>(ms1, cache3). Inr (m2 # ms1, cache3))))"

definition Regex_Apply :: "(string \<Rightarrow> go_regexp option) \<Rightarrow> metric list \<Rightarrow> regex_processor \<Rightarrow> (metric list \<times> regex_processor) result" where
  "Regex_Apply lib ms p =
     res_bind (regex_metrics lib p ms (rx_regexCache p)) (\<lambda>(ms1, cache). Inr (ms1, p\<lparr>rx_regexCache := cache\<rparr>))"

text \<open>What the processor does, without its cache: every rule rewrites what the rules before it left.\<close>

definition tag_rule_effect :: "(string \<Rightarrow> go_regexp option) \<Rightarrow> regex_converter \<Rightarrow> metric \<Rightarrow> metric" where
  "tag_rule_effect lib c m =
     (case GetTag m (rc_Key c) of None \<Rightarrow> m
      | Some v \<Rightarrow> let nv = regex_value (the (lib (rc_Pattern c))) c v in if nv \<noteq> [] then AddTag (regex_key c) nv m else m)"

definition field_rule_effect :: "(string \<Rightarrow> go_regexp option) \<Rightarrow> regex_converter \<Rightarrow> metric \<Rightarrow> metric" where
  "field_rule_effect lib c m =
     (case GetField m (rc_Key c) of
        Some (GString v) \<Rightarrow>
          let nv = regex_value (the (lib (rc_Pattern c))) c v in if nv \<noteq> [] then AddField (regex_key c) (GString nv) m else m
      | _ \<Rightarrow> m)"

definition cache_right :: "(string \<Rightarrow> go_regexp option) \<Rightarrow> regexp_cache \<Rightarrow> bool" where
  "cache_right lib cache \<longleftrightarrow> (\<forall>p r. map_of cache p = Some r \<longrightarrow> lib p = Some r)"

lemma regex_convert_right:
  assumes "cache_right lib cache" "lib (rc_Pattern c) \<noteq> None"
  shows "\<exists>cache1. regex_convert lib c v cache = Inr (regex_key c, regex_value (the (lib (rc_Pattern c))) c v, cache1) \<and> cache_right lib cache1"
  using assms by (auto simp: regex_convert_def regex_lookup_def cache_right_def map_laws split: option.splits)

lemma regex_tags_right:
  assumes "cache_right lib cache" "\<And>c. c \<in> set cs \<Longrightarrow> lib (rc_Pattern c) \<noteq> None"
  shows "\<exists>cache1. regex_tags lib cs m cache = Inr (fold (tag_rule_effect lib) cs m, cache1) \<and> cache_right lib cache1"
  using assms
proof (induction cs arbitrary: m cache)
  case (Cons c cs)
  have rules: "\<And>c. c \<in> set cs \<Longrightarrow> lib (rc_Pattern c) \<noteq> None" using Cons.prems(2) by simp
  show ?case
  proof (cases "GetTag m (rc_Key c)")
    case None
    with Cons.IH [OF Cons.prems(1) rules, of m] show ?thesis by (simp add: tag_rule_effect_def)
  next
    case (Some v)
    obtain cache1 where "regex_convert lib c v cache = Inr (regex_key c, regex_value (the (lib (rc_Pattern c))) c v, cache1)"
      "cache_right lib cache1"
      using regex_convert_right [OF Cons.prems(1), of c v] Cons.prems(2) by auto
    with Some Cons.IH [OF _ rules, of cache1] show ?thesis by (simp add: tag_rule_effect_def Let_def)
  qed
qed simp

lemma regex_fields_right:
  assumes "cache_right lib cache" "\<And>c. c \<in> set cs \<Longrightarrow> lib (rc_Pattern c) \<noteq> None"
  shows "\<exists>cache1. regex_fields lib cs m cache = Inr (fold (field_rule_effect lib) cs m, cache1) \<and> cache_right lib cache1"
  using assms
proof (induction cs arbitrary: m cache)
  case (Cons c cs)
  have rules: "\<And>c. c \<in> set cs \<Longrightarrow> lib (rc_Pattern c) \<noteq> None" using Cons.prems(2) by simp
  show ?case
  proof (cases "\<exists>v. GetField m (rc_Key c) = Some (GString v)")
    case False
    then have "regex_fields lib (c # cs) m cache = regex_fields lib cs m cache" "field_rule_effect lib c m = m"
      by (auto simp: field_rule_effect_def split: option.split gval.split)
    with Cons.IH [OF Cons.prems(1) rules, of m] show ?thesis by simp
  next
    case True
    then obtain v where v: "GetField m (rc_Key c) = Some (GString v)" by blast
    obtain cache1 where "regex_convert lib c v cache = Inr (regex_key c, regex_value (the (lib (rc_Pattern c))) c v, cache1)"
      "cache_right lib cache1"
      using regex_convert_right [OF Cons.prems(1), of c v] Cons.prems(2) by auto
    with v Cons.IH [OF _ rules, of cache1] show ?thesis by (simp add: field_rule_effect_def Let_def)
  qed
qed simp

text \<open>If every pattern compiles, the processor does not panic and its cache changes nothing.\<close>

lemma Regex_Apply_right:
  assumes "cache_right lib (rx_regexCache p)" "\<And>c. c \<in> set (rx_Tags p @ rx_Fields p) \<Longrightarrow> lib (rc_Pattern c) \<noteq> None"
  shows "\<exists>p'. Regex_Apply lib ms p = Inr (List.map (fold (field_rule_effect lib) (rx_Fields p) \<circ> fold (tag_rule_effect lib) (rx_Tags p)) ms, p')
    \<and> cache_right lib (rx_regexCache p')"
proof -
  have rules: "\<And>c. c \<in> set (rx_Tags p) \<Longrightarrow> lib (rc_Pattern c) \<noteq> None" "\<And>c. c \<in> set (rx_Fields p) \<Longrightarrow> lib (rc_Pattern c) \<noteq> None"
    using assms(2) by simp_all
  have "\<exists>cache1. regex_metrics lib p ms cache
      = Inr (List.map (fold (field_rule_effect lib) (rx_Fields p) \<circ> fold (tag_rule_effect lib) (rx_Tags p)) ms, cache1)
      \<and> cache_right lib cache1" if "cache_right lib cache" for cache
    using that
  proof (induction ms arbitrary: cache)
    case (Cons m ms)
    obtain c1 where c1: "regex_tags lib (rx_Tags p) m cache = Inr (fold (tag_rule_effect lib) (rx_Tags p) m, c1)" "cache_right lib c1"
      using regex_tags_right [OF Cons.prems rules(1)] by blast
    obtain c2 where c2: "regex_fields lib (rx_Fields p) (fold (tag_rule_effect lib) (rx_Tags p) m) c1
        = Inr (fold (field_rule_effect lib) (rx_Fields p) (fold (tag_rule_effect lib) (rx_Tags p) m), c2)" "cache_right lib c2"
      using regex_fields_right [OF c1(2) rules(2)] by blast
    show ?case using c1(1) c2 Cons.IH [OF c2(2)] by auto
  qed simp
  from this [OF assms(1)] show ?thesis by (auto simp: Regex_Apply_def)
qed

subsection \<open>parser\<close>

text \<open>A parser that does not panic: its state, the metrics of a text, and an error; both are used.\<close>

type_synonym 'p text_parser = "string \<Rightarrow> 'p \<Rightarrow> 'p \<times> metric list \<times> string option"

record 'p parser_processor =
  pp_DropOriginal :: bool
  pp_Merge :: string
  pp_ParseFields :: "string list"
  pp_Parser :: "'p option"

definition named_after :: "metric \<Rightarrow> metric \<Rightarrow> metric" where
  "named_after m0 m = (if m_name m = [] then SetName (m_name m0) m else m)"

definition parse_string :: "'p text_parser \<Rightarrow> metric \<Rightarrow> string \<Rightarrow> 'p \<times> metric list \<Rightarrow> 'p \<times> metric list" where
  "parse_string parse m0 v pn = (case parse v (fst pn) of (p1, ms, e) \<Rightarrow> (p1, snd pn @ List.map (named_after m0) ms))"

definition parse_key :: "'p text_parser \<Rightarrow> metric \<Rightarrow> string \<Rightarrow> 'p \<times> metric list \<Rightarrow> 'p \<times> metric list" where
  "parse_key parse m0 key =
     fold (\<lambda>f pn. if field_key f = key then (case field_value f of GString v \<Rightarrow> parse_string parse m0 v pn | _ \<Rightarrow> pn) else pn) (m_fields m0)"

definition merge_metric :: "metric \<Rightarrow> metric \<Rightarrow> metric" where
  "merge_metric m base =
     SetName (m_name m) (fold (\<lambda>t. AddTag (tag_key t) (tag_value t)) (m_tags m)
       (fold (\<lambda>f. AddField (field_key f) (field_value f)) (m_fields m) base))"

definition merge_metrics :: "metric \<Rightarrow> metric list \<Rightarrow> metric" where
  "merge_metrics base ms = fold merge_metric ms base"

definition parser_metric :: "'p text_parser \<Rightarrow> 'p parser_processor \<Rightarrow> metric \<Rightarrow> 'p \<Rightarrow> 'p \<times> metric list" where
  "parser_metric parse pp m0 p =
     (case fold (parse_key parse m0) (pp_ParseFields pp) (p, if pp_DropOriginal pp then [] else [m0]) of
        (p1, newMetrics) \<Rightarrow>
          (p1, if newMetrics = [] then []
               else if pp_Merge pp = ''override'' then [merge_metrics (hd newMetrics) (tl newMetrics)] else newMetrics))"

fun parser_metrics :: "'p text_parser \<Rightarrow> 'p parser_processor \<Rightarrow> metric list \<Rightarrow> 'p \<Rightarrow> 'p \<times> metric list" where
  "parser_metrics parse pp [] p = (p, [])"
| "parser_metrics parse pp (m # ms) p =
     (case parser_metric parse pp m p of (p1, out1) \<Rightarrow> case parser_metrics parse pp ms p1 of (p2, out2) \<Rightarrow> (p2, out1 @ out2))"

text \<open>\<open>mk\<close>: what \<open>parsers.NewParser\<close> makes of the configuration, when there is no parser yet.\<close>

definition Parser_Apply ::
  "'p option \<Rightarrow> 'p text_parser \<Rightarrow> metric list \<Rightarrow> 'p parser_processor \<Rightarrow> metric list \<times> 'p parser_processor" where
  "Parser_Apply mk parse ms pp =
     (case (case pp_Parser pp of Some p \<Rightarrow> Some p | None \<Rightarrow> mk) of
        None \<Rightarrow> (ms, pp)
      | Some p \<Rightarrow> (case parser_metrics parse pp ms p of (p1, out1) \<Rightarrow> (out1, pp\<lparr>pp_Parser := Some p1\<rparr>)))"

text \<open>A merged metric has the value of the last metric that has the key.\<close>

lemma GetField_add_fields:
  assumes "fields_ok fs"
  shows "GetField (fold (\<lambda>f. AddField (field_key f) (field_value f)) fs base) k
    = (case get_field fs k of Some v \<Rightarrow> Some (convertField v) | None \<Rightarrow> GetField base k)"
  using assms
proof (induction fs arbitrary: base)
  case (Cons f fs)
  then have ok: "fields_ok fs" "field_key f \<notin> set (List.map field_key fs)" by (auto simp: fields_ok_def)
  then show ?case using Cons.IH [OF ok(1)] get_field_notin [of "field_key f" fs] by (auto simp: GetField_AddField split: option.split)
qed simp

lemma tags_frame [simp]:
  "GetTag (fold (\<lambda>f. AddField (field_key f) (field_value f)) fs m) = GetTag m"
  "GetField (fold (\<lambda>t. AddTag (tag_key t) (tag_value t)) ts m) = GetField m"
  by (induction fs arbitrary: m, simp_all, induction ts arbitrary: m, simp_all)

lemma metric_ok_folds [simp]:
  "metric_ok m \<Longrightarrow> metric_ok (fold (\<lambda>f. AddField (field_key f) (field_value f)) fs m)"
  "metric_ok m \<Longrightarrow> metric_ok (fold (\<lambda>t. AddTag (tag_key t) (tag_value t)) ts m)"
  by (induction fs arbitrary: m, simp_all, induction ts arbitrary: m, simp_all)

lemma GetTag_add_tags:
  assumes "tags_ok ts" "metric_ok base"
  shows "GetTag (fold (\<lambda>t. AddTag (tag_key t) (tag_value t)) ts base) k
    = (case get_tag ts k of Some v \<Rightarrow> Some v | None \<Rightarrow> GetTag base k)"
proof -
  have "distinct (List.map tag_key ts) \<Longrightarrow> metric_ok base \<Longrightarrow> GetTag (fold (\<lambda>t. AddTag (tag_key t) (tag_value t)) ts base) k
      = (case map_of (List.map (\<lambda>t. (tag_key t, tag_value t)) ts) k of Some v \<Rightarrow> Some v | None \<Rightarrow> GetTag base k)" for base
  proof (induction ts arbitrary: base)
    case (Cons t ts)
    have "tag_key t \<notin> set (List.map tag_key ts)" using Cons.prems(1) by simp
    then have "map_of (List.map (\<lambda>t. (tag_key t, tag_value t)) ts) (tag_key t) = None"
      by (simp add: map_of_eq_None_iff image_image)
    with Cons show ?case by (auto simp: GetTag_AddTag split: option.split)
  qed simp
  with assms tags_ok_distinct [OF assms(1)] show ?thesis by (simp add: map_of_tag_list)
qed

lemma merge_lookups:
  assumes "metric_ok base" "\<And>m. m \<in> set ms \<Longrightarrow> metric_ok m"
  shows "GetField (merge_metrics base ms) k
      = fold (\<lambda>m r. case GetField m k of Some v \<Rightarrow> Some (convertField v) | None \<Rightarrow> r) ms (GetField base k)"
    "GetTag (merge_metrics base ms) k = fold (\<lambda>m r. case GetTag m k of Some v \<Rightarrow> Some v | None \<Rightarrow> r) ms (GetTag base k)"
  using assms
proof (induction ms arbitrary: base)
  case (Cons m ms)
  {
    case 1
    have ok: "metric_ok (merge_metric m base)" using 1(1) by (simp add: merge_metric_def)
    have "GetField (merge_metric m base) k = (case GetField m k of Some v \<Rightarrow> Some (convertField v) | None \<Rightarrow> GetField base k)"
      using 1(2) [of m] GetField_add_fields [of "m_fields m" base k]
      by (simp add: merge_metric_def metric_ok_def GetField_def [of m])
    then show ?case using Cons.IH(1) [OF ok] 1(2) by (simp add: merge_metrics_def)
  next
    case 2
    have ok: "metric_ok (merge_metric m base)" using 2(1) by (simp add: merge_metric_def)
    have "GetTag (merge_metric m base) k = (case GetTag m k of Some v \<Rightarrow> Some v | None \<Rightarrow> GetTag base k)"
      using 2(2) [of m] GetTag_add_tags [of "m_tags m" "fold (\<lambda>f. AddField (field_key f) (field_value f)) (m_fields m) base" k] 2(1)
      by (simp add: merge_metric_def metric_ok_def [of m] GetTag_def [of m] split: option.split)
    then show ?case using Cons.IH(2) [OF ok] 2(2) by (simp add: merge_metrics_def)
  }
qed (simp_all add: merge_metrics_def)

text \<open>
  With the value parser behind it: a field that does not parse leaves the metric as it is, and when a parsed metric
  has no name the merged one keeps the name of the original.
\<close>

definition value_text_parser :: "value_parser text_parser" where
  "value_text_parser s v = (case value_Parse v 0 s of Inl e \<Rightarrow> (v, [], Some ''error'') | Inr ms \<Rightarrow> (v, ms, None))"

definition int_field_processor :: "value_parser parser_processor" where
  "int_field_processor = \<lparr>pp_DropOriginal = False, pp_Merge = ''override'', pp_ParseFields = [''raw''],
     pp_Parser = Some \<lparr>vp_MetricName = [], vp_DataType = ''int'', vp_DefaultTags = [(''parsed'', ''yes'')]\<rparr>\<rparr>"

lemma parser_processor_demo:
  "List.map (\<lambda>m. (m_name m, Tags m, Fields m)) (fst (Parser_Apply None value_text_parser
      [New ''m'' [(''a'', ''b'')] [(''raw'', GString ''12'')] 5 None, New ''n'' [] [(''raw'', GString ''x'')] 5 None] int_field_processor))
    = [(''m'', [(''a'', ''b''), (''parsed'', ''yes'')], [(''raw'', GString ''12''), (''value'', GInt64 12)]),
       (''n'', [], [(''raw'', GString ''x'')])]"
  by code_simp

subsection \<open>printer\<close>

text \<open>The serializer of the printer, the metrics, and what is printed.\<close>

fun Printer_Apply :: "metric list \<Rightarrow> serializer \<Rightarrow> serializer \<times> metric list \<times> string" where
  "Printer_Apply [] s = (s, [], [])"
| "Printer_Apply (m # ms) s =
     (case Serialize m s of
        (s1, m1, r) \<Rightarrow> (case Printer_Apply ms s1 of
          (s2, ms2, printed) \<Rightarrow> (s2, m1 # ms2, (case r of Inl e \<Rightarrow> printed | Inr octets \<Rightarrow> octets @ printed))))"

end
