(* ===== verification/TopK.thy ===== *)
theory TopK
  imports Metric NameFilter
begin

section \<open>The top-k processor\<close>

text \<open>
  \<open>plugins/processors/topk/topk.go\<close>: metrics are collected in groups; after a period the groups with
  the greatest (or least) aggregates of some field are passed on, the others dropped. A cached
  metric is a pointer that the code changes in place, so the cache holds its current value, and what
  is returned is read at the end of \<open>push\<close>. A set (\<open>map[string]bool\<close>) is the list of its keys, \<open>None\<close> for a nil map.
\<close>

subsection \<open>Stable sorting by a comparison\<close>

text \<open>
  \<open>sort.SliceStable\<close> as the insertion sort that it is on up to 20 elements (and merges blocks of, beyond):
  an element moves left while it is less than its neighbour. The comparison need not be strict.
\<close>

definition go_insert :: "('a \<Rightarrow> 'a \<Rightarrow> bool) \<Rightarrow> 'a \<Rightarrow> 'a list \<Rightarrow> 'a list" where
  "go_insert lt x xs = rev (dropWhile (lt x) (rev xs)) @ x # rev (takeWhile (lt x) (rev xs))"

definition slice_stable :: "('a \<Rightarrow> 'a \<Rightarrow> bool) \<Rightarrow> 'a list \<Rightarrow> 'a list" where
  "slice_stable lt xs = fold (go_insert lt) xs []"

lemma mset_go_insert [simp]: "mset (go_insert lt x xs) = add_mset x (mset xs)"
proof -
  have "mset (takeWhile (lt x) (rev xs)) + mset (dropWhile (lt x) (rev xs)) = mset xs"
    by (metis mset_append mset_rev takeWhile_dropWhile_id)
  then show ?thesis by (simp add: go_insert_def add.commute)
qed

lemma set_go_insert [simp]: "set (go_insert lt x xs) = insert x (set xs)"
  by (metis mset_go_insert set_mset_add_mset_insert set_mset_mset)

lemma mset_fold_insert: "mset (fold (go_insert lt) xs ys) = mset xs + mset ys"
  by (induction xs arbitrary: ys) simp_all

lemma mset_slice_stable [simp]: "mset (slice_stable lt xs) = mset xs"
  by (simp add: slice_stable_def mset_fold_insert)

lemma sorted_go_insert:
  assumes le: "\<And>y. y \<in> set xs \<Longrightarrow> lt x y \<Longrightarrow> le x y" "\<And>y. y \<in> set xs \<Longrightarrow> \<not> lt x y \<Longrightarrow> le y x"
    and trans: "\<And>a b c. le a b \<Longrightarrow> le b c \<Longrightarrow> le a c" and srt: "sorted_wrt le xs"
  shows "sorted_wrt le (go_insert lt x xs)"
proof -
  define p where "p = rev (dropWhile (lt x) (rev xs))"
  define q where "q = rev (takeWhile (lt x) (rev xs))"
  have xs: "xs = p @ q" unfolding p_def q_def by (metis rev_append rev_rev_ident takeWhile_dropWhile_id)
  have q: "\<forall>y \<in> set q. le x y" using le(1) by (auto simp: q_def dest: set_takeWhileD)
  have p: "\<forall>y \<in> set p. le y x"
  proof (cases "p = []")
    case False
    then have "dropWhile (lt x) (rev xs) \<noteq> []" by (simp add: p_def)
    then have "\<not> lt x (hd (dropWhile (lt x) (rev xs)))" by (rule hd_dropWhile)
    then have "\<not> lt x (last p)" by (simp add: p_def last_rev)
    moreover have "last p \<in> set xs" using False by (simp add: xs)
    ultimately have l: "le (last p) x" by (rule le(2) [rotated])
    have "sorted_wrt le (butlast p @ [last p])" using srt xs by (simp add: sorted_wrt_append False)
    then have b: "\<forall>y \<in> set (butlast p). le y (last p)" by (simp add: sorted_wrt_append)
    show ?thesis
    proof
      fix y assume "y \<in> set p"
      then have "y \<in> set (butlast p @ [last p])" using False by simp
      then have "y \<in> set (butlast p) \<or> y = last p" by (simp only: set_append) auto
      then show "le y x" using b l trans by blast
    qed
  qed simp
  have "go_insert lt x xs = p @ x # q" by (simp add: go_insert_def p_def q_def)
  with p q srt trans show ?thesis by (auto simp: xs sorted_wrt_append)
qed

lemma sorted_slice_stable:
  assumes le: "\<And>x y. x \<in> S \<Longrightarrow> y \<in> S \<Longrightarrow> lt x y \<Longrightarrow> le x y" "\<And>x y. x \<in> S \<Longrightarrow> y \<in> S \<Longrightarrow> \<not> lt x y \<Longrightarrow> le y x"
    and trans: "\<And>a b c. le a b \<Longrightarrow> le b c \<Longrightarrow> le a c" and xs: "set xs \<subseteq> S"
  shows "sorted_wrt le (slice_stable lt xs)"
proof -
  have "sorted_wrt le (fold (go_insert lt) xs ys)" if "sorted_wrt le ys" "set ys \<subseteq> S" for ys
    using that xs
  proof (induction xs arbitrary: ys)
    case (Cons x xs)
    have x: "x \<in> S" "set xs \<subseteq> S" using Cons.prems(3) by simp_all
    have "sorted_wrt le (go_insert lt x ys)"
    proof (rule sorted_go_insert)
      show "\<And>y. y \<in> set ys \<Longrightarrow> lt x y \<Longrightarrow> le x y" "\<And>y. y \<in> set ys \<Longrightarrow> \<not> lt x y \<Longrightarrow> le y x"
        using le x(1) Cons.prems(2) by blast+
    qed (rule trans Cons.prems(1); assumption)+
    moreover have "set (go_insert lt x ys) \<subseteq> S" using x(1) Cons.prems(2) by simp
    ultimately show ?case using Cons.IH x(2) by (simp only: fold_simps comp_apply)
  qed simp
  then show ?thesis by (simp add: slice_stable_def)
qed

subsection \<open>State and grouping\<close>

record topk =
  tk_Period :: int
  tk_K :: int
  tk_GroupBy :: "string list"
  tk_Fields :: "string list"
  tk_Aggregation :: string
  tk_Bottomk :: bool
  tk_AddGroupByTag :: string
  tk_AddRankFields :: "string list"
  tk_AddAggregateFields :: "string list"
  tk_cache :: "(string, metric list) gomap"
  tk_tagsGlobs :: "sfilter option"
  tk_rankFieldSet :: "string list option"
  tk_aggFieldSet :: "string list option"
  tk_lastAggregation :: int

definition topk_Reset :: "int \<Rightarrow> topk \<Rightarrow> topk" where
  "topk_Reset now t = t\<lparr>tk_cache := [], tk_lastAggregation := now\<rparr>"

definition topk_New :: "int \<Rightarrow> topk" where
  "topk_New now = topk_Reset now
     \<lparr>tk_Period = 10 * 10 ^ 9, tk_K = 10, tk_GroupBy = [''*''], tk_Fields = [''value''], tk_Aggregation = ''mean'',
      tk_Bottomk = False, tk_AddGroupByTag = [], tk_AddRankFields = [[]], tk_AddAggregateFields = [[]],
      tk_cache = [], tk_tagsGlobs = None, tk_rankFieldSet = None, tk_aggFieldSet = None, tk_lastAggregation = 0\<rparr>"

definition group_key :: "sfilter option \<Rightarrow> metric \<Rightarrow> string" where
  "group_key globs m =
     m_name m @ ''&'' @ concat (sort (List.map (\<lambda>(k, v). k @ ''='' @ v @ ''&'')
       (List.filter (\<lambda>(k, v). case globs of Some g \<Rightarrow> Match g k | None \<Rightarrow> False) (Tags m))))"

definition generateGroupByKey :: "glob_compiler \<Rightarrow> metric \<Rightarrow> topk \<Rightarrow> topk \<times> string option" where
  "generateGroupByKey gl m t =
     (if tk_tagsGlobs t = None \<and> length (tk_GroupBy t) > 0 then
        case Compile gl (tk_GroupBy t) of
          Inl e \<Rightarrow> (t\<lparr>tk_tagsGlobs := None\<rparr>, None)
        | Inr g \<Rightarrow> (t\<lparr>tk_tagsGlobs := g\<rparr>, Some (group_key g m))
      else (t, Some (if length (tk_GroupBy t) > 0 then group_key (tk_tagsGlobs t) m else m_name m @ ''&'')))"

definition group_of :: "(string, metric list) gomap \<Rightarrow> string \<Rightarrow> metric list" where
  "group_of cache k = (case map_of cache k of Some ms \<Rightarrow> ms | None \<Rightarrow> [])"

definition groupBy :: "glob_compiler \<Rightarrow> metric \<Rightarrow> topk \<Rightarrow> topk" where
  "groupBy gl m t0 =
     (case generateGroupByKey gl m t0 of
        (t, None) \<Rightarrow> t
      | (t, Some k) \<Rightarrow>
          let m1 = (if tk_AddGroupByTag t \<noteq> [] then AddTag (tk_AddGroupByTag t) k m else m)
          in t\<lparr>tk_cache := AList.update k (group_of (tk_cache t) k @ [m1]) (tk_cache t)\<rparr>)"

subsection \<open>Aggregation\<close>

type_synonym agg_map = "(string, f64) gomap"

fun topk_convert :: "gval \<Rightarrow> f64 option" where
  "topk_convert (GFloat64 v) = Some v"
| "topk_convert (GInt64 v) = Some (f64_of_int (sint v))"
| "topk_convert (GUint64 v) = Some (f64_of_int (uint v))"
| "topk_convert _ = None"

definition agg_value :: "agg_map \<Rightarrow> string \<Rightarrow> f64" where
  "agg_value agg field = (case map_of agg field of Some v \<Rightarrow> v | None \<Rightarrow> f_zero)"

text \<open>The loop over metrics and fields, with the body \<open>f\<close> for each number found.\<close>

definition agg_field :: "(f64 \<Rightarrow> string \<Rightarrow> 's \<Rightarrow> 's) \<Rightarrow> metric \<Rightarrow> string \<Rightarrow> 's \<Rightarrow> 's" where
  "agg_field f m field agg =
     (case map_of (Fields m) field of None \<Rightarrow> agg
      | Some v \<Rightarrow> (case topk_convert v of None \<Rightarrow> agg | Some x \<Rightarrow> f x field agg))"

definition aggregator :: "(f64 \<Rightarrow> string \<Rightarrow> 's \<Rightarrow> 's) \<Rightarrow> metric list \<Rightarrow> string list \<Rightarrow> 's \<Rightarrow> 's" where
  "aggregator f ms fs = fold (\<lambda>m. fold (agg_field f m) fs) ms"

definition agg_sum :: "f64 \<Rightarrow> string \<Rightarrow> agg_map \<Rightarrow> agg_map" where
  "agg_sum x field agg = AList.update field (f_add (agg_value agg field) x) agg"

definition MaxFloat64 :: f64 where
  "MaxFloat64 = mk_f64 False (inf_mag - 1)"

definition agg_min :: "f64 \<Rightarrow> string \<Rightarrow> agg_map \<Rightarrow> agg_map" where
  "agg_min x field agg0 =
     (let agg = (if map_of agg0 field = None then AList.update field MaxFloat64 agg0 else agg0)
      in if f_lt x (agg_value agg field) then AList.update field x agg else agg)"

definition agg_max :: "f64 \<Rightarrow> string \<Rightarrow> agg_map \<Rightarrow> agg_map" where
  "agg_max x field agg0 =
     (let agg = (if map_of agg0 field = None then AList.update field (f_minus MaxFloat64) agg0 else agg0)
      in if f_lt (agg_value agg field) x then AList.update field x agg else agg)"

definition agg_mean :: "f64 \<Rightarrow> string \<Rightarrow> agg_map \<times> agg_map \<Rightarrow> agg_map \<times> agg_map" where
  "agg_mean x field ac = (agg_sum x field (fst ac), agg_sum (f64_of_int 1) field (snd ac))"

definition mean_of :: "agg_map \<times> agg_map \<Rightarrow> agg_map" where
  "mean_of ac = List.map (\<lambda>(k, v). (k, if f_eq (agg_value (snd ac) k) f_zero then f_zero else f_div v (agg_value (snd ac) k))) (fst ac)"

definition getAggregationFunction :: "string \<Rightarrow> (metric list \<Rightarrow> string list \<Rightarrow> agg_map) option" where
  "getAggregationFunction op =
     (if op = ''sum'' then Some (\<lambda>ms fs. aggregator agg_sum ms fs [])
      else if op = ''min'' then Some (\<lambda>ms fs. aggregator agg_min ms fs [])
      else if op = ''max'' then Some (\<lambda>ms fs. aggregator agg_max ms fs [])
      else if op = ''mean'' then Some (\<lambda>ms fs. mean_of (aggregator agg_mean ms fs ([], [])))
      else None)"

subsection \<open>Selection\<close>

record aggregation =
  ag_key :: string
  ag_values :: agg_map

definition sortMetrics :: "string \<Rightarrow> bool \<Rightarrow> aggregation list \<Rightarrow> aggregation list" where
  "sortMetrics field reverse ags =
     (let lt = (\<lambda>a b. f_lt (agg_value (ag_values a) field) (agg_value (ag_values b) field))
      in slice_stable (if reverse then lt else (\<lambda>a b. \<not> lt a b)) ags)"

definition in_set :: "string \<Rightarrow> string list option \<Rightarrow> bool" where
  "in_set k s = (case s of None \<Rightarrow> False | Some ks \<Rightarrow> k \<in> set ks)"

definition nonempty_set :: "string list option \<Rightarrow> bool" where
  "nonempty_set s = (case s of None \<Rightarrow> False | Some ks \<Rightarrow> ks \<noteq> [])"

definition add_extra :: "topk \<Rightarrow> string \<Rightarrow> nat \<Rightarrow> f64 \<Rightarrow> metric \<Rightarrow> metric" where
  "add_extra t field i v m =
     (let m1 = (if in_set field (tk_aggFieldSet t) \<and> HasField m field
                then AddField (field @ ''_topk_aggregate'') (GFloat64 v) m else m)
      in if in_set field (tk_rankFieldSet t) \<and> HasField m1 field
         then AddField (field @ ''_topk_rank'') (GInt (of_nat (i + 1))) m1 else m1)"

type_synonym pick_state = "(string, metric list) gomap \<times> string list"

text \<open>One selected group: the metrics are decorated in the cache and the key noted once.\<close>

definition pick :: "topk \<Rightarrow> string \<Rightarrow> nat \<times> aggregation \<Rightarrow> pick_state \<Rightarrow> pick_state" where
  "pick t field ia st =
     (case (ia, st) of ((i, ag), (cache, added)) \<Rightarrow>
        let k = ag_key ag;
            cache1 = (if nonempty_set (tk_aggFieldSet t) \<or> nonempty_set (tk_rankFieldSet t) \<or> tk_AddGroupByTag t \<noteq> []
                      then AList.update k (List.map (add_extra t field i (agg_value (ag_values ag) field)) (group_of cache k)) cache
                      else cache)
        in (cache1, if k \<in> set added then added else added @ [k]))"

definition pick_field :: "topk \<Rightarrow> string \<Rightarrow> aggregation list \<times> pick_state \<Rightarrow> (aggregation list \<times> pick_state) result" where
  "pick_field t field as =
     (let sorted = sortMetrics field (tk_Bottomk t) (fst as); n = min (tk_K t) (int (length (fst as)))
      in if n < 0 then Inl (Panic ''slice bounds out of range'')
         else Inr (sorted, fold (pick t field) (List.enumerate 0 (take (nat n) sorted)) (snd as)))"

fun pick_fields :: "topk \<Rightarrow> string list \<Rightarrow> aggregation list \<times> pick_state \<Rightarrow> (aggregation list \<times> pick_state) result" where
  "pick_fields t [] st = Inr st"
| "pick_fields t (field # fs) st = res_bind (pick_field t field st) (pick_fields t fs)"

definition push_topk :: "int \<Rightarrow> topk \<Rightarrow> (topk \<times> metric list) result" where
  "push_topk now t =
     (case getAggregationFunction (tk_Aggregation t) of
        None \<Rightarrow> Inr (t, [])
      | Some f \<Rightarrow>
          let ags = List.map (\<lambda>(k, ms). \<lparr>ag_key = k, ag_values = f ms (tk_Fields t)\<rparr>) (tk_cache t)
          in res_bind (pick_fields t (tk_Fields t) (ags, tk_cache t, []))
               (\<lambda>(ags1, cache, added). Inr (topk_Reset now t, concat (List.map (group_of cache) added))))"

definition init_sets :: "topk \<Rightarrow> topk" where
  "init_sets t =
     (let t1 = (if tk_rankFieldSet t = None then t\<lparr>tk_rankFieldSet := Some (remdups (tk_AddRankFields t))\<rparr> else t)
      in if tk_aggFieldSet t1 = None then t1\<lparr>tk_aggFieldSet := Some (remdups (tk_AddAggregateFields t1))\<rparr> else t1)"

definition collect :: "glob_compiler \<Rightarrow> metric \<Rightarrow> topk \<Rightarrow> topk" where
  "collect gl m t = (if list_ex (HasField m) (tk_Fields t) then groupBy gl m t else t)"

text \<open>\<open>now\<close> is the time of the check, \<open>now'\<close> that of the reset.\<close>

definition TopK_Apply :: "glob_compiler \<Rightarrow> int \<Rightarrow> int \<Rightarrow> metric list \<Rightarrow> topk \<Rightarrow> (topk \<times> metric list) result" where
  "TopK_Apply gl now now' ms t0 =
     (let t = fold (collect gl) ms (init_sets t0)
      in if now - tk_lastAggregation t \<ge> tk_Period t then push_topk now' t else Inr (t, []))"

subsection \<open>The selected groups\<close>

definition undecorated :: "metric \<Rightarrow> metric" where
  "undecorated m = m\<lparr>m_fields := []\<rparr>"

lemma undecorated_extra [simp]: "undecorated (add_extra t field i v m) = undecorated m"
  by (simp add: undecorated_def add_extra_def AddField_def Let_def)

definition same_groups :: "(string, metric list) gomap \<Rightarrow> (string, metric list) gomap \<Rightarrow> bool" where
  "same_groups c c' \<longleftrightarrow> (\<forall>k. List.map undecorated (group_of c k) = List.map undecorated (group_of c' k))"

lemma group_of_update: "group_of (AList.update k ms c) x = (if x = k then ms else group_of c x)"
  by (simp add: group_of_def map_laws)

lemma pick_keeps: "pick t field (i, ag) (c, added) = (c', added') \<Longrightarrow>
    same_groups c c' \<and> set added' = insert (ag_key ag) (set added) \<and> (distinct added \<longrightarrow> distinct added')"
  by (auto simp: pick_def Let_def same_groups_def group_of_update comp_def split: if_splits)

lemma picks_keep: "fold (pick t field) ias (c, added) = (c', added') \<Longrightarrow>
    same_groups c c' \<and> set added' = set added \<union> (ag_key \<circ> snd) ` set ias \<and> (distinct added \<longrightarrow> distinct added')"
proof (induction ias arbitrary: c added)
  case Nil
  then show ?case by (simp add: same_groups_def)
next
  case (Cons ia ias)
  obtain i ag where ia: "ia = (i, ag)" by (cases ia)
  obtain c1 a1 where p: "pick t field (i, ag) (c, added) = (c1, a1)" by (metis prod.exhaust)
  with Cons.prems have "fold (pick t field) ias (c1, a1) = (c', added')" by (simp add: ia)
  from Cons.IH [OF this] pick_keeps [OF p] show ?case by (auto simp: ia same_groups_def)
qed

definition agg_before :: "bool \<Rightarrow> string \<Rightarrow> aggregation \<Rightarrow> aggregation \<Rightarrow> bool" where
  "agg_before bottom field a b \<longleftrightarrow>
     (if bottom then f_le (agg_value (ag_values a) field) (agg_value (ag_values b) field)
      else f_le (agg_value (ag_values b) field) (agg_value (ag_values a) field))"

definition numbers :: "aggregation set \<Rightarrow> bool" where
  "numbers A \<longleftrightarrow> (\<forall>a \<in> A. \<forall>field. \<not> is_nan (agg_value (ag_values a) field))"

lemma mset_sortMetrics [simp]: "mset (sortMetrics field b ags) = mset ags"
  by (simp add: sortMetrics_def)

lemma set_sortMetrics [simp]: "set (sortMetrics field b ags) = set ags"
  by (metis mset_sortMetrics set_mset_mset)

lemma length_sortMetrics [simp]: "length (sortMetrics field b ags) = length ags"
  by (metis mset_sortMetrics size_mset)

lemma sorted_sortMetrics:
  assumes "numbers (set ags)"
  shows "sorted_wrt (agg_before b field) (sortMetrics field b ags)"
proof -
  let ?v = "\<lambda>a. agg_value (ag_values a) field"
  have n: "\<And>a. a \<in> set ags \<Longrightarrow> \<not> is_nan (?v a)" using assms by (simp add: numbers_def)
  have tr: "\<And>x y z. agg_before b field x y \<Longrightarrow> agg_before b field y z \<Longrightarrow> agg_before b field x z"
    by (auto simp: agg_before_def intro: f_le_trans split: if_splits)
  show ?thesis
  proof (cases b)
    case True
    have "sorted_wrt (agg_before b field) (slice_stable (\<lambda>x y. f_lt (?v x) (?v y)) ags)"
    proof (rule sorted_slice_stable [where S = "set ags"])
      show "\<And>x y. x \<in> set ags \<Longrightarrow> y \<in> set ags \<Longrightarrow> f_lt (?v x) (?v y) \<Longrightarrow> agg_before b field x y"
        using True by (simp add: agg_before_def f_lt_imp_le)
      show "\<And>x y. x \<in> set ags \<Longrightarrow> y \<in> set ags \<Longrightarrow> \<not> f_lt (?v x) (?v y) \<Longrightarrow> agg_before b field y x"
        using True n by (simp add: agg_before_def f_not_lt_le)
    qed (auto intro: tr)
    with True show ?thesis by (simp add: sortMetrics_def Let_def)
  next
    case False
    have "sorted_wrt (agg_before b field) (slice_stable (\<lambda>x y. \<not> f_lt (?v x) (?v y)) ags)"
    proof (rule sorted_slice_stable [where S = "set ags"])
      show "\<And>x y. x \<in> set ags \<Longrightarrow> y \<in> set ags \<Longrightarrow> \<not> f_lt (?v x) (?v y) \<Longrightarrow> agg_before b field x y"
        using False n by (simp add: agg_before_def f_not_lt_le)
      show "\<And>x y. x \<in> set ags \<Longrightarrow> y \<in> set ags \<Longrightarrow> \<not> \<not> f_lt (?v x) (?v y) \<Longrightarrow> agg_before b field y x"
        using False by (simp add: agg_before_def f_lt_imp_le)
    qed (auto intro: tr)
    with False show ?thesis by (simp add: sortMetrics_def Let_def)
  qed
qed

text \<open>A choice for a field: as many groups as allowed, none of which comes after a group left out.\<close>

definition best_for :: "topk \<Rightarrow> aggregation list \<Rightarrow> string \<Rightarrow> aggregation list \<Rightarrow> bool" where
  "best_for t ags field sel \<longleftrightarrow> (\<exists>rest. mset (sel @ rest) = mset ags \<and> length sel = min (nat (tk_K t)) (length ags)
     \<and> (\<forall>a \<in> set sel. \<forall>b \<in> set rest. agg_before (tk_Bottomk t) field a b))"

lemma pick_field_best:
  assumes "0 \<le> tk_K t" "numbers (set ags)"
  obtains sel c' added' where "pick_field t field (ags, c, added) = Inr (sortMetrics field (tk_Bottomk t) ags, c', added')"
    "best_for t ags field sel" "same_groups c c'" "set added' = set added \<union> ag_key ` set sel" "distinct added \<longrightarrow> distinct added'"
proof -
  let ?s = "sortMetrics field (tk_Bottomk t) ags" and ?n = "nat (min (tk_K t) (int (length ags)))"
  obtain c' added' where f: "fold (pick t field) (List.enumerate 0 (take ?n ?s)) (c, added) = (c', added')" by (metis prod.exhaust)
  have "(ag_key \<circ> snd) ` set (List.enumerate 0 (take ?n ?s)) = ag_key ` set (take ?n ?s)"
    by (metis image_comp list.set_map map_snd_enumerate)
  with picks_keep [OF f] have k: "same_groups c c'" "set added' = set added \<union> ag_key ` set (take ?n ?s)" "distinct added \<longrightarrow> distinct added'"
    by simp_all
  have "sorted_wrt (agg_before (tk_Bottomk t) field) (take ?n ?s @ drop ?n ?s)" using sorted_sortMetrics [OF assms(2)] by simp
  then have "\<forall>a \<in> set (take ?n ?s). \<forall>b \<in> set (drop ?n ?s). agg_before (tk_Bottomk t) field a b"
    by (simp only: sorted_wrt_append) blast
  moreover have "mset (take ?n ?s @ drop ?n ?s) = mset ags" by simp
  moreover have "length (take ?n ?s) = min (nat (tk_K t)) (length ags)" using assms(1) by auto
  ultimately have "best_for t ags field (take ?n ?s)" unfolding best_for_def by blast
  moreover have "pick_field t field (ags, c, added) = Inr (?s, c', added')"
    using assms(1) f by (simp add: pick_field_def Let_def)
  ultimately show ?thesis using k that by blast
qed

lemma best_for_mset: "mset ags = mset ags' \<Longrightarrow> best_for t ags = best_for t ags'"
  using mset_eq_length [of ags ags'] by (simp add: best_for_def fun_eq_iff)

lemma pick_fields_best:
  assumes "0 \<le> tk_K t" "numbers (set ags)" "distinct added"
  shows "\<exists>ags' c' added' sels. pick_fields t fs (ags, c, added) = Inr (ags', c', added') \<and> same_groups c c'
    \<and> distinct added' \<and> set added' = set added \<union> ag_key ` set (concat sels) \<and> list_all2 (best_for t ags) fs sels"
  using assms(2,3)
proof (induction fs arbitrary: ags c added)
  case Nil
  show ?case using Nil.prems by (auto simp: same_groups_def intro: exI [of _ "[]"])
next
  case (Cons f fs)
  obtain sel c1 a1 where p: "pick_field t f (ags, c, added) = Inr (sortMetrics f (tk_Bottomk t) ags, c1, a1)"
    "best_for t ags f sel" "same_groups c c1" "set a1 = set added \<union> ag_key ` set sel" "distinct a1"
    by (rule pick_field_best [OF assms(1) Cons.prems(1), of f c added]) (use Cons.prems(2) in blast)
  let ?s = "sortMetrics f (tk_Bottomk t) ags"
  have "numbers (set ?s)" using Cons.prems(1) by simp
  from Cons.IH [OF this p(5), of c1] obtain ags' c' a' sels where ih:
    "pick_fields t fs (?s, c1, a1) = Inr (ags', c', a')" "same_groups c1 c'" "distinct a'"
    "set a' = set a1 \<union> ag_key ` set (concat sels)" "list_all2 (best_for t ?s) fs sels" by blast
  have eq: "best_for t ?s = best_for t ags" by (rule best_for_mset) simp
  show ?case
  proof (intro exI conjI)
    show "pick_fields t (f # fs) (ags, c, added) = Inr (ags', c', a')" using p(1) ih(1) by simp
    show "same_groups c c'" using p(3) ih(2) by (simp add: same_groups_def)
    show "distinct a'" by (rule ih(3))
    show "set a' = set added \<union> ag_key ` set (concat (sel # sels))" using p(4) ih(4) by auto
    show "list_all2 (best_for t ags) (f # fs) (sel # sels)" using p(2) ih(5) eq by simp
  qed
qed

text \<open>The aggregates of all groups.\<close>

definition aggregations :: "(metric list \<Rightarrow> string list \<Rightarrow> agg_map) \<Rightarrow> topk \<Rightarrow> aggregation list" where
  "aggregations F t = List.map (\<lambda>(k, ms). \<lparr>ag_key = k, ag_values = F ms (tk_Fields t)\<rparr>) (tk_cache t)"

text \<open>
  C27. What the top-k processor passes on at the end of a period: for every configured field it
  selects \<open>K\<close> groups (or all, if there are fewer) so that no selected group has a worse aggregate of that
  field than a group left out; the metrics of the groups selected for some field are returned, whole groups,
  each once, changed in their fields only, and the cache is emptied. Aggregates that are not numbers
  are excluded, and so is a negative \<open>K\<close>, where the code panics.
\<close>

theorem topk_selects:
  assumes F: "getAggregationFunction (tk_Aggregation t) = Some F" and K: "0 \<le> tk_K t"
    and nums: "numbers (set (aggregations F t))"
  shows "\<exists>t' ret ks sels. push_topk now t = Inr (t', ret) \<and> tk_cache t' = []
    \<and> list_all2 (best_for t (aggregations F t)) (tk_Fields t) sels
    \<and> distinct ks \<and> set ks = ag_key ` set (concat sels)
    \<and> List.map undecorated ret = concat (List.map (\<lambda>k. List.map undecorated (group_of (tk_cache t) k)) ks)"
proof -
  obtain ags' c' ks sels where p: "pick_fields t (tk_Fields t) (aggregations F t, tk_cache t, []) = Inr (ags', c', ks)"
    "same_groups (tk_cache t) c'" "distinct ks" "set ks = ag_key ` set (concat sels)"
    "list_all2 (best_for t (aggregations F t)) (tk_Fields t) sels"
    using pick_fields_best [OF K nums, of "[]" "tk_Fields t" "tk_cache t"] by auto
  have "push_topk now t = Inr (topk_Reset now t, concat (List.map (group_of c') ks))"
    using p(1) by (simp add: push_topk_def F aggregations_def)
  moreover have "List.map undecorated (concat (List.map (group_of c') ks))
      = concat (List.map (\<lambda>k. List.map undecorated (group_of (tk_cache t) k)) ks)"
    using p(2) by (simp add: map_concat comp_def same_groups_def)
  moreover have "tk_cache (topk_Reset now t) = []" by (simp add: topk_Reset_def)
  ultimately show ?thesis using p(3,4,5) by blast
qed

definition demo_topk :: topk where
  "demo_topk = (topk_New 0)\<lparr>tk_K := 2, tk_Aggregation := ''max'', tk_cache :=
     [(''a&'', [New ''a'' [] [(''value'', GInt64 3)] 1 None]),
      (''b&'', [New ''b'' [] [(''value'', GInt64 9)] 2 None, New ''b'' [] [(''value'', GInt64 1)] 3 None]),
      (''c&'', [New ''c'' [] [(''value'', GInt64 5)] 4 None])]\<rparr>"

theorem topk_selects_witness:
  "\<exists>t' ret ks sels. push_topk 0 demo_topk = Inr (t', ret) \<and> list_all2 (best_for demo_topk (aggregations (\<lambda>ms fs. aggregator agg_max ms fs []) demo_topk)) [''value''] sels
    \<and> distinct ks \<and> set ks = ag_key ` set (concat sels)
    \<and> List.map undecorated ret = concat (List.map (\<lambda>k. List.map undecorated (group_of (tk_cache demo_topk) k)) ks)"
proof -
  let ?F = "\<lambda>ms fs. aggregator agg_max ms fs []"
  have F: "getAggregationFunction (tk_Aggregation demo_topk) = Some ?F"
    by (simp add: getAggregationFunction_def demo_topk_def)
  have K: "0 \<le> tk_K demo_topk" by (simp add: demo_topk_def)
  have e: "List.map ag_values (aggregations ?F demo_topk) =
      [[(''value'', f64_of_int 3)], [(''value'', f64_of_int 9)], [(''value'', f64_of_int 5)]]" by code_simp
  have n: "\<not> is_nan (f64_of_int 3) \<and> \<not> is_nan (f64_of_int 9) \<and> \<not> is_nan (f64_of_int 5) \<and> \<not> is_nan f_zero" by code_simp
  have "\<not> is_nan (agg_value (ag_values a) field)" if "a \<in> set (aggregations ?F demo_topk)" for a field
  proof -
    have "ag_values a \<in> set (List.map ag_values (aggregations ?F demo_topk))" using that by simp
    then have "ag_values a = [(''value'', f64_of_int 3)] \<or> ag_values a = [(''value'', f64_of_int 9)] \<or> ag_values a = [(''value'', f64_of_int 5)]"
      unfolding e by simp
    then show ?thesis using n by (elim disjE) (simp_all add: agg_value_def)
  qed
  then have "numbers (set (aggregations ?F demo_topk))" by (simp add: numbers_def)
  moreover have tf: "tk_Fields demo_topk = [''value'']" by (simp add: demo_topk_def topk_New_def topk_Reset_def)
  ultimately show ?thesis using topk_selects [OF F K, of 0] unfolding tf by blast
qed

definition with_group_tag :: "topk \<Rightarrow> sfilter \<Rightarrow> metric \<Rightarrow> metric" where
  "with_group_tag t g m = (if tk_AddGroupByTag t \<noteq> [] then AddTag (tk_AddGroupByTag t) (group_key (Some g) m) m else m)"

definition compiled :: "glob_compiler \<Rightarrow> sfilter \<Rightarrow> topk \<Rightarrow> bool" where
  "compiled gl g t \<longleftrightarrow> tk_GroupBy t \<noteq> [] \<and> Compile gl (tk_GroupBy t) = Inr (Some g)
     \<and> (tk_tagsGlobs t = None \<or> tk_tagsGlobs t = Some g)"

lemma collect_step:
  assumes "compiled gl g t"
  shows "compiled gl g (collect gl m t) \<and> tk_Fields (collect gl m t) = tk_Fields t
    \<and> tk_AddGroupByTag (collect gl m t) = tk_AddGroupByTag t
    \<and> tk_lastAggregation (collect gl m t) = tk_lastAggregation t \<and> tk_Period (collect gl m t) = tk_Period t
    \<and> group_of (tk_cache (collect gl m t)) k = group_of (tk_cache t) k @
        (if list_ex (HasField m) (tk_Fields t) \<and> group_key (Some g) m = k then [with_group_tag t g m] else [])"
proof -
  have "generateGroupByKey gl m t = (t\<lparr>tk_tagsGlobs := Some g\<rparr>, Some (group_key (Some g) m))"
    using assms by (cases "tk_tagsGlobs t") (auto simp: generateGroupByKey_def compiled_def)
  with assms show ?thesis
    by (simp add: collect_def groupBy_def Let_def compiled_def with_group_tag_def group_of_update)
qed

lemma collect_steps:
  assumes "compiled gl g t"
  shows "tk_lastAggregation (fold (collect gl) ms t) = tk_lastAggregation t \<and> tk_Period (fold (collect gl) ms t) = tk_Period t
    \<and> group_of (tk_cache (fold (collect gl) ms t)) k = group_of (tk_cache t) k @
        List.map (with_group_tag t g) (List.filter (\<lambda>m. list_ex (HasField m) (tk_Fields t) \<and> group_key (Some g) m = k) ms)"
  using assms
proof (induction ms arbitrary: t)
  case (Cons m ms)
  note s = collect_step [OF Cons.prems, of m]
  have "with_group_tag (collect gl m t) g = with_group_tag t g" using s by (simp add: with_group_tag_def fun_eq_iff)
  with Cons.IH [of "collect gl m t"] s [of k] show ?case by simp
qed simp

text \<open>
  Between two selections nothing is returned: every metric that has one of the configured fields is
  appended to the group of its key, with the key as a tag when that is asked for, in the order of
  arrival, and all other metrics are dropped.
\<close>

theorem topk_collects:
  assumes "tk_GroupBy t \<noteq> []" "Compile gl (tk_GroupBy t) = Inr (Some g)" "tk_tagsGlobs t = None \<or> tk_tagsGlobs t = Some g"
    and "now - tk_lastAggregation t < tk_Period t"
  shows "\<exists>t'. TopK_Apply gl now now' ms t = Inr (t', []) \<and> (\<forall>k. group_of (tk_cache t') k = group_of (tk_cache t) k @
    List.map (with_group_tag t g) (List.filter (\<lambda>m. list_ex (HasField m) (tk_Fields t) \<and> group_key (Some g) m = k) ms))"
proof -
  have i: "compiled gl g (init_sets t)" using assms(1-3) by (simp add: compiled_def init_sets_def Let_def)
  have "tk_lastAggregation (init_sets t) = tk_lastAggregation t" "tk_Period (init_sets t) = tk_Period t"
    "tk_Fields (init_sets t) = tk_Fields t" "tk_cache (init_sets t) = tk_cache t"
    "with_group_tag (init_sets t) = with_group_tag t"
    by (simp_all add: init_sets_def Let_def with_group_tag_def fun_eq_iff)
  with collect_steps [OF i, of ms] assms(4) show ?thesis by (simp add: TopK_Apply_def Let_def)
qed

theorem topk_collects_witness:
  "\<exists>t'. TopK_Apply (\<lambda>p. None) 5 6 [New ''a'' [(''h'', ''x'')] [(''value'', GInt64 3)] 1 None, New ''b'' [] [(''other'', GInt64 3)] 1 None]
      ((topk_New 0)\<lparr>tk_GroupBy := [''h'']\<rparr>) = Inr (t', [])
    \<and> group_of (tk_cache t') ''a&h=x&'' = [New ''a'' [(''h'', ''x'')] [(''value'', GInt64 3)] 1 None]"
proof -
  let ?t = "(topk_New 0)\<lparr>tk_GroupBy := [''h'']\<rparr>"
  let ?ms = "[New ''a'' [(''h'', ''x'')] [(''value'', GInt64 3)] 1 None, New ''b'' [] [(''other'', GInt64 3)] 1 None]"
  have h: "tk_GroupBy ?t \<noteq> []" "tk_tagsGlobs ?t = None \<or> tk_tagsGlobs ?t = Some (FSingle ''h'')" "5 - tk_lastAggregation ?t < tk_Period ?t"
    "group_of (tk_cache ?t) ''a&h=x&'' = []"
    by (simp_all add: topk_New_def topk_Reset_def group_of_def)
  have c: "Compile (\<lambda>p. None) (tk_GroupBy ?t) = Inr (Some (FSingle ''h''))"
    by (simp add: Compile_def hasMeta_iff compileFilterNoGlob_def)
  have "List.map (with_group_tag ?t (FSingle ''h'')) (List.filter (\<lambda>m. list_ex (HasField m) (tk_Fields ?t) \<and> group_key (Some (FSingle ''h'')) m = ''a&h=x&'') ?ms)
      = [New ''a'' [(''h'', ''x'')] [(''value'', GInt64 3)] 1 None]" by code_simp
  with topk_collects [OF h(1) c h(2,3), of 6 ?ms] h(4) show ?thesis by fastforce
qed

text \<open>The key does not mark where the name ends: two series share a group.\<close>

lemma group_key_collides:
  "group_key (Some (FSingle ''b'')) (New ''a'' [(''b'', ''c'')] [] 0 None) = group_key (Some (FSingle ''b'')) (New ''a&b=c'' [] [] 0 None)"
  by code_simp

lemma negative_K_panics:
  assumes "tk_K t < 0" "tk_Fields t \<noteq> []" "getAggregationFunction (tk_Aggregation t) = Some F"
  shows "push_topk now t = Inl (Panic ''slice bounds out of range'')"
  using assms by (cases "tk_Fields t") (simp_all add: push_topk_def pick_field_def Let_def)

text \<open>The aggregate \<open>min\<close> of infinite values is the greatest finite number.\<close>

lemma min_of_infinity:
  "aggregator agg_min [New ''a'' [] [(''v'', GFloat64 (f_inf False))] 0 None] [''v''] [] = [(''v'', MaxFloat64)]"
  by code_simp

end
