(* ===== verification/Wavefront.thy ===== *)
theory Wavefront
  imports Metric
begin

section \<open>The Wavefront parser\<close>

text \<open>
  \<open>plugins/parsers/wavefront\<close>: \<open>token.go\<close>, \<open>scanner.go\<close>, \<open>element.go\<close>, \<open>parser.go\<close>. The reader of the
  scanner is the list of bytes left. The tokens read last are kept in a buffer of two, from which
  \<open>n\<close> tokens are to be read again.
\<close>

subsection \<open>Tokens\<close>

datatype token = ILLEGAL | EOF | WS
  | LETTER | NUMBER | MINUS_SIGN | UNDERSCORE | DOT | SLASH | BACKSLASH | COMMA
  | QUOTES | EQUALS | NEWLINE

fun literal_token :: "token \<Rightarrow> bool" where
  "literal_token ILLEGAL = False" | "literal_token EOF = False" | "literal_token WS = False"
| "literal_token QUOTES = False" | "literal_token EQUALS = False" | "literal_token NEWLINE = False"
| "literal_token _ = True"

definition isWhitespace :: "int \<Rightarrow> bool" where
  "isWhitespace ch \<longleftrightarrow> ch = 32 \<or> ch = 9 \<or> ch = 10"

definition isLetter :: "int \<Rightarrow> bool" where
  "isLetter ch \<longleftrightarrow> 97 \<le> ch \<and> ch \<le> 122 \<or> 65 \<le> ch \<and> ch \<le> 90"

definition isNumber :: "int \<Rightarrow> bool" where
  "isNumber ch \<longleftrightarrow> 48 \<le> ch \<and> ch \<le> 57"

definition read_rune :: "string \<Rightarrow> int \<times> string" where
  "read_rune s = (if s = [] then (0, []) else (case decode_rune s of (r, w) \<Rightarrow> (r, drop w s)))"

definition token_of :: "int \<Rightarrow> token" where
  "token_of ch =
     (if isWhitespace ch then WS else if isLetter ch then LETTER else if isNumber ch then NUMBER
      else if ch = 0 then EOF else if ch = 10 then NEWLINE else if ch = 46 then DOT else if ch = 45 then MINUS_SIGN
      else if ch = 95 then UNDERSCORE else if ch = 47 then SLASH else if ch = 92 then BACKSLASH
      else if ch = 44 then COMMA else if ch = 34 then QUOTES else if ch = 61 then EQUALS else ILLEGAL)"

definition Scan :: "string \<Rightarrow> (token \<times> string) \<times> string" where
  "Scan s = (case read_rune s of (ch, s') \<Rightarrow> ((token_of ch, if token_of ch = EOF then [] else encode_rune ch), s'))"

subsection \<open>The token buffer\<close>

record point_parser =
  wp_input :: string
  wp_buf0 :: "token \<times> string"
  wp_buf1 :: "token \<times> string"
  wp_n :: nat
  wp_defaultTags :: strmap

definition NewWavefrontParser :: "strmap \<Rightarrow> point_parser" where
  "NewWavefrontParser tags = \<lparr>wp_input = [], wp_buf0 = (ILLEGAL, []), wp_buf1 = (ILLEGAL, []), wp_n = 0, wp_defaultTags = tags\<rparr>"

definition wf_SetDefaultTags :: "strmap \<Rightarrow> point_parser \<Rightarrow> point_parser" where
  "wf_SetDefaultTags tags p = p\<lparr>wp_defaultTags := tags\<rparr>"

definition wf_buffer :: "token \<times> string \<Rightarrow> point_parser \<Rightarrow> point_parser" where
  "wf_buffer t p = p\<lparr>wp_buf0 := wp_buf1 p, wp_buf1 := t\<rparr>"

definition wf_scan :: "point_parser \<Rightarrow> (token \<times> string) \<times> point_parser" where
  "wf_scan p =
     (if wp_n p \<noteq> 0 then (if wp_n p mod 2 = 0 then wp_buf0 p else wp_buf1 p, p\<lparr>wp_n := wp_n p - 1\<rparr>)
      else (case Scan (wp_input p) of (t, s) \<Rightarrow> (t, wf_buffer t (p\<lparr>wp_input := s\<rparr>))))"

definition unscanTokens :: "nat \<Rightarrow> point_parser \<Rightarrow> point_parser" where
  "unscanTokens n p = p\<lparr>wp_n := wp_n p + n\<rparr>"

definition unscan :: "point_parser \<Rightarrow> point_parser" where
  "unscan p = unscanTokens 1 p"

definition wf_reset :: "string \<Rightarrow> point_parser \<Rightarrow> point_parser" where
  "wf_reset buf p = p\<lparr>wp_input := buf, wp_n := 0\<rparr>"

text \<open>How much is left to scan. A token other than the end uses some of it up.\<close>

definition left :: "point_parser \<Rightarrow> nat" where
  "left p = wp_n p + length (wp_input p)"

lemma decode_rune_width: "s \<noteq> [] \<Longrightarrow> decode_rune s = (r, w) \<Longrightarrow> 0 < w"
  by (cases s) (auto simp: Let_def split: if_splits list.splits)

lemma wf_scan_left:
  assumes "wf_scan p = (t, p')"
  shows "left p' < left p \<or> left p = 0 \<and> left p' = 0 \<and> fst t = EOF"
proof (cases "wp_n p = 0")
  case False
  with assms show ?thesis by (auto simp: wf_scan_def left_def)
next
  case True
  show ?thesis
  proof (cases "wp_input p = []")
    case e: True
    have "token_of 0 = EOF" by (simp add: token_of_def isWhitespace_def isLetter_def isNumber_def)
    with assms True e show ?thesis by (auto simp: wf_scan_def left_def Scan_def read_rune_def wf_buffer_def)
  next
    case False
    obtain r w where d: "decode_rune (wp_input p) = (r, w)" by (metis prod.exhaust)
    have "0 < w" by (rule decode_rune_width [OF False d])
    with assms True False d show ?thesis by (auto simp: wf_scan_def left_def Scan_def read_rune_def wf_buffer_def)
  qed
qed

text \<open>A loop that appends the literals of tokens as long as they satisfy a condition.\<close>

definition todo :: "token \<times> string \<Rightarrow> point_parser \<Rightarrow> nat" where
  "todo t p = (if fst t = EOF then 0 else Suc (left p))"

lemma todo_scan: "(t', p') = wf_scan p \<Longrightarrow> fst t \<noteq> EOF \<Longrightarrow> todo t' p' < todo t p"
  using wf_scan_left [of p t' p'] by (auto simp: todo_def)

lemma todo_scan_case: "fst t \<noteq> EOF \<Longrightarrow> (case wf_scan p of (t', p') \<Rightarrow> todo t' p') < todo t p"
  using todo_scan by (cases "wf_scan p") auto

function scan_while :: "(token \<Rightarrow> bool) \<Rightarrow> string \<Rightarrow> token \<times> string \<Rightarrow> point_parser \<Rightarrow> string \<times> (token \<times> string) \<times> point_parser" where
  "scan_while P acc t p =
     (if fst t \<noteq> EOF \<and> P (fst t) then (case wf_scan p of (t', p') \<Rightarrow> scan_while P (acc @ snd t) t' p') else (acc, t, p))"
  by pat_completeness auto
termination by (relation "measure (\<lambda>(P, acc, t, p). todo t p)") (auto simp: todo_scan_case)

function scan_quoted :: "bool \<Rightarrow> string \<Rightarrow> token \<times> string \<Rightarrow> point_parser \<Rightarrow> string \<times> (token \<times> string) \<times> point_parser" where
  "scan_quoted escaped acc t p =
     (if fst t \<noteq> EOF \<and> (fst t \<noteq> QUOTES \<or> escaped)
      then (case wf_scan p of (t', p') \<Rightarrow> scan_quoted (fst t = BACKSLASH) (acc @ snd t) t' p') else (acc, t, p))"
  by pat_completeness auto
termination by (relation "measure (\<lambda>(e, acc, t, p). todo t p)") (auto simp: todo_scan_case)

function scan_spaces :: "token \<Rightarrow> point_parser \<Rightarrow> token \<times> point_parser" where
  "scan_spaces t p = (if t = WS then (case wf_scan p of (t', p') \<Rightarrow> scan_spaces (fst t') p') else (t, p))"
  by pat_completeness auto
termination by (relation "measure (\<lambda>(t, p). if t = EOF then 0 else Suc (left p))")
    (auto dest: todo_scan [where t = "(WS, [])"] simp: todo_def)

declare scan_while.simps [simp del] scan_quoted.simps [simp del] scan_spaces.simps [simp del]

subsection \<open>Elements\<close>

datatype wf_err = ErrEOF | ErrInvalidTimestamp | ErrText string

record point =
  pt_Name :: string
  pt_Value :: string
  pt_Timestamp :: int
  pt_Tags :: strmap

type_synonym element = "point_parser \<Rightarrow> point \<Rightarrow> point_parser \<times> (wf_err + point)"

definition parseQuotedLiteral :: "point_parser \<Rightarrow> point_parser \<times> (wf_err + string)" where
  "parseQuotedLiteral p0 =
     (case wf_scan p0 of (t0, p1) \<Rightarrow> case scan_quoted False [] t0 p1 of (s, t, p) \<Rightarrow>
        if fst t = EOF then (p, Inl (ErrText ''expected quotes'')) else (p, Inr s))"

definition parseLiteral :: "point_parser \<Rightarrow> point_parser \<times> (wf_err + string)" where
  "parseLiteral p0 =
     (case wf_scan p0 of (t0, p1) \<Rightarrow>
        if fst t0 = EOF then (p1, Inl (ErrText ''expected literal''))
        else if fst t0 = QUOTES then parseQuotedLiteral p1
        else case scan_while literal_token [] t0 p1 of (s, t, p) \<Rightarrow>
          if fst t = QUOTES then (p, Inl (ErrText ''found quote inside unquoted literal'')) else (unscan p, Inr s))"

definition NameParser :: element where
  "NameParser p pt = (case parseLiteral p of (p1, Inl e) \<Rightarrow> (p1, Inl e) | (p1, Inr name) \<Rightarrow> (p1, Inr (pt\<lparr>pt_Name := name\<rparr>)))"

definition value_token :: "token \<Rightarrow> bool" where
  "value_token t \<longleftrightarrow> t = LETTER \<or> t = NUMBER \<or> t = DOT"

definition wf_ValueParser :: element where
  "wf_ValueParser p0 pt =
     (case wf_scan p0 of (t0, p1) \<Rightarrow>
        if fst t0 = EOF then (p1, Inl (ErrText ''expected number''))
        else case (if fst t0 = MINUS_SIGN then (case wf_scan p1 of (t1, p2) \<Rightarrow> scan_while value_token (snd t0) t1 p2)
                   else scan_while value_token [] t0 p1) of
          (s, t, p) \<Rightarrow> if parse_float s = None then (unscan p, Inl (ErrText ''invalid metric value''))
                       else (unscan p, Inr (pt\<lparr>pt_Value := s\<rparr>)))"

text \<open>\<open>now\<close> is the clock in nanoseconds.\<close>

definition setTimestamp :: "int \<Rightarrow> point \<Rightarrow> int \<Rightarrow> nat \<Rightarrow> wf_err + point" where
  "setTimestamp now pt ts numDigits =
     (if numDigits = 19 then Inr (pt\<lparr>pt_Timestamp := ts div 10 ^ 9\<rparr>)
      else if numDigits = 16 then Inr (pt\<lparr>pt_Timestamp := ts div 10 ^ 6\<rparr>)
      else if numDigits = 13 then Inr (pt\<lparr>pt_Timestamp := ts div 10 ^ 3\<rparr>)
      else if numDigits \<noteq> 10 then
        if ts = 0 then Inr (pt\<lparr>pt_Timestamp := now div 10 ^ 9\<rparr>) else Inl ErrInvalidTimestamp
      else Inr (pt\<lparr>pt_Timestamp := ts\<rparr>))"

definition wf_TimestampParser :: "int \<Rightarrow> element" where
  "wf_TimestampParser now p0 pt =
     (case wf_scan p0 of (t0, p1) \<Rightarrow>
        if fst t0 \<noteq> NUMBER then (unscanTokens 2 p1, setTimestamp now pt 0 1)
        else case scan_while (\<lambda>t. t = NUMBER) [] t0 p1 of (s, t, p) \<Rightarrow>
          (unscan p, case parse_int s of None \<Rightarrow> Inl (ErrText ''value out of range'')
                     | Some ts \<Rightarrow> setTimestamp now pt (sint ts) (length s)))"

definition WhiteSpaceParser :: "bool \<Rightarrow> element" where
  "WhiteSpaceParser nextOptional p pt =
     (case scan_spaces WS p of (t, p1) \<Rightarrow>
        if t = EOF then (p1, if nextOptional then Inr pt else Inl ErrEOF) else (unscan p1, Inr pt))"

text \<open>A key that cannot be read is not an error: \<open>parseLiteral\<close> returns the empty key with every error.\<close>

definition TagParser :: element where
  "TagParser p0 pt =
     (case parseLiteral p0 of
        (p1, Inl e) \<Rightarrow> (p1, Inr pt)
      | (p1, Inr k) \<Rightarrow> (case wf_scan p1 of (t, p2) \<Rightarrow>
          if fst t \<noteq> EQUALS then (p2, Inl (ErrText ''expected equals''))
          else (case parseLiteral p2 of
            (p3, Inl e) \<Rightarrow> (p3, Inl e)
          | (p3, Inr v) \<Rightarrow> (p3, Inr (pt\<lparr>pt_Tags := AList.update k v (pt_Tags pt)\<rparr>)))))"

text \<open>The loop over the tags: nothing in it bounds the number of rounds.\<close>

partial_function (option) LoopedParser :: "point_parser \<Rightarrow> point \<Rightarrow> (point_parser \<times> (wf_err + point)) option" where
  "LoopedParser p pt =
     (case TagParser p pt of
        (p1, Inl e) \<Rightarrow> Some (p1, Inl e)
      | (p1, Inr pt1) \<Rightarrow>
          (case WhiteSpaceParser False p1 pt1 of
             (p2, Inl ErrEOF) \<Rightarrow> Some (p2, Inr pt1)
           | (p2, r) \<Rightarrow> LoopedParser p2 pt1))"

subsection \<open>Lines\<close>

fun run_elements :: "element list \<Rightarrow> point_parser \<Rightarrow> point \<Rightarrow> point_parser \<times> (wf_err + point)" where
  "run_elements [] p pt = (p, Inr pt)"
| "run_elements (el # els) p pt =
     (case el p pt of (p1, Inl e) \<Rightarrow> (p1, Inl e) | (p1, Inr pt1) \<Rightarrow> run_elements els p1 pt1)"

definition NewWavefrontElements :: "int \<Rightarrow> element list" where
  "NewWavefrontElements now =
     [NameParser, WhiteSpaceParser False, wf_ValueParser, WhiteSpaceParser True, wf_TimestampParser now, WhiteSpaceParser True]"

definition new_point :: point where
  "new_point = \<lparr>pt_Name = [], pt_Value = [], pt_Timestamp = 0, pt_Tags = []\<rparr>"

definition parse_point :: "int \<Rightarrow> string \<Rightarrow> point_parser \<Rightarrow> (point_parser \<times> (wf_err + point)) option" where
  "parse_point now line p =
     (case run_elements (NewWavefrontElements now) (wf_reset line p) new_point of
        (p1, Inl e) \<Rightarrow> Some (p1, Inl e)
      | (p1, Inr pt) \<Rightarrow> LoopedParser p1 pt)"

fun parse_points :: "int \<Rightarrow> string list \<Rightarrow> point_parser \<Rightarrow> (point_parser \<times> (wf_err + point list)) option" where
  "parse_points now [] p = Some (p, Inr [])"
| "parse_points now (l # ls) p =
     Option.bind (parse_point now l p) (\<lambda>r. case r of
       (p1, Inl e) \<Rightarrow> Some (p1, Inl e)
     | (p1, Inr pt) \<Rightarrow> Option.bind (parse_points now ls p1) (\<lambda>r. case r of
         (p2, Inl e) \<Rightarrow> Some (p2, Inl e)
       | (p2, Inr pts) \<Rightarrow> Some (p2, Inr (pt # pts))))"

definition convert_point :: "strmap \<Rightarrow> point \<Rightarrow> metric option" where
  "convert_point defaults pt =
     (case parse_float (pt_Value pt) of None \<Rightarrow> None
      | Some v \<Rightarrow> Some (New (pt_Name pt) (add_all defaults (pt_Tags pt)) [(''value'', GFloat64 v)] (pt_Timestamp pt * 10 ^ 9) None))"

fun convertPointToTelegrafMetric :: "strmap \<Rightarrow> point list \<Rightarrow> metric list option" where
  "convertPointToTelegrafMetric defaults [] = Some []"
| "convertPointToTelegrafMetric defaults (pt # pts) =
     (case convert_point defaults pt of None \<Rightarrow> None
      | Some m \<Rightarrow> (case convertPointToTelegrafMetric defaults pts of None \<Rightarrow> None | Some ms \<Rightarrow> Some (m # ms)))"

definition wf_lines :: "string \<Rightarrow> string list" where
  "wf_lines buf =
     (let b1 = trim_prefix buf [CHR 0x0A];
          b2 = (if b1 \<noteq> [] \<and> \<not> has_suffix b1 [CHR 0x0A] then b1 @ [CHR 0x0A] else b1)
      in List.map (\<lambda>l. l @ [CHR 0x0A]) (butlast (split b2 [CHR 0x0A])))"

definition wf_Parse :: "int \<Rightarrow> string \<Rightarrow> point_parser \<Rightarrow> (point_parser \<times> (wf_err + metric list)) option" where
  "wf_Parse now buf p =
     Option.bind (parse_points now (wf_lines buf) p) (\<lambda>r. case r of
       (p1, Inl e) \<Rightarrow> Some (p1, Inl e)
     | (p1, Inr pts) \<Rightarrow> Some (p1, case convertPointToTelegrafMetric (wp_defaultTags p) pts of
         None \<Rightarrow> Inl (ErrText ''value'') | Some ms \<Rightarrow> Inr ms))"

definition wf_ParseLine :: "int \<Rightarrow> string \<Rightarrow> point_parser \<Rightarrow> (point_parser \<times> (wf_err + metric option)) option" where
  "wf_ParseLine now line p =
     Option.bind (wf_Parse now line p) (\<lambda>r. case r of
       (p1, Inl e) \<Rightarrow> Some (p1, Inl e)
     | (p1, Inr ms) \<Rightarrow> Some (p1, Inr (case ms of [] \<Rightarrow> None | m # _ \<Rightarrow> Some m)))"

subsection \<open>The parser returns\<close>

lemma wf_scan_le: "wf_scan p = (t, p') \<Longrightarrow> left p' \<le> left p \<and> (fst t \<noteq> EOF \<longrightarrow> left p' < left p)"
  using wf_scan_left [of p t p'] by auto

lemma left_unscan [simp]: "left (unscan p) = Suc (left p)"
  by (simp add: unscan_def unscanTokens_def left_def)

lemma scan_while_le: "scan_while P acc t p = (s, t', p') \<Longrightarrow> left p' \<le> left p"
proof (induction P acc t p rule: scan_while.induct)
  case (1 P acc t p)
  obtain t1 p1 where w: "wf_scan p = (t1, p1)" by (metis prod.exhaust)
  show ?case
  proof (cases "fst t \<noteq> EOF \<and> P (fst t)")
    case True
    then have "scan_while P (acc @ snd t) t1 p1 = (s, t', p')"
      using "1.prems" by (subst (asm) scan_while.simps) (simp add: w)
    from "1.IH" [OF True w [symmetric] this] wf_scan_le [OF w] show ?thesis by simp
  next
    case False
    then show ?thesis using "1.prems" by (subst (asm) scan_while.simps) auto
  qed
qed

lemma scan_quoted_le: "scan_quoted e acc t p = (s, t', p') \<Longrightarrow> left p' \<le> left p"
proof (induction e acc t p rule: scan_quoted.induct)
  case (1 e acc t p)
  obtain t1 p1 where w: "wf_scan p = (t1, p1)" by (metis prod.exhaust)
  show ?case
  proof (cases "fst t \<noteq> EOF \<and> (fst t \<noteq> QUOTES \<or> e)")
    case True
    then have "scan_quoted (fst t = BACKSLASH) (acc @ snd t) t1 p1 = (s, t', p')"
      using "1.prems" by (subst (asm) scan_quoted.simps) (simp add: w)
    from "1.IH" [OF True w [symmetric] this] wf_scan_le [OF w] show ?thesis by simp
  next
    case False
    then show ?thesis using "1.prems" by (subst (asm) scan_quoted.simps) auto
  qed
qed

lemma scan_spaces_le:
  "scan_spaces t p = (t', p') \<Longrightarrow> t' \<noteq> WS \<and> left p' \<le> left p \<and> (t = WS \<and> t' \<noteq> EOF \<longrightarrow> left p' < left p)"
proof (induction t p arbitrary: t' p' rule: scan_spaces.induct)
  case (1 t p)
  obtain t1 p1 where w: "wf_scan p = (t1, p1)" by (metis prod.exhaust)
  show ?case
  proof (cases "t = WS")
    case True
    then have s: "scan_spaces (fst t1) p1 = (t', p')"
      using "1.prems" by (subst (asm) scan_spaces.simps) (simp add: w)
    from "1.IH" [OF True w [symmetric] s] wf_scan_le [OF w]
    have le: "t' \<noteq> WS" "left p' \<le> left p1" "fst t1 = WS \<and> t' \<noteq> EOF \<longrightarrow> left p' < left p1" "left p1 \<le> left p"
      "fst t1 \<noteq> EOF \<longrightarrow> left p1 < left p" by auto
    have "t' = fst t1" if "fst t1 \<noteq> WS" using s that by (subst (asm) scan_spaces.simps) simp
    with le show ?thesis by fastforce
  next
    case False
    then show ?thesis using "1.prems" by (subst (asm) scan_spaces.simps) auto
  qed
qed

lemma parseLiteral_left:
  assumes "parseLiteral p = (p', r)"
  shows "case r of Inl e \<Rightarrow> left p' < left p \<or> left p' = 0 | Inr s \<Rightarrow> left p' \<le> left p"
proof -
  obtain t0 p1 where w: "wf_scan p = (t0, p1)" by (metis prod.exhaust)
  note le = wf_scan_le [OF w]
  consider "fst t0 = EOF" | "fst t0 = QUOTES" | "fst t0 \<noteq> EOF" "fst t0 \<noteq> QUOTES" by blast
  then show ?thesis
  proof cases
    case 1
    then have "p' = p1" "\<exists>e. r = Inl e" using assms w by (auto simp: parseLiteral_def)
    moreover have "left p1 < left p \<or> left p1 = 0" using wf_scan_left [OF w] by auto
    ultimately show ?thesis by auto
  next
    case 2
    then have q: "parseQuotedLiteral p1 = (p', r)" using assms w by (auto simp: parseLiteral_def)
    obtain t1 p2 s t p3 where s: "wf_scan p1 = (t1, p2)" "scan_quoted False [] t1 p2 = (s, t, p3)" by (metis prod.exhaust)
    have "p' = p3" using q s by (auto simp: parseQuotedLiteral_def split: if_splits)
    then show ?thesis using scan_quoted_le [OF s(2)] wf_scan_le [OF s(1)] le 2 by (auto split: sum.splits)
  next
    case 3
    obtain s t p3 where s: "scan_while literal_token [] t0 p1 = (s, t, p3)" by (metis prod.exhaust)
    have "r = Inl (ErrText ''found quote inside unquoted literal'') \<and> p' = p3 \<or> r = Inr s \<and> p' = unscan p3"
      using assms w s 3 by (auto simp: parseLiteral_def split: if_splits)
    then show ?thesis using scan_while_le [OF s] le 3 by auto
  qed
qed

lemma TagParser_left: "TagParser p pt = (p', Inr pt') \<Longrightarrow> left p' < left p \<or> left p' = 0"
proof -
  assume t: "TagParser p pt = (p', Inr pt')"
  obtain p1 r where k: "parseLiteral p = (p1, r)" by (metis prod.exhaust)
  show ?thesis
  proof (cases r)
    case (Inl e)
    then show ?thesis using t k parseLiteral_left [OF k] by (auto simp: TagParser_def)
  next
    case (Inr s)
    obtain t2 p2 where w: "wf_scan p1 = (t2, p2)" by (metis prod.exhaust)
    obtain p3 r3 where v: "parseLiteral p2 = (p3, r3)" by (metis prod.exhaust)
    have "fst t2 = EQUALS" "p' = p3" "\<exists>v. r3 = Inr v"
      using t k Inr w v by (auto simp: TagParser_def split: if_splits sum.splits)
    then show ?thesis using parseLiteral_left [OF k] parseLiteral_left [OF v] wf_scan_le [OF w] Inr by auto
  qed
qed

lemma spaces_left:
  assumes "WhiteSpaceParser False p pt = (p', r)"
  shows "r = Inl ErrEOF \<or> r = Inr pt \<and> left p' \<le> left p \<and> left p \<noteq> 0"
proof -
  obtain t p1 where s: "scan_spaces WS p = (t, p1)" by (metis prod.exhaust)
  then show ?thesis using assms scan_spaces_le [OF s] by (auto simp: WhiteSpaceParser_def split: if_splits)
qed

lemma LoopedParser_returns: "\<exists>r. LoopedParser p pt = Some r"
proof (induction "left p" arbitrary: p pt rule: less_induct)
  case less
  obtain p1 r where t: "TagParser p pt = (p1, r)" by (metis prod.exhaust)
  show ?case
  proof (cases r)
    case (Inl e)
    with t show ?thesis by (subst LoopedParser.simps) simp
  next
    case (Inr pt1)
    with t have l: "left p1 < left p \<or> left p1 = 0" using TagParser_left by simp
    obtain p2 r2 where s: "WhiteSpaceParser False p1 pt1 = (p2, r2)" by (metis prod.exhaust)
    from spaces_left [OF s] show ?thesis
    proof
      assume "r2 = Inl ErrEOF"
      with t Inr s show ?thesis by (subst LoopedParser.simps) simp
    next
      assume r: "r2 = Inr pt1 \<and> left p2 \<le> left p1 \<and> left p1 \<noteq> 0"
      with l have "left p2 < left p" by simp
      then obtain r' where "LoopedParser p2 pt1 = Some r'" using less by blast
      with t Inr s r show ?thesis by (subst LoopedParser.simps) simp
    qed
  qed
qed

text \<open>
  C26. The parser returns on every buffer, whatever bytes it holds and whatever state the parser was
  left in: the loop over the tags has no bound of its own, but each of its rounds uses up input or
  sees the end.
\<close>

theorem wavefront_returns: "\<exists>r. wf_Parse now buf p = Some r"
proof -
  have line: "\<exists>r. parse_point now l q = Some r" for l q
  proof -
    obtain p1 r where e: "run_elements (NewWavefrontElements now) (wf_reset l q) new_point = (p1, r)" by (metis prod.exhaust)
    then show ?thesis using LoopedParser_returns by (cases r) (simp_all add: parse_point_def)
  qed
  have "\<exists>r. parse_points now ls q = Some r" for ls q
  proof (induction ls arbitrary: q)
    case (Cons l ls)
    obtain p1 r where l: "parse_point now l q = Some (p1, r)" using line by (metis prod.exhaust)
    show ?case
    proof (cases r)
      case (Inr pt)
      obtain p2 r2 where "parse_points now ls p1 = Some (p2, r2)" using Cons [of p1] by (metis prod.exhaust)
      then show ?thesis using l Inr by (cases r2) simp_all
    qed (simp add: l)
  qed simp
  then obtain p1 r where "parse_points now (wf_lines buf) p = Some (p1, r)" by (metis prod.exhaust)
  then show ?thesis by (cases r) (simp_all add: wf_Parse_def)
qed

subsection \<open>A plain line\<close>

text \<open>\<open>just p t s\<close>: the token \<open>t\<close> was read last and \<open>s\<close> is left; \<open>ahead p s\<close>: the tokens of \<open>s\<close> come next.\<close>

definition tok :: "char \<Rightarrow> token \<times> string" where
  "tok c = (token_of (byte_of c), [c])"

definition ascii :: "char \<Rightarrow> bool" where
  "ascii c \<longleftrightarrow> 0 < byte_of c \<and> byte_of c < 128"

definition just :: "point_parser \<Rightarrow> token \<times> string \<Rightarrow> string \<Rightarrow> bool" where
  "just p t s \<longleftrightarrow> wp_n p = 0 \<and> wp_input p = s \<and> wp_buf1 p = t"

definition ahead :: "point_parser \<Rightarrow> string \<Rightarrow> bool" where
  "ahead p s \<longleftrightarrow> (wp_n p = 0 \<and> wp_input p = s) \<or> (\<exists>c s'. s = c # s' \<and> wp_n p = 1 \<and> wp_input p = s' \<and> wp_buf1 p = tok c)"

lemma just_ahead: "just p t s \<Longrightarrow> ahead p s"
  by (simp add: just_def ahead_def)

lemma just_unscan: "just p (tok c) s \<Longrightarrow> ahead (unscan p) (c # s)"
  by (simp add: just_def ahead_def unscan_def unscanTokens_def)

lemma token_eof: "token_of r = EOF \<Longrightarrow> r = 0"
  by (simp add: token_of_def split: if_splits)

lemma tok_not_eof: "ascii c \<Longrightarrow> fst (tok c) \<noteq> EOF"
  using token_eof [of "byte_of c"] by (auto simp: tok_def ascii_def)

lemma scan_ahead:
  assumes "ahead p (c # s)" "ascii c"
  obtains p' where "wf_scan p = (tok c, p')" "just p' (tok c) s"
proof (cases "wp_n p = 0")
  case True
  then have i: "wp_input p = c # s" using assms(1) by (simp add: ahead_def)
  have "decode_rune (c # s) = (byte_of c, 1)" using assms(2) by (simp add: ascii_def Let_def)
  then have "Scan (wp_input p) = (tok c, s)"
    using tok_not_eof [OF assms(2)] assms(2) by (simp add: i Scan_def read_rune_def tok_def encode_rune_def ascii_def)
  with True show ?thesis by (intro that [of "wf_buffer (tok c) (p\<lparr>wp_input := s\<rparr>)"]) (simp_all add: wf_scan_def just_def wf_buffer_def)
next
  case False
  then have "wp_n p = 1" "wp_input p = s" "wp_buf1 p = tok c" using assms(1) by (auto simp: ahead_def)
  then show ?thesis by (intro that [of "p\<lparr>wp_n := 0\<rparr>"]) (simp_all add: wf_scan_def just_def)
qed

lemma scan_end:
  assumes "ahead p []"
  obtains p' where "wf_scan p = ((EOF, []), p')" "ahead p' []"
proof -
  have "token_of 0 = EOF" by (simp add: token_of_def isWhitespace_def isLetter_def isNumber_def)
  with assms show ?thesis
    by (intro that [of "wf_buffer (EOF, []) p"]) (simp_all add: wf_scan_def ahead_def Scan_def read_rune_def wf_buffer_def)
qed

text \<open>Scanning a run of tokens up to one that ends it.\<close>

lemma scan_while_run:
  assumes "just p (tok c) s" "c # s = w @ d # r" "list_all (\<lambda>c. ascii c \<and> P (fst (tok c))) w" "ascii d" "\<not> P (fst (tok d))"
  shows "\<exists>p'. scan_while P acc (tok c) p = (acc @ w, tok d, p') \<and> just p' (tok d) r"
  using assms(1,2,3)
proof (induction w arbitrary: c s p acc)
  case Nil
  then have "c = d" "s = r" by simp_all
  with Nil.prems(1) assms(5) show ?case by (subst scan_while.simps) simp
next
  case (Cons x w)
  then have x: "x = c" "ascii c" "P (fst (tok c))" "s = w @ d # r" "list_all (\<lambda>c. ascii c \<and> P (fst (tok c))) w" by auto
  obtain c1 s1 where s: "s = c1 # s1" "ascii c1" using x(4,5) assms(4) by (cases w) auto
  obtain p1 where p1: "wf_scan p = (tok c1, p1)" "just p1 (tok c1) s1"
    by (rule scan_ahead [OF _ s(2)]) (use just_ahead [OF Cons.prems(1)] s(1) in simp)
  obtain p' where p': "scan_while P (acc @ [c]) (tok c1) p1 = ((acc @ [c]) @ w, tok d, p')" "just p' (tok d) r"
    using Cons.IH [OF p1(2) _ x(5), of "acc @ [c]"] x(4) s(1) by auto
  have "scan_while P acc (tok c) p = scan_while P (acc @ [c]) (tok c1) p1"
    using x(2,3) tok_not_eof [OF x(2)] p1(1) by (subst scan_while.simps) (simp add: tok_def)
  with p' x(1) show ?case by simp
qed

definition literal :: "string \<Rightarrow> bool" where
  "literal w \<longleftrightarrow> w \<noteq> [] \<and> list_all (\<lambda>c. ascii c \<and> literal_token (fst (tok c))) w"

lemma parseLiteral_run:
  assumes "ahead p (w @ d # r)" "literal w" "ascii d" "\<not> literal_token (fst (tok d))" "fst (tok d) \<noteq> QUOTES"
  obtains p' where "parseLiteral p = (p', Inr w)" "ahead p' (d # r)"
proof -
  obtain c w' where w: "w = c # w'" using assms(2) by (cases w) (auto simp: literal_def)
  have c: "ascii c" "literal_token (fst (tok c))" using assms(2) by (simp_all add: literal_def w)
  obtain p1 where p1: "wf_scan p = (tok c, p1)" "just p1 (tok c) (w' @ d # r)"
    by (rule scan_ahead [OF _ c(1)]) (use assms(1) w in simp)
  obtain p2 where p2: "scan_while literal_token [] (tok c) p1 = ([] @ w, tok d, p2)" "just p2 (tok d) r"
    using scan_while_run [where P = literal_token and w = w and r = r and acc = "[]", OF p1(2) _ _ assms(3,4)] assms(2) w by (auto simp: literal_def)
  have "fst (tok c) \<noteq> EOF" "fst (tok c) \<noteq> QUOTES" using c by auto
  then have "parseLiteral p = (unscan p2, Inr w)" using p1(1) p2(1) assms(5) by (simp add: parseLiteral_def)
  with just_unscan [OF p2(2)] that show ?thesis by blast
qed

text \<open>A literal in quotes, without quotes or backslashes in it.\<close>

definition quotable :: "char \<Rightarrow> bool" where
  "quotable c \<longleftrightarrow> ascii c \<and> fst (tok c) \<noteq> QUOTES \<and> fst (tok c) \<noteq> BACKSLASH \<and> c \<noteq> CHR 0x0A"

lemma quote_tok [simp]: "tok CHR 0x22 = (QUOTES, [CHR 0x22])" "ascii CHR 0x22"
  by (simp_all add: tok_def token_of_def isWhitespace_def isLetter_def isNumber_def ascii_def)

lemma scan_quoted_run:
  assumes "just p (tok c) s" "c # s = w @ CHR 0x22 # r" "list_all quotable w"
  shows "\<exists>p'. scan_quoted False acc (tok c) p = (acc @ w, tok CHR 0x22, p') \<and> just p' (tok CHR 0x22) r"
  using assms
proof (induction w arbitrary: c s p acc)
  case Nil
  then show ?case by (subst scan_quoted.simps) simp
next
  case (Cons x w)
  then have x: "x = c" "quotable c" "s = w @ CHR 0x22 # r" "list_all quotable w" by auto
  obtain c1 s1 where s: "s = c1 # s1" "ascii c1" using x(3,4) by (cases w) (auto simp: quotable_def)
  obtain p1 where p1: "wf_scan p = (tok c1, p1)" "just p1 (tok c1) s1"
    by (rule scan_ahead [OF _ s(2)]) (use just_ahead [OF Cons.prems(1)] s(1) in simp)
  obtain p' where p': "scan_quoted False (acc @ [c]) (tok c1) p1 = ((acc @ [c]) @ w, tok CHR 0x22, p')" "just p' (tok CHR 0x22) r"
    using Cons.IH [OF p1(2) _ x(4), of "acc @ [c]"] x(3) s(1) by auto
  have "scan_quoted False acc (tok c) p = scan_quoted False (acc @ [c]) (tok c1) p1"
    using x(2) tok_not_eof [of c] p1(1) by (subst scan_quoted.simps) (simp add: tok_def quotable_def)
  with p' x(1) show ?case by simp
qed

lemma quoted_literal_run:
  assumes "ahead p (CHR 0x22 # w @ CHR 0x22 # r)" "list_all quotable w"
  obtains p' where "parseLiteral p = (p', Inr w)" "ahead p' r"
proof -
  obtain p1 where p1: "wf_scan p = (tok CHR 0x22, p1)" "just p1 (tok CHR 0x22) (w @ CHR 0x22 # r)"
    by (rule scan_ahead [OF assms(1)]) simp
  obtain c s where c: "w @ CHR 0x22 # r = c # s" "ascii c" using assms(2) by (cases w) (auto simp: quotable_def)
  have a1: "ahead p1 (c # s)" using just_ahead [OF p1(2)] c(1) by simp
  obtain p2 where p2: "wf_scan p1 = (tok c, p2)" "just p2 (tok c) s" by (rule scan_ahead [OF a1 c(2)])
  obtain p3 where p3: "scan_quoted False [] (tok c) p2 = ([] @ w, tok CHR 0x22, p3)" "just p3 (tok CHR 0x22) r"
    using scan_quoted_run [OF p2(2) c(1) [symmetric] assms(2), of "[]"] by blast
  have "parseLiteral p = (p3, Inr w)" using p1(1) p2(1) p3(1) by (simp add: parseLiteral_def parseQuotedLiteral_def)
  with just_ahead [OF p3(2)] that show ?thesis by blast
qed

text \<open>The text of a value, in quotes or not, and which values can be read from it.\<close>

definition value_text :: "bool \<Rightarrow> string \<Rightarrow> string" where
  "value_text q v = (if q then CHR 0x22 # v @ [CHR 0x22] else v)"

definition readable :: "bool \<Rightarrow> string \<Rightarrow> bool" where
  "readable q v \<longleftrightarrow> (if q then list_all quotable v else literal v)"

lemma value_text_run:
  assumes "ahead p (value_text q v @ d # r)" "readable q v" "ascii d" "\<not> literal_token (fst (tok d))" "fst (tok d) \<noteq> QUOTES"
  obtains p' where "parseLiteral p = (p', Inr v)" "ahead p' (d # r)"
proof (cases q)
  case True
  have "ahead p (CHR 0x22 # v @ CHR 0x22 # d # r)" "list_all quotable v" using assms(1,2) True by (simp_all add: value_text_def readable_def)
  then show ?thesis using quoted_literal_run that by blast
next
  case False
  have "ahead p (v @ d # r)" "literal v" using assms(1,2) False by (simp_all add: value_text_def readable_def)
  then show ?thesis using parseLiteral_run assms(3-5) that by blast
qed

lemma space_tok [simp]: "tok CHR '' '' = (WS, '' '')" "ascii CHR '' ''" "tok CHR 0x0A = (WS, [CHR 0x0A])" "ascii CHR 0x0A"
  "tok CHR ''='' = (EQUALS, ''='')" "ascii CHR ''=''" "tok CHR ''-'' = (MINUS_SIGN, ''-'')" "ascii CHR ''-''"
  by (simp_all add: tok_def token_of_def isWhitespace_def isLetter_def isNumber_def ascii_def)

lemma space_run:
  assumes "ahead p (CHR '' '' # c # r)" "ascii c" "fst (tok c) \<noteq> WS"
  obtains p' where "WhiteSpaceParser b p pt = (p', Inr pt)" "ahead p' (c # r)"
proof -
  obtain p1 where p1: "wf_scan p = (tok CHR '' '', p1)" "just p1 (tok CHR '' '') (c # r)"
    by (rule scan_ahead [OF assms(1)]) simp
  obtain p2 where p2: "wf_scan p1 = (tok c, p2)" "just p2 (tok c) r"
    by (rule scan_ahead [OF just_ahead [OF p1(2)] assms(2)])
  have "scan_spaces WS p = (fst (tok c), p2)"
    using p1(1) p2(1) assms(3) by (subst scan_spaces.simps, simp, subst scan_spaces.simps, simp, subst scan_spaces.simps, simp)
  then have "WhiteSpaceParser b p pt = (unscan p2, Inr pt)" using tok_not_eof [OF assms(2)] by (simp add: WhiteSpaceParser_def)
  with just_unscan [OF p2(2)] that show ?thesis by blast
qed

lemma space_end:
  assumes "ahead p [CHR 0x0A]"
  obtains p' where "WhiteSpaceParser b p pt = (p', if b then Inr pt else Inl ErrEOF)" "ahead p' []"
proof -
  obtain p1 where p1: "wf_scan p = (tok CHR 0x0A, p1)" "just p1 (tok CHR 0x0A) []"
    by (rule scan_ahead [OF assms]) simp
  obtain p2 where p2: "wf_scan p1 = ((EOF, []), p2)" "ahead p2 []" by (rule scan_end [OF just_ahead [OF p1(2)]])
  have "scan_spaces WS p = (EOF, p2)"
    using p1(1) p2(1) by (subst scan_spaces.simps, simp, subst scan_spaces.simps, simp, subst scan_spaces.simps, simp)
  with p2(2) that show ?thesis by (simp add: WhiteSpaceParser_def)
qed


lemma value_run:
  assumes "ahead p (w @ d # r)" "ascii d" "\<not> value_token (fst (tok d))" "parse_float w \<noteq> None"
    "w = v \<or> w = CHR ''-'' # v" "v \<noteq> []" "list_all (\<lambda>c. ascii c \<and> value_token (fst (tok c))) v"
  obtains p' where "wf_ValueParser p pt = (p', Inr (pt\<lparr>pt_Value := w\<rparr>))" "ahead p' (d # r)"
proof -
  obtain c v' where v: "v = c # v'" using assms(6) by (cases v) auto
  have c: "ascii c" "value_token (fst (tok c))" using assms(7) by (simp_all add: v)
  have ne: "fst (tok c) \<noteq> EOF" "fst (tok c) \<noteq> MINUS_SIGN" using c(2) by (auto simp: value_token_def)
  show ?thesis
  proof (cases "w = v")
    case True
    obtain p1 where p1: "wf_scan p = (tok c, p1)" "just p1 (tok c) (v' @ d # r)"
      by (rule scan_ahead [OF _ c(1)]) (use assms(1) v True in simp)
    obtain p2 where p2: "scan_while value_token [] (tok c) p1 = ([] @ w, tok d, p2)" "just p2 (tok d) r"
      using scan_while_run [where P = value_token and w = v and r = r and acc = "[]", OF p1(2) _ assms(7) assms(2,3)] v True by auto
    have "wf_ValueParser p pt = (unscan p2, Inr (pt\<lparr>pt_Value := w\<rparr>))"
      using p1(1) p2(1) ne assms(4) by (simp add: wf_ValueParser_def)
    with just_unscan [OF p2(2)] that show ?thesis by blast
  next
    case False
    then have w: "w = CHR ''-'' # v" using assms(5) by blast
    obtain p0 where p0: "wf_scan p = (tok CHR ''-'', p0)" "just p0 (tok CHR ''-'') (v @ d # r)"
      by (rule scan_ahead [where p = p and c = "CHR ''-''" and s = "v @ d # r"]) (use assms(1) w in simp_all)
    obtain p1 where p1: "wf_scan p0 = (tok c, p1)" "just p1 (tok c) (v' @ d # r)"
      by (rule scan_ahead [OF _ c(1)]) (use just_ahead [OF p0(2)] v in simp)
    obtain p2 where p2: "scan_while value_token ''-'' (tok c) p1 = (''-'' @ v, tok d, p2)" "just p2 (tok d) r"
      using scan_while_run [where P = value_token and w = v and r = r and acc = "''-''", OF p1(2) _ assms(7) assms(2,3)] v by auto
    have "wf_ValueParser p pt = (unscan p2, Inr (pt\<lparr>pt_Value := w\<rparr>))"
      using p0(1) p1(1) p2(1) assms(4) w by (simp add: wf_ValueParser_def)
    with just_unscan [OF p2(2)] that show ?thesis by blast
  qed
qed

lemma digit_tok: "is_digit c \<Longrightarrow> ascii c \<and> fst (tok c) = NUMBER"
  by (simp add: is_digit_def ascii_def tok_def token_of_def isWhitespace_def isLetter_def isNumber_def)

lemma timestamp_run:
  assumes "ahead p (w @ d # r)" "ascii d" "fst (tok d) \<noteq> NUMBER" "list_all is_digit w" "length w = 10" "parse_int w = Some ts"
  obtains p' where "wf_TimestampParser now p pt = (p', Inr (pt\<lparr>pt_Timestamp := sint ts\<rparr>))" "ahead p' (d # r)"
proof -
  obtain c w' where w: "w = c # w'" using assms(5) by (cases w) auto
  have dg: "list_all (\<lambda>c. ascii c \<and> fst (tok c) = NUMBER) w" using assms(4) digit_tok by (auto simp: list_all_iff)
  then have c: "ascii c" "fst (tok c) = NUMBER" by (simp_all add: w)
  obtain p1 where p1: "wf_scan p = (tok c, p1)" "just p1 (tok c) (w' @ d # r)"
    by (rule scan_ahead [OF _ c(1)]) (use assms(1) w in simp)
  obtain p2 where p2: "scan_while (\<lambda>t. t = NUMBER) [] (tok c) p1 = ([] @ w, tok d, p2)" "just p2 (tok d) r"
    using scan_while_run [where P = "\<lambda>t. t = NUMBER" and w = w and r = r and acc = "[]", OF p1(2) _ dg assms(2,3)] w by auto
  have "wf_TimestampParser now p pt = (unscan p2, Inr (pt\<lparr>pt_Timestamp := sint ts\<rparr>))"
    using p1(1) p2(1) c(2) assms(5,6) by (simp add: wf_TimestampParser_def setTimestamp_def)
  with just_unscan [OF p2(2)] that show ?thesis by blast
qed

type_synonym tag_text = "string \<times> bool \<times> string"

definition tag_item :: "tag_text \<Rightarrow> string" where
  "tag_item kv = fst kv @ CHR ''='' # value_text (fst (snd kv)) (snd (snd kv))"

definition tag_ok :: "tag_text \<Rightarrow> bool" where
  "tag_ok kv \<longleftrightarrow> literal (fst kv) \<and> readable (fst (snd kv)) (snd (snd kv))"

definition tag_pairs :: "tag_text list \<Rightarrow> strmap" where
  "tag_pairs tags = List.map (\<lambda>kv. (fst kv, snd (snd kv))) tags"

lemma tag_run:
  assumes "ahead p (tag_item (k, q, v) @ d # r)" "literal k" "readable q v" "ascii d" "\<not> literal_token (fst (tok d))" "fst (tok d) \<noteq> QUOTES"
  obtains p' where "TagParser p pt = (p', Inr (pt\<lparr>pt_Tags := AList.update k v (pt_Tags pt)\<rparr>))" "ahead p' (d # r)"
proof -
  obtain p1 where p1: "parseLiteral p = (p1, Inr k)" "ahead p1 (CHR ''='' # value_text q v @ d # r)"
    by (rule parseLiteral_run [where p = p and w = k and d = "CHR ''=''" and r = "value_text q v @ d # r"])
      (use assms(1,2) in \<open>simp_all add: tag_item_def\<close>)
  obtain p2 where p2: "wf_scan p1 = (tok CHR ''='', p2)" "just p2 (tok CHR ''='') (value_text q v @ d # r)"
    by (rule scan_ahead [OF p1(2)]) simp
  obtain p3 where p3: "parseLiteral p2 = (p3, Inr v)" "ahead p3 (d # r)"
    by (rule value_text_run [OF just_ahead [OF p2(2)] assms(3-6)])
  have "TagParser p pt = (p3, Inr (pt\<lparr>pt_Tags := AList.update k v (pt_Tags pt)\<rparr>))"
    using p1(1) p2(1) p3(1) by (simp add: TagParser_def)
  with p3(2) that show ?thesis by blast
qed

definition tags_text :: "tag_text list \<Rightarrow> string" where
  "tags_text tags = concat (List.map (\<lambda>kv. CHR '' '' # tag_item kv) tags) @ [CHR 0x0A]"

lemma literal_first: "literal w \<Longrightarrow> \<exists>c r. w = c # r \<and> ascii c \<and> literal_token (fst (tok c))"
  by (cases w) (auto simp: literal_def)

lemma loop_run:
  assumes "ahead p (tl (tags_text tags))" "tags \<noteq> []" "list_all tag_ok tags"
  shows "\<exists>p'. LoopedParser p pt = Some (p', Inr (pt\<lparr>pt_Tags := add_all (tag_pairs tags) (pt_Tags pt)\<rparr>))"
  using assms
proof (induction tags arbitrary: p pt)
  case (Cons kv tags)
  obtain k q v where kv: "kv = (k, q, v)" by (cases kv)
  have lit: "literal k" "readable q v" using Cons.prems(3) by (simp_all add: kv tag_ok_def)
  have tx: "tl (tags_text (kv # tags)) = tag_item (k, q, v) @ tags_text tags" by (simp add: tags_text_def kv)
  define pt1 where "pt1 = pt\<lparr>pt_Tags := AList.update k v (pt_Tags pt)\<rparr>"
  show ?case
  proof (cases tags)
    case Nil
    then have "tags_text tags = [CHR 0x0A]" by (simp add: tags_text_def)
    then have a: "ahead p (tag_item (k, q, v) @ CHR 0x0A # [])" using Cons.prems(1) tx by simp
    obtain p1 where p1: "TagParser p pt = (p1, Inr pt1)" "ahead p1 [CHR 0x0A]"
      unfolding pt1_def by (rule tag_run [where pt = pt, OF a lit]) simp_all
    obtain p2 where "WhiteSpaceParser False p1 pt1 = (p2, Inl ErrEOF)"
      by (rule space_end [OF p1(2), of False pt1]) simp
    with p1(1) have "LoopedParser p pt = Some (p2, Inr pt1)" by (subst LoopedParser.simps) simp
    then show ?thesis by (simp add: pt1_def Nil kv add_all_def tag_pairs_def)
  next
    case ts: (Cons kv' tags')
    obtain k' q' v' where kv': "kv' = (k', q', v')" by (cases kv')
    then have "literal k'" using Cons.prems(3) ts by (simp add: tag_ok_def)
    then obtain c r where cr: "k' = c # r" "ascii c" "literal_token (fst (tok c))" using literal_first by blast
    define rest where "rest = r @ CHR ''='' # value_text q' v' @ tags_text tags'"
    have tt: "tags_text tags = CHR '' '' # c # rest" by (simp add: tags_text_def ts kv' tag_item_def cr(1) rest_def)
    have a: "ahead p (tag_item (k, q, v) @ CHR '' '' # c # rest)" using Cons.prems(1) tx tt by simp
    obtain p1 where p1: "TagParser p pt = (p1, Inr pt1)" "ahead p1 (CHR '' '' # c # rest)"
      unfolding pt1_def by (rule tag_run [where pt = pt, OF a lit]) simp_all
    have "fst (tok c) \<noteq> WS" using cr(3) by auto
    then obtain p2 where p2: "WhiteSpaceParser False p1 pt1 = (p2, Inr pt1)" "ahead p2 (c # rest)"
      by (rule space_run [OF p1(2) cr(2)])
    have "ahead p2 (tl (tags_text tags))" using p2(2) by (simp add: tt)
    then obtain p' where "LoopedParser p2 pt1 = Some (p', Inr (pt1\<lparr>pt_Tags := add_all (tag_pairs tags) (pt_Tags pt1)\<rparr>))"
      using Cons.IH [of p2 pt1] Cons.prems(3) ts by auto
    with p1(1) p2(1) have "LoopedParser p pt = Some (p', Inr (pt1\<lparr>pt_Tags := add_all (tag_pairs tags) (pt_Tags pt1)\<rparr>))"
      by (subst LoopedParser.simps) simp
    then show ?thesis by (simp add: pt1_def kv add_all_def tag_pairs_def)
  qed
qed simp


lemma loop_end:
  assumes "ahead p []"
  shows "\<exists>p'. LoopedParser p pt = Some (p', Inr pt)"
proof -
  obtain p1 where p1: "wf_scan p = ((EOF, []), p1)" "ahead p1 []" by (rule scan_end [OF assms])
  obtain p2 where p2: "wf_scan p1 = ((EOF, []), p2)" "ahead p2 []" by (rule scan_end [OF p1(2)])
  have "TagParser p pt = (p1, Inr pt)" using p1(1) by (simp add: TagParser_def parseLiteral_def)
  moreover have "scan_spaces WS p1 = (EOF, p2)"
    using p2(1) by (subst scan_spaces.simps, simp, subst scan_spaces.simps, simp)
  ultimately have "LoopedParser p pt = Some (p2, Inr pt)" by (subst LoopedParser.simps) (simp add: WhiteSpaceParser_def)
  then show ?thesis by blast
qed

record wf_item =
  it_name :: string
  it_value :: string
  it_time :: string
  it_tags :: "tag_text list"

definition number_text :: "string \<Rightarrow> bool" where
  "number_text w \<longleftrightarrow> (let v = (if w \<noteq> [] \<and> hd w = CHR ''-'' then tl w else w)
     in v \<noteq> [] \<and> list_all (\<lambda>c. ascii c \<and> value_token (fst (tok c))) v) \<and> parse_float w \<noteq> None"

definition wf_item_ok :: "wf_item \<Rightarrow> bool" where
  "wf_item_ok it \<longleftrightarrow> literal (it_name it) \<and> number_text (it_value it)
     \<and> list_all is_digit (it_time it) \<and> length (it_time it) = 10 \<and> parse_int (it_time it) \<noteq> None
     \<and> list_all tag_ok (it_tags it)"

definition wf_item_line :: "wf_item \<Rightarrow> string" where
  "wf_item_line it = it_name it @ CHR '' '' # it_value it @ CHR '' '' # it_time it @ concat (List.map (\<lambda>kv. CHR '' '' # tag_item kv) (it_tags it))"

definition wf_item_metric :: "strmap \<Rightarrow> wf_item \<Rightarrow> metric" where
  "wf_item_metric defaults it =
     New (it_name it) (add_all defaults (add_all (tag_pairs (it_tags it)) [])) [(''value'', GFloat64 (the (parse_float (it_value it))))]
       (sint (the (parse_int (it_time it))) * 10 ^ 9) None"

definition wf_item_point :: "wf_item \<Rightarrow> point" where
  "wf_item_point it = \<lparr>pt_Name = it_name it, pt_Value = it_value it, pt_Timestamp = sint (the (parse_int (it_time it))),
     pt_Tags = add_all (tag_pairs (it_tags it)) []\<rparr>"

lemma parse_point_item:
  assumes "wf_item_ok it"
  shows "\<exists>p'. parse_point now (wf_item_line it @ [CHR 0x0A]) p = Some (p', Inr (wf_item_point it))"
proof -
  let ?n = "it_name it" and ?v = "it_value it" and ?t = "it_time it" and ?ts = "it_tags it"
  have ok: "literal ?n" "number_text ?v" "list_all is_digit ?t" "length ?t = 10" "list_all tag_ok ?ts"
    using assms by (simp_all add: wf_item_ok_def)
  obtain ts where ts: "parse_int ?t = Some ts" using assms by (auto simp: wf_item_ok_def)
  obtain w where w: "?v = w \<or> ?v = CHR ''-'' # w" "w \<noteq> []" "list_all (\<lambda>c. ascii c \<and> value_token (fst (tok c))) w" "parse_float ?v \<noteq> None"
  proof (cases "?v \<noteq> [] \<and> hd ?v = CHR ''-''")
    case True
    then show ?thesis using ok(2) that [of "tl ?v"] by (cases ?v) (simp_all add: number_text_def)
  next
    case False
    then show ?thesis using ok(2) that [of ?v] by (auto simp: number_text_def Let_def)
  qed
  define rest where "rest = tags_text ?ts"
  have line: "wf_item_line it @ [CHR 0x0A] = ?n @ CHR '' '' # ?v @ CHR '' '' # ?t @ rest"
    by (simp add: wf_item_line_def rest_def tags_text_def)
  define p0 where "p0 = wf_reset (wf_item_line it @ [CHR 0x0A]) p"
  have p0: "ahead p0 (?n @ CHR '' '' # ?v @ CHR '' '' # ?t @ rest)"
    unfolding line [symmetric] by (simp add: p0_def wf_reset_def ahead_def)
  obtain p1 where p1: "parseLiteral p0 = (p1, Inr ?n)" "ahead p1 (CHR '' '' # ?v @ CHR '' '' # ?t @ rest)"
    by (rule parseLiteral_run [OF p0 ok(1)]) simp_all
  define pt1 where "pt1 = new_point\<lparr>pt_Name := ?n\<rparr>"
  have e1: "NameParser p0 new_point = (p1, Inr pt1)" by (simp add: NameParser_def p1(1) pt1_def)
  obtain c v' where v: "?v = c # v'" "ascii c" "fst (tok c) \<noteq> WS"
    using w(1,2,3) by (cases w; cases "?v = w") (auto simp: value_token_def)
  obtain p2 where p2: "WhiteSpaceParser False p1 pt1 = (p2, Inr pt1)" "ahead p2 (?v @ CHR '' '' # ?t @ rest)"
    by (rule space_run [where p = p1 and pt = pt1 and b = False and c = c and r = "v' @ CHR '' '' # ?t @ rest", OF _ v(2,3)])
      (use p1(2) v(1) in simp_all)
  define pt2 where "pt2 = pt1\<lparr>pt_Value := ?v\<rparr>"
  obtain p3 where p3: "wf_ValueParser p2 pt1 = (p3, Inr pt2)" "ahead p3 (CHR '' '' # ?t @ rest)"
    unfolding pt2_def by (rule value_run [where pt = pt1, OF p2(2) _ _ w(4,1,2,3)]) (simp_all add: value_token_def)
  obtain d t' where t: "?t = d # t'" "is_digit d" using ok(3,4) by (cases ?t) auto
  then have d: "ascii d" "fst (tok d) \<noteq> WS" using digit_tok [OF t(2)] by simp_all
  obtain p4 where p4: "WhiteSpaceParser True p3 pt2 = (p4, Inr pt2)" "ahead p4 (?t @ rest)"
    by (rule space_run [where p = p3 and pt = pt2 and b = True and c = d and r = "t' @ rest", OF _ d])
      (use p3(2) t(1) in simp_all)
  obtain x r where r: "rest = x # r" "ascii x" "fst (tok x) \<noteq> NUMBER"
    by (cases ?ts) (auto simp: rest_def tags_text_def)
  define pt3 where "pt3 = pt2\<lparr>pt_Timestamp := sint ts\<rparr>"
  have p4': "ahead p4 (?t @ x # r)" using p4(2) by (simp add: r(1))
  obtain p5 where p5: "wf_TimestampParser now p4 pt2 = (p5, Inr pt3)" "ahead p5 rest"
    unfolding pt3_def r(1) by (rule timestamp_run [where pt = pt2, OF p4' r(2,3) ok(3,4) ts])
  have pt: "pt3\<lparr>pt_Tags := add_all (tag_pairs ?ts) []\<rparr> = wf_item_point it"
    by (simp add: pt3_def pt2_def pt1_def new_point_def wf_item_point_def ts)
  show ?thesis
  proof (cases ?ts)
    case Nil
    then have "ahead p5 [CHR 0x0A]" using p5(2) by (simp add: rest_def tags_text_def)
    then obtain p6 where p6: "WhiteSpaceParser True p5 pt3 = (p6, Inr pt3)" "ahead p6 []"
      by (rule space_end [where b = True and pt = pt3]) simp
    obtain p7 where "LoopedParser p6 pt3 = Some (p7, Inr pt3)" using loop_end [OF p6(2)] by blast
    moreover have "run_elements (NewWavefrontElements now) p0 new_point = (p6, Inr pt3)"
      by (simp add: NewWavefrontElements_def e1 p2(1) p3(1) p4(1) p5(1) p6(1))
    moreover have "pt3 = wf_item_point it"
      using pt by (simp add: Nil add_all_def tag_pairs_def pt3_def pt2_def pt1_def new_point_def)
    ultimately show ?thesis by (simp add: parse_point_def p0_def)
  next
    case (Cons kv tags)
    obtain k q v2 where kv: "kv = (k, q, v2)" by (cases kv)
    then have "literal k" using ok(5) Cons by (simp add: tag_ok_def)
    then obtain a k' where a: "k = a # k'" "ascii a" "literal_token (fst (tok a))" using literal_first by blast
    have ra: "rest = CHR '' '' # a # tl (tl rest)" by (simp add: rest_def tags_text_def Cons kv tag_item_def a(1))
    have p5': "ahead p5 (CHR '' '' # a # tl (tl rest))" using p5(2) ra by simp
    have "fst (tok a) \<noteq> WS" using a(3) by auto
    then obtain p6 where p6: "WhiteSpaceParser True p5 pt3 = (p6, Inr pt3)" "ahead p6 (a # tl (tl rest))"
      by (rule space_run [OF p5' a(2)])
    have tr: "a # tl (tl rest) = tl (tags_text ?ts)" using ra by (metis list.sel(3) rest_def)
    obtain p7 where "LoopedParser p6 pt3 = Some (p7, Inr (pt3\<lparr>pt_Tags := add_all (tag_pairs ?ts) (pt_Tags pt3)\<rparr>))"
      using loop_run [OF p6(2) [unfolded tr] _ ok(5), of pt3] Cons by auto
    moreover have "pt_Tags pt3 = []" by (simp add: pt3_def pt2_def pt1_def new_point_def)
    moreover have "run_elements (NewWavefrontElements now) p0 new_point = (p6, Inr pt3)"
      by (simp add: NewWavefrontElements_def e1 p2(1) p3(1) p4(1) p5(1) p6(1))
    ultimately show ?thesis using pt by (simp add: parse_point_def p0_def)
  qed
qed

lemma literal_no_newline: "literal w \<Longrightarrow> CHR 0x0A \<notin> set w"
  by (auto simp: literal_def list_all_iff)

lemma item_line_no_newline: "wf_item_ok it \<Longrightarrow> CHR 0x0A \<notin> set (wf_item_line it) \<and> wf_item_line it \<noteq> []"
proof -
  assume ok: "wf_item_ok it"
  have "CHR 0x0A \<notin> set (it_name it)" using ok literal_no_newline by (simp add: wf_item_ok_def)
  moreover have "CHR 0x0A \<notin> set (it_value it)"
  proof -
    have "list_all (\<lambda>c. ascii c \<and> value_token (fst (tok c))) w \<Longrightarrow> CHR 0x0A \<notin> set w" for w
      by (auto simp: list_all_iff value_token_def)
    with ok show ?thesis by (cases "it_value it") (auto simp: wf_item_ok_def number_text_def Let_def value_token_def split: if_splits)
  qed
  moreover have "CHR 0x0A \<notin> set (it_time it)" using ok by (auto simp: wf_item_ok_def list_all_iff is_digit_def)
  moreover have "CHR 0x0A \<notin> set (tag_item kv)" if "kv \<in> set (it_tags it)" for kv
    using ok that literal_no_newline
    by (auto simp: wf_item_ok_def list_all_iff tag_item_def tag_ok_def readable_def value_text_def quotable_def split: if_splits)
  ultimately show ?thesis using ok by (auto simp: wf_item_line_def)
qed

text \<open>
  Parsing the text of some points gives a metric for each, in order: the name, the value as a float,
  the tags, and the time in seconds. Here names and keys are made of the characters that need no
  quotes, and so are the values that are not in quotes; in quotes they have no quotes, backslashes and newlines; and the times
  have ten digits. Default tags replace the tags of a point, and of two tags with the same key the later one counts.
\<close>

theorem wavefront_points:
  assumes "list_all wf_item_ok its"
  shows "\<exists>p'. wf_Parse now (concat (List.map (\<lambda>it. wf_item_line it @ [CHR 0x0A]) its)) p
    = Some (p', Inr (List.map (wf_item_metric (wp_defaultTags p)) its))"
proof -
  let ?ls = "List.map wf_item_line its"
  let ?b = "concat (List.map (\<lambda>l. l @ [CHR 0x0A]) ?ls)"
  have nl: "\<forall>l \<in> set ?ls. CHR 0x0A \<notin> set l \<and> l \<noteq> []" using assms item_line_no_newline by (auto simp: list_all_iff)
  have pre: "trim_prefix ?b [CHR 0x0A] = ?b"
  proof (cases ?ls)
    case (Cons l ls)
    with nl show ?thesis by (cases l) (auto simp: trim_prefix_def has_prefix_def)
  qed (simp add: trim_prefix_def has_prefix_def)
  have suf: "?b \<noteq> [] \<longrightarrow> has_suffix ?b [CHR 0x0A]" by (cases ?ls rule: rev_cases) (simp_all add: has_suffix_def)
  have sp: "butlast (split ?b [CHR 0x0A]) = ?ls" using nl by (intro split_lines_concat) blast
  have "wf_lines ?b = List.map (\<lambda>l. l @ [CHR 0x0A]) (butlast (split ?b [CHR 0x0A]))"
    unfolding wf_lines_def Let_def pre using suf by (cases "?b = []") simp_all
  then have lines: "wf_lines ?b = List.map (\<lambda>l. l @ [CHR 0x0A]) ?ls" by (simp only: sp)
  have "\<exists>p'. parse_points now (List.map (\<lambda>l. l @ [CHR 0x0A]) (List.map wf_item_line its)) q = Some (p', Inr (List.map wf_item_point its))" for q
    using assms
  proof (induction its arbitrary: q)
    case (Cons it its)
    then obtain p1 where p1: "parse_point now (wf_item_line it @ [CHR 0x0A]) q = Some (p1, Inr (wf_item_point it))"
      using parse_point_item by fastforce
    from Cons obtain p2 where "parse_points now (List.map (\<lambda>l. l @ [CHR 0x0A]) (List.map wf_item_line its)) p1 = Some (p2, Inr (List.map wf_item_point its))"
      by fastforce
    with p1 show ?case by (simp add: comp_def)
  qed simp
  then obtain p' where pts: "parse_points now (wf_lines ?b) p = Some (p', Inr (List.map wf_item_point its))" unfolding lines by blast
  let ?d = "wp_defaultTags p"
  have conv: "convert_point ?d (wf_item_point it) = Some (wf_item_metric ?d it)" if "wf_item_ok it" for it
    using that by (auto simp: convert_point_def wf_item_point_def wf_item_metric_def wf_item_ok_def number_text_def)
  have "convertPointToTelegrafMetric ?d (List.map wf_item_point its) = Some (List.map (wf_item_metric ?d) its)"
    using assms by (induction its) (simp_all add: conv)
  with pts have "wf_Parse now ?b p = Some (p', Inr (List.map (wf_item_metric ?d) its))" by (simp add: wf_Parse_def)
  then show ?thesis by (auto simp: comp_def)
qed

definition demo_item :: wf_item where
  "demo_item = \<lparr>it_name = ''sys.load'', it_value = ''-1.5'', it_time = ''1500000000'', it_tags = [(''dc'', False, ''eu-1''), (''room'', True, ''a 1'')]\<rparr>"

theorem wavefront_points_witness:
  "\<exists>p'. wf_Parse 0 (''sys.load -1.5 1500000000 dc=eu-1 room='' @ [CHR 0x22] @ ''a 1'' @ [CHR 0x22, CHR 0x0A]) (NewWavefrontParser [(''env'', ''x'')])
    = Some (p', Inr [wf_item_metric [(''env'', ''x'')] demo_item])"
proof -
  have ok: "list_all wf_item_ok [demo_item]" by code_simp
  have "concat (List.map (\<lambda>it. wf_item_line it @ [CHR 0x0A]) [demo_item])
      = ''sys.load -1.5 1500000000 dc=eu-1 room='' @ [CHR 0x22] @ ''a 1'' @ [CHR 0x22, CHR 0x0A]" by code_simp
  with wavefront_points [OF ok, of 0 "NewWavefrontParser [(''env'', ''x'')]"] show ?thesis
    by (simp add: NewWavefrontParser_def)
qed

text \<open>A blank line is an error, and an error costs the whole buffer.\<close>

lemma blank_line_fails: "\<exists>p'. wf_Parse 0 ([CHR 0x0A, CHR 0x0A] @ ''b 2'') (NewWavefrontParser []) = Some (p', Inl ErrEOF)"
proof -
  have l: "wf_lines ([CHR 0x0A, CHR 0x0A] @ ''b 2'') = [[CHR 0x0A], ''b 2'' @ [CHR 0x0A]]" by code_simp
  have "case run_elements (NewWavefrontElements 0) (wf_reset [CHR 0x0A] (NewWavefrontParser [])) new_point of (p', r) \<Rightarrow> r = Inl ErrEOF" by code_simp
  then obtain p' where "run_elements (NewWavefrontElements 0) (wf_reset [CHR 0x0A] (NewWavefrontParser [])) new_point = (p', Inl ErrEOF)"
    by (auto split: prod.splits)
  then have "parse_point 0 [CHR 0x0A] (NewWavefrontParser []) = Some (p', Inl ErrEOF)" by (simp add: parse_point_def)
  then show ?thesis by (simp only: wf_Parse_def l) simp
qed

end
