(* ===== verification/WavefrontOutput.thy ===== *)
theory WavefrontOutput
  imports Wavefront
begin

section \<open>The Wavefront output\<close>

text \<open>
  \<open>plugins/outputs/wavefront/wavefront.go\<close>: metrics as lines of points, with sanitized names, a source and quoted tags,
  and the round trip with the Wavefront parser. The network is a parameter.
\<close>

subsection \<open>Replacing characters\<close>

type_synonym number_maps = "(string, (string, f64) gomap list) gomap"

record wavefront_output =
  wo_Prefix :: string
  wo_Host :: string
  wo_Port :: int
  wo_MetricSeparator :: string
  wo_SimpleFields :: bool
  wo_ConvertPaths :: bool
  wo_ConvertBool :: bool
  wo_UseRegex :: bool
  wo_SourceOverride :: "string list"
  wo_StringToNumber :: number_maps

text \<open>The replacers of one byte each go through a string byte by byte, the regular expression rune by rune.\<close>

definition sanitizedChars :: "string \<Rightarrow> string" where
  "sanitizedChars s =
     List.map (\<lambda>c. if c \<in> set ''!@#$%^&*()+`[]{}:;<>,?/| ='' \<or> c \<in> set [CHR 0x27, CHR 0x22, CHR 0x5C] then CHR ''-'' else c) s"

definition regex_keeps :: "int \<Rightarrow> bool" where
  "regex_keeps r \<longleftrightarrow> isLetter r \<or> isNumber r \<or> r = 95 \<or> r = 46 \<or> r = 45"

definition sanitizedRegex :: "string \<Rightarrow> string" where
  "sanitizedRegex s = concat (List.map (\<lambda>(r, b). if regex_keeps r then b else ''-'') (runes s))"

definition tagValueReplacer :: "string \<Rightarrow> string" where
  "tagValueReplacer s =
     concat (List.map (\<lambda>c. if c = CHR 0x22 then [CHR 0x5C, CHR 0x22] else if c = CHR ''*'' then ''-'' else [c]) s)"

text \<open>\<open>pathReplacer\<close> is a variable of the package: the text that replaces an underscore.\<close>

definition pathReplacer :: "string \<Rightarrow> string \<Rightarrow> string" where
  "pathReplacer sep s = concat (List.map (\<lambda>c. if c = CHR ''_'' then sep else [c]) s)"

definition wo_sanitize :: "wavefront_output \<Rightarrow> string \<Rightarrow> string" where
  "wo_sanitize w s = (if wo_UseRegex w then sanitizedRegex s else sanitizedChars s)"

subsection \<open>Values\<close>

definition map_number :: "(string, f64) gomap list \<Rightarrow> string \<Rightarrow> f64 option" where
  "map_number mappings s = (case List.map_filter (\<lambda>mp. map_of mp s) mappings of [] \<Rightarrow> None | x # _ \<Rightarrow> Some x)"

text \<open>The prefixes are visited in the order of the map, here that of the list.\<close>

fun string_number :: "number_maps \<Rightarrow> string \<Rightarrow> string \<Rightarrow> f64 option" where
  "string_number [] name s = None"
| "string_number ((pre, mappings) # rest) name s =
     (case (if has_prefix name pre then map_number mappings s else None) of
        Some x \<Rightarrow> Some x | None \<Rightarrow> string_number rest name s)"

definition buildValue :: "gval \<Rightarrow> string \<Rightarrow> wavefront_output \<Rightarrow> f64 option" where
  "buildValue v name w =
     (case v of
        GBool b \<Rightarrow> if wo_ConvertBool w then Some (if b then f64_of_int 1 else f_zero) else None
      | GInt64 i \<Rightarrow> Some (f64_of_int (sint i))
      | GUint64 u \<Rightarrow> Some (f64_of_int (uint u))
      | GFloat64 x \<Rightarrow> Some x
      | GString s \<Rightarrow> string_number (wo_StringToNumber w) name s
      | _ \<Rightarrow> None)"

text \<open>\<open>strconv.FormatFloat(x, 'f', 6, 64)\<close>: the exact value rounded to six decimals, a half to the even neighbour.\<close>

definition pad6 :: "string \<Rightarrow> string" where
  "pad6 s = replicate (6 - length s) CHR ''0'' @ s"

definition fixed6 :: "f64 \<Rightarrow> string" where
  "fixed6 x =
     (if is_nan x then ''NaN'' else if is_inf x then (if f_neg x then ''-Inf'' else ''+Inf'')
      else case f_frac x of (p, q) \<Rightarrow>
        let d = round_half_even (p * 10 ^ 6) q
        in (if f_neg x then ''-'' else '''') @ digits_of (d div 10 ^ 6) @ ''.'' @ pad6 (digits_of (d mod 10 ^ 6)))"

subsection \<open>Source and tags\<close>

definition or_empty :: "strmap \<Rightarrow> string \<Rightarrow> string" where
  "or_empty tags k = (case map_of tags k of Some v \<Rightarrow> v | None \<Rightarrow> [])"

text \<open>The first of the tags for the source that is there; then the host is kept as another tag.\<close>

fun override_source :: "string list \<Rightarrow> strmap \<Rightarrow> string \<times> strmap" where
  "override_source [] tags = (or_empty tags ''host'', tags)"
| "override_source (s # ss) tags =
     (case map_of tags s of
        Some v \<Rightarrow> (v, AList.delete s (AList.update ''telegraf_host'' (or_empty tags ''host'') tags))
      | None \<Rightarrow> override_source ss tags)"

definition buildTags :: "strmap \<Rightarrow> wavefront_output \<Rightarrow> string \<times> strmap" where
  "buildTags mTags w =
     (let tags0 = List.filter (\<lambda>kv. snd kv \<noteq> []) mTags;
          (source, tags1) = (case map_of tags0 ''source'' of
             Some s \<Rightarrow> (s, AList.delete ''source'' tags0)
           | None \<Rightarrow> override_source (wo_SourceOverride w) tags0)
      in (tagValueReplacer source, AList.delete ''host'' tags1))"

subsection \<open>Points and lines\<close>

record metric_point =
  mp_Metric :: string
  mp_Value :: f64
  mp_Timestamp :: int
  mp_Source :: string
  mp_Tags :: strmap

definition point_name :: "string \<Rightarrow> wavefront_output \<Rightarrow> metric \<Rightarrow> string \<Rightarrow> string" where
  "point_name sep w m fieldName =
     (let name = (if \<not> wo_SimpleFields w \<and> fieldName = ''value'' then wo_Prefix w @ m_name m
                  else wo_Prefix w @ m_name m @ wo_MetricSeparator w @ fieldName);
          name1 = wo_sanitize w name
      in if wo_ConvertPaths w then pathReplacer sep name1 else name1)"

definition build_point :: "string \<Rightarrow> wavefront_output \<Rightarrow> metric \<Rightarrow> string \<times> gval \<Rightarrow> metric_point option" where
  "build_point sep w m fv =
     map_option (\<lambda>x. \<lparr>mp_Metric = point_name sep w m (fst fv), mp_Value = x, mp_Timestamp = m_tm m div 10 ^ 9,
         mp_Source = fst (buildTags (Tags m) w), mp_Tags = snd (buildTags (Tags m) w)\<rparr>)
       (buildValue (snd fv) (point_name sep w m (fst fv)) w)"

definition buildMetrics :: "string \<Rightarrow> wavefront_output \<Rightarrow> metric \<Rightarrow> metric_point list" where
  "buildMetrics sep w m = List.map_filter (build_point sep w m) (Fields m)"

definition point_tag :: "wavefront_output \<Rightarrow> string \<times> string \<Rightarrow> string" where
  "point_tag w kv = '' '' @ wo_sanitize w (fst kv) @ ''='' @ [CHR 0x22] @ tagValueReplacer (snd kv) @ [CHR 0x22]"

definition formatMetricPoint :: "metric_point \<Rightarrow> wavefront_output \<Rightarrow> string" where
  "formatMetricPoint mp w =
     mp_Metric mp @ '' '' @ fixed6 (mp_Value mp) @ '' '' @ itoa (mp_Timestamp mp) @ '' source='' @ [CHR 0x22] @ mp_Source mp @ [CHR 0x22]
       @ concat (List.map (point_tag w) (mp_Tags mp)) @ [CHR 0x0A]"

subsection \<open>Connecting and writing\<close>

text \<open>\<open>resolves\<close> and \<open>dials\<close>: which addresses can be resolved and connected to. The result is the new value of the replacer.\<close>

definition wo_uri :: "wavefront_output \<Rightarrow> string" where
  "wo_uri w = wo_Host w @ '':'' @ itoa (wo_Port w)"

definition wo_Connect ::
  "(string \<Rightarrow> bool) \<Rightarrow> (string \<Rightarrow> bool) \<Rightarrow> string \<Rightarrow> wavefront_output \<Rightarrow> (string \<times> wavefront_output) \<times> string option" where
  "wo_Connect resolves dials sep w =
     (let w1 = (if wo_ConvertPaths w \<and> wo_MetricSeparator w = ''_'' then w\<lparr>wo_ConvertPaths := False\<rparr> else w)
      in ((if wo_ConvertPaths w1 then wo_MetricSeparator w1 else sep, w1),
          if \<not> resolves (wo_uri w) then Some ''Wavefront: TCP address cannot be resolved''
          else if \<not> dials (wo_uri w) then Some ''Wavefront: TCP connect fail'' else None))"

text \<open>\<open>send\<close> gives whether a line could be written; the first that could not ends the call with an error.\<close>

fun send_lines :: "(string \<Rightarrow> 'w \<Rightarrow> bool \<times> 'w) \<Rightarrow> string list \<Rightarrow> 'w \<Rightarrow> bool \<times> 'w" where
  "send_lines send [] s = (True, s)"
| "send_lines send (l # ls) s = (case send l s of (True, s1) \<Rightarrow> send_lines send ls s1 | (False, s1) \<Rightarrow> (False, s1))"

definition wo_lines :: "string \<Rightarrow> wavefront_output \<Rightarrow> metric list \<Rightarrow> string list" where
  "wo_lines sep w ms = List.map (\<lambda>mp. formatMetricPoint mp w) (concat (List.map (buildMetrics sep w) ms))"

definition wo_Write ::
  "(string \<Rightarrow> bool) \<Rightarrow> (string \<Rightarrow> 'w \<Rightarrow> bool \<times> 'w) \<Rightarrow> string \<Rightarrow> wavefront_output \<Rightarrow> metric list \<Rightarrow> 'w \<Rightarrow> bool \<times> 'w" where
  "wo_Write dials send sep w ms s = (if \<not> dials (wo_uri w) then (False, s) else send_lines send (wo_lines sep w ms) s)"

text \<open>The tags of a point: none is empty but perhaps the host that an override kept, and none is named source or host.\<close>

lemma override_source_tags:
  "gomap_ok tags \<Longrightarrow> gomap_ok (snd (override_source ss tags)) \<and> (\<forall>k v. map_of (snd (override_source ss tags)) k = Some v \<longrightarrow>
     map_of tags k = Some v \<or> k = ''telegraf_host'')"
  by (induction ss)
    (auto simp del: map_of_eq_Some_iff simp: map_laws gomap_ok_update gomap_ok_delete split: option.split if_splits)

lemma buildTags_keys:
  assumes "gomap_ok mTags" "map_of (snd (buildTags mTags w)) k = Some v"
  shows "k \<noteq> ''host'' \<and> k \<noteq> ''source'' \<and> (k = ''telegraf_host'' \<or> map_of mTags k = Some v \<and> v \<noteq> [])"
proof -
  let ?tags0 = "List.filter (\<lambda>kv. snd kv \<noteq> []) mTags"
  have ok: "gomap_ok ?tags0" using assms(1) by (rule gomap_ok_filter)
  have sub: "map_of mTags k = Some v \<and> v \<noteq> []" if "map_of ?tags0 k = Some v" for k v
    using map_of_SomeD [OF that] assms(1) by (auto simp: map_of_eq_Some_iff)
  show ?thesis
  proof (cases "map_of ?tags0 ''source''")
    case (Some s)
    with assms(2) have "k \<noteq> ''host''" "k \<noteq> ''source''" "map_of ?tags0 k = Some v"
      by (simp_all add: buildTags_def map_laws del: map_of_eq_Some_iff split: if_splits)
    with sub show ?thesis by blast
  next
    case None
    have k: "k \<noteq> ''host''" "map_of (snd (override_source (wo_SourceOverride w) ?tags0)) k = Some v"
      using assms(2) None by (simp_all add: buildTags_def map_laws del: map_of_eq_Some_iff split: prod.splits if_splits)
    then have "map_of ?tags0 k = Some v \<or> k = ''telegraf_host''" using override_source_tags [OF ok] by blast
    moreover have "map_of ?tags0 k = Some v \<Longrightarrow> k \<noteq> ''source''" using None by (metis option.distinct(1))
    moreover have "''telegraf_host'' \<noteq> ''source''" by simp
    ultimately show ?thesis using sub k(1) by blast
  qed
qed

subsection \<open>What the output writes, the parser reads\<close>



text \<open>An integer below 2^53 is written exactly.\<close>

lemma fixed6_int:
  assumes "\<bar>i\<bar> < 2 ^ 53"
  shows "fixed6 (f64_of_int i) = itoa i @ ''.000000''"
proof -
  note parts = f64_of_int_parts [OF assms]
  have fin: "\<not> is_nan (f64_of_int i)" "\<not> is_inf (f64_of_int i)" using f64_of_int_finite [OF assms] by simp_all
  have frac: "f_frac (f64_of_int i) = (\<bar>i\<bar> * 2 ^ nat (- f_exp (f64_of_int i)), 2 ^ nat (- f_exp (f64_of_int i)))"
    using parts(1,5) by (simp add: f_frac_def scale2_def)
  have "round_half_even (\<bar>i\<bar> * 2 ^ nat (- f_exp (f64_of_int i)) * 10 ^ 6) (2 ^ nat (- f_exp (f64_of_int i))) = \<bar>i\<bar> * 10 ^ 6"
    using round_half_even_exact [of "2 ^ nat (- f_exp (f64_of_int i))" "\<bar>i\<bar> * 10 ^ 6"] by (simp add: ac_simps)
  moreover have "pad6 (digits_of 0) = ''000000''" by code_simp
  ultimately show ?thesis
    by (simp add: fixed6_def fin frac Let_def parts(4) itoa_def ac_simps)
qed

subsection \<open>Points as items\<close>
















definition wo_demo :: wavefront_output where
  "wo_demo = \<lparr>wo_Prefix = ''a-'', wo_Host = ''proxy'', wo_Port = 2878, wo_MetricSeparator = ''.'', wo_SimpleFields = False, wo_ConvertPaths = True, wo_ConvertBool = True,
     wo_UseRegex = True, wo_SourceOverride = [''node''], wo_StringToNumber = [(''a-'', [[(''up'', f64_of_int 1)]])]\<rparr>"

definition wo_demo_metric :: metric where
  "wo_demo_metric = New ''disk_io'' [(''host'', ''h1''), (''node'', ''n 1''), (''room!'', ''x*''), (''empty'', [])]
     [(''value'', GInt64 7), (''state'', GString ''up''), (''note'', GString ''hello''), (''on'', GBool False)] (1500000000 * 10 ^ 9 + 5) None"

lemma wo_demo_lines:
  "wo_lines ''.'' wo_demo [wo_demo_metric] =
     (let q = [CHR 0x22]; tags = '' source='' @ q @ ''n 1'' @ q @ '' room-='' @ q @ ''x-'' @ q @ '' telegraf_host='' @ q @ ''h1'' @ q @ [CHR 0x0A]
      in List.map (\<lambda>s. s @ tags) [''a-disk.io 7.000000 1500000000'', ''a-disk.io.state 1.000000 1500000000'', ''a-disk.io.on 0.000000 1500000000''])"
  by code_simp


text \<open>
  An override of the source keeps the host as a tag even when there is none, so a point can get an empty tag. The replacer of paths
  belongs to the package: connecting a second output changes the names of the first.
\<close>

lemma wavefront_empty_host: "buildTags [(''node'', ''n'')] wo_demo = (''n'', [(''telegraf_host'', [])])"
  by code_simp

lemma wavefront_replacer_shared:
  "fst (fst (wo_Connect (\<lambda>_. True) (\<lambda>_. True) (fst (fst (wo_Connect (\<lambda>_. True) (\<lambda>_. True) ''_'' wo_demo)))
     (wo_demo\<lparr>wo_MetricSeparator := ''/''\<rparr>))) = ''/''"
  "List.map mp_Metric (buildMetrics (fst (fst (wo_Connect (\<lambda>_. True) (\<lambda>_. True) ''_'' wo_demo))) wo_demo (New ''b_c'' [] [(''value'', GInt64 7)] 0 None)) = [''a-b.c'']"
  "List.map mp_Metric (buildMetrics ''/'' wo_demo (New ''b_c'' [] [(''value'', GInt64 7)] 0 None)) = [''a-b/c'']"
  by code_simp+

end
