(* ===== verification/Spec2Isabelle.thy ===== *)
theory Spec2Isabelle
  imports Agent Aggregators AzureMonitor CloudWatch Converter CsvParser CsvReader Dropwizard GoFloat GoStrings GoText GraphiteParser GraphiteSerializer HistogramAggregator InfluxParser InfluxSerializer Json JsonParser JsonSerializer MakeMetric Metric MetricAlias NagiosParser NameFilter Prelude Processors PrometheusClient RingBuffer RunningAggregator RunningOutput RunningStats Selfstat Snmp SnmpConvert SnmpTables SplunkSerializer Statsd Templating TextProcessors TopK ValueParsers Wavefront WavefrontOutput
begin

text \<open>
  Verification library of the telemetry agent: the Go program under \<open>src/generic-agent/telegraf\<close>.
  Inputs hand measurements to an accumulator; each becomes a metric, is filtered, passes the
  processors, is offered to the aggregators and is queued by every output until it is written.
  Paths below are relative to that directory.

  \<^bold>\<open>Parts and theories.\<close>

  \<^item> \<open>Prelude\<close>: Go maps as association lists, results (\<open>Err\<close>, \<open>Panic\<close>), binary search
    (\<open>sort.Search\<close>), and the interfaces \<open>keyed_store\<close> and \<open>key_visitor\<close>.
  \<^item> \<open>GoFloat\<close>, \<open>GoStrings\<close>: what the code uses of the language and its standard library: IEEE
    doubles as 64 bits with their arithmetic, \<open>strings\<close>, \<open>strconv\<close>, UTF-8.
  \<^item> \<open>Metric\<close> (\<open>metric.go\<close>, \<open>metric/metric.go\<close>, \<open>metric/builder.go\<close>): tags are a sorted list,
    fields a list without duplicates; each method is a function on the record \<open>metric\<close>.
    \<open>MetricAlias\<close>: the same operations over a heap of tags, for what \<open>Copy\<close> shares.
  \<^item> \<open>RingBuffer\<close> (\<open>internal/buffer\<close>): the circular array with its two indices and its counters;
    interface \<open>bounded_queue\<close>.
  \<^item> \<open>NameFilter\<close> (\<open>filter\<close>, \<open>internal/models/filter.go\<close>): pattern lists and the pass and drop
    rules of a plugin.
  \<^item> \<open>MakeMetric\<close> (\<open>internal/models/makemetric.go\<close>, \<open>running_input.go\<close>, \<open>agent/accumulator.go\<close>),
    interface \<open>metric_maker\<close>.
  \<^item> \<open>RunningOutput\<close>, \<open>RunningAggregator\<close> (\<open>internal/models\<close>): an output's buffers and retries; an
    aggregator's loop as a step relation over events.
  \<^item> \<open>Agent\<close> (\<open>agent/agent.go\<close>, \<open>running_processor.go\<close>): the three loops of the flusher as a step
    relation on the channels between them.
  \<^item> \<open>Aggregators\<close>, \<open>HistogramAggregator\<close> (\<open>plugins/aggregators\<close>): interfaces
    \<open>series_aggregator\<close> and \<open>field_aggregator\<close>.
  \<^item> \<open>Converter\<close>, \<open>Processors\<close> (\<open>plugins/processors\<close>: converter; enum, override, rename,
    strings): each is a function on metrics over a record of its configuration. \<open>TopK\<close>: the
    groups and aggregates of the top-k processor, on a model of \<open>sort.SliceStable\<close>.
  \<^item> \<open>RunningStats\<close>, \<open>Statsd\<close> (\<open>plugins/inputs/statsd\<close>): the running statistics of a timing;
    packets, lines, the aggregation of counters, gauges, sets and timings, the collection, and the
    admission of connections as a step relation; interface \<open>cell_aggregator\<close>.
  \<^item> \<open>InfluxSerializer\<close> (\<open>plugins/serializers/influx\<close>): escaping, the lines of a metric under a
    maximum length, batches and the reader.
  \<^item> \<open>InfluxParser\<close> (\<open>plugins/parsers/influx\<close>): unescaping, the handler and the parser over a
    scanner that is a parameter; the grammar \<open>machine.go.rl\<close> as an executable recogniser, and the round trip with
    the serializer for every scanner that follows it.
  \<^item> \<open>GraphiteSerializer\<close> (\<open>plugins/serializers/graphite\<close>): bucket names, sanitizing and batches, and the
    round trip with the parser.
  \<^item> \<open>Wavefront\<close> (\<open>plugins/parsers/wavefront\<close>): the scanner with its two unread tokens, the element
    parsers, and that their loops return on every input.
    \<open>WavefrontOutput\<close> (\<open>plugins/outputs/wavefront\<close>): names, sources and tags as lines, and the round trip with the parser.
  \<^item> \<open>CsvReader\<close>, \<open>CsvParser\<close> (\<open>plugins/parsers/csv\<close>): records as \<open>encoding/csv\<close> reads them, and documents with header
    rows as tables of metrics. \<open>ValueParsers\<close>, \<open>NagiosParser\<close>, \<open>Dropwizard\<close> (\<open>plugins/parsers\<close>: value and logfmt, nagios,
    dropwizard): types, thresholds, registries.
  \<^item> \<open>TextProcessors\<close> (\<open>plugins/processors\<close>: regex, parser, printer), \<open>SplunkSerializer\<close>
    (\<open>plugins/serializers/splunkmetric\<close>).
  \<^item> \<open>PrometheusClient\<close> (\<open>plugins/outputs/prometheus_client\<close>): families, samples and the label counts
    with their expiry, as a refinement of a map from sample identities to samples.
  \<^item> \<open>AzureMonitor\<close> (\<open>plugins/outputs/azure_monitor\<close>): an aggregating output; its cache as a refinement of a
    map from minutes and series to aggregates, and what a push becomes when it is written.
    \<open>CloudWatch\<close> (\<open>plugins/outputs/cloudwatch\<close>): datums, statistic sets, dimensions and calls.
  \<^item> \<open>Snmp\<close>, \<open>SnmpConvert\<close>, \<open>SnmpTables\<close> (\<open>plugins/inputs/snmp\<close>): the translation of identifiers with its
    caches, the conversions of values, connections, gathering, and tables as joins of their columns by index, over an agent that is a
    parameter. \<open>GoText\<close>: what they use of \<open>strings\<close>, \<open>fmt\<close>, \<open>net\<close> and \<open>bufio\<close>.
  \<^item> \<open>Json\<close>: the encoder and decoder of \<open>encoding/json\<close> that the code calls, with their round trip;
    \<open>JsonSerializer\<close> (\<open>plugins/serializers/json\<close>) and \<open>JsonParser\<close> (\<open>plugins/parsers/json\<close>): batches,
    the flattening of objects, and the round trip between the two.
  \<^item> \<open>Selfstat\<close> (\<open>selfstat\<close>), \<open>Templating\<close> (\<open>internal/templating\<close>), \<open>GraphiteParser\<close>
    (\<open>plugins/parsers/graphite\<close>).

  \<^bold>\<open>State.\<close> A struct is a record, a pointer that the code only reads through is its value, a map
  is an association list with distinct keys, a channel is the list of what it holds, an \<open>int64\<close> is a
  64-bit word, a time is the number of nanoseconds since 1970. Functions that may panic return a
  \<open>result\<close>; other fallible ones an option or a \<open>result\<close>. Mutexes make calls atomic and are left out,
  as is logging.

  \<^bold>\<open>What the lemmas show.\<close> For the metric: the sorted and duplicate-free lists are an invariant of
  every method, and the lookups obey the map laws. For the buffer: it is a bounded queue that keeps
  the newest elements, except that a batch that wraps around skips one. For the pipeline: which
  tags, fields and names a metric gets, where it is routed, that no output repeats or invents
  one, and which ones a shutdown or a retry loses. For the plugins: equivalence with reference
  definitions over the list of all samples. Loops are structural recursion or have a measure;
  the loop over the tags of a wavefront line has neither in the code, so it is a \<open>partial_function\<close>, with the theorem that it
  always returns; there is fuel in two places: the digit search of the float printer, which is bounded by the 17 digits
  and the exponent range that doubles need, and the JSON decoder, whose fuel is twice the length of its input
  and two, which \<open>json_fuel\<close> shows to be as good as any larger one.

  \<^bold>\<open>Parameters.\<close> The glob compiler, the plugins behind their interfaces, clocks, and the results of
  implementation-defined float conversions, which runes beyond ASCII are letters, regular expressions from the configuration, the path queries of
  \<open>gjson\<close>, the parsing of times by layout, and what a transport or a client library does with what it is given are arguments of the definitions that use them.

  \<^bold>\<open>Not modelled.\<close> Most input plugins and most outputs (network and system calls around a client
  library), the generated tables of the line-protocol
  scanner (its grammar is modelled instead, without the positions of errors), the TOML configuration loader, the command line,
  logging and TLS set-up, and the programs in other languages of the repository (the Java mapper
  and alerting components, the template editor).
\<close>

end
